(* ===== verification/Cerco_Prelude.thy ===== *)
theory Cerco_Prelude
  imports Main "HOL-Library.Word" "HOL-Library.Monad_Syntax" "HOL-Library.Sublist"
begin

text \<open>
  Shared vocabulary of the development: the machine types, C strings, substring
  search, the generic interface of a transition system, and the collections of
  rewrite rules the component theories add to.

  A C string is a \<^typ>\<open>string\<close> that holds the bytes before the terminating NUL. A
  buffer that comes with an explicit length is a \<^typ>\<open>string\<close> of that length and may
  contain NUL bytes; \<open>cstr\<close> is what the code sees when it reads such a buffer as a
  C string. Lengths and indices (\<open>size_t\<close>) are \<^typ>\<open>nat\<close>: they count bytes of objects
  that exist in memory, so they stay far below \<open>2 ^ 64\<close>. Integers whose wrap-around
  can be reached from an input are words or written with an explicit modulus.
\<close>

unbundle bit_operations_syntax

type_synonym byte = "8 word"
type_synonym u32 = "32 word"
type_synonym u64 = "64 word"

named_theorems sem_simps \<open>equations that evaluate the operations of a component\<close>
named_theorems inv_rules \<open>preservation lemmas, one per operation\<close>

subsection \<open>C strings\<close>

abbreviation NUL :: char where "NUL \<equiv> CHR 0x00"

definition cstr :: "string \<Rightarrow> string" where
  "cstr s = takeWhile (\<lambda>c. c \<noteq> NUL) s"

definition no_nul :: "string \<Rightarrow> bool" where
  "no_nul s = (NUL \<notin> set s)"

lemma cstr_id: "no_nul s \<Longrightarrow> cstr s = s"
  unfolding cstr_def no_nul_def by (rule takeWhile_eq_all_conv [THEN iffD2]) auto

lemma no_nul_cstr [simp]: "no_nul (cstr s)"
  unfolding cstr_def no_nul_def by (auto dest: set_takeWhileD)

lemma cstr_idem [simp]: "cstr (cstr s) = cstr s"
  by (rule cstr_id) simp

lemma no_nul_simps [simp]:
  "no_nul []" "no_nul (c # s) \<longleftrightarrow> c \<noteq> NUL \<and> no_nul s"
  "no_nul (s @ t) \<longleftrightarrow> no_nul s \<and> no_nul t"
  by (auto simp: no_nul_def)

lemma cstr_simps [simp]:
  "cstr [] = []" "cstr (c # s) = (if c = NUL then [] else c # cstr s)"
  by (auto simp: cstr_def)

lemma length_cstr: "length (cstr s) \<le> length s"
  unfolding cstr_def by (rule length_takeWhile_le)

text \<open>The byte value of a character: comparisons of the source are on it.\<close>

abbreviation ccode :: "char \<Rightarrow> nat" where "ccode c \<equiv> of_char c"

definition in_range :: "char \<Rightarrow> char \<Rightarrow> char \<Rightarrow> bool" where
  "in_range lo hi c = (ccode lo \<le> ccode c \<and> ccode c \<le> ccode hi)"

definition is_digit :: "char \<Rightarrow> bool" where
  "is_digit c = in_range CHR ''0'' CHR ''9'' c"

definition digit_val :: "char \<Rightarrow> nat" where
  "digit_val c = ccode c - 48"

definition digit_char :: "nat \<Rightarrow> char" where
  "digit_char d = char_of (48 + d)"

lemma is_digit_digit_char [simp]: "d < 10 \<Longrightarrow> is_digit (digit_char d)"
  by (simp add: is_digit_def in_range_def digit_char_def)

lemma digit_val_digit_char [simp]: "d < 10 \<Longrightarrow> digit_val (digit_char d) = d"
  by (simp add: digit_val_def digit_char_def)

text \<open>Evaluates a character computed from a number.\<close>

lemmas char_eval = char_of_def bit_0 bit_Suc

lemma digit_char_eval [simp]:
  "digit_char 0 = CHR ''0''" "digit_char 1 = CHR ''1''" "digit_char (Suc 0) = CHR ''1''"
  "digit_char 2 = CHR ''2''" "digit_char 3 = CHR ''3''" "digit_char 4 = CHR ''4''"
  "digit_char 5 = CHR ''5''" "digit_char 6 = CHR ''6''" "digit_char 7 = CHR ''7''"
  "digit_char 8 = CHR ''8''" "digit_char 9 = CHR ''9''"
  by code_simp+

lemma digit_val_bound: "is_digit c \<Longrightarrow> digit_val c < 10"
  unfolding is_digit_def in_range_def digit_val_def by simp linarith

lemma digit_char_digit_val: "is_digit c \<Longrightarrow> digit_char (digit_val c) = c"
  by (simp add: is_digit_def in_range_def digit_val_def digit_char_def)

text \<open>Reading one character of a C string: index \<open>length s\<close> is the terminator.\<close>

definition char_at :: "string \<Rightarrow> nat \<Rightarrow> char" where
  "char_at s i = (if i < length s then s ! i else NUL)"

subsection \<open>Searching\<close>

text \<open>\<open>find_sub n h\<close> is the offset of the first occurrence of \<open>n\<close> in \<open>h\<close> (\<open>strstr\<close>).\<close>

fun find_sub :: "'a list \<Rightarrow> 'a list \<Rightarrow> nat option" where
  "find_sub n [] = (if n = [] then Some 0 else None)"
| "find_sub n (x # xs) =
     (if take (length n) (x # xs) = n then Some 0 else map_option Suc (find_sub n xs))"

lemma find_sub_Some:
  "find_sub n h = Some i \<Longrightarrow> i + length n \<le> length h \<and> take (length n) (drop i h) = n"
proof (induction n h arbitrary: i rule: find_sub.induct)
  case (1 n)
  then show ?case by (auto split: if_splits)
next
  case (2 n x xs)
  show ?case
  proof (cases "take (length n) (x # xs) = n")
    case True
    with 2 have "i = 0" by simp
    moreover from True have "length n \<le> length (x # xs)"
      by (metis length_take min.absorb_iff2 min.commute)
    ultimately show ?thesis using True by simp
  next
    case False
    with 2 obtain j where j: "find_sub n xs = Some j" "i = Suc j" by auto
    with 2 False have "j + length n \<le> length xs \<and> take (length n) (drop j xs) = n" by simp
    with j show ?thesis by simp
  qed
qed

lemma find_sub_split:
  assumes "find_sub n h = Some i"
  shows "h = take i h @ n @ drop (i + length n) h"
proof -
  from find_sub_Some [OF assms] have "take (length n) (drop i h) = n" by simp
  then have "drop i h = n @ drop (length n) (drop i h)" by (metis append_take_drop_id)
  then show ?thesis by (metis append_take_drop_id drop_drop add.commute)
qed

lemma find_sub_least:
  "find_sub n h = Some i \<Longrightarrow> j < i \<Longrightarrow> take (length n) (drop j h) \<noteq> n"
proof (induction n h arbitrary: i j rule: find_sub.induct)
  case (1 n)
  then show ?case by (auto split: if_splits)
next
  case (2 n x xs)
  show ?case
  proof (cases "take (length n) (x # xs) = n")
    case True
    with 2 show ?thesis by simp
  next
    case False
    with 2 obtain k where k: "find_sub n xs = Some k" "i = Suc k" by auto
    show ?thesis
    proof (cases j)
      case 0
      with False show ?thesis by simp
    next
      case (Suc j')
      with k 2 False show ?thesis by simp
    qed
  qed
qed

lemma find_sub_None: "find_sub n h = None \<Longrightarrow> take (length n) (drop j h) = n \<Longrightarrow> False"
proof (induction n h arbitrary: j rule: find_sub.induct)
  case (1 n)
  then show ?case by (auto split: if_splits)
next
  case (2 n x xs)
  then have "take (length n) (x # xs) \<noteq> n" and "find_sub n xs = None" by (auto split: if_splits)
  with 2 show ?case by (cases j) auto
qed

text \<open>First and last position of a character (\<open>strchr\<close>, \<open>strrchr\<close>).\<close>

fun index_of :: "'a \<Rightarrow> 'a list \<Rightarrow> nat option" where
  "index_of c [] = None"
| "index_of c (x # xs) = (if x = c then Some 0 else map_option Suc (index_of c xs))"

fun last_index_of :: "'a \<Rightarrow> 'a list \<Rightarrow> nat option" where
  "last_index_of c [] = None"
| "last_index_of c (x # xs) =
     (case last_index_of c xs of Some i \<Rightarrow> Some (Suc i) | None \<Rightarrow> if x = c then Some 0 else None)"

lemma index_of_None: "index_of c xs = None \<longleftrightarrow> c \<notin> set xs"
  by (induction xs) auto

lemma index_of_Some:
  "index_of c xs = Some i \<Longrightarrow> i < length xs \<and> xs ! i = c \<and> c \<notin> set (take i xs)"
  by (induction xs arbitrary: i) (auto split: if_splits)

lemma last_index_of_None: "last_index_of c xs = None \<longleftrightarrow> c \<notin> set xs"
  by (induction xs) (auto split: option.splits)

lemma last_index_of_Some:
  "last_index_of c xs = Some i \<Longrightarrow> i < length xs \<and> xs ! i = c \<and> c \<notin> set (drop (Suc i) xs)"
proof (induction xs arbitrary: i)
  case Nil
  then show ?case by simp
next
  case (Cons x xs)
  then show ?case
    by (auto split: option.splits if_splits simp: last_index_of_None)
qed

subsection \<open>Decimal numbers\<close>

text \<open>The decimal text of a number, as \<open>printf\<close> writes it for an unsigned argument.\<close>

fun dec :: "nat \<Rightarrow> string" where
  "dec n = (if n < 10 then [digit_char n] else dec (n div 10) @ [digit_char (n mod 10)])"

declare dec.simps [simp del]

definition dec_int :: "int \<Rightarrow> string" where
  "dec_int i = (if i < 0 then CHR ''-'' # dec (nat (- i)) else dec (nat i))"

fun dec_value :: "nat \<Rightarrow> string \<Rightarrow> nat" where
  "dec_value acc [] = acc"
| "dec_value acc (c # cs) = dec_value (acc * 10 + digit_val c) cs"

lemma dec_value_append: "dec_value a (s @ t) = dec_value (dec_value a s) t"
  by (induction s arbitrary: a) auto

lemma dec_value_dec: "dec_value 0 (dec n) = n"
proof (induction n rule: dec.induct)
  case (1 n)
  show ?case
  proof (cases "n < 10")
    case True
    then show ?thesis by (simp add: dec.simps [of n])
  next
    case False
    with 1 have "dec_value 0 (dec (n div 10)) = n div 10" by simp
    with False show ?thesis by (simp add: dec.simps [of n] dec_value_append)
  qed
qed

lemma dec_digits: "list_all is_digit (dec n)"
proof (induction n rule: dec.induct)
  case (1 n)
  show ?case
  proof (cases "n < 10")
    case True
    then show ?thesis by (simp add: dec.simps [of n])
  next
    case False
    with 1 have "list_all is_digit (dec (n div 10))" by simp
    with False show ?thesis by (simp add: dec.simps [of n])
  qed
qed

lemma dec_not_Nil [simp]: "dec n \<noteq> []"
  by (subst dec.simps) simp

lemma dec_inj: "dec m = dec n \<Longrightarrow> m = n"
  by (metis dec_value_dec)

lemma unat_of_nat64: "n < 2 ^ 64 \<Longrightarrow> unat (of_nat n :: u64) = n"
  by (simp add: unat_of_nat)

text \<open>Reading back a concrete 64-bit signed value.\<close>

lemma sint64_word_of_int:
  "- (2 ^ 63) \<le> k \<Longrightarrow> k < 2 ^ 63 \<Longrightarrow> sint (word_of_int k :: 64 word) = k"
  using signed_take_bit_int_eq_self [of 63 k] by (simp add: signed_of_int)

subsection \<open>Doubling a capacity\<close>

text \<open>\<open>while (cap < target) cap *= 2\<close>, the growth loop of every buffer; \<open>cap\<close> is never 0 there.\<close>

function double_until :: "nat \<Rightarrow> nat \<Rightarrow> nat" where
  "double_until cap target = (if 0 < cap \<and> cap < target then double_until (cap * 2) target else cap)"
  by pat_completeness auto
termination
  by (relation "measure (\<lambda>(cap, target). target - cap)") auto

declare double_until.simps [simp del]

lemma double_until_ge: "0 < cap \<Longrightarrow> target \<le> double_until cap target"
proof (induction cap target rule: double_until.induct)
  case (1 cap target)
  then show ?case by (subst double_until.simps) auto
qed

lemma double_until_mono: "cap \<le> double_until cap target"
proof (induction cap target rule: double_until.induct)
  case (1 cap target)
  show ?case
  proof (cases "0 < cap \<and> cap < target")
    case True
    with 1 have "cap * 2 \<le> double_until (cap * 2) target" by simp
    with True show ?thesis by (subst double_until.simps) simp
  next
    case False
    then show ?thesis by (subst double_until.simps) auto
  qed
qed

lemma double_until_less: "cap < target \<Longrightarrow> double_until cap target < 2 * target"
proof (induction cap target rule: double_until.induct)
  case (1 cap target)
  show ?case
  proof (cases "0 < cap \<and> cap * 2 < target")
    case True
    with 1 show ?thesis by (subst double_until.simps) simp
  next
    case False
    with 1 show ?thesis by (subst double_until.simps) (auto simp: double_until.simps [of "cap * 2" target])
  qed
qed

subsection \<open>Transition systems\<close>

text \<open>
  The interface every state machine of the development is used through: an initial
  predicate, a step relation, and an invariant that both establish. Its one consequence
  is that the invariant holds in every state a run can reach.
\<close>

locale transition_system =
  fixes start :: "'s \<Rightarrow> bool"
    and next_state :: "'s \<Rightarrow> 's \<Rightarrow> bool"
    and invariant :: "'s \<Rightarrow> bool"
  assumes start_inv: "start s \<Longrightarrow> invariant s"
    and next_inv: "next_state s t \<Longrightarrow> invariant s \<Longrightarrow> invariant t"
begin

lemma reachable_inv: "next_state\<^sup>*\<^sup>* s t \<Longrightarrow> start s \<Longrightarrow> invariant t"
  by (induction rule: rtranclp_induct) (auto intro: start_inv next_inv)

lemma path_inv: "next_state\<^sup>*\<^sup>* s t \<Longrightarrow> invariant s \<Longrightarrow> invariant t"
  by (induction rule: rtranclp_induct) (auto intro: next_inv)

end

end
