(* ===== verification/Cstring.thy ===== *)
theory Cstring
  imports Cerco_Prelude
begin

text \<open>
  \<open>runtime/shared/str.c\<close>: HTML escaping, percent-decoding, the query-string walker, the
  MIME table, hex, and the locale-independent case-insensitive comparison.

  A function that writes into a caller's buffer returns the text it leaves there; the
  code's \<open>(size_t)-1\<close> is a constructor of its own (or \<open>None\<close>). \<open>esc\<close>, \<open>unescape\<close> and
  \<open>url_encode\<close> are the specifications the lemmas compare the code with.
\<close>

subsection \<open>Case-insensitive comparison\<close>

definition lower :: "char \<Rightarrow> char" where
  "lower c = (if in_range CHR ''A'' CHR ''Z'' c then char_of (ccode c + 32) else c)"

fun cerco_strcaseeq :: "string \<Rightarrow> string \<Rightarrow> bool" where
  "cerco_strcaseeq (a # as) (b # bs) = (if lower a \<noteq> lower b then False else cerco_strcaseeq as bs)"
| "cerco_strcaseeq as bs = (as = [] \<and> bs = [])"

text \<open>
  The bounded comparison reads \<open>n\<close> bytes of both strings whatever their lengths. A byte at
  or past the terminator is read as NUL: no caller compares past the end of both (the
  literal it compares with has \<open>n\<close> bytes).
\<close>

fun cerco_strncaseeq :: "string \<Rightarrow> string \<Rightarrow> nat \<Rightarrow> bool" where
  "cerco_strncaseeq a b 0 = True"
| "cerco_strncaseeq a b (Suc n) =
     (if lower (char_at a 0) \<noteq> lower (char_at b 0) then False
      else cerco_strncaseeq (tl a) (tl b) n)"

lemma lower_inv: "ccode c < 128 \<Longrightarrow> lower (lower c) = lower c"
  by (auto simp: lower_def in_range_def)

lemma lower_NUL [simp]: "lower NUL = NUL"
  by (simp add: lower_def in_range_def)

lemma lower_eq_NUL: "lower c = NUL \<longleftrightarrow> c = NUL"
proof
  assume *: "lower c = NUL"
  show "c = NUL"
  proof (cases "in_range CHR ''A'' CHR ''Z'' c")
    case True
    then have "ccode (lower c) = ccode c + 32"
      by (auto simp: lower_def in_range_def)
    with * show ?thesis by simp
  next
    case False
    with * show ?thesis by (simp add: lower_def)
  qed
qed simp

lemma strcaseeq_iff: "cerco_strcaseeq a b \<longleftrightarrow> map lower a = map lower b"
  by (induction a b rule: cerco_strcaseeq.induct) auto

lemma strcaseeq_refl [simp]: "cerco_strcaseeq a a"
  by (simp add: strcaseeq_iff)

lemma strcaseeq_sym: "cerco_strcaseeq a b \<Longrightarrow> cerco_strcaseeq b a"
  by (simp add: strcaseeq_iff)

lemma strcaseeq_trans: "cerco_strcaseeq a b \<Longrightarrow> cerco_strcaseeq b c \<Longrightarrow> cerco_strcaseeq a c"
  by (simp add: strcaseeq_iff)

lemma strcaseeq_length: "cerco_strcaseeq a b \<Longrightarrow> length a = length b"
  unfolding strcaseeq_iff by (rule map_eq_imp_length_eq)

lemma strncaseeq_literal:
  "length b = n \<Longrightarrow> no_nul b \<Longrightarrow>
     cerco_strncaseeq a b n \<longleftrightarrow> n \<le> length a \<and> map lower (take n a) = map lower b"
proof (induction n arbitrary: a b)
  case 0
  then show ?case by simp
next
  case (Suc n)
  then obtain y ys where b: "b = y # ys" "length ys = n" "y \<noteq> NUL" "no_nul ys"
    by (cases b) auto
  show ?case
  proof (cases a)
    case Nil
    with b show ?thesis by (auto simp: char_at_def lower_eq_NUL dest: sym)
  next
    case (Cons x xs)
    with b Suc.IH [of ys xs] show ?thesis by (simp add: char_at_def)
  qed
qed

subsection \<open>HTML escaping\<close>

text \<open>The \<open>switch\<close> of the source: the replacement of a character that has one.\<close>

definition esc_rep :: "char \<Rightarrow> string option" where
  "esc_rep c =
     (if c = CHR ''&'' then Some ''&amp;''
      else if c = CHR ''<'' then Some ''&lt;''
      else if c = CHR ''>'' then Some ''&gt;''
      else if c = CHR 0x22 then Some ''&quot;''
      else if c = CHR 0x27 then Some ''&#39;''
      else None)"

datatype escape_result =
  Needed nat          \<comment> \<open>\<open>buf == NULL\<close>: the length the text would take\<close>
| Zero_cap            \<comment> \<open>\<open>cap == 0\<close>: returns 0, nothing written\<close>
| No_fit              \<comment> \<open>\<open>(size_t)-1\<close>\<close>
| Escaped string      \<comment> \<open>the text in the buffer; its length is returned\<close>

fun escape_need :: "string \<Rightarrow> nat" where
  "escape_need [] = 0"
| "escape_need (c # cs) =
     (if c = CHR ''&'' then 5
      else if c = CHR ''<'' \<or> c = CHR ''>'' then 4
      else if c = CHR 0x22 then 6
      else if c = CHR 0x27 then 5
      else 1) + escape_need cs"

fun escape_into :: "nat \<Rightarrow> string \<Rightarrow> string \<Rightarrow> escape_result" where
  "escape_into cap out [] = Escaped out"
| "escape_into cap out (c # cs) =
     (case esc_rep c of
        Some rep \<Rightarrow> if length out + length rep > cap - 1 then No_fit
                    else escape_into cap (out @ rep) cs
      | None \<Rightarrow> if length out + 1 > cap - 1 then No_fit
                else escape_into cap (out @ [c]) cs)"

definition cerco_html_escape :: "string \<Rightarrow> nat option \<Rightarrow> escape_result" where
  "cerco_html_escape src buf =
     (case buf of
        None \<Rightarrow> Needed (escape_need src)
      | Some cap \<Rightarrow> if cap = 0 then Zero_cap else escape_into cap [] src)"

text \<open>Specification: one character at a time, and the reader's inverse.\<close>

definition esc_char :: "char \<Rightarrow> string" where
  "esc_char c = (case esc_rep c of Some r \<Rightarrow> r | None \<Rightarrow> [c])"

definition esc :: "string \<Rightarrow> string" where
  "esc s = concat (map esc_char s)"

lemma esc_simps [simp]: "esc [] = []" "esc (c # s) = esc_char c @ esc s" "esc (s @ t) = esc s @ esc t"
  by (simp_all add: esc_def)

lemma length_esc: "length (esc s) = escape_need s"
  by (induction s) (auto simp: esc_char_def esc_rep_def)

lemma escape_into_eq:
  "length out \<le> cap - 1 \<Longrightarrow>
     escape_into cap out s =
       (if length out + length (esc s) \<le> cap - 1 then Escaped (out @ esc s) else No_fit)"
proof (induction s arbitrary: out)
  case Nil
  then show ?case by simp
next
  case (Cons c s)
  then show ?case by (cases "esc_rep c") (auto simp: esc_char_def)
qed

lemma html_escape_exact:
  "cerco_html_escape s None = Needed (length (esc s))"
  "cap > 0 \<Longrightarrow> cerco_html_escape s (Some cap) = (if length (esc s) < cap then Escaped (esc s) else No_fit)"
  by (auto simp: cerco_html_escape_def length_esc escape_into_eq)

definition markup_char :: "char \<Rightarrow> bool" where
  "markup_char c = (c \<in> {CHR ''<'', CHR ''>'', CHR 0x22, CHR 0x27})"

lemma esc_char_no_markup: "c \<in> set (esc_char d) \<Longrightarrow> \<not> markup_char c"
  by (auto simp: esc_char_def esc_rep_def markup_char_def split: if_splits)

lemma esc_no_markup: "c \<in> set (esc s) \<Longrightarrow> \<not> markup_char c"
  by (induction s) (auto dest: esc_char_no_markup)

text \<open>The entities a browser reads back; any other ampersand stands for itself.\<close>

definition entities :: "(string \<times> char) list" where
  "entities = [(''&amp;'', CHR ''&''), (''&lt;'', CHR ''<''), (''&gt;'', CHR ''>''),
               (''&quot;'', CHR 0x22), (''&#39;'', CHR 0x27)]"

definition entity_at :: "string \<Rightarrow> (string \<times> char) option" where
  "entity_at s = find (\<lambda>(rep, c). take (length rep) s = rep) entities"

fun unescape :: "string \<Rightarrow> string" where
  "unescape [] = []"
| "unescape (c # cs) =
     (case entity_at (c # cs) of
        Some (rep, ch) \<Rightarrow> ch # unescape (drop (length rep - 1) cs)
      | None \<Rightarrow> c # unescape cs)"

lemma entity_at_esc: "esc_rep c = Some r \<Longrightarrow> entity_at (r @ s) = Some (r, c)"
  by (auto simp: esc_rep_def entity_at_def entities_def split: if_splits)

lemma entity_at_plain: "c \<noteq> CHR ''&'' \<Longrightarrow> entity_at (c # s) = None"
  by (simp add: entity_at_def entities_def)

lemma unescape_esc: "unescape (esc s) = s"
proof (induction s)
  case Nil
  then show ?case by simp
next
  case (Cons c s)
  show ?case
  proof (cases "esc_rep c")
    case None
    then have "c \<noteq> CHR ''&''" by (auto simp: esc_rep_def)
    with None Cons show ?thesis by (simp add: esc_char_def entity_at_plain)
  next
    case (Some r)
    then obtain d ds where r: "r = d # ds" by (auto simp: esc_rep_def split: if_splits)
    from Some r have "entity_at (d # ds @ esc s) = Some (r, c)"
      using entity_at_esc [of c r "esc s"] by simp
    with Some r Cons show ?thesis by (simp add: esc_char_def)
  qed
qed

lemma esc_inj: "esc s = esc t \<Longrightarrow> s = t"
  by (metis unescape_esc)

subsection \<open>Percent-decoding\<close>

definition hexval :: "char \<Rightarrow> int" where
  "hexval c =
     (if in_range CHR ''0'' CHR ''9'' c then int (ccode c) - 48
      else if in_range CHR ''a'' CHR ''f'' c then int (ccode c) - 97 + 10
      else if in_range CHR ''A'' CHR ''F'' c then int (ccode c) - 65 + 10
      else -1)"

fun url_decode_loop :: "bool \<Rightarrow> nat \<Rightarrow> string \<Rightarrow> string \<Rightarrow> string option" where
  "url_decode_loop sp cap out [] = Some out"
| "url_decode_loop sp cap out (c # cs) =
     (if c = CHR ''%'' then
        (case cs of
           h # l # rest \<Rightarrow>
             (if hexval h < 0 \<or> hexval l < 0 then None
              else if length out + 1 \<ge> cap then None
              else url_decode_loop sp cap (out @ [char_of (nat (hexval h * 16 + hexval l))]) rest)
         | _ \<Rightarrow> None)
      else if length out + 1 \<ge> cap then None
      else url_decode_loop sp cap
             (out @ [if c = CHR ''+'' \<and> sp then CHR '' '' else c]) cs)"

text \<open>\<open>cerco_url_decode(src, len, dst, dstcap, plus_is_space)\<close> with a destination.\<close>

definition cerco_url_decode :: "string \<Rightarrow> nat \<Rightarrow> bool \<Rightarrow> string option" where
  "cerco_url_decode src dstcap sp =
     (if dstcap = 0 then None else url_decode_loop sp dstcap [] src)"

definition hex_digit :: "nat \<Rightarrow> char" where
  "hex_digit d = (if d < 10 then char_of (48 + d) else char_of (87 + d))"

lemma hexval_hex_digit: "d < 16 \<Longrightarrow> hexval (hex_digit d) = int d"
  by (auto simp: hexval_def hex_digit_def in_range_def)

lemma hexval_bounds: "-1 \<le> hexval c \<and> hexval c < 16"
  unfolding hexval_def in_range_def by auto

text \<open>Specification: a strict decoder without a buffer, and the encoder a browser uses.\<close>

fun pct_decode :: "bool \<Rightarrow> string \<Rightarrow> string option" where
  "pct_decode sp [] = Some []"
| "pct_decode sp (c # cs) =
     (if c = CHR ''%'' then
        (case cs of
           h # l # rest \<Rightarrow>
             (if hexval h < 0 \<or> hexval l < 0 then None
              else map_option (Cons (char_of (nat (hexval h * 16 + hexval l)))) (pct_decode sp rest))
         | _ \<Rightarrow> None)
      else map_option (Cons (if c = CHR ''+'' \<and> sp then CHR '' '' else c)) (pct_decode sp cs))"

lemma url_decode_loop_eq:
  "length out < cap \<Longrightarrow>
     url_decode_loop sp cap out s =
       (case pct_decode sp s of
          None \<Rightarrow> None
        | Some t \<Rightarrow> if length out + length t < cap then Some (out @ t) else None)"
proof (induction sp cap out s rule: url_decode_loop.induct)
  case (1 sp cap out)
  then show ?case by simp
next
  case (2 sp cap out c cs)
  show ?case
  proof (cases "c = CHR ''%''")
    case True
    show ?thesis
    proof (cases "\<exists>h l rest. cs = h # l # rest")
      case False
      with True show ?thesis by (auto split: list.splits)
    next
      case hl: True
      then obtain h l rest where cs: "cs = h # l # rest" by blast
      have IH: "\<not> (hexval h < 0 \<or> hexval l < 0) \<Longrightarrow> \<not> cap \<le> length out + 1 \<Longrightarrow>
          url_decode_loop sp cap (out @ [char_of (nat (hexval h * 16 + hexval l))]) rest =
            (case pct_decode sp rest of None \<Rightarrow> None
             | Some t \<Rightarrow> if length (out @ [char_of (nat (hexval h * 16 + hexval l))]) + length t < cap
                 then Some ((out @ [char_of (nat (hexval h * 16 + hexval l))]) @ t) else None)"
        using "2.IH"(1) [OF True, of h "l # rest" l rest] cs by simp
      show ?thesis
        using True cs IH "2.prems" by (auto split: option.splits)
    qed
  next
    case False
    with 2 show ?thesis by (auto split: option.splits)
  qed
qed

lemma url_decode_eq:
  "cerco_url_decode s cap sp =
     (if cap = 0 then None
      else case pct_decode sp s of
             None \<Rightarrow> None | Some t \<Rightarrow> if length t < cap then Some t else None)"
  by (cases "pct_decode sp s") (simp_all add: cerco_url_decode_def url_decode_loop_eq)

lemma pct_decode_length: "pct_decode sp s = Some t \<Longrightarrow> length t \<le> length s"
proof (induction sp s arbitrary: t rule: pct_decode.induct)
  case (1 sp)
  then show ?case by simp
next
  case (2 sp c cs)
  show ?case
  proof (cases "c = CHR ''%''")
    case True
    with "2.prems" obtain h l rest u where
      cs: "cs = h # l # rest" and ok: "\<not> (hexval h < 0 \<or> hexval l < 0)"
      and u: "pct_decode sp rest = Some u" and t: "length t = Suc (length u)"
      by (auto split: list.splits if_splits)
    from "2.IH"(1) [OF True, of h "l # rest" l rest u] cs ok u have "length u \<le> length rest" by simp
    with cs t show ?thesis by simp
  next
    case False
    with 2 show ?thesis by (auto simp: Suc_le_eq)
  qed
qed

text \<open>A buffer one byte longer than the source is always large enough.\<close>

lemma url_decode_fits: "cerco_url_decode s (Suc (length s)) sp = pct_decode sp s"
  by (auto simp: url_decode_eq split: option.splits dest: pct_decode_length)

definition url_safe :: "char \<Rightarrow> bool" where
  "url_safe c = (in_range CHR ''0'' CHR ''9'' c \<or> in_range CHR ''A'' CHR ''Z'' c \<or>
                 in_range CHR ''a'' CHR ''z'' c \<or> c \<in> {CHR ''-'', CHR ''_'', CHR ''.'', CHR ''~''})"

definition url_encode_char :: "char \<Rightarrow> string" where
  "url_encode_char c =
     (if url_safe c then [c]
      else [CHR ''%'', hex_digit (ccode c div 16), hex_digit (ccode c mod 16)])"

definition url_encode :: "string \<Rightarrow> string" where
  "url_encode s = concat (map url_encode_char s)"

lemma url_encode_simps [simp]:
  "url_encode [] = []" "url_encode (c # s) = url_encode_char c @ url_encode s"
  by (simp_all add: url_encode_def)

lemma hex_pair: "char_of (nat (int (ccode c div 16) * 16 + int (ccode c mod 16))) = c"
proof -
  have "int (ccode c div 16) * 16 + int (ccode c mod 16) = int (ccode c)"
    by (metis div_mult_mod_eq of_nat_add of_nat_mult of_nat_numeral)
  then show ?thesis by simp
qed

lemma pct_decode_encode_char: "pct_decode sp (url_encode_char c @ s) = map_option (Cons c) (pct_decode sp s)"
proof (cases "url_safe c")
  case True
  then have "c \<noteq> CHR ''%''" "c \<noteq> CHR ''+''" by (auto simp: url_safe_def in_range_def)
  with True show ?thesis by (simp add: url_encode_char_def)
next
  case False
  have "ccode c div 16 < 16" by (rule less_mult_imp_div_less) simp
  then have "hexval (hex_digit (ccode c div 16)) = int (ccode c div 16)"
    and "hexval (hex_digit (ccode c mod 16)) = int (ccode c mod 16)"
    by (simp_all add: hexval_hex_digit)
  with False show ?thesis
    by (simp add: url_encode_char_def hex_pair del: of_nat_div of_nat_mod)
qed

lemma pct_decode_encode: "pct_decode sp (url_encode s) = Some s"
  by (induction s) (simp_all add: pct_decode_encode_char)

lemma hex_digit_plain: "d < 16 \<Longrightarrow> hex_digit d \<notin> {CHR ''='', CHR ''&'', NUL, CHR ''?'', CHR ''/''}"
proof -
  assume "d < 16"
  then have "hexval (hex_digit d) \<ge> 0" by (simp add: hexval_hex_digit)
  then show ?thesis by (auto simp: hexval_def in_range_def)
qed

lemma url_encode_char_plain:
  "x \<in> set (url_encode_char c) \<Longrightarrow> x \<notin> {CHR ''='', CHR ''&'', NUL, CHR ''?'', CHR ''/''}"
proof -
  assume x: "x \<in> set (url_encode_char c)"
  have "ccode c div 16 < 16" by (rule less_mult_imp_div_less) simp
  with x hex_digit_plain [of "ccode c div 16"] hex_digit_plain [of "ccode c mod 16"] show ?thesis
    by (auto simp: url_encode_char_def url_safe_def in_range_def split: if_splits)
qed

lemma url_encode_plain: "x \<in> set (url_encode s) \<Longrightarrow> x \<notin> {CHR ''='', CHR ''&'', NUL, CHR ''?'', CHR ''/''}"
  unfolding url_encode_def using url_encode_char_plain by fastforce

subsection \<open>The query-string walker\<close>

datatype query_step =
  Query_done                       \<comment> \<open>0\<close>
| Query_bad nat                    \<comment> \<open>-1; the position left in \<open>*pos\<close>\<close>
| Query_pair string string nat     \<comment> \<open>1: key, value, new position\<close>

definition key_end :: "char \<Rightarrow> bool" where
  "key_end c = (c = CHR ''='' \<or> c = CHR ''&'')"

definition cerco_query_next :: "string \<Rightarrow> nat \<Rightarrow> nat \<Rightarrow> nat \<Rightarrow> query_step" where
  "cerco_query_next q pos kcap vcap =
     (let rest = drop pos q in
      if rest = [] then Query_done
      else
        let key = takeWhile (\<lambda>c. \<not> key_end c) rest;
            p = pos + length key
        in case cerco_url_decode key kcap True of
             None \<Rightarrow> Query_bad pos
           | Some k \<Rightarrow>
               if char_at q p = CHR ''='' then
                 let val = takeWhile (\<lambda>c. c \<noteq> CHR ''&'') (drop (Suc p) q);
                     p1 = Suc p + length val;
                     p2 = (if char_at q p1 = CHR ''&'' then Suc p1 else p1)
                 in case cerco_url_decode val vcap True of
                      None \<Rightarrow> Query_bad p2
                    | Some v \<Rightarrow> Query_pair k v p2
               else
                 Query_pair k [] (if char_at q p = CHR ''&'' then Suc p else p))"

text \<open>The loop every caller writes around it, until it returns something other than 1.\<close>

lemma query_next_progress:
  "cerco_query_next q pos kcap vcap = Query_pair k v p \<Longrightarrow> pos < p \<and> p \<le> length q"
proof -
  assume a: "cerco_query_next q pos kcap vcap = Query_pair k v p"
  define rest where "rest = drop pos q"
  define key where "key = takeWhile (\<lambda>c. \<not> key_end c) rest"
  define val where "val = takeWhile (\<lambda>c. c \<noteq> CHR ''&'') (drop (Suc (pos + length key)) q)"
  from a have ne: "rest \<noteq> []" by (auto simp: cerco_query_next_def rest_def Let_def split: if_splits)
  then have pl: "pos < length q" by (simp add: rest_def)
  have kl: "pos + length key \<le> length q"
    using length_takeWhile_le [of "\<lambda>c. \<not> key_end c" rest] pl
    unfolding key_def rest_def by simp
  have vl: "Suc (pos + length key) \<le> length q \<Longrightarrow> Suc (pos + length key) + length val \<le> length q"
    using length_takeWhile_le [of "\<lambda>c. c \<noteq> CHR ''&''" "drop (Suc (pos + length key)) q"]
    unfolding val_def by simp
  have stop: "key = [] \<Longrightarrow> key_end (char_at q pos)"
    using ne pl unfolding key_def rest_def
    by (cases "drop pos q") (auto simp: char_at_def nth_via_drop split: if_splits)
  have at: "char_at q i \<noteq> NUL \<Longrightarrow> i < length q" for i by (auto simp: char_at_def split: if_splits)
  from a ne show ?thesis
    unfolding cerco_query_next_def Let_def rest_def [symmetric] key_def [symmetric] val_def [symmetric]
    using kl vl stop at [of "pos + length key"] at [of "Suc (pos + length key) + length val"] pl
    by (cases key) (auto split: option.splits if_splits simp: key_end_def)
qed

function query_walk :: "string \<Rightarrow> nat \<Rightarrow> nat \<Rightarrow> nat \<Rightarrow> (string \<times> string) list" where
  "query_walk q pos kcap vcap =
     (case cerco_query_next q pos kcap vcap of
        Query_pair k v p \<Rightarrow> (k, v) # query_walk q p kcap vcap
      | _ \<Rightarrow> [])"
  by pat_completeness auto
termination
  by (relation "measure (\<lambda>(q, pos, kcap, vcap). length q - pos)")
     (auto dest!: query_next_progress)

declare query_walk.simps [simp del]

text \<open>The query string a form submission produces.\<close>

fun query_string :: "(string \<times> string) list \<Rightarrow> string" where
  "query_string [] = []"
| "query_string [(k, v)] = url_encode k @ CHR ''='' # url_encode v"
| "query_string ((k, v) # kvs) = url_encode k @ CHR ''='' # url_encode v @ CHR ''&'' # query_string kvs"

lemma takeWhile_key: "takeWhile (\<lambda>c. \<not> key_end c) (url_encode k @ CHR ''='' # s) = url_encode k"
proof -
  have "\<not> key_end x" if "x \<in> set (url_encode k)" for x
    using url_encode_plain [OF that] by (auto simp: key_end_def)
  then show ?thesis by (subst takeWhile_append2) (auto simp: key_end_def)
qed

lemma takeWhile_value:
  "takeWhile (\<lambda>c. c \<noteq> CHR ''&'') (url_encode v @ CHR ''&'' # s) = url_encode v"
  "takeWhile (\<lambda>c. c \<noteq> CHR ''&'') (url_encode v) = url_encode v"
proof -
  have *: "x \<noteq> CHR ''&''" if "x \<in> set (url_encode v)" for x
    using url_encode_plain [OF that] by auto
  then show "takeWhile (\<lambda>c. c \<noteq> CHR ''&'') (url_encode v @ CHR ''&'' # s) = url_encode v"
    by (subst takeWhile_append2) auto
  from * show "takeWhile (\<lambda>c. c \<noteq> CHR ''&'') (url_encode v) = url_encode v"
    by (simp add: takeWhile_eq_all_conv)
qed

lemma decode_encoded: "length s < cap \<Longrightarrow> cerco_url_decode (url_encode s) cap sp = Some s"
  by (simp add: url_decode_eq pct_decode_encode)

lemma char_at_append: "char_at (xs @ ys) (length xs + i) = char_at ys i"
  by (simp add: char_at_def nth_append)

lemma query_next_last:
  assumes "length k < kcap" "length v < vcap"
  shows "cerco_query_next (pre @ url_encode k @ CHR ''='' # url_encode v) (length pre) kcap vcap
           = Query_pair k v (length pre + length (url_encode k) + 1 + length (url_encode v))"
  using assms
  by (simp add: cerco_query_next_def Let_def takeWhile_key takeWhile_value decode_encoded
        char_at_append char_at_def nth_append)

lemma query_next_more:
  assumes "length k < kcap" "length v < vcap"
  shows "cerco_query_next (pre @ url_encode k @ CHR ''='' # url_encode v @ CHR ''&'' # s) (length pre) kcap vcap
           = Query_pair k v (length pre + length (url_encode k) + 1 + length (url_encode v) + 1)"
  using assms
  by (simp add: cerco_query_next_def Let_def takeWhile_key takeWhile_value decode_encoded
        char_at_append char_at_def nth_append)

lemma query_walk_string:
  "(\<And>k v. (k, v) \<in> set kvs \<Longrightarrow> length k < kcap \<and> length v < vcap) \<Longrightarrow>
     query_walk (pre @ query_string kvs) (length pre) kcap vcap = kvs"
proof (induction kvs arbitrary: pre rule: query_string.induct)
  case 1
  then show ?case by (subst query_walk.simps) (simp add: cerco_query_next_def)
next
  case (2 k v)
  then have "length k < kcap" "length v < vcap" by auto
  note step = query_next_last [OF this, of pre]
  have "query_walk (pre @ query_string [(k, v)])
          (length pre + length (url_encode k) + 1 + length (url_encode v)) kcap vcap = []"
    by (subst query_walk.simps) (simp add: cerco_query_next_def)
  then show ?case using step by (subst query_walk.simps) simp
next
  case (3 k v kv kvs)
  from 3(2) have kv: "length k < kcap" "length v < vcap" by auto
  note step = query_next_more [OF kv, of pre "query_string (kv # kvs)"]
  let ?pre = "pre @ url_encode k @ CHR ''='' # url_encode v @ [CHR ''&'']"
  have "query_walk (?pre @ query_string (kv # kvs)) (length ?pre) kcap vcap = kv # kvs"
    by (rule "3.IH") (use 3(2) in auto)
  then show ?case using step by (subst query_walk.simps) (simp add: add.assoc)
qed

subsection \<open>MIME types\<close>

definition mime_table :: "(string \<times> string) list" where
  "mime_table =
     [(''html'', ''text/html; charset=utf-8''), (''htm'', ''text/html; charset=utf-8''),
      (''css'', ''text/css; charset=utf-8''), (''js'', ''text/javascript; charset=utf-8''),
      (''mjs'', ''text/javascript; charset=utf-8''),
      (''json'', ''application/json; charset=utf-8''), (''txt'', ''text/plain; charset=utf-8''),
      (''xml'', ''application/xml''), (''wasm'', ''application/wasm''), (''png'', ''image/png''),
      (''jpg'', ''image/jpeg''), (''jpeg'', ''image/jpeg''), (''gif'', ''image/gif''),
      (''svg'', ''image/svg+xml''), (''webp'', ''image/webp''), (''ico'', ''image/x-icon''),
      (''woff'', ''font/woff''), (''woff2'', ''font/woff2''), (''ttf'', ''font/ttf''),
      (''otf'', ''font/otf''), (''mp4'', ''video/mp4''), (''webm'', ''video/webm''),
      (''pdf'', ''application/pdf''), (''map'', ''application/json'')]"

definition cerco_mime_from_ext :: "string \<Rightarrow> string" where
  "cerco_mime_from_ext filename =
     (case last_index_of CHR ''.'' filename of
        None \<Rightarrow> ''application/octet-stream''
      | Some dot \<Rightarrow>
          (case find (\<lambda>(ext, mime). cerco_strcaseeq (drop (Suc dot) filename) ext) mime_table of
             Some (ext, mime) \<Rightarrow> mime
           | None \<Rightarrow> ''application/octet-stream''))"

subsection \<open>Hexadecimal\<close>

definition hexd :: string where "hexd = ''0123456789abcdef''"

fun cerco_hex_encode :: "byte list \<Rightarrow> string" where
  "cerco_hex_encode [] = []"
| "cerco_hex_encode (b # bs) =
     hexd ! unat (drop_bit 4 b) # hexd ! unat (b AND 0xf) # cerco_hex_encode bs"

fun hex_pairs :: "string \<Rightarrow> byte list option" where
  "hex_pairs (h # l # rest) =
     (if hexval h < 0 \<or> hexval l < 0 then None
      else map_option (Cons (word_of_int (hexval h * 16 + hexval l))) (hex_pairs rest))"
| "hex_pairs _ = Some []"

definition cerco_hex_decode :: "string \<Rightarrow> byte list option" where
  "cerco_hex_decode src = (if length src mod 2 \<noteq> 0 then None else hex_pairs src)"

lemma length_hex_encode [simp]: "length (cerco_hex_encode bs) = 2 * length bs"
  by (induction bs) auto

lemma hexd_nth: "d < 16 \<Longrightarrow> hexval (hexd ! d) = int d"
proof -
  have "\<forall>d \<in> set [0..<16]. hexval (hexd ! d) = int d"
    by (simp add: upt_rec hexd_def hexval_def in_range_def)
  then show "d < 16 \<Longrightarrow> hexval (hexd ! d) = int d" by auto
qed

lemma nibbles:
  fixes b :: byte
  shows "unat (drop_bit 4 b) < 16" "unat (b AND 0xf) < 16"
    "unat (drop_bit 4 b) * 16 + unat (b AND 0xf) = unat b"
proof -
  have lt: "unat b < 256" using unsigned_less [of b, where ?'a = nat] by simp
  then have *: "unat (drop_bit 4 b) = unat b div 16"
    by (simp only: unsigned_drop_bit_eq) (simp add: drop_bit_eq_div take_bit_eq_mod)
  have "b AND 0xf = take_bit 4 b" by (simp add: take_bit_eq_mask mask_eq_exp_minus_1)
  then have **: "unat (b AND 0xf) = unat b mod 16"
    by (simp add: take_bit_eq_mod unat_mod_distrib)
  from lt show "unat (drop_bit 4 b) < 16" by (simp add: * less_mult_imp_div_less)
  show "unat (b AND 0xf) < 16" by (simp add: **)
  show "unat (drop_bit 4 b) * 16 + unat (b AND 0xf) = unat b" by (simp add: * **)
qed

lemma hex_pairs_encode: "hex_pairs (cerco_hex_encode bs) = Some bs"
proof (induction bs)
  case Nil
  then show ?case by simp
next
  case (Cons b bs)
  have "word_of_int (int (unat (drop_bit 4 b)) * 16 + int (unat (b AND 0xf))) = b"
    using nibbles(3) [of b] by (metis of_nat_add of_nat_mult of_nat_numeral word_of_int_uint uint_nat)
  with Cons nibbles [of b] show ?case by (simp add: hexd_nth del: unsigned_drop_bit_eq unsigned_and_eq)
qed

lemma hex_roundtrip: "cerco_hex_decode (cerco_hex_encode bs) = Some bs"
  by (simp add: cerco_hex_decode_def hex_pairs_encode)

subsection \<open>Properties\<close>

text \<open>Text escaped into a buffer contains no markup character, reads back as the original
  text, and takes exactly the length the sizing call (\<open>buf == NULL\<close>) announces, which is
  below the capacity. (In particular escaping is injective.)\<close>

theorem html_escape_safe:
  assumes "cerco_html_escape s (Some cap) = Escaped e"
  shows "unescape e = s \<and> list_all (\<lambda>c. \<not> markup_char c) e \<and> (cap \<noteq> 0 \<and> length e < cap) \<and>
         cerco_html_escape s None = Needed (length e)"
proof (cases "cap = 0")
  case True
  with assms show ?thesis by (simp add: cerco_html_escape_def)
next
  case False
  with assms have e: "e = esc s" "length (esc s) < cap"
    by (auto simp: html_escape_exact split: if_splits)
  with False show ?thesis
    by (auto simp: list_all_iff unescape_esc html_escape_exact dest: esc_no_markup)
qed

theorem html_escape_safe_witness:
  "unescape ''&lt;a&gt;'' = ''<a>'' \<and> cerco_html_escape ''<a>'' None = Needed 9"
  using html_escape_safe [of "''<a>''" 10 "''&lt;a&gt;''"]
  by (simp add: cerco_html_escape_def esc_rep_def)

text \<open>Percent-decoding inverts percent-encoding for every byte string, and the decoder
  refuses exactly the texts that do not leave room for the terminator.\<close>

theorem url_decode_roundtrip:
  "cerco_url_decode (url_encode s) cap sp = (if length s < cap then Some s else None)"
  by (simp add: url_decode_eq pct_decode_encode)

text \<open>Walking the query string of a form yields exactly the submitted pairs, in order,
  when each key and value fits the caller's buffers.\<close>

theorem query_walk_roundtrip:
  assumes "\<And>k v. (k, v) \<in> set kvs \<Longrightarrow> length k < kcap \<and> length v < vcap"
  shows "query_walk (query_string kvs) 0 kcap vcap = kvs"
  using query_walk_string [of kvs kcap vcap "[]"] assms by simp

theorem query_walk_roundtrip_witness:
  "query_walk (query_string [(''q'', ''a&b=c''), (''lang'', ''C 100%'')]) 0 64 64
     = [(''q'', ''a&b=c''), (''lang'', ''C 100%'')]"
  by (rule query_walk_roundtrip) auto

text \<open>Hex decoding inverts hex encoding for every byte sequence, and the encoding takes two
  characters a byte.\<close>

theorem hex_decode_encode:
  "cerco_hex_decode (cerco_hex_encode bs) = Some bs \<and> length (cerco_hex_encode bs) = 2 * length bs"
  by (simp add: hex_roundtrip)

end
