(* ===== verification/Strbuf.thy ===== *)
theory Strbuf
  imports Cerco_Prelude
begin

text \<open>
  \<open>runtime/shared/sb.c\<close>: the growable byte buffer of the tooling and of the staged
  response headers. \<open>ra n\<close> says whether \<open>realloc\<close> of \<open>n\<close> bytes succeeds; a failed growth
  sets \<open>oom\<close> and drops the write. \<open>sb_data\<close> is the first \<open>len\<close> bytes of \<open>buf\<close>.
\<close>

record cerco_sb =
  sb_alloc :: bool       \<comment> \<open>\<open>buf != NULL\<close>\<close>
  sb_data :: string
  sb_cap :: nat
  sb_oom :: bool

abbreviation sb_len :: "cerco_sb \<Rightarrow> nat" where "sb_len b \<equiv> length (sb_data b)"

definition sb_init :: cerco_sb where
  "sb_init = \<lparr>sb_alloc = False, sb_data = [], sb_cap = 0, sb_oom = False\<rparr>"

definition sb_grow :: "(nat \<Rightarrow> bool) \<Rightarrow> nat \<Rightarrow> cerco_sb \<Rightarrow> bool \<times> cerco_sb" where
  "sb_grow ra need b =
     (if sb_len b + need \<le> sb_cap b then (True, b)
      else let cap = double_until (if sb_cap b \<noteq> 0 then sb_cap b else 256) (sb_len b + need)
           in if ra cap then (True, b\<lparr>sb_alloc := True, sb_cap := cap\<rparr>)
              else (False, b\<lparr>sb_oom := True\<rparr>))"

definition sb_reserve :: "(nat \<Rightarrow> bool) \<Rightarrow> nat \<Rightarrow> cerco_sb \<Rightarrow> cerco_sb" where
  "sb_reserve ra extra b = snd (sb_grow ra extra b)"

definition sb_putn :: "(nat \<Rightarrow> bool) \<Rightarrow> string \<Rightarrow> cerco_sb \<Rightarrow> cerco_sb" where
  "sb_putn ra data b =
     (case sb_grow ra (length data + 1) b of
        (False, b') \<Rightarrow> b'
      | (True, b') \<Rightarrow> b'\<lparr>sb_data := sb_data b' @ data\<rparr>)"

definition sb_puts :: "(nat \<Rightarrow> bool) \<Rightarrow> string option \<Rightarrow> cerco_sb \<Rightarrow> cerco_sb" where
  "sb_puts ra s b = (case s of None \<Rightarrow> b | Some t \<Rightarrow> sb_putn ra t b)"

definition sb_putc :: "(nat \<Rightarrow> bool) \<Rightarrow> char \<Rightarrow> cerco_sb \<Rightarrow> cerco_sb" where
  "sb_putc ra c b =
     (case sb_grow ra 2 b of
        (False, b') \<Rightarrow> b'
      | (True, b') \<Rightarrow> b'\<lparr>sb_data := sb_data b' @ [c]\<rparr>)"

text \<open>\<open>sb_printf\<close> with the text \<open>vsnprintf\<close> produces for its format and arguments, \<open>None\<close>
  when it reports an encoding error.\<close>

definition sb_printf :: "(nat \<Rightarrow> bool) \<Rightarrow> string option \<Rightarrow> cerco_sb \<Rightarrow> cerco_sb" where
  "sb_printf ra fmtd b =
     (case fmtd of
        None \<Rightarrow> b
      | Some t \<Rightarrow>
          (case sb_grow ra (length t + 1) b of
             (False, b') \<Rightarrow> b'
           | (True, b') \<Rightarrow> b'\<lparr>sb_data := sb_data b' @ t\<rparr>))"

definition digit_pairs :: string where
  "digit_pairs =
     ''000102030405060708091011121314151617181920212223242526272829'' @
     ''303132333435363738394041424344454647484950515253545556575859'' @
     ''606162636465666768697071727374757677787980818283848586878889'' @
     ''90919293949596979899''"

text \<open>\<open>tmp\<close> is filled from the right: the pairs while \<open>v >= 100\<close>, then single digits.\<close>

fun putu_pairs :: "nat \<Rightarrow> string \<Rightarrow> nat \<times> string" where
  "putu_pairs v tmp =
     (if 100 \<le> v
      then putu_pairs (v div 100)
             (digit_pairs ! (v mod 100 * 2) # digit_pairs ! (v mod 100 * 2 + 1) # tmp)
      else (v, tmp))"

fun putu_singles :: "nat \<Rightarrow> string \<Rightarrow> nat \<times> string" where
  "putu_singles v tmp =
     (if 10 \<le> v then putu_singles (v div 10) (digit_char (v mod 10) # tmp) else (v, tmp))"

declare putu_pairs.simps [simp del] putu_singles.simps [simp del]

definition putu_text :: "nat \<Rightarrow> string" where
  "putu_text v =
     (let (v1, tmp1) = putu_pairs v [];
          (v2, tmp2) = putu_singles v1 tmp1
      in digit_char v2 # tmp2)"

definition sb_putu :: "(nat \<Rightarrow> bool) \<Rightarrow> u64 \<Rightarrow> cerco_sb \<Rightarrow> cerco_sb" where
  "sb_putu ra v b = sb_putn ra (putu_text (unat v)) b"

text \<open>\<open>(unsigned long long)(-(v + 1)) + 1\<close>: the magnitude without overflowing on \<open>LLONG_MIN\<close>.\<close>

definition sb_puti :: "(nat \<Rightarrow> bool) \<Rightarrow> 64 word \<Rightarrow> cerco_sb \<Rightarrow> cerco_sb" where
  "sb_puti ra v b =
     (if sint v < 0
      then sb_putu ra (word_of_int (- (sint v + 1)) + 1) (sb_putc ra CHR ''-'' b)
      else sb_putu ra (word_of_int (sint v)) b)"

definition sb_release :: "cerco_sb \<Rightarrow> string option \<times> cerco_sb" where
  "sb_release b =
     ((if sb_alloc b then Some (sb_data b) else None),
      b\<lparr>sb_alloc := False, sb_data := [], sb_cap := 0\<rparr>)"

definition sb_reset :: "cerco_sb \<Rightarrow> cerco_sb" where
  "sb_reset b = b\<lparr>sb_data := []\<rparr>"

definition sb_free :: "cerco_sb \<Rightarrow> cerco_sb" where
  "sb_free b = sb_init"

subsection \<open>Well-formedness\<close>

text \<open>
  The bytes and their NUL fit the capacity once there is a buffer, and there is nothing in
  a buffer that was never allocated.
\<close>

definition sb_wf :: "cerco_sb \<Rightarrow> bool" where
  "sb_wf b = (if sb_alloc b then sb_len b \<le> sb_cap b \<and> 0 < sb_cap b
              else sb_data b = [] \<and> sb_cap b = 0)"

lemma sb_wf_init [inv_rules]: "sb_wf sb_init"
  by (simp add: sb_wf_def sb_init_def)

lemma sb_grow_cases:
  assumes "sb_wf b" "0 < need" "sb_grow ra need b = (ok, b')"
  shows "sb_wf b'" "sb_data b' = sb_data b" "ok \<Longrightarrow> sb_alloc b' \<and> sb_len b + need \<le> sb_cap b'"
    "ok \<Longrightarrow> sb_oom b' = sb_oom b" "\<not> ok \<Longrightarrow> sb_oom b'"
  using assms double_until_ge [of "if sb_cap b \<noteq> 0 then sb_cap b else 256" "sb_len b + need"]
  by (auto simp: sb_grow_def sb_wf_def Let_def split: if_splits)

lemma sb_append_wf:
  assumes "sb_wf b" "length t < need" "sb_grow ra need b = (True, b')"
  shows "sb_wf (b'\<lparr>sb_data := sb_data b' @ t\<rparr>)"
  using sb_grow_cases [OF assms(1) _ assms(3)] assms(2) by (simp add: sb_wf_def)

lemma sb_putn_wf [inv_rules]: "sb_wf b \<Longrightarrow> sb_wf (sb_putn ra t b)"
  using sb_append_wf [of b t "length t + 1" ra] sb_grow_cases(1) [of b "length t + 1" ra]
  by (auto simp: sb_putn_def split: prod.splits bool.splits)

lemma sb_puts_wf [inv_rules]: "sb_wf b \<Longrightarrow> sb_wf (sb_puts ra s b)"
  by (auto simp: sb_puts_def intro: inv_rules split: option.splits)

lemma sb_putc_eq: "sb_putc ra c b = sb_putn ra [c] b"
  by (simp add: sb_putc_def sb_putn_def numeral_2_eq_2)

lemma sb_printf_eq: "sb_printf ra fmtd b = (case fmtd of None \<Rightarrow> b | Some t \<Rightarrow> sb_putn ra t b)"
  by (cases fmtd) (simp_all add: sb_printf_def sb_putn_def)

lemma sb_putn_data:
  "(\<And>n. ra n) \<Longrightarrow> sb_data (sb_putn ra t b) = sb_data b @ t \<and> sb_oom (sb_putn ra t b) = sb_oom b"
  by (auto simp: sb_putn_def sb_grow_def Let_def)

text \<open>A write that fails leaves the bytes alone and is remembered.\<close>

lemma sb_putn_cases:
  "sb_wf b \<Longrightarrow>
     (sb_data (sb_putn ra t b) = sb_data b @ t \<and> sb_oom (sb_putn ra t b) = sb_oom b) \<or>
     (sb_data (sb_putn ra t b) = sb_data b \<and> sb_oom (sb_putn ra t b))"
  by (auto simp: sb_putn_def sb_grow_def Let_def)

subsection \<open>Decimal output\<close>

lemma nth_concat_pairs:
  "r < n \<Longrightarrow> concat (map (\<lambda>i. [f i, g i]) [0..<n]) ! (r * 2) = f r \<and>
            concat (map (\<lambda>i. [f i, g i]) [0..<n]) ! Suc (r * 2) = g r"
proof (induction n)
  case 0
  then show ?case by simp
next
  case (Suc n)
  have "length (concat (map (\<lambda>i. [f i, g i]) [0..<n])) = n * 2" by (induction n) auto
  with Suc show ?case by (cases "r = n") (auto simp: nth_append)
qed

lemma digit_pairs_concat:
  "digit_pairs = concat (map (\<lambda>i. [digit_char (i div 10), digit_char (i mod 10)]) [0..<100])"
  by (simp add: digit_pairs_def upt_rec [of 0] upt_rec [of "Suc 0"] numeral_2_eq_2 [symmetric])

lemma digit_pairs_nth:
  "r < 100 \<Longrightarrow> digit_pairs ! (r * 2) = digit_char (r div 10) \<and> digit_pairs ! Suc (r * 2) = digit_char (r mod 10)"
  unfolding digit_pairs_concat by (rule nth_concat_pairs)

lemma dec_two: "100 \<le> v \<Longrightarrow> dec v = dec (v div 100) @ [digit_char (v mod 100 div 10), digit_char (v mod 10)]"
  using div_mult2_eq [of v 10 10] mod_mult2_eq [of v 10 10]
  by (simp add: dec.simps [of v] dec.simps [of "v div 10"])

lemma putu_pairs_dec:
  "putu_pairs v tmp = (v', tmp') \<Longrightarrow> dec v @ tmp = dec v' @ tmp' \<and> v' < 100"
proof (induction v tmp arbitrary: v' tmp' rule: putu_pairs.induct)
  case (1 v tmp)
  show ?case
  proof (cases "100 \<le> v")
    case True
    have m: "v mod 100 < 100" "v mod 100 mod 10 = v mod 10" by (auto simp: mod_mod_cancel)
    from True "1.prems" have
      "putu_pairs (v div 100) (digit_char (v mod 100 div 10) # digit_char (v mod 10) # tmp) = (v', tmp')"
      by (simp add: putu_pairs.simps [of v] digit_pairs_nth [OF m(1)] m(2) del: mod_mult_self1)
    with "1.IH" [OF True] digit_pairs_nth [OF m(1)] m(2)
    have "dec (v div 100) @ digit_char (v mod 100 div 10) # digit_char (v mod 10) # tmp = dec v' @ tmp' \<and> v' < 100"
      by simp
    with True show ?thesis by (simp add: dec_two)
  next
    case False
    with "1.prems" show ?thesis by (simp add: putu_pairs.simps [of v])
  qed
qed

lemma putu_singles_dec:
  "putu_singles v tmp = (v', tmp') \<Longrightarrow> dec v @ tmp = digit_char v' # tmp' \<and> v' < 10"
proof (induction v tmp arbitrary: v' tmp' rule: putu_singles.induct)
  case (1 v tmp)
  show ?case
  proof (cases "10 \<le> v")
    case True
    with "1.prems" have "putu_singles (v div 10) (digit_char (v mod 10) # tmp) = (v', tmp')"
      by (simp add: putu_singles.simps [of v])
    with "1.IH" [OF True] have "dec (v div 10) @ digit_char (v mod 10) # tmp = digit_char v' # tmp' \<and> v' < 10"
      by blast
    moreover from True have "dec v = dec (v div 10) @ [digit_char (v mod 10)]"
      by (subst dec.simps) simp
    ultimately show ?thesis by simp
  next
    case False
    with "1.prems" have "v' = v" "tmp' = tmp" by (simp_all add: putu_singles.simps [of v])
    with False show ?thesis by (subst dec.simps) simp
  qed
qed

lemma putu_text_dec: "putu_text v = dec v"
  using putu_pairs_dec [of v "[]"] putu_singles_dec
  by (fastforce simp: putu_text_def split: prod.splits)

lemma length_dec_le: "v < 10 ^ k \<Longrightarrow> 0 < k \<Longrightarrow> length (dec v) \<le> k"
proof (induction k arbitrary: v)
  case 0
  then show ?case by simp
next
  case (Suc k)
  show ?case
  proof (cases "v < 10")
    case True
    then show ?thesis by (simp add: dec.simps [of v])
  next
    case False
    with Suc.prems have "0 < k" by (cases k) auto
    moreover from Suc.prems have "v div 10 < 10 ^ k" by (simp add: less_mult_imp_div_less mult.commute)
    ultimately have "length (dec (v div 10)) \<le> k" by (rule Suc.IH [rotated])
    with False show ?thesis by (simp add: dec.simps [of v])
  qed
qed

text \<open>The 23 usable bytes of \<open>tmp\<close> hold every 64-bit value.\<close>

lemma putu_fits: "length (putu_text (unat (v :: u64))) \<le> 20"
proof -
  have "unat v < 2 ^ 64" using unsigned_less [of v, where ?'a = nat] by simp
  then have "unat v < 10 ^ 20" by simp
  then show ?thesis by (simp add: putu_text_dec length_dec_le)
qed

lemma unat_word_of_int64: "0 \<le> k \<Longrightarrow> k < 2 ^ 64 \<Longrightarrow> unat (word_of_int k :: u64) = nat k"
proof -
  assume k: "0 \<le> k" "k < 2 ^ 64"
  then obtain n where n: "k = int n" by (metis nonneg_int_cases)
  with k(2) have "n < 2 ^ 64" by (metis of_nat_less_iff of_nat_numeral of_nat_power)
  then have "unat (of_nat n :: u64) = n" by (simp only: unsigned_of_nat) (simp add: take_bit_nat_eq_self)
  with n show ?thesis by simp
qed

lemma magnitude: "sint (v :: 64 word) < 0 \<Longrightarrow> unat (word_of_int (- (sint v + 1)) + 1 :: u64) = nat (- sint v)"
proof -
  assume neg: "sint v < 0"
  have ge: "- (2 ^ 63) \<le> sint v" using sint_ge [of v] by simp
  have "word_of_int (- (sint v + 1)) + 1 = (word_of_int (- sint v) :: u64)"
    by (metis (no_types, opaque_lifting) diff_add_cancel minus_add_distrib uminus_add_conv_diff
        wi_hom_add word_of_int_1 add.commute)
  moreover have "- sint v \<le> 2 ^ 63" using ge by linarith
  then have "- sint v < 2 ^ 64" by simp
  with neg have "unat (word_of_int (- sint v) :: u64) = nat (- sint v)"
    by (intro unat_word_of_int64) simp_all
  ultimately show ?thesis by simp
qed

lemma nonneg_value: "0 \<le> sint (v :: 64 word) \<Longrightarrow> unat (word_of_int (sint v) :: u64) = nat (sint v)"
proof -
  assume "0 \<le> sint v"
  moreover have "sint v < 2 ^ 63" using sint_lt [of v] by simp
  then have "sint v < 2 ^ 64" by simp
  ultimately show ?thesis by (rule unat_word_of_int64)
qed

lemma sb_putu_data: "(\<And>n. ra n) \<Longrightarrow> sb_data (sb_putu ra v b) = sb_data b @ dec (unat v)"
  by (simp add: sb_putu_def sb_putn_data putu_text_dec)

subsection \<open>Properties\<close>

text \<open>\<open>sb_puti\<close> appends the decimal text of every \<open>long long\<close>, \<open>LLONG_MIN\<close> included, when
  memory lasts.\<close>

theorem sb_puti_decimal:
  assumes "\<And>n. ra n"
  shows "sb_data (sb_puti ra v b) = sb_data b @ dec_int (sint v)"
proof (cases "sint v < 0")
  case True
  then have "dec_int (sint v) = CHR ''-'' # dec (unat (word_of_int (- (sint v + 1)) + 1 :: u64))"
    by (simp only: magnitude dec_int_def if_True)
  with True show ?thesis
    by (simp only: sb_puti_def if_True sb_putu_data [OF assms] sb_putc_eq sb_putn_data [OF assms]) simp
next
  case False
  then have "unat (word_of_int (sint v) :: u64) = nat (sint v)" by (intro nonneg_value) simp
  with False have "dec_int (sint v) = dec (unat (word_of_int (sint v) :: u64))"
    by (simp only: dec_int_def if_False)
  with False show ?thesis by (simp only: sb_puti_def if_False sb_putu_data [OF assms])
qed

theorem sb_puti_decimal_witness:
  "sb_data (sb_puti (\<lambda>n. True) (word_of_int (-9223372036854775808)) sb_init) = ''-9223372036854775808''"
proof -
  have "sint (word_of_int (-9223372036854775808) :: 64 word) = -9223372036854775808"
    by (rule sint64_word_of_int) simp_all
  then show ?thesis
    using sb_puti_decimal [of "\<lambda>n. True" "word_of_int (-9223372036854775808)" sb_init]
    by (simp only: simp_thms) (simp add: dec_int_def dec.simps sb_init_def)
qed

end
