(* ===== verification/Arena.thy ===== *)
theory Arena
  imports Cerco_Prelude
begin

text \<open>
  \<open>runtime/shared/arena.c\<close>: the chunked bump allocator of connections, requests and worker
  jobs.

  The linked list from \<open>head\<close> is the list \<open>ar_chunks\<close>; \<open>cur\<close> is its last element and both
  pointers are NULL when it is empty. Addresses are 64-bit words, so the alignment
  arithmetic is the code's. \<open>mal a n\<close> is what \<open>malloc(n)\<close> returns to an arena in state
  \<open>a\<close> (\<open>None\<close> for NULL); \<open>mal_ok\<close> is its documented contract.

  An allocation has five outcomes. Four are values of \<open>aresult\<close>; the fifth, the
  \<open>for (;;)\<close> loop running forever, is the \<open>None\<close> of the partial function.
\<close>

record achunk =
  ck_addr :: u64
  ck_cap :: nat
  ck_used :: nat

record cerco_arena =
  ar_chunks :: "achunk list"
  ar_total :: nat
  ar_hard_cap :: nat
  ar_oom :: bool

type_synonym malloc = "cerco_arena \<Rightarrow> nat \<Rightarrow> u64 option"

definition HDR :: nat where "HDR = 24"
definition CHUNK_MAX :: nat where "CHUNK_MAX = 4 * 1024 * 1024"

text \<open>The process-wide \<open>arena_oom_fn\<close>: the default aborts, an installed one returns.\<close>

datatype oom_policy = Oom_abort | Oom_handler

definition arena_oom_default :: oom_policy where "arena_oom_default = Oom_abort"

definition cerco_arena_set_oom_handler :: "bool \<Rightarrow> oom_policy" where
  "cerco_arena_set_oom_handler fn = (if fn then Oom_handler else arena_oom_default)"

datatype aresult =
  AGot u64 cerco_arena     \<comment> \<open>the block's address\<close>
| ANull cerco_arena        \<comment> \<open>NULL, after an installed handler returned\<close>
| AAbort                   \<comment> \<open>\<open>abort()\<close>\<close>
| ACrash                   \<comment> \<open>a write through \<open>a->cur == NULL\<close>\<close>

definition chunk_new :: "malloc \<Rightarrow> nat \<Rightarrow> cerco_arena \<Rightarrow> achunk option" where
  "chunk_new mal cap a =
     map_option (\<lambda>p. \<lparr>ck_addr = p, ck_cap = cap, ck_used = 0\<rparr>) (mal a (HDR + cap))"

definition cerco_arena_init :: "malloc \<Rightarrow> nat \<Rightarrow> nat \<Rightarrow> cerco_arena" where
  "cerco_arena_init mal first_chunk hard_cap =
     (let a = \<lparr>ar_chunks = [], ar_total = 0, ar_hard_cap = hard_cap, ar_oom = False\<rparr>;
          first = (if first_chunk < 64 then 64 else first_chunk)
      in case chunk_new mal first a of
           Some c \<Rightarrow> a\<lparr>ar_chunks := [c], ar_total := first\<rparr>
         | None \<Rightarrow> a\<lparr>ar_oom := True\<rparr>)"

datatype grow_result = Grown cerco_arena | Grow_failed cerco_arena | Grow_crash

definition arena_grow :: "malloc \<Rightarrow> nat \<Rightarrow> cerco_arena \<Rightarrow> grow_result" where
  "arena_grow mal need a =
     (if ar_hard_cap a \<noteq> 0 \<and> ar_total a + need > ar_hard_cap a then Grow_failed (a\<lparr>ar_oom := True\<rparr>)
      else
        let cap0 = (if ar_chunks a \<noteq> [] then ck_cap (last (ar_chunks a)) * 2 else 8192);
            cap1 = (if cap0 < need then need else cap0);
            cap = (if cap1 > CHUNK_MAX then CHUNK_MAX else cap1)
        in case chunk_new mal cap a of
             None \<Rightarrow> Grow_failed (a\<lparr>ar_oom := True\<rparr>)
           | Some c \<Rightarrow>
               if ar_chunks a = [] then Grow_crash
               else Grown (a\<lparr>ar_chunks := ar_chunks a @ [c], ar_total := ar_total a + cap\<rparr>))"

definition align_up :: "u64 \<Rightarrow> u64 \<Rightarrow> u64" where
  "align_up base align = (base + (align - 1)) AND NOT (align - 1)"

definition arena_oom_fn :: "oom_policy \<Rightarrow> cerco_arena \<Rightarrow> aresult" where
  "arena_oom_fn pol a = (case pol of Oom_abort \<Rightarrow> AAbort | Oom_handler \<Rightarrow> ANull a)"

text \<open>The test of one round of the loop: the block, when it fits the current chunk.\<close>

definition bump :: "nat \<Rightarrow> u64 \<Rightarrow> cerco_arena \<Rightarrow> (u64 \<times> cerco_arena) option" where
  "bump sz align a =
     (let c = last (ar_chunks a);
          base = ck_addr c + of_nat HDR + of_nat (ck_used c);
          aligned = align_up base align;
          pad = unat (aligned - base)
      in if pad + sz \<le> ck_cap c - ck_used c
         then Some (aligned, a\<lparr>ar_chunks := butlast (ar_chunks a) @ [c\<lparr>ck_used := ck_used c + pad + sz\<rparr>]\<rparr>)
         else None)"

partial_function (option) alloc_loop ::
  "oom_policy \<Rightarrow> malloc \<Rightarrow> nat \<Rightarrow> u64 \<Rightarrow> cerco_arena \<Rightarrow> aresult option" where
  "alloc_loop pol mal sz align a =
     (case bump sz align a of
        Some (p, a') \<Rightarrow> Some (AGot p a')
      | None \<Rightarrow>
          (case arena_grow mal sz a of
             Grow_failed a' \<Rightarrow> Some (arena_oom_fn pol a')
           | Grow_crash \<Rightarrow> Some ACrash
           | Grown a' \<Rightarrow> alloc_loop pol mal sz align a'))"

definition cerco_arena_alloc_aligned ::
  "oom_policy \<Rightarrow> malloc \<Rightarrow> nat \<Rightarrow> u64 \<Rightarrow> cerco_arena \<Rightarrow> aresult option" where
  "cerco_arena_alloc_aligned pol mal req align a =
     (let sz = (if req = 0 then 1 else req) in
      if ar_chunks a = [] then
        (case arena_grow mal sz a of
           Grow_failed a' \<Rightarrow> Some (arena_oom_fn pol a')
         | Grow_crash \<Rightarrow> Some ACrash
         | Grown a' \<Rightarrow> alloc_loop pol mal sz align a')
      else alloc_loop pol mal sz align a)"

definition cerco_arena_alloc :: "oom_policy \<Rightarrow> malloc \<Rightarrow> nat \<Rightarrow> cerco_arena \<Rightarrow> aresult option" where
  "cerco_arena_alloc pol mal sz a = cerco_arena_alloc_aligned pol mal sz 8 a"

text \<open>
  The allocating copies: the block's address and bytes. \<open>cerco_arena_alloc0\<close> clears the
  requested \<open>sz\<close>; \<open>sprintf\<close> gets the text \<open>vsnprintf\<close> produces (\<open>None\<close> on its error).
\<close>

datatype filled = Filled u64 string cerco_arena | Not_filled aresult | Fmt_error cerco_arena

definition fill :: "string \<Rightarrow> aresult option \<Rightarrow> filled option" where
  "fill bytes r = map_option (\<lambda>x. case x of AGot p a \<Rightarrow> Filled p bytes a | _ \<Rightarrow> Not_filled x) r"

definition cerco_arena_alloc0 :: "oom_policy \<Rightarrow> malloc \<Rightarrow> nat \<Rightarrow> cerco_arena \<Rightarrow> filled option" where
  "cerco_arena_alloc0 pol mal sz a = fill (replicate sz NUL) (cerco_arena_alloc pol mal sz a)"

definition cerco_arena_memdup :: "oom_policy \<Rightarrow> malloc \<Rightarrow> string \<Rightarrow> cerco_arena \<Rightarrow> filled option" where
  "cerco_arena_memdup pol mal src a = fill src (cerco_arena_alloc pol mal (length src) a)"

definition cerco_arena_strndup :: "oom_policy \<Rightarrow> malloc \<Rightarrow> string \<Rightarrow> nat \<Rightarrow> cerco_arena \<Rightarrow> filled option" where
  "cerco_arena_strndup pol mal s len a = fill (take len s @ [NUL]) (cerco_arena_alloc pol mal (len + 1) a)"

definition cerco_arena_strdup :: "oom_policy \<Rightarrow> malloc \<Rightarrow> string \<Rightarrow> cerco_arena \<Rightarrow> filled option" where
  "cerco_arena_strdup pol mal s a = cerco_arena_strndup pol mal s (length s) a"

definition cerco_arena_sprintf :: "oom_policy \<Rightarrow> malloc \<Rightarrow> string option \<Rightarrow> cerco_arena \<Rightarrow> filled option" where
  "cerco_arena_sprintf pol mal fmtd a =
     (case fmtd of
        None \<Rightarrow> Some (Fmt_error a)
      | Some t \<Rightarrow> fill (t @ [NUL]) (cerco_arena_alloc pol mal (length t + 1) a))"

definition cerco_arena_reset :: "cerco_arena \<Rightarrow> cerco_arena" where
  "cerco_arena_reset a =
     (case ar_chunks a of
        [] \<Rightarrow> a\<lparr>ar_chunks := [], ar_total := 0, ar_oom := False\<rparr>
      | c # cs \<Rightarrow> a\<lparr>ar_chunks := [c\<lparr>ck_used := 0\<rparr>], ar_total := ck_cap c, ar_oom := False\<rparr>)"

definition cerco_arena_destroy :: "cerco_arena \<Rightarrow> cerco_arena" where
  "cerco_arena_destroy a = \<lparr>ar_chunks = [], ar_total = 0, ar_hard_cap = 0, ar_oom = False\<rparr>"

definition cerco_arena_failed :: "cerco_arena \<Rightarrow> bool" where
  "cerco_arena_failed a = ar_oom a"


subsection \<open>Alignment\<close>

lemma and_not_mask: "x AND NOT (mask k) = x - take_bit k (x :: u64)"
proof -
  have "x AND NOT (mask k) = push_bit k (drop_bit k x)"
    by (rule bit_word_eqI) (auto simp: bit_simps)
  also have "\<dots> = x - take_bit k x"
    using bits_ident [of k x] by (simp add: algebra_simps)
  finally show ?thesis .
qed

lemma unat_align_up:
  assumes "k < 64" "unat base + 2 ^ k \<le> 2 ^ 64"
  shows "unat (align_up base (2 ^ k)) = (unat base + (2 ^ k - 1)) div 2 ^ k * 2 ^ k"
proof -
  have one: "unat ((2 ^ k :: u64) - 1) = 2 ^ k - 1"
  proof -
    have "(2 :: nat) ^ k \<le> 2 ^ 64" using assms(1) by (intro power_increasing) simp_all
    then have "unat (of_nat (2 ^ k - 1) :: u64) = 2 ^ k - 1" using zero_less_power [of "2 :: nat" k] by (intro unat_of_nat64) linarith
    then show ?thesis by (simp add: of_nat_diff)
  qed
  have m: "(2 ^ k :: u64) - 1 = mask k" by (simp add: mask_eq_exp_minus_1)
  let ?x = "base + (2 ^ k - 1)"
  have nov: "unat ?x = unat base + (2 ^ k - 1)"
    using assms(2) one by (subst unat_add_lem [THEN iffD1]) simp_all
  have "align_up base (2 ^ k) = ?x - take_bit k ?x"
    by (simp only: align_up_def m and_not_mask)
  moreover have tb: "unat (take_bit k ?x) = unat ?x mod 2 ^ k"
    by (simp only: unsigned_take_bit_eq) (simp only: take_bit_eq_mod)
  ultimately have "unat (align_up base (2 ^ k)) = unat ?x - unat ?x mod 2 ^ k"
    by (simp add: unat_sub word_le_nat_alt)
  with nov show ?thesis by (simp add: minus_mod_eq_div_mult)
qed


subsection \<open>Well-formed arenas\<close>

text \<open>An address range is a start and a length.\<close>

fun disjoint :: "nat \<times> nat \<Rightarrow> nat \<times> nat \<Rightarrow> bool" where
  "disjoint (p, n) (q, m) = (p + n \<le> q \<or> q + m \<le> p)"

definition ck_base :: "achunk \<Rightarrow> nat" where
  "ck_base c = unat (ck_addr c) + HDR"

definition ck_range :: "achunk \<Rightarrow> nat \<times> nat" where
  "ck_range c = (unat (ck_addr c), HDR + ck_cap c)"

definition ck_wf :: "achunk \<Rightarrow> bool" where
  "ck_wf c = (ck_used c \<le> ck_cap c \<and> 8 dvd unat (ck_addr c) \<and> ck_base c + ck_cap c < 2 ^ 63)"

definition arena_wf :: "cerco_arena \<Rightarrow> bool" where
  "arena_wf a =
     ((\<forall>c \<in> set (ar_chunks a). ck_wf c) \<and>
      sorted_wrt (\<lambda>c d. disjoint (ck_range c) (ck_range d)) (ar_chunks a) \<and>
      ar_total a = sum_list (map ck_cap (ar_chunks a)))"

lemma ck_used_upd [simp]: "ck_base (c\<lparr>ck_used := u\<rparr>) = ck_base c" "ck_range (c\<lparr>ck_used := u\<rparr>) = ck_range c"
  by (simp_all add: ck_base_def ck_range_def)

text \<open>The contract of \<open>malloc\<close>: an aligned block of user memory, disjoint from the live chunks.\<close>

definition mal_ok :: "malloc \<Rightarrow> bool" where
  "mal_ok mal = (\<forall>a n p. mal a n = Some p \<longrightarrow>
     16 dvd unat p \<and> unat p + n < 2 ^ 63 \<and>
     (\<forall>c \<in> set (ar_chunks a). disjoint (ck_range c) (unat p, n)))"

text \<open>A block of \<open>n\<close> bytes at \<open>p\<close> that the arena has handed out.\<close>

definition block_in :: "cerco_arena \<Rightarrow> nat \<times> nat \<Rightarrow> bool" where
  "block_in a b = (\<exists>c \<in> set (ar_chunks a). ck_base c \<le> fst b \<and> fst b + snd b \<le> ck_base c + ck_used c)"

lemma chunk_new_wf:
  assumes "mal_ok mal" "chunk_new mal cap a = Some c"
  shows "ck_wf c" "ck_used c = 0" "ck_cap c = cap" "16 dvd unat (ck_addr c)"
    "\<forall>d \<in> set (ar_chunks a). disjoint (ck_range d) (ck_range c)"
proof -
  from assms(2) obtain p where p: "mal a (HDR + cap) = Some p" "c = \<lparr>ck_addr = p, ck_cap = cap, ck_used = 0\<rparr>"
    by (auto simp: chunk_new_def)
  with assms(1) have m: "16 dvd unat p" "unat p + (HDR + cap) < 2 ^ 63"
      "\<forall>c \<in> set (ar_chunks a). disjoint (ck_range c) (unat p, HDR + cap)"
    unfolding mal_ok_def by blast+
  have "8 dvd unat p" using m(1) by (rule dvd_trans [rotated]) simp
  with m p show "ck_wf c" "ck_used c = 0" "ck_cap c = cap" "16 dvd unat (ck_addr c)"
    "\<forall>d \<in> set (ar_chunks a). disjoint (ck_range d) (ck_range c)"
    by (simp_all add: ck_wf_def ck_base_def ck_range_def add.assoc)
qed

lemma arena_grow_cases:
  assumes "arena_grow mal need a = Grown a'"
  obtains c cap where "chunk_new mal cap a = Some c" "ar_chunks a \<noteq> []" "cap \<le> CHUNK_MAX"
    "0 < need \<Longrightarrow> 0 < cap" "need \<le> CHUNK_MAX \<Longrightarrow> need \<le> cap"
    "ar_hard_cap a = 0 \<or> ar_total a + need \<le> ar_hard_cap a"
    "a' = a\<lparr>ar_chunks := ar_chunks a @ [c], ar_total := ar_total a + cap\<rparr>"
proof -
  define cap0 where "cap0 = (if ar_chunks a \<noteq> [] then ck_cap (last (ar_chunks a)) * 2 else 8192)"
  define cap1 where "cap1 = (if cap0 < need then need else cap0)"
  define cap where "cap = (if cap1 > CHUNK_MAX then CHUNK_MAX else cap1)"
  have cap': "cap \<le> CHUNK_MAX" "0 < need \<Longrightarrow> 0 < cap" "need \<le> CHUNK_MAX \<Longrightarrow> need \<le> cap"
    unfolding cap_def cap1_def by (auto simp: CHUNK_MAX_def)
  from assms show thesis
    unfolding arena_grow_def Let_def cap0_def [symmetric] cap1_def [symmetric] cap_def [symmetric]
    using that [of cap] cap' by (auto split: if_splits option.splits)
qed

lemma arena_grow_wf:
  assumes "mal_ok mal" "arena_wf a" "arena_grow mal need a = Grown a'"
  shows "arena_wf a'" "ar_chunks a' \<noteq> []" "block_in a b \<Longrightarrow> block_in a' b"
proof -
  from assms(3) obtain c cap where c: "chunk_new mal cap a = Some c"
      "a' = a\<lparr>ar_chunks := ar_chunks a @ [c], ar_total := ar_total a + cap\<rparr>"
    by (rule arena_grow_cases)
  note w = chunk_new_wf [OF assms(1) c(1)]
  show "arena_wf a'" using assms(2) w c(2) by (auto simp: arena_wf_def sorted_wrt_append)
  show "ar_chunks a' \<noteq> []" "block_in a b \<Longrightarrow> block_in a' b" using c(2) by (auto simp: block_in_def)
qed

lemma arena_grow_failed: "arena_grow mal need a = Grow_failed a' \<Longrightarrow> a' = a\<lparr>ar_oom := True\<rparr>"
  by (auto simp: arena_grow_def Let_def split: if_splits option.splits)

lemma arena_grow_failed_cases:
  "arena_grow mal need a = Grow_failed a' \<Longrightarrow>
     (ar_hard_cap a \<noteq> 0 \<and> ar_total a + need > ar_hard_cap a) \<or> (\<exists>cap. chunk_new mal cap a = None)"
  unfolding arena_grow_def Let_def by (auto split: if_splits option.splits)

lemma arena_grow_no_crash: "ar_chunks a \<noteq> [] \<Longrightarrow> arena_grow mal need a \<noteq> Grow_crash"
  by (auto simp: arena_grow_def Let_def split: option.splits)

lemma wf_oom [simp]: "arena_wf (a\<lparr>ar_oom := b\<rparr>) = arena_wf a" "block_in (a\<lparr>ar_oom := b\<rparr>) = block_in a"
  by (auto simp: arena_wf_def block_in_def)


subsection \<open>One bump\<close>

lemma round_up_bounds:
  fixes b m :: nat
  assumes "0 < m"
  shows "b \<le> (b + (m - 1)) div m * m" "(b + (m - 1)) div m * m \<le> b + (m - 1)"
proof -
  have "(b + (m - 1)) mod m < m" using assms by simp
  then have "(b + (m - 1)) mod m \<le> m - 1" by linarith
  with div_mult_mod_eq [of "b + (m - 1)" m] show "b \<le> (b + (m - 1)) div m * m" by linarith
  show "(b + (m - 1)) div m * m \<le> b + (m - 1)" by simp
qed

text \<open>The payload cursor of a well-formed chunk is computed without wrapping.\<close>

lemma base_word:
  "ck_wf c \<Longrightarrow> unat (ck_addr c + of_nat HDR + of_nat (ck_used c)) = ck_base c + ck_used c"
proof -
  assume "ck_wf c"
  then have lt: "unat (ck_addr c) + HDR + ck_used c < 2 ^ 64" by (simp add: ck_wf_def ck_base_def)
  then have "unat (of_nat (unat (ck_addr c) + HDR + ck_used c) :: u64) = unat (ck_addr c) + HDR + ck_used c"
    by (rule unat_of_nat64)
  then show ?thesis by (simp add: ck_base_def)
qed

lemma bump_block:
  assumes wf: "arena_wf a" and ne: "ar_chunks a \<noteq> []" and k: "k \<le> 12"
    and b: "bump sz (2 ^ k) a = Some (p, a')"
  obtains c where "last (ar_chunks a) = c"
    and "ck_base c + ck_used c \<le> unat p" "2 ^ k dvd unat p" "unat p + sz \<le> ck_base c + ck_cap c"
    and "a' = a\<lparr>ar_chunks := butlast (ar_chunks a) @ [c\<lparr>ck_used := unat p + sz - ck_base c\<rparr>]\<rparr>"
proof -
  define c where "c = last (ar_chunks a)"
  have c: "ck_wf c" using wf ne by (simp add: arena_wf_def c_def)
  let ?base = "ck_addr c + of_nat HDR + of_nat (ck_used c)"
  let ?al = "align_up ?base (2 ^ k)"
  note bw = base_word [OF c]
  have "(2 :: nat) ^ k \<le> 2 ^ 12" using k by (intro power_increasing) simp_all
  then have "unat ?base + 2 ^ k \<le> 2 ^ 64" using c by (simp add: bw) (simp add: ck_wf_def)
  then have al: "unat ?al = (ck_base c + ck_used c + (2 ^ k - 1)) div 2 ^ k * 2 ^ k"
    using k by (simp add: unat_align_up bw)
  have le: "ck_base c + ck_used c \<le> unat ?al"
    unfolding al by (rule round_up_bounds) simp
  then have "unat (?al - ?base) = unat ?al - (ck_base c + ck_used c)"
    by (simp add: unat_sub word_le_nat_alt bw)
  with b c le have "p = ?al" "unat p + sz \<le> ck_base c + ck_cap c"
      "a' = a\<lparr>ar_chunks := butlast (ar_chunks a) @ [c\<lparr>ck_used := unat p + sz - ck_base c\<rparr>]\<rparr>"
    by (auto simp: bump_def Let_def c_def [symmetric] ck_wf_def split: if_splits)
  with le al show thesis using that [of c] by (simp add: c_def)
qed

lemma bump_wf:
  assumes "arena_wf a" "ar_chunks a \<noteq> []" "k \<le> 12" "bump sz (2 ^ k) a = Some (p, a')"
  shows "arena_wf a'" "ar_chunks a' \<noteq> []" "2 ^ k dvd unat p" "block_in a' (unat p, sz)"
    "block_in a b \<Longrightarrow> block_in a' b \<and> disjoint b (unat p, sz)"
proof -
  from assms obtain c where last: "last (ar_chunks a) = c"
    and p: "ck_base c + ck_used c \<le> unat p" "2 ^ k dvd unat p" "unat p + sz \<le> ck_base c + ck_cap c"
    and a': "a' = a\<lparr>ar_chunks := butlast (ar_chunks a) @ [c\<lparr>ck_used := unat p + sz - ck_base c\<rparr>]\<rparr>"
    by (rule bump_block)
  have split: "ar_chunks a = butlast (ar_chunks a) @ [c]"
    using append_butlast_last_id [OF assms(2)] last by simp
  show "arena_wf a'"
    using assms(1) p unfolding arena_wf_def a'
    by (subst (asm) (1 2 3) split) (auto simp: sorted_wrt_append ck_range_def ck_wf_def ck_base_def)
  show "ar_chunks a' \<noteq> []" "2 ^ k dvd unat p" by (simp_all add: a' p)
  show "block_in a' (unat p, sz)" using p by (simp add: a' block_in_def)
  assume "block_in a b"
  then obtain d where d: "d \<in> set (ar_chunks a)" "ck_base d \<le> fst b" "fst b + snd b \<le> ck_base d + ck_used d"
    by (auto simp: block_in_def)
  have "disjoint b (unat p, sz) \<and> (\<exists>e \<in> set (ar_chunks a'). ck_base e \<le> fst b \<and> fst b + snd b \<le> ck_base e + ck_used e)"
  proof (cases "d \<in> set (butlast (ar_chunks a))")
    case True
    with assms(1) split have "disjoint (ck_range d) (ck_range c)" "ck_wf d"
      unfolding arena_wf_def by (metis sorted_wrt_append list.set_intros(1), metis in_set_butlastD)
    with True d p a' show ?thesis
      by (cases b) (auto simp: ck_range_def ck_wf_def ck_base_def)
  next
    case False
    with d(1) split have "d = c" by (metis Un_iff empty_iff insert_iff list.set(1) list.set(2) set_append)
    with d p a' show ?thesis by (cases b) auto
  qed
  then show "block_in a' b \<and> disjoint b (unat p, sz)" by (auto simp: block_in_def)
qed

subsection \<open>The allocation loop\<close>

text \<open>What any allocation that returns has done.\<close>

definition alloc_post :: "oom_policy \<Rightarrow> nat \<Rightarrow> nat \<Rightarrow> cerco_arena \<Rightarrow> aresult \<Rightarrow> bool" where
  "alloc_post pol sz k a r =
     (case r of
        AGot p a' \<Rightarrow> arena_wf a' \<and> ar_chunks a' \<noteq> [] \<and> 2 ^ k dvd unat p \<and> block_in a' (unat p, sz) \<and>
          (\<forall>b. block_in a b \<longrightarrow> block_in a' b \<and> disjoint b (unat p, sz))
      | ANull a' \<Rightarrow> arena_wf a' \<and> ar_chunks a' \<noteq> [] \<and> ar_oom a' \<and> pol = Oom_handler \<and>
          (\<forall>b. block_in a b \<longrightarrow> block_in a' b)
      | AAbort \<Rightarrow> pol = Oom_abort
      | ACrash \<Rightarrow> False)"

text \<open>Induction over the rounds of a loop that returns.\<close>

lemma alloc_loop_induct [consumes 1, case_names fits failed crash grown]:
  assumes run: "alloc_loop pol mal sz al a = Some r"
    and fits: "\<And>a p a'. bump sz al a = Some (p, a') \<Longrightarrow> P a (AGot p a')"
    and failed: "\<And>a a'. arena_grow mal sz a = Grow_failed a' \<Longrightarrow> P a (arena_oom_fn pol a')"
    and crash: "\<And>a. arena_grow mal sz a = Grow_crash \<Longrightarrow> P a ACrash"
    and grown: "\<And>a a' r. bump sz al a = None \<Longrightarrow> arena_grow mal sz a = Grown a' \<Longrightarrow> P a' r \<Longrightarrow> P a r"
  shows "P a r"
proof -
  have "pol' = pol \<longrightarrow> mal' = mal \<longrightarrow> sz' = sz \<longrightarrow> al' = al \<longrightarrow> P a r"
    if "alloc_loop pol' mal' sz' al' a = Some r" for pol' mal' sz' al' a r
  proof (rule alloc_loop.raw_induct [OF _ that,
        of "\<lambda>pol' mal' sz' al' a r. pol' = pol \<longrightarrow> mal' = mal \<longrightarrow> sz' = sz \<longrightarrow> al' = al \<longrightarrow> P a r"], intro impI)
    fix loop pol' mal' sz' al' a r
    assume IH: "\<And>pol' mal' sz' al' a r. loop pol' mal' sz' al' a = Some r \<Longrightarrow>
        pol' = pol \<longrightarrow> mal' = mal \<longrightarrow> sz' = sz \<longrightarrow> al' = al \<longrightarrow> P a r"
      and body: "(case bump sz' al' a of
            None \<Rightarrow> case arena_grow mal' sz' a of Grown a' \<Rightarrow> loop pol' mal' sz' al' a'
              | Grow_failed a' \<Rightarrow> Some (arena_oom_fn pol' a') | Grow_crash \<Rightarrow> Some ACrash
          | Some (p, a') \<Rightarrow> Some (AGot p a')) = Some r"
      and eqs: "pol' = pol" "mal' = mal" "sz' = sz" "al' = al"
    from body show "P a r"
      unfolding eqs
      by (auto split: option.splits prod.splits grow_result.splits
          intro: fits failed crash grown dest!: IH)
  qed
  with run show ?thesis by blast
qed

lemma alloc_loop_post:
  assumes "alloc_loop pol mal sz (2 ^ k) a = Some r" "mal_ok mal" "k \<le> 12" "arena_wf a" "ar_chunks a \<noteq> []"
  shows "alloc_post pol sz k a r"
  using assms(1,4,5)
proof (induction rule: alloc_loop_induct)
  case (fits a p a')
  from bump_wf [OF fits(2,3) assms(3) fits(1)] show ?case by (simp add: alloc_post_def)
next
  case (failed a a')
  then show ?case
    by (auto simp: alloc_post_def arena_oom_fn_def split: oom_policy.splits dest: arena_grow_failed)
next
  case (crash a)
  with arena_grow_no_crash show ?case by blast
next
  case (grown a a' r)
  note g = arena_grow_wf [OF assms(2) grown(4) grown(2)]
  from grown(3) g show ?case by (auto simp: alloc_post_def split: aresult.splits)
qed

lemma alloc_post:
  assumes "mal_ok mal" "arena_wf a" "ar_chunks a \<noteq> []" "0 < sz"
    and "cerco_arena_alloc pol mal sz a = Some r"
  shows "alloc_post pol sz 3 a r"
  using assms alloc_loop_post [of pol mal sz 3 a r]
  by (simp add: cerco_arena_alloc_def cerco_arena_alloc_aligned_def)

text \<open>A fresh chunk needs no padding for the default alignment, so one growth is enough.\<close>

lemma bump_fresh:
  assumes c: "ck_wf c" "ck_used c = 0" "last (ar_chunks a) = c" and "sz \<le> ck_cap c"
  shows "bump sz 8 a \<noteq> None"
proof -
  let ?base = "ck_addr c + of_nat HDR"
  have bw: "unat ?base = ck_base c" using base_word [OF c(1)] c(2) by simp
  have "8 dvd ck_base c" using c(1) by (simp add: ck_wf_def ck_base_def HDR_def)
  then obtain m where m: "ck_base c = 8 * m" by blast
  have "ck_base c + 2 ^ 3 \<le> 2 ^ 64" using c(1) by (simp add: ck_wf_def)
  then have "unat (align_up ?base (2 ^ 3)) = (ck_base c + (2 ^ 3 - 1)) div 2 ^ 3 * 2 ^ 3"
    using unat_align_up [of 3 ?base] by (simp add: bw)
  also have "\<dots> = ck_base c" by (simp add: m)
  finally have "align_up ?base 8 = ?base" by (simp add: bw [symmetric] word_unat_eq_iff)
  with c assms(4) show ?thesis by (simp add: bump_def Let_def)
qed

lemma alloc_terminates:
  assumes "mal_ok mal" "sz \<le> CHUNK_MAX" "ar_chunks a \<noteq> []"
  shows "alloc_loop pol mal sz 8 a \<noteq> None"
proof (cases "bump sz 8 a")
  case (Some q)
  then show ?thesis by (subst alloc_loop.simps) (simp split: prod.splits)
next
  case None
  show ?thesis
  proof (cases "arena_grow mal sz a")
    case (Grown a')
    then obtain c cap where c: "chunk_new mal cap a = Some c" "sz \<le> CHUNK_MAX \<Longrightarrow> sz \<le> cap"
      "a' = a\<lparr>ar_chunks := ar_chunks a @ [c], ar_total := ar_total a + cap\<rparr>"
      by (rule arena_grow_cases) blast
    have "bump sz 8 a' \<noteq> None"
      using chunk_new_wf [OF assms(1) c(1)] c assms(2) by (intro bump_fresh [of c]) auto
    then have "alloc_loop pol mal sz 8 a' \<noteq> None"
      by (subst alloc_loop.simps) (auto split: prod.splits)
    with None Grown show ?thesis by (subst alloc_loop.simps) simp
  qed (use None in \<open>subst alloc_loop.simps, simp\<close>)+
qed

text \<open>With a hard cap every growth uses some of it up.\<close>

lemma alloc_terminates_capped:
  assumes "0 < sz"
  shows "ar_hard_cap a \<noteq> 0 \<Longrightarrow> alloc_loop pol mal sz align a \<noteq> None"
proof (induction "ar_hard_cap a - ar_total a" arbitrary: a rule: less_induct)
  case less
  show ?case
  proof (cases "bump sz align a")
    case (Some q)
    then show ?thesis by (subst alloc_loop.simps) (simp split: prod.splits)
  next
    case None
    show ?thesis
    proof (cases "arena_grow mal sz a")
      case (Grown a')
      then obtain cap where c: "0 < cap" "ar_total a + sz \<le> ar_hard_cap a"
        "ar_total a' = ar_total a + cap" "ar_hard_cap a' = ar_hard_cap a"
        using less.prems assms by (elim arena_grow_cases) auto
      then have "alloc_loop pol mal sz align a' \<noteq> None"
        using less.prems assms by (intro less.hyps) auto
      with None Grown show ?thesis by (subst alloc_loop.simps) simp
    qed (use None in \<open>subst alloc_loop.simps, simp\<close>)+
  qed
qed

lemma arena_init_cases:
  obtains c first' where "chunk_new mal first' \<lparr>ar_chunks = [], ar_total = 0, ar_hard_cap = cap, ar_oom = False\<rparr> = Some c"
      "first' = (if first < 64 then 64 else first)"
      "cerco_arena_init mal first cap = \<lparr>ar_chunks = [c], ar_total = first', ar_hard_cap = cap, ar_oom = False\<rparr>"
  | "cerco_arena_init mal first cap = \<lparr>ar_chunks = [], ar_total = 0, ar_hard_cap = cap, ar_oom = True\<rparr>"
proof -
  define first' where "first' = (if first < 64 then 64 else first)"
  show thesis
    using that first'_def
    by (cases "chunk_new mal first' \<lparr>ar_chunks = [], ar_total = 0, ar_hard_cap = cap, ar_oom = False\<rparr>")
       (simp_all add: cerco_arena_init_def Let_def)
qed

lemma arena_init_wf: "mal_ok mal \<Longrightarrow> arena_wf (cerco_arena_init mal first cap)"
  by (cases rule: arena_init_cases [of mal cap first])
     (auto simp: arena_wf_def dest: chunk_new_wf)

lemma arena_init_ok: "\<not> ar_oom (cerco_arena_init mal first cap) \<Longrightarrow> ar_chunks (cerco_arena_init mal first cap) \<noteq> []"
  by (cases rule: arena_init_cases [of mal cap first]) auto

lemma arena_reset_wf [inv_rules]: "arena_wf a \<Longrightarrow> arena_wf (cerco_arena_reset a)"
  by (auto simp: cerco_arena_reset_def arena_wf_def ck_wf_def split: list.splits)

lemma arena_reset_empty: "\<not> block_in (cerco_arena_reset a) (p, Suc n)"
  by (auto simp: cerco_arena_reset_def block_in_def split: list.splits)

text \<open>A sequence of allocations that all succeed, with the blocks it hands out.\<close>

fun arena_allocs ::
  "oom_policy \<Rightarrow> malloc \<Rightarrow> nat list \<Rightarrow> cerco_arena \<Rightarrow> ((nat \<times> nat) list \<times> cerco_arena) option" where
  "arena_allocs pol mal [] a = Some ([], a)"
| "arena_allocs pol mal (n # ns) a =
     (case cerco_arena_alloc pol mal n a of
        Some (AGot p a') \<Rightarrow>
          map_option (\<lambda>(bs, a''). ((unat p, n) # bs, a'')) (arena_allocs pol mal ns a')
      | _ \<Rightarrow> None)"

lemma arena_allocs_blocks:
  assumes "mal_ok mal"
  shows "arena_allocs pol mal ns a = Some (bs, a') \<Longrightarrow> arena_wf a \<Longrightarrow> ar_chunks a \<noteq> [] \<Longrightarrow>
         list_all (\<lambda>n. 0 < n) ns \<Longrightarrow>
     sorted_wrt disjoint bs \<and> map snd bs = ns \<and> (\<forall>b \<in> set bs. 8 dvd fst b \<and> block_in a' b) \<and>
     (\<forall>b. block_in a b \<longrightarrow> block_in a' b \<and> (\<forall>c \<in> set bs. disjoint b c))"
proof (induction ns arbitrary: a bs)
  case Nil
  then show ?case by simp
next
  case (Cons n ns)
  from Cons.prems(1) obtain p a1 bs1 where al: "cerco_arena_alloc pol mal n a = Some (AGot p a1)"
    and rest: "arena_allocs pol mal ns a1 = Some (bs1, a')" and bs: "bs = (unat p, n) # bs1"
    by (auto split: option.splits aresult.splits)
  from alloc_post [OF assms Cons.prems(2,3) _ al] Cons.prems(4)
  have post: "arena_wf a1" "ar_chunks a1 \<noteq> []" "8 dvd unat p" "block_in a1 (unat p, n)"
    "\<And>b. block_in a b \<Longrightarrow> block_in a1 b \<and> disjoint b (unat p, n)"
    by (simp_all add: alloc_post_def del: split_paired_All)
  note IH = Cons.IH [OF rest post(1,2)]
  show ?case using IH post(3,4,5) Cons.prems(4) by (auto simp: bs)
qed

text \<open>An unlimited arena and a request no chunk can hold.\<close>

lemma alloc_loop_diverges:
  assumes "CHUNK_MAX < sz" "\<And>a n. mal a n \<noteq> None"
    and "ar_chunks a \<noteq> []" "ar_hard_cap a = 0" "ck_cap (last (ar_chunks a)) \<le> CHUNK_MAX"
  shows "alloc_loop pol mal sz al a = None"
proof -
  have "\<not> (ar_chunks a \<noteq> [] \<and> ar_hard_cap a = 0 \<and> ck_cap (last (ar_chunks a)) \<le> CHUNK_MAX)"
    if "alloc_loop pol mal sz al a = Some r" for a r
    using that
  proof (induction rule: alloc_loop_induct)
    case (fits a p a')
    then have "unat (align_up (ck_addr (last (ar_chunks a)) + of_nat HDR + of_nat (ck_used (last (ar_chunks a)))) al -
        (ck_addr (last (ar_chunks a)) + of_nat HDR + of_nat (ck_used (last (ar_chunks a))))) + sz
          \<le> ck_cap (last (ar_chunks a)) - ck_used (last (ar_chunks a))"
      by (simp add: bump_def Let_def split: if_splits)
    then have "sz \<le> ck_cap (last (ar_chunks a))" by linarith
    with assms(1) show ?case by linarith
  next
    case (failed a a')
    have "chunk_new mal cap a \<noteq> None" for cap using assms(2) by (simp add: chunk_new_def)
    with arena_grow_failed_cases [OF failed] show ?case by auto
  next
    case (crash a)
    with arena_grow_no_crash show ?case by blast
  next
    case (grown a a' r)
    from grown(2) obtain c cap where "chunk_new mal cap a = Some c" "cap \<le> CHUNK_MAX"
      "a' = a\<lparr>ar_chunks := ar_chunks a @ [c], ar_total := ar_total a + cap\<rparr>"
      by (rule arena_grow_cases) blast
    with grown(3) show ?case by (auto simp: chunk_new_def)
  qed
  with assms(3-5) show ?thesis by (cases "alloc_loop pol mal sz al a") blast+
qed

text \<open>The footprint: each growth is admitted by the cap before it is rounded up to a chunk.\<close>

lemma alloc_loop_total:
  "alloc_loop pol mal sz al a = Some (AGot p a') \<Longrightarrow> 0 < sz \<Longrightarrow>
     ar_hard_cap a' = ar_hard_cap a \<and>
     (ar_hard_cap a \<noteq> 0 \<longrightarrow> ar_total a' \<le> max (ar_total a) (ar_hard_cap a - 1 + CHUNK_MAX))"
proof (induction a "AGot p a'" rule: alloc_loop_induct)
  case (fits a)
  then show ?case by (auto simp: bump_def Let_def split: if_splits)
next
  case (failed a a'')
  then show ?case by (simp add: arena_oom_fn_def split: oom_policy.splits)
next
  case (grown a a'')
  from grown(2) obtain cap where "ar_hard_cap a = 0 \<or> ar_total a + sz \<le> ar_hard_cap a"
    "cap \<le> CHUNK_MAX" "ar_total a'' = ar_total a + cap" "ar_hard_cap a'' = ar_hard_cap a"
    by (rule arena_grow_cases) auto
  with grown show ?case by auto
qed

subsection \<open>A concrete \<open>malloc\<close>\<close>

text \<open>One that never reuses memory: it hands out the first aligned address past every chunk.\<close>

definition bump_malloc :: malloc where
  "bump_malloc a n =
     (let e = fold max (map (\<lambda>c. unat (ck_addr c) + HDR + ck_cap c) (ar_chunks a)) 4096;
          p = (e + 15) div 16 * 16
      in if p + n < 2 ^ 63 then Some (of_nat p) else None)"

lemma fold_max_ge: "(x :: nat) \<in> set xs \<or> x \<le> m \<Longrightarrow> x \<le> fold max xs m"
proof (induction xs arbitrary: m)
  case (Cons y xs)
  then have "x \<in> set xs \<or> x \<le> max y m" by (auto simp: le_max_iff_disj)
  then show ?case using Cons.IH [of "max y m"] by simp
qed simp

lemma bump_malloc_ok: "mal_ok bump_malloc"
  unfolding mal_ok_def
proof (intro allI impI)
  fix a n p
  assume "bump_malloc a n = Some p"
  define e where "e = fold max (map (\<lambda>c. unat (ck_addr c) + HDR + ck_cap c) (ar_chunks a)) 4096"
  define q where "q = (e + 15) div 16 * 16"
  from \<open>bump_malloc a n = Some p\<close> have p: "p = of_nat q" "q + n < 2 ^ 63"
    by (auto simp: bump_malloc_def e_def [symmetric] q_def [symmetric] Let_def split: if_splits)
  then have uq: "unat p = q" by (simp add: unat_of_nat64)
  have "e \<le> q" unfolding q_def using round_up_bounds(1) [of 16 e] by simp
  have "disjoint (ck_range c) (unat p, n)" if "c \<in> set (ar_chunks a)" for c
  proof -
    have "unat (ck_addr c) + HDR + ck_cap c \<le> e" unfolding e_def using that by (intro fold_max_ge) auto
    with \<open>e \<le> q\<close> uq show ?thesis by (simp add: ck_range_def)
  qed
  moreover have "16 dvd unat p" by (simp add: uq q_def)
  ultimately show "16 dvd unat p \<and> unat p + n < 2 ^ 63 \<and>
      (\<forall>c \<in> set (ar_chunks a). disjoint (ck_range c) (unat p, n))"
    using p uq by simp
qed

lemmas arena_eval = cerco_arena_init_def cerco_arena_alloc_def cerco_arena_alloc_aligned_def
  arena_grow_def chunk_new_def bump_malloc_def bump_def align_up_def HDR_def CHUNK_MAX_def Let_def

subsection \<open>Properties\<close>



text \<open>An allocation from a live arena returns whenever the arena has a hard cap or the block is
  at most 4 MiB; it never writes through NULL, and under an installed handler a NULL result means
  the failure is latched in the arena.\<close>

theorem arena_alloc_returns:
  assumes "mal_ok mal" "arena_wf a" "ar_chunks a \<noteq> []" "0 < n" "ar_hard_cap a \<noteq> 0 \<or> n \<le> CHUNK_MAX"
  shows "\<exists>r. cerco_arena_alloc pol mal n a = Some r \<and> r \<noteq> ACrash \<and>
             (r = AAbort \<longleftrightarrow> pol = Oom_abort \<and> (\<forall>p a'. r \<noteq> AGot p a')) \<and>
             (\<forall>a'. r = ANull a' \<longrightarrow> cerco_arena_failed a')"
proof -
  have "alloc_loop pol mal n 8 a \<noteq> None"
    using assms alloc_terminates alloc_terminates_capped by blast
  then obtain r where r: "cerco_arena_alloc pol mal n a = Some r"
    using assms(3,4) by (auto simp: cerco_arena_alloc_def cerco_arena_alloc_aligned_def)
  from alloc_post [OF assms(1-4) r] r show ?thesis
    by (cases r) (auto simp: alloc_post_def cerco_arena_failed_def)
qed

theorem arena_alloc_returns_witness:
  "\<exists>r. cerco_arena_alloc Oom_handler bump_malloc 5000 (cerco_arena_init bump_malloc 64 300) = Some r \<and> r \<noteq> ACrash"
proof -
  have wf: "arena_wf (cerco_arena_init bump_malloc 64 300)" by (rule arena_init_wf [OF bump_malloc_ok])
  have "ar_chunks (cerco_arena_init bump_malloc 64 300) \<noteq> []"
    and "ar_hard_cap (cerco_arena_init bump_malloc 64 300) \<noteq> 0 \<or> 5000 \<le> CHUNK_MAX"
    by (simp_all add: arena_eval)
  from arena_alloc_returns [OF bump_malloc_ok wf this(1) _ this(2), of Oom_handler] show ?thesis by auto
qed

text \<open>Without a hard cap a request above 4 MiB never returns while \<open>malloc\<close> succeeds: each round
  adds another 4 MiB chunk that still cannot hold it.\<close>

theorem arena_alloc_diverges:
  assumes "\<And>a n. mal a n \<noteq> None" "CHUNK_MAX < n" "first \<le> CHUNK_MAX"
  shows "cerco_arena_alloc pol mal n (cerco_arena_init mal first 0) = None"
proof (cases rule: arena_init_cases [of mal 0 first])
  case (1 c first')
  then have "ck_cap c = first'" by (auto simp: chunk_new_def)
  with 1(2) assms(3) have "ck_cap c \<le> CHUNK_MAX" by (simp add: CHUNK_MAX_def)
  with 1(3) have "alloc_loop pol mal n 8 (cerco_arena_init mal first 0) = None"
    by (intro alloc_loop_diverges assms) simp_all
  with 1(3) assms(2) show ?thesis
    by (simp add: cerco_arena_alloc_def cerco_arena_alloc_aligned_def CHUNK_MAX_def)
next
  case 2
  with assms(1) [of "\<lparr>ar_chunks = [], ar_total = 0, ar_hard_cap = 0, ar_oom = False\<rparr>"] show ?thesis
    by (simp add: cerco_arena_init_def Let_def chunk_new_def split: option.splits)
       (metis option.distinct(1))
qed

theorem arena_alloc_diverges_witness:
  "cerco_arena_alloc Oom_abort (\<lambda>a n. Some 4096) 5000000 (cerco_arena_init (\<lambda>a n. Some 4096) 16384 0) = None"
  by (rule arena_alloc_diverges) (simp_all add: CHUNK_MAX_def)

text \<open>The hard cap bounds the footprint of an arena only up to one chunk: a successful allocation
  leaves at most \<open>hard_cap - 1\<close> bytes and a 4 MiB chunk, not \<open>hard_cap\<close>. (The witness is an arena
  capped at 150 bytes that holds 192.)\<close>

theorem arena_hard_cap_bound:
  assumes "cerco_arena_alloc pol mal n a = Some (AGot p a')" "ar_chunks a \<noteq> []" "ar_hard_cap a \<noteq> 0"
  shows "ar_total a' \<le> max (ar_total a) (ar_hard_cap a - 1 + CHUNK_MAX) \<and> ar_hard_cap a' = ar_hard_cap a"
  using assms alloc_loop_total [of pol mal "if n = 0 then 1 else n" 8 a p a']
  by (simp add: cerco_arena_alloc_def cerco_arena_alloc_aligned_def Let_def split: if_splits)

theorem arena_hard_cap_bound_witness:
  "\<exists>p a'. cerco_arena_alloc Oom_abort bump_malloc 80 (cerco_arena_init bump_malloc 64 150) = Some (AGot p a') \<and>
          ar_total a' = 192 \<and> ar_hard_cap a' = 150 \<and> 192 \<le> max 64 (149 + CHUNK_MAX)"
proof -
  let ?a = "cerco_arena_init bump_malloc 64 150"
  obtain p a' where a': "cerco_arena_alloc Oom_abort bump_malloc 80 ?a = Some (AGot p a')" "ar_total a' = 192"
    by (simp add: arena_eval alloc_loop.simps)
  have i: "ar_chunks ?a \<noteq> []" "ar_hard_cap ?a = 150" "ar_total ?a = 64" by (simp_all add: arena_eval)
  from arena_hard_cap_bound [OF a'(1) i(1)] i a' show ?thesis by auto
qed

end
