(* ===== verification/Wire.thy ===== *)
theory Wire
  imports Cerco_Prelude
begin

text \<open>
  \<open>runtime/shared/wire.c\<close>: the binary codec of server functions, used by the server and by
  the wasm client. The \<open>as\<close> union of \<open>cerco_wval\<close> is its 64 bits; \<open>as.i32\<close> and \<open>as.b\<close> are
  the low ones (both targets are little-endian) and \<open>as.f64\<close> is its bit pattern.
\<close>

definition WT_I32 :: byte where "WT_I32 = 0"
definition WT_I64 :: byte where "WT_I64 = 1"
definition WT_F64 :: byte where "WT_F64 = 2"
definition WT_BOOL :: byte where "WT_BOOL = 3"
definition WT_STR :: byte where "WT_STR = 4"
definition WT_BYTES :: byte where "WT_BYTES = 5"

lemmas WT_defs = WT_I32_def WT_I64_def WT_F64_def WT_BOOL_def WT_STR_def WT_BYTES_def

record cerco_wval =
  wv_type :: byte
  wv_as :: u64
  wv_bytes :: "byte list"

definition as_i32 :: "cerco_wval \<Rightarrow> u32" where "as_i32 v = ucast (wv_as v)"
definition as_b :: "cerco_wval \<Rightarrow> byte" where "as_b v = ucast (wv_as v)"

subsection \<open>Reader\<close>

record cerco_wreader =
  wr_p :: "byte list"
  wr_pos :: nat
  wr_err :: bool

definition cerco_wreader_init :: "byte list \<Rightarrow> cerco_wreader" where
  "cerco_wreader_init data = \<lparr>wr_p = data, wr_pos = 0, wr_err = False\<rparr>"

definition r_take :: "nat \<Rightarrow> cerco_wreader \<Rightarrow> byte list option \<times> cerco_wreader" where
  "r_take n r =
     (if wr_err r \<or> n > length (wr_p r) - wr_pos r then (None, r\<lparr>wr_err := True\<rparr>)
      else (Some (take n (drop (wr_pos r) (wr_p r))), r\<lparr>wr_pos := wr_pos r + n\<rparr>))"

definition cerco_r_u8 :: "cerco_wreader \<Rightarrow> byte \<times> cerco_wreader" where
  "cerco_r_u8 r = (case r_take 1 r of (Some p, r') \<Rightarrow> (p ! 0, r') | (None, r') \<Rightarrow> (0, r'))"

definition le32 :: "byte list \<Rightarrow> u32" where
  "le32 p = ucast (p ! 0) OR push_bit 8 (ucast (p ! 1)) OR push_bit 16 (ucast (p ! 2)) OR
            push_bit 24 (ucast (p ! 3))"

definition le64 :: "byte list \<Rightarrow> u64" where
  "le64 p = ucast (p ! 0) OR push_bit 8 (ucast (p ! 1)) OR push_bit 16 (ucast (p ! 2)) OR
            push_bit 24 (ucast (p ! 3)) OR push_bit 32 (ucast (p ! 4)) OR push_bit 40 (ucast (p ! 5)) OR
            push_bit 48 (ucast (p ! 6)) OR push_bit 56 (ucast (p ! 7))"

definition cerco_r_u32 :: "cerco_wreader \<Rightarrow> u32 \<times> cerco_wreader" where
  "cerco_r_u32 r = (case r_take 4 r of (Some p, r') \<Rightarrow> (le32 p, r') | (None, r') \<Rightarrow> (0, r'))"

definition cerco_r_u64 :: "cerco_wreader \<Rightarrow> u64 \<times> cerco_wreader" where
  "cerco_r_u64 r = (case r_take 8 r of (Some p, r') \<Rightarrow> (le64 p, r') | (None, r') \<Rightarrow> (0, r'))"

text \<open>\<open>cerco_r_val\<close> returns the value when the code returns 1.\<close>

definition cerco_r_val :: "cerco_wreader \<Rightarrow> cerco_wval option \<times> cerco_wreader" where
  "cerco_r_val r =
     (let (t, r1) = cerco_r_u8 r in
      if wr_err r1 then (None, r1)
      else
        let out = \<lparr>wv_type = t, wv_as = 0, wv_bytes = []\<rparr> in
        if t = WT_I32 \<or> t = WT_BOOL then
          let (x, r2) = cerco_r_u32 r1
          in (if wr_err r2 then None else Some (out\<lparr>wv_as := ucast x\<rparr>), r2)
        else if t = WT_I64 \<or> t = WT_F64 then
          let (x, r2) = cerco_r_u64 r1
          in (if wr_err r2 then None else Some (out\<lparr>wv_as := x\<rparr>), r2)
        else if t = WT_STR \<or> t = WT_BYTES then
          let (len, r2) = cerco_r_u32 r1
          in (case r_take (unat len) r2 of
                (Some p, r3) \<Rightarrow> (Some (out\<lparr>wv_bytes := p\<rparr>), r3)
              | (None, r3) \<Rightarrow> (None, r3))
        else (None, r1\<lparr>wr_err := True\<rparr>))"

subsection \<open>Writer\<close>

text \<open>\<open>ww_out\<close> is the first \<open>pos\<close> bytes of the caller's buffer.\<close>

record cerco_wwriter =
  ww_out :: "byte list"
  ww_cap :: nat
  ww_err :: bool

definition cerco_wwriter_init :: "nat \<Rightarrow> cerco_wwriter" where
  "cerco_wwriter_init cap = \<lparr>ww_out = [], ww_cap = cap, ww_err = False\<rparr>"

text \<open>\<open>w_take\<close> together with the stores through the pointer it returns.\<close>

definition w_take :: "byte list \<Rightarrow> cerco_wwriter \<Rightarrow> cerco_wwriter" where
  "w_take bs w =
     (if ww_err w \<or> length bs > ww_cap w - length (ww_out w) then w\<lparr>ww_err := True\<rparr>
      else w\<lparr>ww_out := ww_out w @ bs\<rparr>)"

definition cerco_w_u8 :: "byte \<Rightarrow> cerco_wwriter \<Rightarrow> cerco_wwriter" where
  "cerco_w_u8 v = w_take [v]"

definition bytes32 :: "u32 \<Rightarrow> byte list" where
  "bytes32 v = [ucast v, ucast (drop_bit 8 v), ucast (drop_bit 16 v), ucast (drop_bit 24 v)]"

definition w_u64_raw :: "u64 \<Rightarrow> byte list" where
  "w_u64_raw v = map (\<lambda>i. ucast (drop_bit (i * 8) v)) [0..<8]"

definition cerco_w_u32 :: "u32 \<Rightarrow> cerco_wwriter \<Rightarrow> cerco_wwriter" where
  "cerco_w_u32 v = w_take (bytes32 v)"

definition cerco_w_u64 :: "u64 \<Rightarrow> cerco_wwriter \<Rightarrow> cerco_wwriter" where
  "cerco_w_u64 v = w_take (w_u64_raw v)"

definition cerco_w_f64 :: "u64 \<Rightarrow> cerco_wwriter \<Rightarrow> cerco_wwriter" where
  "cerco_w_f64 bits = cerco_w_u64 bits"

definition cerco_w_val :: "cerco_wval \<Rightarrow> cerco_wwriter \<Rightarrow> cerco_wwriter" where
  "cerco_w_val v w =
     (let w1 = cerco_w_u8 (wv_type v) w; t = wv_type v in
      if t = WT_I32 then cerco_w_u32 (as_i32 v) w1
      else if t = WT_BOOL then cerco_w_u32 (if as_b v \<noteq> 0 then 1 else 0) w1
      else if t = WT_I64 then cerco_w_u64 (wv_as v) w1
      else if t = WT_F64 then cerco_w_f64 (wv_as v) w1
      else if t = WT_STR \<or> t = WT_BYTES then
        let w2 = cerco_w_u32 (of_nat (length (wv_bytes v))) w1
        in if wv_bytes v \<noteq> [] then w_take (wv_bytes v) w2 else w2
      else w1\<lparr>ww_err := True\<rparr>)"

definition cerco_wval_size :: "cerco_wval \<Rightarrow> nat" where
  "cerco_wval_size v =
     (let t = wv_type v in
      if t = WT_I32 \<or> t = WT_BOOL then 1 + 4
      else if t = WT_I64 \<or> t = WT_F64 then 1 + 8
      else if t = WT_STR \<or> t = WT_BYTES then 1 + 4 + length (wv_bytes v)
      else 1)"

subsection \<open>Integers on the wire\<close>

text \<open>One byte of a word, put back where it came from.\<close>

lemma bit_byte_slice:
  fixes v :: "'a::len word"
  shows "bit (push_bit k (ucast (ucast (drop_bit k v) :: byte) :: 'a word)) n \<longleftrightarrow> k \<le> n \<and> n < k + 8 \<and> bit v n"
  by (auto simp: bit_simps dest: bit_imp_le_length)

lemma bit_byte_low:
  fixes v :: "'a::len word"
  shows "bit (ucast (ucast v :: byte) :: 'a word) n \<longleftrightarrow> n < 8 \<and> bit v n"
  using bit_byte_slice [of 0 v n] by simp

lemma le32_bytes32: "le32 (bytes32 v) = v"
proof (rule bit_word_eqI)
  fix n
  assume "n < LENGTH(32)"
  then have "n < 8 \<or> (8 \<le> n \<and> n < 16) \<or> (16 \<le> n \<and> n < 24) \<or> (24 \<le> n \<and> n < 32)" by auto
  then show "bit (le32 (bytes32 v)) n = bit v n"
    unfolding le32_def bytes32_def
    by (elim disjE) (simp_all add: bit_or_iff bit_byte_slice bit_byte_low del: push_bit_of_0)
qed

lemma le64_raw: "le64 (w_u64_raw v) = v"
proof (rule bit_word_eqI)
  fix n
  assume "n < LENGTH(64)"
  then have "n < 8 \<or> (8 \<le> n \<and> n < 16) \<or> (16 \<le> n \<and> n < 24) \<or> (24 \<le> n \<and> n < 32) \<or>
      (32 \<le> n \<and> n < 40) \<or> (40 \<le> n \<and> n < 48) \<or> (48 \<le> n \<and> n < 56) \<or> (56 \<le> n \<and> n < 64)" by auto
  moreover have "w_u64_raw v =
      [ucast v, ucast (drop_bit 8 v), ucast (drop_bit 16 v), ucast (drop_bit 24 v),
       ucast (drop_bit 32 v), ucast (drop_bit 40 v), ucast (drop_bit 48 v), ucast (drop_bit 56 v)]"
    by (simp add: w_u64_raw_def upt_rec)
  ultimately show "bit (le64 (w_u64_raw v)) n = bit v n"
    unfolding le64_def
    by (elim disjE) (simp_all add: bit_or_iff bit_byte_slice bit_byte_low)
qed

lemma length_bytes [simp]: "length (bytes32 v) = 4" "length (w_u64_raw w) = 8"
  by (simp_all add: bytes32_def w_u64_raw_def)

subsection \<open>Reading a sequence of values\<close>

fun read_n :: "('r \<Rightarrow> 'v option \<times> 'r) \<Rightarrow> nat \<Rightarrow> 'r \<Rightarrow> 'v list option \<times> 'r" where
  "read_n rd 0 r = (Some [], r)"
| "read_n rd (Suc n) r =
     (case rd r of
        (None, r') \<Rightarrow> (None, r')
      | (Some v, r') \<Rightarrow>
          (case read_n rd n r' of (None, r'') \<Rightarrow> (None, r'') | (Some vs, r'') \<Rightarrow> (Some (v # vs), r'')))"

text \<open>
  The contract between the two ends of the codec: what one end puts on the wire, a reader
  positioned at it takes off, leaving the rest. \<open>pos_at r bs\<close> says the reader has \<open>bs\<close> left.
\<close>

locale stream_codec =
  fixes put :: "'v \<Rightarrow> 'b list"
    and rd :: "'r \<Rightarrow> 'w option \<times> 'r"
    and pos_at :: "'r \<Rightarrow> 'b list \<Rightarrow> bool"
    and ok :: "'v \<Rightarrow> bool"
    and norm :: "'v \<Rightarrow> 'w"
  assumes rd_put: "ok v \<Longrightarrow> pos_at r (put v @ rest) \<Longrightarrow> \<exists>r'. rd r = (Some (norm v), r') \<and> pos_at r' rest"
begin

lemma read_n_put:
  "list_all ok vs \<Longrightarrow> pos_at r (concat (map put vs) @ rest) \<Longrightarrow>
     \<exists>r'. read_n rd (length vs) r = (Some (map norm vs), r') \<and> pos_at r' rest"
proof (induction vs arbitrary: r)
  case Nil
  then show ?case by simp
next
  case (Cons v vs)
  then obtain r1 where "rd r = (Some (norm v), r1)" "pos_at r1 (concat (map put vs) @ rest)"
    using rd_put [of v r "concat (map put vs) @ rest"] by auto
  with Cons show ?case by fastforce
qed

end

subsection \<open>The value codec\<close>

definition enc_val :: "cerco_wval \<Rightarrow> byte list" where
  "enc_val v = wv_type v #
     (let t = wv_type v in
      if t = WT_I32 then bytes32 (as_i32 v)
      else if t = WT_BOOL then bytes32 (if as_b v \<noteq> 0 then 1 else 0)
      else if t = WT_I64 \<or> t = WT_F64 then w_u64_raw (wv_as v)
      else bytes32 (of_nat (length (wv_bytes v))) @ wv_bytes v)"

text \<open>A value of a known type whose length fits the 32-bit field, and its canonical form.\<close>

definition wval_ok :: "cerco_wval \<Rightarrow> bool" where
  "wval_ok v = (wv_type v \<in> {WT_I32, WT_BOOL, WT_I64, WT_F64} \<or>
                wv_type v \<in> {WT_STR, WT_BYTES} \<and> length (wv_bytes v) < 2 ^ 32)"

definition norm_val :: "cerco_wval \<Rightarrow> cerco_wval" where
  "norm_val v =
     (let t = wv_type v in
      if t = WT_I32 then v\<lparr>wv_as := ucast (as_i32 v), wv_bytes := []\<rparr>
      else if t = WT_BOOL then v\<lparr>wv_as := (if as_b v \<noteq> 0 then 1 else 0), wv_bytes := []\<rparr>
      else if t = WT_I64 \<or> t = WT_F64 then v\<lparr>wv_bytes := []\<rparr>
      else v\<lparr>wv_as := 0\<rparr>)"

definition rd_at :: "cerco_wreader \<Rightarrow> byte list \<Rightarrow> bool" where
  "rd_at r bs = (\<not> wr_err r \<and> wr_pos r \<le> length (wr_p r) \<and> drop (wr_pos r) (wr_p r) = bs)"

lemma rd_at_init: "rd_at (cerco_wreader_init bs) bs"
  by (simp add: rd_at_def cerco_wreader_init_def)

lemma r_take_at:
  assumes "rd_at r (bs @ rest)" "length bs = n"
  shows "\<exists>r'. r_take n r = (Some bs, r') \<and> rd_at r' rest \<and> \<not> wr_err r'"
proof -
  from assms(1) have d: "drop (wr_pos r) (wr_p r) = bs @ rest" and "wr_pos r \<le> length (wr_p r)" "\<not> wr_err r"
    by (auto simp: rd_at_def)
  moreover from d have "length (wr_p r) - wr_pos r = length (bs @ rest)" by (metis length_drop)
  moreover have "drop (wr_pos r + n) (wr_p r) = rest"
    using d assms(2) by (metis add.commute append_eq_conv_conj drop_drop)
  ultimately show ?thesis using assms(2) by (auto simp: r_take_def rd_at_def)
qed

lemma r_u8_at: "rd_at r (b # rest) \<Longrightarrow> \<exists>r'. cerco_r_u8 r = (b, r') \<and> rd_at r' rest \<and> \<not> wr_err r'"
  using r_take_at [of r "[b]" rest 1] by (auto simp: cerco_r_u8_def)

lemma r_u32_at: "rd_at r (bytes32 x @ rest) \<Longrightarrow> \<exists>r'. cerco_r_u32 r = (x, r') \<and> rd_at r' rest \<and> \<not> wr_err r'"
  using r_take_at [of r "bytes32 x" rest 4] by (auto simp: cerco_r_u32_def le32_bytes32)

lemma r_u64_at: "rd_at r (w_u64_raw x @ rest) \<Longrightarrow> \<exists>r'. cerco_r_u64 r = (x, r') \<and> rd_at r' rest \<and> \<not> wr_err r'"
  using r_take_at [of r "w_u64_raw x" rest 8] by (auto simp: cerco_r_u64_def le64_raw)

lemma unat_of_nat32: "n < 2 ^ 32 \<Longrightarrow> unat (of_nat n :: u32) = n"
  by (simp add: unat_of_nat)

lemma r_val_at:
  assumes "wval_ok v" "rd_at r (enc_val v @ rest)"
  shows "\<exists>r'. cerco_r_val r = (Some (norm_val v), r') \<and> rd_at r' rest"
proof -
  define body where "body = tl (enc_val v)"
  from assms(2) have "rd_at r (wv_type v # body @ rest)" by (simp add: enc_val_def body_def)
  then obtain r1 where r1: "cerco_r_u8 r = (wv_type v, r1)" "rd_at r1 (body @ rest)" "\<not> wr_err r1"
    using r_u8_at by blast
  consider "wv_type v = WT_I32" | "wv_type v = WT_BOOL" | "wv_type v = WT_I64 \<or> wv_type v = WT_F64"
    | "wv_type v = WT_STR \<or> wv_type v = WT_BYTES" "length (wv_bytes v) < 2 ^ 32"
    using assms(1) by (auto simp: wval_ok_def)
  then show ?thesis
  proof cases
    case 1
    then have "body = bytes32 (as_i32 v)" by (simp add: body_def enc_val_def)
    with r1 obtain r2 where "cerco_r_u32 r1 = (as_i32 v, r2)" "rd_at r2 rest" "\<not> wr_err r2"
      using r_u32_at by metis
    with r1 1 show ?thesis by (auto simp: cerco_r_val_def norm_val_def)
  next
    case 2
    then have "body = bytes32 (if as_b v \<noteq> 0 then 1 else 0)" by (simp add: body_def enc_val_def WT_defs)
    with r1 obtain r2 where "cerco_r_u32 r1 = (if as_b v \<noteq> 0 then 1 else 0, r2)" "rd_at r2 rest" "\<not> wr_err r2"
      using r_u32_at by metis
    with r1 2 show ?thesis by (auto simp: cerco_r_val_def norm_val_def WT_defs)
  next
    case 3
    then have "body = w_u64_raw (wv_as v)" by (auto simp: body_def enc_val_def WT_defs)
    with r1 obtain r2 where "cerco_r_u64 r1 = (wv_as v, r2)" "rd_at r2 rest" "\<not> wr_err r2"
      using r_u64_at by metis
    with r1 3 show ?thesis by (auto simp: cerco_r_val_def norm_val_def WT_defs)
  next
    case 4
    then have "body = bytes32 (of_nat (length (wv_bytes v))) @ wv_bytes v" by (auto simp: body_def enc_val_def WT_defs)
    with r1 obtain r2 where r2: "cerco_r_u32 r1 = (of_nat (length (wv_bytes v)), r2)" "rd_at r2 (wv_bytes v @ rest)"
      using r_u32_at by (metis append.assoc)
    from r_take_at [OF r2(2) refl] obtain r3 where "r_take (length (wv_bytes v)) r2 = (Some (wv_bytes v), r3)" "rd_at r3 rest"
      by blast
    with r1 r2 4 show ?thesis by (auto simp: cerco_r_val_def norm_val_def WT_defs unat_of_nat32)
  qed
qed

interpretation wire: stream_codec enc_val cerco_r_val rd_at wval_ok norm_val
  by unfold_locales (rule r_val_at)

lemma w_take_room: "\<not> ww_err w \<Longrightarrow> length (ww_out w) + length bs \<le> ww_cap w \<Longrightarrow>
    w_take bs w = w\<lparr>ww_out := ww_out w @ bs\<rparr>"
  by (simp add: w_take_def)

lemma w_val_room:
  assumes "wval_ok v" "\<not> ww_err w" "length (ww_out w) + length (enc_val v) \<le> ww_cap w"
  shows "cerco_w_val v w = w\<lparr>ww_out := ww_out w @ enc_val v\<rparr>"
proof -
  note defs = cerco_w_val_def enc_val_def Let_def cerco_w_u8_def cerco_w_u32_def cerco_w_u64_def
    cerco_w_f64_def WT_defs
  consider "wv_type v = WT_I32" | "wv_type v = WT_BOOL" | "wv_type v = WT_I64" | "wv_type v = WT_F64"
    | "wv_type v = WT_STR" | "wv_type v = WT_BYTES"
    using assms(1) by (auto simp: wval_ok_def)
  then show ?thesis
    by cases (use assms(2,3) in \<open>simp_all add: defs w_take_room\<close>)
qed

lemma length_enc_val: "wval_ok v \<Longrightarrow> length (enc_val v) = cerco_wval_size v"
  by (auto simp: enc_val_def cerco_wval_size_def wval_ok_def WT_defs)

lemma fold_w_val_room:
  "list_all wval_ok vs \<Longrightarrow> \<not> ww_err w \<Longrightarrow>
     length (ww_out w) + sum_list (map cerco_wval_size vs) \<le> ww_cap w \<Longrightarrow>
     fold cerco_w_val vs w = w\<lparr>ww_out := ww_out w @ concat (map enc_val vs)\<rparr>"
proof (induction vs arbitrary: w)
  case (Cons v vs)
  then show ?case by (simp add: w_val_room length_enc_val)
qed simp

subsection \<open>Reading untrusted bytes\<close>

definition rd_ext :: "cerco_wreader \<Rightarrow> nat \<Rightarrow> cerco_wreader \<Rightarrow> bool" where
  "rd_ext r n r' = (wr_p r' = wr_p r \<and> wr_pos r' = wr_pos r + n \<and> wr_pos r' \<le> length (wr_p r))"

lemma r_take_cases:
  assumes "wr_pos r \<le> length (wr_p r)"
  obtains p r' where "r_take n r = (Some p, r')" "length p = n" "rd_ext r n r'" "wr_err r' = wr_err r" "\<not> wr_err r"
  | r' where "r_take n r = (None, r')" "rd_ext r 0 r'" "wr_err r'"
proof (cases "wr_err r \<or> n > length (wr_p r) - wr_pos r")
  case True
  then show thesis using that(2) [of "r\<lparr>wr_err := True\<rparr>"] assms by (simp add: r_take_def rd_ext_def)
next
  case False
  with assms have "wr_pos r + n \<le> length (wr_p r)" by linarith
  with False show thesis
    using that(1) [of "take n (drop (wr_pos r) (wr_p r))" "r\<lparr>wr_pos := wr_pos r + n\<rparr>"] assms
    by (simp add: r_take_def rd_ext_def)
qed

lemma r_u8_cases:
  assumes "wr_pos r \<le> length (wr_p r)" "cerco_r_u8 r = (x, r')"
  shows "if wr_err r' then rd_ext r 0 r' else rd_ext r 1 r'"
  using assms(2) by (cases rule: r_take_cases [OF assms(1), of 1]) (auto simp: cerco_r_u8_def)

lemma r_u32_cases:
  assumes "wr_pos r \<le> length (wr_p r)" "cerco_r_u32 r = (x, r')"
  shows "if wr_err r' then rd_ext r 0 r' else rd_ext r 4 r'"
  using assms(2) by (cases rule: r_take_cases [OF assms(1), of 4]) (auto simp: cerco_r_u32_def)

lemma r_u64_cases:
  assumes "wr_pos r \<le> length (wr_p r)" "cerco_r_u64 r = (x, r')"
  shows "if wr_err r' then rd_ext r 0 r' else rd_ext r 8 r'"
  using assms(2) by (cases rule: r_take_cases [OF assms(1), of 8]) (auto simp: cerco_r_u64_def)

lemma rd_ext_pos: "rd_ext r n r' \<Longrightarrow> wr_pos r' \<le> length (wr_p r')"
  by (simp add: rd_ext_def)

lemma rd_ext_trans: "rd_ext r m r1 \<Longrightarrow> rd_ext r1 n r2 \<Longrightarrow> rd_ext r (m + n) r2"
  by (simp add: rd_ext_def)

text \<open>The outcome of reading one value, whatever the bytes are.\<close>

definition val_post :: "cerco_wreader \<Rightarrow> cerco_wval option \<Rightarrow> cerco_wreader \<Rightarrow> bool" where
  "val_post r res r' =
     (case res of
        None \<Rightarrow> wr_err r' \<and> (\<exists>n. rd_ext r n r')
      | Some v \<Rightarrow> \<not> wr_err r' \<and> rd_ext r (cerco_wval_size v) r')"

lemma r_val_post:
  assumes "wr_pos r \<le> length (wr_p r)" "cerco_r_val r = (res, r')"
  shows "val_post r res r'"
proof -
  obtain t r1 where u8: "cerco_r_u8 r = (t, r1)" by (cases "cerco_r_u8 r")
  show ?thesis
  proof (cases "wr_err r1")
    case True
    with u8 r_u8_cases [OF assms(1) u8] assms(2) show ?thesis
      by (auto simp: cerco_r_val_def val_post_def)
  next
    case False
    with r_u8_cases [OF assms(1) u8] have e1: "rd_ext r 1 r1" by simp
    then have p1: "wr_pos r1 \<le> length (wr_p r1)" by (rule rd_ext_pos)
    obtain x r2 where u32: "cerco_r_u32 r1 = (x, r2)" by (cases "cerco_r_u32 r1")
    obtain y r3 where u64: "cerco_r_u64 r1 = (y, r3)" by (cases "cerco_r_u64 r1")
    from r_u32_cases [OF p1 u32] rd_ext_trans [OF e1]
    have e2: "if wr_err r2 then rd_ext r 1 r2 else rd_ext r 5 r2"
      by (force split: if_splits)
    from r_u64_cases [OF p1 u64] rd_ext_trans [OF e1]
    have e3: "if wr_err r3 then rd_ext r 1 r3 else rd_ext r 9 r3"
      by (force split: if_splits)
    have p2: "wr_pos r2 \<le> length (wr_p r2)"
      using e2 rd_ext_pos [of r _ r2] by (auto split: if_splits)
    consider "t = WT_I32 \<or> t = WT_BOOL" | "t = WT_I64 \<or> t = WT_F64" | "t = WT_STR \<or> t = WT_BYTES"
      | "t \<notin> {WT_I32, WT_BOOL, WT_I64, WT_F64, WT_STR, WT_BYTES}" by blast
    then show ?thesis
    proof cases
      case 1
      with u8 False u32 e2 assms(2) show ?thesis
        by (auto simp: cerco_r_val_def val_post_def cerco_wval_size_def split: if_splits)
    next
      case 2
      with u8 False u64 e3 assms(2) show ?thesis
        by (auto simp: cerco_r_val_def val_post_def cerco_wval_size_def WT_defs split: if_splits)
    next
      case 3
      show ?thesis
      proof (cases rule: r_take_cases [OF p2, of "unat x"])
        case (1 p r4)
        with e2 have "rd_ext r (5 + unat x) r4" by (auto dest: rd_ext_trans)
        with 1 3 u8 False u32 assms(2) show ?thesis
          by (auto simp: cerco_r_val_def val_post_def cerco_wval_size_def WT_defs)
      next
        case (2 r4)
        with e2 have "\<exists>n. rd_ext r n r4" by (auto dest: rd_ext_trans split: if_splits)
        with 2 3 u8 False u32 assms(2) show ?thesis
          by (auto simp: cerco_r_val_def val_post_def WT_defs)
      qed
    next
      case 4
      with u8 False e1 assms(2) show ?thesis
        by (auto simp: cerco_r_val_def val_post_def rd_ext_def)
    qed
  qed
qed

subsection \<open>Properties\<close>

text \<open>C37: Values written one after another into a buffer of exactly the announced size are read back
  in order, in canonical form (a boolean as 0 or 1, unused union bits cleared), and every byte is
  consumed.\<close>

theorem wire_roundtrip:
  assumes "list_all wval_ok vs" "w = fold cerco_w_val vs (cerco_wwriter_init (sum_list (map cerco_wval_size vs)))"
  shows "\<not> ww_err w \<and> length (ww_out w) = sum_list (map cerco_wval_size vs) \<and>
         (\<exists>r. read_n cerco_r_val (length vs) (cerco_wreader_init (ww_out w)) = (Some (map norm_val vs), r) \<and>
              \<not> wr_err r \<and> wr_pos r = length (ww_out w))"
proof -
  have w: "w = (cerco_wwriter_init (sum_list (map cerco_wval_size vs)))\<lparr>ww_out := concat (map enc_val vs)\<rparr>"
    using fold_w_val_room [OF assms(1), of "cerco_wwriter_init (sum_list (map cerco_wval_size vs))"]
    by (simp add: assms(2) cerco_wwriter_init_def)
  have len: "length (concat (map enc_val vs)) = sum_list (map cerco_wval_size vs)"
    using assms(1) by (induction vs) (simp_all add: length_enc_val)
  from wire.read_n_put [OF assms(1), of "cerco_wreader_init (concat (map enc_val vs))" "[]"]
  obtain r where r: "read_n cerco_r_val (length vs) (cerco_wreader_init (concat (map enc_val vs))) = (Some (map norm_val vs), r)"
    "rd_at r []" by (auto simp: rd_at_init)
  have "wr_p r' = wr_p q" if "read_n cerco_r_val n q = (res, r')" "wr_pos q \<le> length (wr_p q)" for n q res r'
    using that
  proof (induction n arbitrary: q res r')
    case (Suc n)
    obtain v q1 where q1: "cerco_r_val q = (v, q1)" by (cases "cerco_r_val q")
    then obtain m where "rd_ext q m q1"
      using r_val_post [OF Suc.prems(2) q1] by (auto simp: val_post_def split: option.splits)
    with q1 Suc show ?case
      by (auto simp: rd_ext_def split: option.splits prod.splits)
  qed simp
  from this [OF r(1)] r(2) have "wr_pos r = length (concat (map enc_val vs))" "\<not> wr_err r"
    by (auto simp: rd_at_def cerco_wreader_init_def)
  with r(1) w len show ?thesis by (simp add: cerco_wwriter_init_def)
qed

theorem wire_roundtrip_witness:
  "\<exists>r. read_n cerco_r_val 2 (cerco_wreader_init
        (ww_out (fold cerco_w_val [\<lparr>wv_type = WT_BOOL, wv_as = 7, wv_bytes = []\<rparr>,
                                  \<lparr>wv_type = WT_STR, wv_as = 9, wv_bytes = [104, 105]\<rparr>]
                 (cerco_wwriter_init 12))))
     = (Some [\<lparr>wv_type = WT_BOOL, wv_as = 1, wv_bytes = []\<rparr>,
              \<lparr>wv_type = WT_STR, wv_as = 0, wv_bytes = [104, 105]\<rparr>], r)"
proof -
  let ?vs = "[\<lparr>wv_type = WT_BOOL, wv_as = 7, wv_bytes = []\<rparr>, \<lparr>wv_type = WT_STR, wv_as = 9, wv_bytes = [104, 105]\<rparr>]"
  have ok: "list_all wval_ok ?vs" by (simp add: wval_ok_def)
  have sz: "sum_list (map cerco_wval_size ?vs) = 12" by (simp add: cerco_wval_size_def WT_defs)
  have nm: "map norm_val ?vs = [\<lparr>wv_type = WT_BOOL, wv_as = 1, wv_bytes = []\<rparr>, \<lparr>wv_type = WT_STR, wv_as = 0, wv_bytes = [104, 105]\<rparr>]"
    by (simp add: norm_val_def as_b_def WT_defs)
  from wire_roundtrip [OF ok refl] show ?thesis
    unfolding sz nm by (simp add: numeral_2_eq_2 del: read_n.simps) blast
qed

text \<open>C38: Reading a value from arbitrary bytes never moves the reader out of its buffer: it either sets
  the error flag, or consumes exactly the encoded size of the value it returns.\<close>

theorem wire_reader_bounds:
  assumes "wr_pos r \<le> length (wr_p r)" "cerco_r_val r = (res, r')"
  shows "wr_p r' = wr_p r \<and> wr_pos r' \<le> length (wr_p r) \<and>
         (case res of None \<Rightarrow> wr_err r'
          | Some v \<Rightarrow> \<not> wr_err r' \<and> wr_pos r' = wr_pos r + cerco_wval_size v)"
  using r_val_post [OF assms] by (auto simp: val_post_def rd_ext_def split: option.splits)

theorem wire_reader_bounds_witness:
  "wr_err (snd (cerco_r_val (cerco_wreader_init [4, 255, 0, 0, 0, 65])))"
proof -
  have r: "cerco_r_val (cerco_wreader_init [4, 255, 0, 0, 0, 65])
      = (None, \<lparr>wr_p = [4, 255, 0, 0, 0, 65], wr_pos = 5, wr_err = True\<rparr>)"
    by (simp add: cerco_r_val_def cerco_wreader_init_def cerco_r_u8_def cerco_r_u32_def r_take_def le32_def WT_defs)
  show ?thesis using wire_reader_bounds [OF _ r] unfolding r by (simp add: cerco_wreader_init_def)
qed

end
