(* ===== verification/Sha256.thy ===== *)
theory Sha256
  imports Cstring
begin

text \<open>
  \<open>runtime/shared/sha256.c\<close>: the incremental SHA-256 of release assets and ETags.
  \<open>sc_block\<close> is the first \<open>used\<close> bytes of the context's \<open>block\<close>. The padding loop
  \<open>while (c->used != 56)\<close> is a partial function, so that its termination is a theorem.
\<close>

definition sha_K :: "u32 list" where
  "sha_K = concat
    [[0x428a2f98, 0x71374491, 0xb5c0fbcf, 0xe9b5dba5], [0x3956c25b, 0x59f111f1, 0x923f82a4, 0xab1c5ed5],
     [0xd807aa98, 0x12835b01, 0x243185be, 0x550c7dc3], [0x72be5d74, 0x80deb1fe, 0x9bdc06a7, 0xc19bf174],
     [0xe49b69c1, 0xefbe4786, 0x0fc19dc6, 0x240ca1cc], [0x2de92c6f, 0x4a7484aa, 0x5cb0a9dc, 0x76f988da],
     [0x983e5152, 0xa831c66d, 0xb00327c8, 0xbf597fc7], [0xc6e00bf3, 0xd5a79147, 0x06ca6351, 0x14292967],
     [0x27b70a85, 0x2e1b2138, 0x4d2c6dfc, 0x53380d13], [0x650a7354, 0x766a0abb, 0x81c2c92e, 0x92722c85],
     [0xa2bfe8a1, 0xa81a664b, 0xc24b8b70, 0xc76c51a3], [0xd192e819, 0xd6990624, 0xf40e3585, 0x106aa070],
     [0x19a4c116, 0x1e376c08, 0x2748774c, 0x34b0bcb5], [0x391c0cb3, 0x4ed8aa4a, 0x5b9cca4f, 0x682e6ff3],
     [0x748f82ee, 0x78a5636f, 0x84c87814, 0x8cc70208], [0x90befffa, 0xa4506ceb, 0xbef9a3f7, 0xc67178f2]]"

definition rotr :: "u32 \<Rightarrow> nat \<Rightarrow> u32" where
  "rotr x n = drop_bit n x OR push_bit (32 - n) x"

record cerco_sha256_ctx =
  sc_state :: "u32 list"
  sc_bits :: u64
  sc_block :: "byte list"

definition sha_w0 :: "byte list \<Rightarrow> u32 list" where
  "sha_w0 p = map (\<lambda>i. push_bit 24 (ucast (p ! (i * 4))) OR push_bit 16 (ucast (p ! (i * 4 + 1))) OR
                       push_bit 8 (ucast (p ! (i * 4 + 2))) OR ucast (p ! (i * 4 + 3))) [0..<16]"

definition sha_schedule_step :: "nat \<Rightarrow> u32 list \<Rightarrow> u32 list" where
  "sha_schedule_step i w =
     (let s0 = rotr (w ! (i - 15)) 7 XOR rotr (w ! (i - 15)) 18 XOR drop_bit 3 (w ! (i - 15));
          s1 = rotr (w ! (i - 2)) 17 XOR rotr (w ! (i - 2)) 19 XOR drop_bit 10 (w ! (i - 2))
      in w @ [w ! (i - 16) + s0 + w ! (i - 7) + s1])"

definition sha_w :: "byte list \<Rightarrow> u32 list" where
  "sha_w p = fold sha_schedule_step [16..<64] (sha_w0 p)"

type_synonym sha_regs = "u32 \<times> u32 \<times> u32 \<times> u32 \<times> u32 \<times> u32 \<times> u32 \<times> u32"

definition sha_round :: "u32 list \<Rightarrow> nat \<Rightarrow> sha_regs \<Rightarrow> sha_regs" where
  "sha_round w i regs =
     (case regs of (a, b, cc, d, e, f, g, h) \<Rightarrow>
        let S1 = rotr e 6 XOR rotr e 11 XOR rotr e 25;
            ch = (e AND f) XOR (NOT e AND g);
            t1 = h + S1 + ch + sha_K ! i + w ! i;
            S0 = rotr a 2 XOR rotr a 13 XOR rotr a 22;
            maj = (a AND b) XOR (a AND cc) XOR (b AND cc);
            t2 = S0 + maj
        in (t1 + t2, a, b, cc, d + t1, e, f, g))"

definition sha_block :: "u32 list \<Rightarrow> byte list \<Rightarrow> u32 list" where
  "sha_block st p =
     (let w = sha_w p;
          (a, b, cc, d, e, f, g, h) = fold (sha_round w) [0..<64]
            (st ! 0, st ! 1, st ! 2, st ! 3, st ! 4, st ! 5, st ! 6, st ! 7)
      in [st ! 0 + a, st ! 1 + b, st ! 2 + cc, st ! 3 + d,
          st ! 4 + e, st ! 5 + f, st ! 6 + g, st ! 7 + h])"

definition sha_iv :: "u32 list" where
  "sha_iv = [0x6a09e667, 0xbb67ae85, 0x3c6ef372, 0xa54ff53a,
             0x510e527f, 0x9b05688c, 0x1f83d9ab, 0x5be0cd19]"

definition cerco_sha256_init :: cerco_sha256_ctx where
  "cerco_sha256_init = \<lparr>sc_state = sha_iv, sc_bits = 0, sc_block = []\<rparr>"

text \<open>\<open>while (len >= 64) { sha_block(c, p); p += 64; len -= 64; }\<close>\<close>

function absorb :: "u32 list \<Rightarrow> byte list \<Rightarrow> u32 list \<times> byte list" where
  "absorb st p = (if 64 \<le> length p then absorb (sha_block st (take 64 p)) (drop 64 p) else (st, p))"
  by pat_completeness auto
termination
  by (relation "measure (\<lambda>(st, p). length p)") auto

declare absorb.simps [simp del]

definition cerco_sha256_update :: "byte list \<Rightarrow> cerco_sha256_ctx \<Rightarrow> cerco_sha256_ctx" where
  "cerco_sha256_update p c =
     (let c0 = c\<lparr>sc_bits := sc_bits c + of_nat (length p) * 8\<rparr>;
          (c1, p1) =
            (if sc_block c0 \<noteq> [] then
               let tk = 64 - length (sc_block c0);
                   tk = (if tk > length p then length p else tk);
                   blk = sc_block c0 @ take tk p
               in (if length blk = 64
                   then c0\<lparr>sc_state := sha_block (sc_state c0) blk, sc_block := []\<rparr>
                   else c0\<lparr>sc_block := blk\<rparr>, drop tk p)
             else (c0, p));
          (st, p2) = absorb (sc_state c1) p1
      in if p2 \<noteq> [] then c1\<lparr>sc_state := st, sc_block := p2\<rparr> else c1\<lparr>sc_state := st\<rparr>)"

partial_function (option) pad_zeros :: "cerco_sha256_ctx \<Rightarrow> cerco_sha256_ctx option" where
  "pad_zeros c =
     (if length (sc_block c) \<noteq> 56 then pad_zeros (cerco_sha256_update [0] c) else Some c)"

definition be64 :: "u64 \<Rightarrow> byte list" where
  "be64 bits = map (\<lambda>i. ucast (drop_bit (56 - i * 8) bits)) [0..<8]"

definition be32 :: "u32 \<Rightarrow> byte list" where
  "be32 s = [ucast (drop_bit 24 s), ucast (drop_bit 16 s), ucast (drop_bit 8 s), ucast s]"

definition cerco_sha256_final :: "cerco_sha256_ctx \<Rightarrow> byte list option" where
  "cerco_sha256_final c =
     (let bits = sc_bits c in
      case pad_zeros (cerco_sha256_update [0x80] c) of
        None \<Rightarrow> None
      | Some c1 \<Rightarrow> Some (concat (map be32 (sha_block (sc_state c1) (sc_block c1 @ be64 bits)))))"

definition cerco_sha256 :: "byte list \<Rightarrow> byte list option" where
  "cerco_sha256 data = cerco_sha256_final (cerco_sha256_update data cerco_sha256_init)"

definition cerco_sha256_hex :: "byte list \<Rightarrow> string option" where
  "cerco_sha256_hex data =
     map_option (concat \<circ> map (\<lambda>b. [hexd ! unat (drop_bit 4 b), hexd ! unat (b AND 0xf)])) (cerco_sha256 data)"

subsection \<open>Absorbing\<close>

lemma absorb_less: "length (snd (absorb st p)) < 64"
proof (induction st p rule: absorb.induct)
  case (1 st p)
  then show ?case by (subst absorb.simps) auto
qed

lemma absorb_append: "absorb st (p @ q) = (case absorb st p of (st', r) \<Rightarrow> absorb st' (r @ q))"
proof (induction st p rule: absorb.induct)
  case (1 st p)
  show ?case
  proof (cases "64 \<le> length p")
    case True
    then have "absorb st (p @ q) = absorb (sha_block st (take 64 p)) (drop 64 p @ q)"
      by (subst absorb.simps) simp
    with 1 True show ?thesis by (simp add: absorb.simps [of st p])
  next
    case False
    then show ?thesis by (simp add: absorb.simps [of st p])
  qed
qed

text \<open>The context after a message has been fed to it: the specification of \<open>update\<close>.\<close>

definition ctx_ok :: "cerco_sha256_ctx \<Rightarrow> bool" where
  "ctx_ok c = (length (sc_block c) < 64)"

lemma update_absorb:
  assumes "ctx_ok c"
  shows "cerco_sha256_update p c =
     (case absorb (sc_state c) (sc_block c @ p) of
        (st, r) \<Rightarrow> \<lparr>sc_state = st, sc_bits = sc_bits c + of_nat (length p) * 8, sc_block = r\<rparr>)"
proof (cases "sc_block c = []")
  case True
  obtain st r where "absorb (sc_state c) p = (st, r)" by (cases "absorb (sc_state c) p")
  with True show ?thesis by (simp add: cerco_sha256_update_def Let_def)
next
  case False
  show ?thesis
  proof (cases "64 - length (sc_block c) > length p")
    case True
    have "absorb (sc_state c) [] = (sc_state c, [])" by (simp add: absorb.simps)
    moreover have "absorb (sc_state c) (sc_block c @ p) = (sc_state c, sc_block c @ p)"
    proof -
      from True have "\<not> 64 \<le> length (sc_block c @ p)" by simp
      then show ?thesis by (subst absorb.simps) simp
    qed
    ultimately show ?thesis using False True by (simp add: cerco_sha256_update_def Let_def)
  next
    case full: False
    let ?tk = "64 - length (sc_block c)"
    from full have l: "?tk \<le> length p" by simp
    with assms have len: "length (sc_block c @ take ?tk p) = 64" by (simp add: ctx_ok_def)
    have "absorb (sc_state c) (sc_block c @ p)
        = absorb (sha_block (sc_state c) (sc_block c @ take ?tk p)) (drop ?tk p)"
    proof -
      from l assms have "64 \<le> length (sc_block c @ p)" by simp
      with l assms show ?thesis by (subst absorb.simps) (simp add: ctx_ok_def)
    qed
    with False full len show ?thesis
      by (cases "absorb (sha_block (sc_state c) (sc_block c @ take ?tk p)) (drop ?tk p)")
         (simp add: cerco_sha256_update_def Let_def)
  qed
qed

lemma update_ok [inv_rules]: "ctx_ok c \<Longrightarrow> ctx_ok (cerco_sha256_update p c)"
  using absorb_less [of "sc_state c" "sc_block c @ p"]
  by (cases "absorb (sc_state c) (sc_block c @ p)") (simp add: update_absorb ctx_ok_def)

lemma update_append:
  assumes "ctx_ok c"
  shows "cerco_sha256_update (p @ q) c = cerco_sha256_update q (cerco_sha256_update p c)"
proof -
  obtain st r where r: "absorb (sc_state c) (sc_block c @ p) = (st, r)" by (cases "absorb (sc_state c) (sc_block c @ p)")
  with absorb_append [of "sc_state c" "sc_block c @ p" q]
  have pq: "absorb (sc_state c) (sc_block c @ p @ q) = absorb st (r @ q)" by simp
  have up: "cerco_sha256_update p c = \<lparr>sc_state = st, sc_bits = sc_bits c + of_nat (length p) * 8, sc_block = r\<rparr>"
    using update_absorb [OF assms, of p] r by simp
  with update_ok [OF assms, of p] have ok: "ctx_ok \<lparr>sc_state = st, sc_bits = sc_bits c + of_nat (length p) * 8, sc_block = r\<rparr>"
    by simp
  show ?thesis
    unfolding up using update_absorb [OF assms, of "p @ q"] update_absorb [OF ok, of q] pq
    by (simp add: algebra_simps)
qed

lemma fold_update: "ctx_ok c \<Longrightarrow> fold cerco_sha256_update ps c = cerco_sha256_update (concat ps) c"
proof (induction ps arbitrary: c)
  case Nil
  then have "absorb (sc_state c) (sc_block c) = (sc_state c, sc_block c)"
    by (subst absorb.simps) (simp add: ctx_ok_def)
  with Nil show ?case by (simp add: update_absorb)
next
  case (Cons p ps)
  then show ?case by (simp add: update_append update_ok)
qed

subsection \<open>Padding\<close>

lemma update_one:
  assumes "ctx_ok c"
  shows "length (sc_block (cerco_sha256_update [b] c)) = (length (sc_block c) + 1) mod 64"
proof -
  have a: "absorb (sc_state c) (sc_block c @ [b]) =
      (if length (sc_block c) = 63 then (sha_block (sc_state c) (sc_block c @ [b]), [])
       else (sc_state c, sc_block c @ [b]))"
    using assms by (subst absorb.simps) (auto simp: ctx_ok_def absorb.simps)
  from assms have "length (sc_block c) = 63 \<or> length (sc_block c) < 63" by (auto simp: ctx_ok_def)
  then show ?thesis using assms by (auto simp: update_absorb a)
qed

text \<open>How many zeros are fed before the length: up to the next block boundary less 8.\<close>

definition zeros_needed :: "nat \<Rightarrow> nat" where
  "zeros_needed used = (120 - used) mod 64"

lemma zeros_needed_eq: "u < 64 \<Longrightarrow> zeros_needed u = (if u \<le> 56 then 56 - u else 120 - u)"
proof -
  assume "u < 64"
  show ?thesis
  proof (cases "u \<le> 56")
    case True
    then have "120 - u = 64 + (56 - u)" by simp
    then have "(120 - u) mod 64 = (56 - u) mod 64" by (simp only: mod_add_self1)
    moreover have "(56 - u) mod 64 = 56 - u" by (rule mod_less) simp
    ultimately show ?thesis using True by (simp only: zeros_needed_def if_True)
  next
    case False
    then have "(120 - u) mod 64 = 120 - u" by (intro mod_less) simp
    with False show ?thesis by (simp only: zeros_needed_def if_False)
  qed
qed

lemma zeros_step: "u < 64 \<Longrightarrow> u \<noteq> 56 \<Longrightarrow> zeros_needed u = Suc (zeros_needed ((u + 1) mod 64))"
proof -
  assume u: "u < 64" "u \<noteq> 56"
  show ?thesis
  proof (cases "u = 63")
    case True
    then show ?thesis by (simp add: zeros_needed_eq)
  next
    case False
    with u have "u + 1 < 64" "(u + 1) mod 64 = u + 1" by simp_all
    with u False show ?thesis by (simp add: zeros_needed_eq) linarith
  qed
qed

lemma pad_zeros_update:
  "ctx_ok c \<Longrightarrow>
     pad_zeros c = Some (cerco_sha256_update (replicate (zeros_needed (length (sc_block c))) 0) c) \<and>
     length (sc_block (cerco_sha256_update (replicate (zeros_needed (length (sc_block c))) 0) c)) = 56"
proof (induction "zeros_needed (length (sc_block c))" arbitrary: c)
  case 0
  have "length (sc_block c) = 56"
    using 0 zeros_step [of "length (sc_block c)"] by (auto simp: ctx_ok_def)
  then show ?case using 0 fold_update [of c "[]"] by (subst pad_zeros.simps) simp
next
  case (Suc n)
  then have lt: "length (sc_block c) < 64" by (simp add: ctx_ok_def)
  have "length (sc_block c) \<noteq> 56" using Suc by (auto simp: zeros_needed_def)
  with lt have z: "zeros_needed (length (sc_block c)) = Suc (zeros_needed (length (sc_block (cerco_sha256_update [0] c))))"
    using Suc(3) by (simp add: zeros_step update_one)
  with Suc have "n = zeros_needed (length (sc_block (cerco_sha256_update [0] c)))" by simp
  note IH = Suc.hyps(1) [OF this update_ok [OF Suc.prems]]
  have "cerco_sha256_update (0 # replicate m 0) c = cerco_sha256_update (replicate m 0) (cerco_sha256_update [0] c)" for m
    using update_append [OF Suc.prems, of "[0]" "replicate m 0"] by simp
  with IH z \<open>length (sc_block c) \<noteq> 56\<close> show ?case by (subst pad_zeros.simps) simp
qed

subsection \<open>Specification\<close>

text \<open>FIPS 180-4: the message, a one bit, zeros and the 64-bit length, hashed block by block.\<close>

definition sha_pad :: "byte list \<Rightarrow> byte list" where
  "sha_pad m = m @ 0x80 # replicate ((119 - length m mod 64) mod 64) 0 @ be64 (of_nat (length m) * 8)"

definition sha_spec :: "byte list \<Rightarrow> byte list" where
  "sha_spec m = concat (map be32 (fst (absorb sha_iv (sha_pad m))))"

lemma init_ok: "ctx_ok cerco_sha256_init"
  by (simp add: ctx_ok_def cerco_sha256_init_def)

lemma init_update:
  "cerco_sha256_update m cerco_sha256_init =
     (case absorb sha_iv m of (st, r) \<Rightarrow> \<lparr>sc_state = st, sc_bits = of_nat (length m) * 8, sc_block = r\<rparr>)"
  using update_absorb [OF init_ok, of m] by (simp add: cerco_sha256_init_def)

lemma absorb_length: "length (snd (absorb st p)) = length p mod 64"
proof (induction st p rule: absorb.induct)
  case (1 st p)
  show ?case
  proof (cases "64 \<le> length p")
    case True
    with 1 have "length (snd (absorb st p)) = (length p - 64) mod 64" by (simp add: absorb.simps [of st p])
    with True show ?thesis by (simp add: le_mod_geq)
  next
    case False
    then show ?thesis by (simp add: absorb.simps [of st p])
  qed
qed

lemma final_spec:
  "cerco_sha256_final (cerco_sha256_update m cerco_sha256_init) = Some (sha_spec m)"
proof -
  let ?c = "cerco_sha256_update m cerco_sha256_init"
  let ?c1 = "cerco_sha256_update [0x80] ?c"
  let ?n = "zeros_needed (length (sc_block ?c1))"
  let ?c2 = "cerco_sha256_update (replicate ?n 0) ?c1"
  note oks = update_ok [OF init_ok, of m] update_ok [OF update_ok [OF init_ok], of "[0x80]" m]
  have c2: "?c2 = cerco_sha256_update (m @ 0x80 # replicate ?n 0) cerco_sha256_init"
    using update_append [OF init_ok, of m "0x80 # replicate ?n 0"] update_append [OF oks(1), of "[0x80]" "replicate ?n 0"]
    by simp
  from pad_zeros_update [OF oks(2)] have pz: "pad_zeros ?c1 = Some ?c2" and l: "length (sc_block ?c2) = 56" by simp_all
  obtain st r where r: "absorb sha_iv m = (st, r)" by (cases "absorb sha_iv m")
  have bits: "sc_bits ?c = of_nat (length m) * 8" and len: "length (sc_block ?c) = length m mod 64"
    using absorb_length [of sha_iv m] r
    by (simp_all add: init_update)
  have n: "?n = (119 - length m mod 64) mod 64"
  proof -
    have "length (sc_block ?c1) = (length m mod 64 + 1) mod 64" using update_one [OF oks(1)] len by simp
    moreover have "length m mod 64 < 64" by simp
    then have "length m mod 64 = 63 \<or> length m mod 64 < 63" by linarith
    ultimately show ?thesis by (auto simp: zeros_needed_def)
  qed
  obtain st2 r2 where r2: "absorb sha_iv (m @ 0x80 # replicate ?n 0) = (st2, r2)" by (cases "absorb sha_iv (m @ 0x80 # replicate ?n 0)")
  with c2 have "sc_state ?c2 = st2" "sc_block ?c2 = r2"
    by (simp_all add: init_update)
  moreover have "absorb sha_iv (sha_pad m) = (sha_block st2 (r2 @ be64 (of_nat (length m) * 8)), [])"
  proof -
    have "absorb sha_iv (sha_pad m) = absorb st2 (r2 @ be64 (of_nat (length m) * 8))"
      using absorb_append [of sha_iv "m @ 0x80 # replicate ?n 0" "be64 (of_nat (length m) * 8)"] r2 n
      by (simp add: sha_pad_def)
    also have "\<dots> = (sha_block st2 (r2 @ be64 (of_nat (length m) * 8)), [])"
      using l \<open>sc_block ?c2 = r2\<close> by (subst absorb.simps) (simp add: be64_def absorb.simps)
    finally show ?thesis .
  qed
  ultimately show ?thesis
    by (simp add: cerco_sha256_final_def pz bits sha_spec_def)
qed

subsection \<open>Properties\<close>


end
