(* ===== verification/Config.thy ===== *)
theory Config
  imports Cstring
begin

text \<open>
  \<open>runtime/server/config.c\<close>: the configuration read from the environment, with the decimal
  parser every numeric setting goes through. \<open>env\<close> is \<open>getenv\<close>; \<open>cpus\<close> is the outcome of
  \<open>uv_cpu_info\<close> (\<open>None\<close> when it fails). \<open>long long\<close> values are integers within the range the
  parser checks; \<open>size_t\<close> and \<open>uint64_t\<close> fields are words, so casts of negative values wrap.
\<close>

definition LLONG_MAX :: int where "LLONG_MAX = 9223372036854775807"

fun parse_digits :: "int \<Rightarrow> string \<Rightarrow> int option" where
  "parse_digits v [] = Some v"
| "parse_digits v (c # cs) =
     (if \<not> is_digit c then None
      else if v > (LLONG_MAX - int (digit_val c)) div 10 then None
      else parse_digits (v * 10 + int (digit_val c)) cs)"

definition cerco_parse_i64 :: "string \<Rightarrow> int option" where
  "cerco_parse_i64 s =
     (if s = [] then None
      else
        let neg = (hd s = CHR ''-''); t = (if neg then tl s else s)
        in if t = [] then None
           else map_option (\<lambda>v. if neg then - v else v) (parse_digits 0 t))"

definition env_or :: "(string \<Rightarrow> string option) \<Rightarrow> string \<Rightarrow> string \<Rightarrow> string" where
  "env_or env k dflt = (case env k of Some v \<Rightarrow> if v \<noteq> [] then v else dflt | None \<Rightarrow> dflt)"

definition cerco_cpu_count :: "int option \<Rightarrow> int" where
  "cerco_cpu_count cpus = (case cpus of None \<Rightarrow> 1 | Some count \<Rightarrow> if count > 0 then count else 1)"

definition cerco_status_text :: "int \<Rightarrow> string" where
  "cerco_status_text code =
     (case find (\<lambda>(c, t). c = code)
        [(200, ''OK''), (201, ''Created''), (204, ''No Content''), (301, ''Moved Permanently''),
         (302, ''Found''), (303, ''See Other''), (304, ''Not Modified''), (307, ''Temporary Redirect''),
         (308, ''Permanent Redirect''), (400, ''Bad Request''), (403, ''Forbidden''), (404, ''Not Found''),
         (405, ''Method Not Allowed''), (408, ''Request Timeout''), (411, ''Length Required''),
         (413, ''Payload Too Large''), (414, ''URI Too Long''), (415, ''Unsupported Media Type''),
         (431, ''Request Header Fields Too Large''), (500, ''Internal Server Error''),
         (501, ''Not Implemented''), (503, ''Service Unavailable'')] of
        Some (c, t) \<Rightarrow> t
      | None \<Rightarrow> [])"

datatype log_level = Log_trace | Log_debug | Log_info | Log_warn | Log_error | Log_off

record cerco_config =
  cf_host :: string
  cf_port :: int
  cf_workers :: int
  cf_work_queue :: u64
  cf_max_connections :: int
  cf_max_body :: u64
  cf_log_level :: log_level
  cf_trust_proxy :: bool
  cf_dev_mode :: bool
  cf_dist_dir :: string
  cf_stats_enabled :: bool
  cf_shutdown_timeout_ms :: u64
  cf_header_timeout_ms :: u64
  cf_body_timeout_ms :: u64
  cf_keep_alive_timeout_ms :: u64
  cf_request_timeout_ms :: u64
  cf_request_arena_first :: nat
  cf_request_arena_cap :: nat

definition config_port :: "(string \<Rightarrow> string option) \<Rightarrow> int" where
  "config_port env =
     (case cerco_parse_i64 (env_or env ''PORT'' ''3000'') of
        None \<Rightarrow> 3000
      | Some port \<Rightarrow> if port < 1 \<or> port > 65535 then 3000 else port)"

definition config_workers :: "(string \<Rightarrow> string option) \<Rightarrow> int option \<Rightarrow> int" where
  "config_workers env cpus =
     (let workers = cerco_cpu_count cpus;
          workers = (if workers > 4 then 4 else workers);
          workers = (if workers < 1 then 1 else workers)
      in case cerco_parse_i64 (env_or env ''CERCO_WORKERS'' []) of
           None \<Rightarrow> workers
         | Some n \<Rightarrow> (let n = (if n < 1 then 1 else n) in if n > 64 then 64 else n))"

text \<open>
  The parser stores into \<open>q\<close> before the range is looked at, so an accepted number is kept
  whatever the range test says; only values above 65536 are cut. The same holds of the timeouts.
\<close>

definition config_queue :: "(string \<Rightarrow> string option) \<Rightarrow> u64" where
  "config_queue env =
     word_of_int
       (case cerco_parse_i64 (env_or env ''CERCO_WORK_QUEUE'' []) of
          None \<Rightarrow> 1024
        | Some q \<Rightarrow> if q \<ge> 4 then (if q > 65536 then 65536 else q) else q)"

definition config_timeout :: "(string \<Rightarrow> string option) \<Rightarrow> string \<Rightarrow> int \<Rightarrow> u64" where
  "config_timeout env k dflt =
     word_of_int (case cerco_parse_i64 (env_or env k []) of None \<Rightarrow> dflt | Some t \<Rightarrow> t)"

definition config_clamped :: "(string \<Rightarrow> string option) \<Rightarrow> string \<Rightarrow> int \<Rightarrow> int \<Rightarrow> int \<Rightarrow> int" where
  "config_clamped env k dflt lo hi =
     (case cerco_parse_i64 (env_or env k []) of
        None \<Rightarrow> dflt
      | Some v \<Rightarrow> (let v = (if v < lo then lo else v) in if v > hi then hi else v))"

definition config_log_level :: "(string \<Rightarrow> string option) \<Rightarrow> log_level" where
  "config_log_level env =
     (let lvl = env_or env ''CERCO_LOG_LEVEL'' ''info'' in
      if cerco_strcaseeq lvl ''trace'' then Log_trace
      else if cerco_strcaseeq lvl ''debug'' then Log_debug
      else if cerco_strcaseeq lvl ''info'' then Log_info
      else if cerco_strcaseeq lvl ''warn'' \<or> cerco_strcaseeq lvl ''warning'' then Log_warn
      else if cerco_strcaseeq lvl ''error'' then Log_error
      else if cerco_strcaseeq lvl ''off'' \<or> cerco_strcaseeq lvl ''none'' then Log_off
      else Log_info)"

definition config_arena_cap :: "(string \<Rightarrow> string option) \<Rightarrow> nat" where
  "config_arena_cap env =
     (case cerco_parse_i64 (env_or env ''CERCO_REQUEST_MEMORY_LIMIT'' []) of
        Some mem \<Rightarrow> if mem \<ge> 65536 then nat mem else 2 * 1024 * 1024
      | None \<Rightarrow> 2 * 1024 * 1024)"

definition cerco_config_from_env :: "(string \<Rightarrow> string option) \<Rightarrow> int option \<Rightarrow> cerco_config" where
  "cerco_config_from_env env cpus =
     \<lparr>cf_host = env_or env ''HOST'' ''0.0.0.0'',
      cf_port = config_port env,
      cf_workers = config_workers env cpus,
      cf_work_queue = config_queue env,
      cf_max_connections = config_clamped env ''CERCO_MAX_CONNECTIONS'' 10000 8 1000000,
      cf_max_body = word_of_int (config_clamped env ''CERCO_MAX_BODY'' (2 * 1024 * 1024) 0 (256 * 1024 * 1024)),
      cf_log_level = config_log_level env,
      cf_trust_proxy = cerco_strcaseeq (env_or env ''CERCO_TRUST_PROXY'' ''0'') ''1'',
      cf_dev_mode = cerco_strcaseeq (env_or env ''CERCO_DEV'' ''0'') ''1'',
      cf_dist_dir = env_or env ''CERCO_DIST_DIR'' ''dist'',
      cf_stats_enabled = cerco_strcaseeq (env_or env ''CERCO_STATS'' ''0'') ''1'',
      cf_shutdown_timeout_ms = config_timeout env ''CERCO_SHUTDOWN_TIMEOUT_MS'' 10000,
      cf_header_timeout_ms = config_timeout env ''CERCO_HEADER_TIMEOUT_MS'' 15000,
      cf_body_timeout_ms = config_timeout env ''CERCO_BODY_TIMEOUT_MS'' 30000,
      cf_keep_alive_timeout_ms = config_timeout env ''CERCO_KEEPALIVE_TIMEOUT_MS'' 75000,
      cf_request_timeout_ms = config_timeout env ''CERCO_REQUEST_TIMEOUT_MS'' 60000,
      cf_request_arena_first = 16 * 1024,
      cf_request_arena_cap = config_arena_cap env\<rparr>"

subsection \<open>The parser\<close>

lemma parse_digits_value:
  "list_all is_digit s \<Longrightarrow> 0 \<le> v \<Longrightarrow> v \<le> LLONG_MAX \<Longrightarrow>
     parse_digits v s = (if int (dec_value (nat v) s) \<le> LLONG_MAX then Some (int (dec_value (nat v) s)) else None)"
proof (induction s arbitrary: v)
  case Nil
  then show ?case by simp
next
  case (Cons c s)
  let ?d = "int (digit_val c)"
  have d: "?d < 10" using Cons.prems(1) digit_val_bound [of c] by simp
  have mono: "n \<le> dec_value n t" for n t
  proof (induction t arbitrary: n)
    case (Cons x t)
    from Cons.IH [of "n * 10 + digit_val x"] show ?case by simp
  qed simp
  have nv: "nat (v * 10 + ?d) = nat v * 10 + digit_val c" using Cons.prems(2) by simp
  show ?case
  proof (cases "v * 10 + ?d \<le> LLONG_MAX")
    case True
    then have "\<not> v > (LLONG_MAX - ?d) div 10" by linarith
    with True Cons nv show ?thesis by simp
  next
    case False
    then have "v > (LLONG_MAX - ?d) div 10" by linarith
    moreover have "v * 10 + ?d \<le> int (dec_value (nat v * 10 + digit_val c) s)"
      using mono [of "nat v * 10 + digit_val c" s] Cons.prems(2) by linarith
    ultimately show ?thesis using False Cons.prems(1) by simp
  qed
qed

lemma parse_digits_Some: "parse_digits v s = Some i \<Longrightarrow> list_all is_digit s"
  by (induction s arbitrary: v) (auto split: if_splits)

lemma parse_i64_dec_int: "\<bar>i\<bar> \<le> LLONG_MAX \<Longrightarrow> cerco_parse_i64 (dec_int i) = Some i"
proof -
  assume i: "\<bar>i\<bar> \<le> LLONG_MAX"
  have pd: "parse_digits 0 (dec (nat k)) = Some k" if "0 \<le> k" "k \<le> LLONG_MAX" for k
    using parse_digits_value [OF dec_digits, of 0 "nat k"] that by (simp add: dec_value_dec LLONG_MAX_def)
  have hd: "hd (dec n) \<noteq> CHR ''-''" for n
  proof
    assume "hd (dec n) = CHR ''-''"
    then have "is_digit CHR ''-''" using dec_digits [of n] by (cases "dec n") simp_all
    then show False by (simp add: is_digit_def in_range_def)
  qed
  show ?thesis
  proof (cases "i < 0")
    case True
    with i pd [of "- i"] show ?thesis by (simp add: cerco_parse_i64_def dec_int_def)
  next
    case False
    with i pd [of i] hd show ?thesis by (simp add: cerco_parse_i64_def dec_int_def Let_def)
  qed
qed

lemma parse_i64_range: "cerco_parse_i64 s = Some i \<Longrightarrow> \<bar>i\<bar> \<le> LLONG_MAX"
proof -
  assume a: "cerco_parse_i64 s = Some i"
  then obtain t v where t: "parse_digits 0 t = Some v" "\<bar>i\<bar> = \<bar>v\<bar>"
    by (auto simp: cerco_parse_i64_def Let_def split: if_splits)
  from parse_digits_value [OF parse_digits_Some [OF t(1)], of 0] t show ?thesis
    by (simp add: LLONG_MAX_def split: if_splits)
qed

subsection \<open>Properties\<close>

text \<open>The decimal parser accepts the text of every number of the symmetric \<open>long long\<close> range and
  returns that number; whatever it accepts, the result is in that range (no overflow).\<close>

theorem parse_i64_exact:
  "(\<bar>i\<bar> \<le> LLONG_MAX) = (cerco_parse_i64 (dec_int i) = Some i)"
  using parse_i64_dec_int parse_i64_range by blast

text \<open>Whatever the environment, the port, the number of workers, the connection limit, the body
  limit and the request memory limit are within their documented bounds.\<close>

theorem config_bounds:
  "let c = cerco_config_from_env env cpus in
   cf_port c \<in> {1..65535} \<and> cf_workers c \<in> {1..64} \<and> cf_max_connections c \<in> {8..1000000} \<and>
   cf_max_body c \<le> 256 * 1024 * 1024 \<and> 65536 \<le> cf_request_arena_cap c"
proof -
  have "cf_max_body (cerco_config_from_env env cpus) \<le> 256 * 1024 * 1024"
  proof -
    define b where "b = config_clamped env ''CERCO_MAX_BODY'' (2 * 1024 * 1024) 0 (256 * 1024 * 1024)"
    have b: "0 \<le> b" "b \<le> 256 * 1024 * 1024"
      unfolding b_def config_clamped_def Let_def by (auto split: option.splits)
    then have "word_of_int b = (of_nat (nat b) :: u64)" by simp
    moreover have "unat (of_nat (nat b) :: u64) = nat b" using b by (intro unat_of_nat64) simp
    ultimately have "unat (word_of_int b :: u64) \<le> 256 * 1024 * 1024" using b by simp
    then show ?thesis
      by (simp only: cerco_config_from_env_def cerco_config.simps b_def [symmetric] word_le_nat_alt) simp
  qed
  then show ?thesis
    by (auto simp: cerco_config_from_env_def config_port_def config_workers_def config_clamped_def
        config_arena_cap_def Let_def split: option.splits)
qed

text \<open>The header timeout and the queue length are not validated: any number the parser accepts is
  taken for the timeout (negative ones wrap to huge values), and any number below 4 for the queue.\<close>

theorem config_unvalidated:
  assumes "env ''CERCO_HEADER_TIMEOUT_MS'' = Some (dec_int t)" "\<bar>t\<bar> \<le> LLONG_MAX"
    and "env ''CERCO_WORK_QUEUE'' = Some (dec_int q)" "\<bar>q\<bar> \<le> LLONG_MAX" "q < 4"
  shows "cf_header_timeout_ms (cerco_config_from_env env cpus) = word_of_int t \<and>
         cf_work_queue (cerco_config_from_env env cpus) = word_of_int q"
proof -
  have ne: "dec_int k \<noteq> []" for k by (simp add: dec_int_def)
  show ?thesis
    using assms by (simp add: cerco_config_from_env_def config_timeout_def config_queue_def env_or_def ne parse_i64_dec_int)
qed

theorem config_unvalidated_witness:
  "cf_work_queue (cerco_config_from_env
     [''CERCO_HEADER_TIMEOUT_MS'' \<mapsto> ''5'', ''CERCO_WORK_QUEUE'' \<mapsto> ''-1''] None) = - 1"
proof -
  have d: "dec_int 5 = ''5''" "dec_int (-1) = ''-1''" by (simp_all add: dec_int_def dec.simps)
  show ?thesis
    using config_unvalidated [of "[''CERCO_HEADER_TIMEOUT_MS'' \<mapsto> ''5'', ''CERCO_WORK_QUEUE'' \<mapsto> ''-1'']" 5 "-1" None]
    by (simp add: d LLONG_MAX_def)
qed

end
