(* ===== verification/Respbuf.thy ===== *)
theory Respbuf
  imports Cstring Strbuf
begin

text \<open>
  The response buffer of \<open>runtime/server/util.c\<close> (\<open>wbuf_*\<close>) and the escaping writer of
  \<open>render.c\<close> on top of it.

  \<open>al n\<close> says whether the request arena returns a block of \<open>n\<close> bytes. The server keeps the
  default out-of-memory policy, under which an allocation that cannot be served aborts the
  process; the branches for NULL are modelled all the same. \<open>data\<close> is NULL exactly when the
  capacity is 0.
\<close>

record cerco_wbuf =
  wb_data :: string
  wb_cap :: nat

definition wbuf_init :: cerco_wbuf where
  "wbuf_init = \<lparr>wb_data = [], wb_cap = 0\<rparr>"

definition wbuf_grow :: "(nat \<Rightarrow> bool) \<Rightarrow> nat \<Rightarrow> cerco_wbuf \<Rightarrow> cerco_wbuf" where
  "wbuf_grow al need b =
     (if length (wb_data b) + need \<le> wb_cap b then b
      else let cap = double_until (if wb_cap b \<noteq> 0 then wb_cap b * 2 else 4096) (length (wb_data b) + need)
           in if al cap then b\<lparr>wb_cap := cap\<rparr> else b)"

definition wbuf_putn :: "(nat \<Rightarrow> bool) \<Rightarrow> string \<Rightarrow> cerco_wbuf \<Rightarrow> cerco_wbuf" where
  "wbuf_putn al data b =
     (let b' = wbuf_grow al (length data) b in
      if wb_cap b' < length (wb_data b') + length data then b'
      else b'\<lparr>wb_data := wb_data b' @ data\<rparr>)"

definition wbuf_puts :: "(nat \<Rightarrow> bool) \<Rightarrow> string \<Rightarrow> cerco_wbuf \<Rightarrow> cerco_wbuf" where
  "wbuf_puts al s b = wbuf_putn al s b"

definition wbuf_putc :: "(nat \<Rightarrow> bool) \<Rightarrow> char \<Rightarrow> cerco_wbuf \<Rightarrow> cerco_wbuf" where
  "wbuf_putc al c b = wbuf_putn al [c] b"

definition wbuf_reset :: "cerco_wbuf \<Rightarrow> cerco_wbuf" where
  "wbuf_reset b = b\<lparr>wb_data := [], wb_cap := 0\<rparr>"

text \<open>The loop of \<open>wbuf_find\<close>: the first \<open>i\<close> from \<open>from\<close> on where the needle stands.\<close>

fun find_at :: "string \<Rightarrow> string \<Rightarrow> nat \<Rightarrow> nat \<Rightarrow> nat option" where
  "find_at needle [] i n = (if n \<le> 0 \<and> take n [] = needle then Some i else None)"
| "find_at needle (c # cs) i n =
     (if n > length (c # cs) then None
      else if take n (c # cs) = needle then Some i
      else find_at needle cs (Suc i) n)"

definition wbuf_find :: "cerco_wbuf \<Rightarrow> nat \<Rightarrow> string option \<Rightarrow> nat option" where
  "wbuf_find b start needle =
     (case needle of
        None \<Rightarrow> None
      | Some nd \<Rightarrow>
          if wb_cap b = 0 then None
          else let n = length nd in
            if n = 0 \<or> length (wb_data b) < n \<or> start > length (wb_data b) - n then None
            else find_at nd (drop start (wb_data b)) start n)"

text \<open>
  \<open>wbuf_printf\<close> with the text \<open>vsnprintf\<close> produces. The second component is how many bytes of
  the block are written: \<open>vsnprintf\<close> terminates what it writes.
\<close>

definition wbuf_printf :: "(nat \<Rightarrow> bool) \<Rightarrow> string option \<Rightarrow> cerco_wbuf \<Rightarrow> cerco_wbuf \<times> nat" where
  "wbuf_printf al fmtd b =
     (case fmtd of
        None \<Rightarrow> (b, 0)
      | Some t \<Rightarrow>
          (let b' = wbuf_grow al (length t) b in
           if wb_cap b' \<ge> length (wb_data b') + length t
           then (b'\<lparr>wb_data := wb_data b' @ t\<rparr>, length (wb_data b') + length t + 1)
           else (b', 0)))"

text \<open>\<open>render.c\<close>: escaped text, flushed in runs of plain characters (\<open>run\<close> is \<open>s[start..i)\<close>).\<close>

fun escape_loop :: "(nat \<Rightarrow> bool) \<Rightarrow> string \<Rightarrow> string \<Rightarrow> cerco_wbuf \<Rightarrow> cerco_wbuf" where
  "escape_loop al run [] b = (if run \<noteq> [] then wbuf_putn al run b else b)"
| "escape_loop al run (c # cs) b =
     (case esc_rep c of
        None \<Rightarrow> escape_loop al (run @ [c]) cs b
      | Some rep \<Rightarrow>
          (let b1 = (if run \<noteq> [] then wbuf_putn al run b else b)
           in escape_loop al [] cs (wbuf_putn al rep b1)))"

definition wbuf_escape :: "(nat \<Rightarrow> bool) \<Rightarrow> string \<Rightarrow> cerco_wbuf \<Rightarrow> cerco_wbuf" where
  "wbuf_escape al s b = escape_loop al [] s b"

subsection \<open>Invariant\<close>

definition wb_wf :: "cerco_wbuf \<Rightarrow> bool" where
  "wb_wf b = (length (wb_data b) \<le> wb_cap b)"

lemma wb_wf_init [inv_rules]: "wb_wf wbuf_init" "wb_wf (wbuf_reset b)"
  by (simp_all add: wb_wf_def wbuf_init_def wbuf_reset_def)

lemma wbuf_grow_data [simp]: "wb_data (wbuf_grow al n b) = wb_data b"
  by (simp add: wbuf_grow_def Let_def)

lemma wbuf_grow_mono: "wb_cap b \<le> wb_cap (wbuf_grow al n b)"
proof -
  have "wb_cap b \<le> double_until (if wb_cap b \<noteq> 0 then wb_cap b * 2 else 4096) t" for t
    using double_until_mono [of "if wb_cap b \<noteq> 0 then wb_cap b * 2 else 4096" t] by (simp split: if_splits)
  then show ?thesis by (simp add: wbuf_grow_def Let_def)
qed

lemma wbuf_grow_wf [inv_rules]: "wb_wf b \<Longrightarrow> wb_wf (wbuf_grow al n b)"
  using wbuf_grow_mono [of b al n] by (simp add: wb_wf_def)

lemma wbuf_grow_room: "(\<And>n. al n) \<Longrightarrow> length (wb_data b) + n \<le> wb_cap (wbuf_grow al n b)"
  by (auto simp: wbuf_grow_def Let_def intro: double_until_ge)

lemma wbuf_putn_wf [inv_rules]: "wb_wf b \<Longrightarrow> wb_wf (wbuf_putn al s b)"
  using wbuf_grow_wf [of b al "length s"] by (auto simp: wbuf_putn_def Let_def wb_wf_def)

lemma wbuf_putn_cases:
  "wb_data (wbuf_putn al s b) = wb_data b @ s \<or> wb_data (wbuf_putn al s b) = wb_data b"
  by (simp add: wbuf_putn_def Let_def)

lemma wbuf_putn_data: "(\<And>n. al n) \<Longrightarrow> wb_data (wbuf_putn al s b) = wb_data b @ s"
  using wbuf_grow_room [of al b "length s"] by (simp add: wbuf_putn_def Let_def)

lemma escape_loop_wf: "wb_wf b \<Longrightarrow> wb_wf (escape_loop al run s b)"
proof (induction al run s b rule: escape_loop.induct)
  case (1 al run b)
  then show ?case by (simp add: wbuf_putn_wf)
next
  case (2 al run c cs b)
  then show ?case by (cases "esc_rep c") (simp_all add: wbuf_putn_wf Let_def)
qed

subsection \<open>Text sinks\<close>

text \<open>
  What the code that produces text relies on: a sink appends. Both the response buffer and
  the tooling's \<open>cerco_sb\<close> are sinks as long as their memory lasts.
\<close>

locale text_sink =
  fixes put :: "string \<Rightarrow> 'b \<Rightarrow> 'b"
    and contents :: "'b \<Rightarrow> string"
  assumes put_appends: "contents (put s b) = contents b @ s"
begin

lemma fold_put: "contents (fold put ss b) = contents b @ concat ss"
  by (induction ss arbitrary: b) (simp_all add: put_appends)

lemma put_put: "contents (put t (put s b)) = contents (put (s @ t) b)"
  by (simp add: put_appends)

end

interpretation wbuf_sink: text_sink "wbuf_putn (\<lambda>_. True)" wb_data
  by unfold_locales (simp add: wbuf_putn_data)

interpretation sb_sink: text_sink "sb_putn (\<lambda>_. True)" sb_data
  by unfold_locales (simp add: sb_putn_data)

text \<open>The run where memory lasts: every allocation returns a block.\<close>

abbreviation lasts :: "nat \<Rightarrow> bool" where "lasts \<equiv> (\<lambda>n. True)"

lemma putn_data [simp]: "wb_data (wbuf_putn lasts s b) = wb_data b @ s"
  by (rule wbuf_sink.put_appends)

lemma puts_data [simp]: "wb_data (wbuf_puts lasts s b) = wb_data b @ s" "wb_data (wbuf_putc lasts c b) = wb_data b @ [c]"
  by (simp_all add: wbuf_puts_def wbuf_putc_def)

lemma escape_loop_data: "wb_data (escape_loop lasts run s b) = wb_data b @ run @ esc s"
proof (induction s arbitrary: run b)
  case Nil
  then show ?case by simp
next
  case (Cons c cs)
  then show ?case by (cases "esc_rep c") (simp_all add: esc_char_def Let_def)
qed

lemma escape_data [simp]: "wb_data (wbuf_escape lasts s b) = wb_data b @ esc s"
  by (simp add: wbuf_escape_def escape_loop_data)

subsection \<open>Searching\<close>

lemma find_at_eq:
  "needle \<noteq> [] \<Longrightarrow> n = length needle \<Longrightarrow> find_at needle s i n = map_option ((+) i) (find_sub needle s)"
proof (induction s arbitrary: i)
  case Nil
  then show ?case by simp
next
  case (Cons c cs)
  show ?case
  proof (cases "n > length (c # cs)")
    case True
    have "find_sub needle (c # cs) = None"
    proof (rule ccontr)
      assume "find_sub needle (c # cs) \<noteq> None"
      then obtain k where "find_sub needle (c # cs) = Some k" by blast
      from find_sub_Some [OF this] True Cons.prems show False by simp
    qed
    with True show ?thesis by (simp del: find_sub.simps)
  next
    case False
    with Cons show ?thesis by (cases "find_sub needle cs") auto
  qed
qed

lemma wbuf_find_eq:
  assumes "wb_wf b" "nd \<noteq> []"
  shows "wbuf_find b start (Some nd) = map_option ((+) start) (find_sub nd (drop start (wb_data b)))"
proof (cases "wb_cap b = 0 \<or> length (wb_data b) < length nd \<or> start > length (wb_data b) - length nd")
  case True
  have "find_sub nd (drop start (wb_data b)) = None"
  proof (rule ccontr)
    assume "find_sub nd (drop start (wb_data b)) \<noteq> None"
    then obtain k where "find_sub nd (drop start (wb_data b)) = Some k" by blast
    from find_sub_Some [OF this] assms True show False by (cases nd) (auto simp: wb_wf_def)
  qed
  with True assms(2) show ?thesis by (auto simp: wbuf_find_def Let_def)
next
  case False
  then show ?thesis using assms(2) by (simp add: wbuf_find_def Let_def find_at_eq)
qed

subsection \<open>Properties\<close>

text \<open>The streaming escaper of the response and the buffer escaper of \<open>str.c\<close> agree: while memory
  lasts, what \<open>wbuf_escape\<close> appends is what \<open>cerco_html_escape\<close> writes into a buffer of the
  announced size.\<close>

theorem escape_writers_agree:
  "\<exists>e. cerco_html_escape s (Some (Suc (escape_need s))) = Escaped e \<and>
       wb_data (wbuf_escape lasts s b) = wb_data b @ e"
  by (simp add: html_escape_exact length_esc)

text \<open>Every write keeps the buffer within its block, except the terminator of \<open>wbuf_printf\<close>, which
  lands one byte past the block when the text fills it exactly. (The witness is such a write.)\<close>

theorem wbuf_printf_bound:
  assumes "wb_wf b" "wbuf_printf al fmtd b = (b', touched)"
  shows "wb_wf b' \<and> touched \<le> wb_cap b' + 1 \<and> (touched = wb_cap b' + 1 \<longrightarrow> length (wb_data b') = wb_cap b')"
proof (cases fmtd)
  case None
  with assms show ?thesis by (simp add: wbuf_printf_def)
next
  case (Some t)
  with assms wbuf_grow_wf [OF assms(1), of al "length t"] show ?thesis
    by (auto simp: wbuf_printf_def Let_def wb_wf_def split: if_splits)
qed

theorem wbuf_printf_bound_witness:
  "wbuf_printf lasts (Some ''x'') \<lparr>wb_data = replicate 4095 CHR ''a'', wb_cap = 4096\<rparr>
     = (\<lparr>wb_data = replicate 4095 CHR ''a'' @ ''x'', wb_cap = 4096\<rparr>, 4097) \<and> 4097 \<le> (4096 :: nat) + 1"
proof -
  have r: "wbuf_printf lasts (Some ''x'') \<lparr>wb_data = replicate 4095 CHR ''a'', wb_cap = 4096\<rparr>
     = (\<lparr>wb_data = replicate 4095 CHR ''a'' @ ''x'', wb_cap = 4096\<rparr>, 4097)"
    by (simp add: wbuf_printf_def wbuf_grow_def)
  show ?thesis using wbuf_printf_bound [OF _ r] r by (simp add: wb_wf_def)
qed

end
