(* ===== verification/Request.thy ===== *)
theory Request
  imports Respbuf
begin

text \<open>
  The request object: \<open>struct cerco_req\<close> of \<open>internal.h\<close> and the lifecycle and lazy parsing
  functions of \<open>runtime/server/req.c\<close>.

  A \<open>char *\<close> field is the C string it points at (\<open>None\<close> for NULL), so decoded text that
  contains a NUL is cut there, as its readers see it. Lists stand for the fixed arrays and
  linked lists; the handler and server-function pointers are numbers.
\<close>

definition CERCO_MAX_HEADERS :: nat where "CERCO_MAX_HEADERS = 100"
definition CERCO_MAX_HEADER_BYTES :: nat where "CERCO_MAX_HEADER_BYTES = 32 * 1024"
definition CERCO_MAX_URL :: nat where "CERCO_MAX_URL = 8 * 1024"
definition CERCO_MAX_NAME :: nat where "CERCO_MAX_NAME = 256"
definition CERCO_MAX_VALUE :: nat where "CERCO_MAX_VALUE = 8 * 1024"

lemmas limit_defs = CERCO_MAX_HEADERS_def CERCO_MAX_HEADER_BYTES_def CERCO_MAX_URL_def
  CERCO_MAX_NAME_def CERCO_MAX_VALUE_def

record cerco_req =
  rq_conn :: "nat option"
  rq_method :: "string option"
  rq_target :: "string option"
  rq_path :: "string option"
  rq_query :: "string option"
  rq_headers :: "(string \<times> string) list"
  rq_body :: "string option"
  rq_form :: "(string \<times> string) list"
  rq_params :: "(string \<times> string) list"
  rq_status :: int
  rq_resp_hdrs :: "(string \<times> string) list"
  rq_resp :: cerco_wbuf
  rq_page_title :: "string option"
  rq_head_injected :: bool
  rq_responded :: bool
  rq_cancelled :: bool
  rq_force_close :: bool
  rq_handler :: "nat option"
  rq_sf_entry :: "nat option"

definition req_zero :: cerco_req where
  "req_zero =
     \<lparr>rq_conn = None, rq_method = None, rq_target = None, rq_path = None, rq_query = None,
      rq_headers = [], rq_body = None, rq_form = [], rq_params = [], rq_status = 0,
      rq_resp_hdrs = [], rq_resp = wbuf_init, rq_page_title = None, rq_head_injected = False,
      rq_responded = False, rq_cancelled = False, rq_force_close = False, rq_handler = None,
      rq_sf_entry = None\<rparr>"

definition req_setup :: "nat \<Rightarrow> cerco_req" where
  "req_setup conn = req_zero\<lparr>rq_conn := Some conn, rq_status := 200, rq_resp := wbuf_init\<rparr>"

definition req_reset :: "cerco_req \<Rightarrow> cerco_req" where
  "req_reset r = req_zero\<lparr>rq_status := 200\<rparr>"

subsection \<open>Header staging\<close>

record hdr_stage =
  hs_f :: string
  hs_v :: string
  hs_in_value :: bool
  hs_bad :: nat     \<comment> \<open>\<open>c->bad_request\<close>: 0 or a status\<close>

definition req_finish_headers ::
  "(nat \<Rightarrow> bool) \<Rightarrow> cerco_req option \<Rightarrow> hdr_stage \<Rightarrow> cerco_req option \<times> hdr_stage" where
  "req_finish_headers al req c =
     (case req of
        None \<Rightarrow> (None, c)
      | Some r \<Rightarrow>
          if length (hs_f c) = 0 then (Some r, c\<lparr>hs_in_value := False\<rparr>)
          else if length (rq_headers r) \<ge> CERCO_MAX_HEADERS then (Some r, c\<lparr>hs_bad := 431\<rparr>)
          else if length (hs_f c) > CERCO_MAX_NAME \<or> length (hs_v c) > CERCO_MAX_VALUE \<or>
                  length (hs_f c) + length (hs_v c) + length (rq_headers r) * 2 > CERCO_MAX_HEADER_BYTES
          then (Some r, c\<lparr>hs_bad := 431\<rparr>)
          else if \<not> al (length (hs_f c) + 1) \<or> \<not> al (length (hs_v c) + 1) then (Some r, c)
          else (Some (r\<lparr>rq_headers := rq_headers r @ [(cstr (hs_f c), cstr (hs_v c))]\<rparr>),
                c\<lparr>hs_f := [], hs_v := [], hs_in_value := False\<rparr>))"

subsection \<open>The request target\<close>

definition HTTP_SCHEME :: string where "HTTP_SCHEME = ''http://''"

text \<open>The first \<open>plen\<close> bytes of the target that make the path, scheme and host cut.\<close>

definition target_path_part :: "string \<Rightarrow> string" where
  "target_path_part t =
     (let p = (case index_of CHR ''?'' t of Some qm \<Rightarrow> take qm t | None \<Rightarrow> t);
          plen = length p;
          p = (if plen > 7 \<and> cerco_strncaseeq t HTTP_SCHEME 7 then
                 (case index_of CHR ''/'' (drop 7 p) of
                    Some k \<Rightarrow> drop (7 + k) p
                  | None \<Rightarrow> ''/'')
               else p)
      in if p = [] then ''/'' else p)"

text \<open>The code and the request with its path and query set: 0, 400 or 414.\<close>

definition req_target_path :: "(nat \<Rightarrow> bool) \<Rightarrow> cerco_req \<Rightarrow> nat \<times> cerco_req" where
  "req_target_path al r =
     (if rq_path r \<noteq> None then (0, r)
      else
        let t = (case rq_target r of Some t \<Rightarrow> t | None \<Rightarrow> ''/'');
            p = target_path_part t
        in if length p > CERCO_MAX_URL then (414, r)
           else if \<not> al (length p + 1) then (400, r)
           else case cerco_url_decode p (length p + 1) False of
             None \<Rightarrow> (400, r)
           | Some dp \<Rightarrow>
               let r1 = r\<lparr>rq_path := Some (cstr dp)\<rparr> in
               (case index_of CHR ''?'' t of
                  None \<Rightarrow> (0, r1\<lparr>rq_query := Some []\<rparr>)
                | Some qm \<Rightarrow>
                    let q = drop (Suc qm) t in
                    if \<not> al (length q + 1) then (400, r1)
                    else case cerco_url_decode q (length q + 1) True of
                      None \<Rightarrow> (400, r1)
                    | Some qdec \<Rightarrow> (0, r1\<lparr>rq_query := Some (cstr qdec)\<rparr>)))"

subsection \<open>Accessors\<close>

definition cerco_method :: "cerco_req \<Rightarrow> string" where
  "cerco_method r = (case rq_method r of Some m \<Rightarrow> m | None \<Rightarrow> [])"

definition cerco_path :: "cerco_req \<Rightarrow> string" where
  "cerco_path r = (case rq_path r of Some p \<Rightarrow> p | None \<Rightarrow> ''/'')"

definition cerco_query :: "(nat \<Rightarrow> bool) \<Rightarrow> cerco_req \<Rightarrow> string \<times> cerco_req" where
  "cerco_query al r =
     (let r' = (if rq_query r = None then snd (req_target_path al r) else r)
      in (case rq_query r' of Some q \<Rightarrow> q | None \<Rightarrow> [], r'))"

text \<open>The first value whose name matches, case-insensitively: every lookup of the request.\<close>

definition lookup_ci :: "(string \<times> string) list \<Rightarrow> string \<Rightarrow> string option" where
  "lookup_ci kvs name = map_option snd (find (\<lambda>(k, v). cerco_strcaseeq k name) kvs)"

definition cerco_param :: "cerco_req \<Rightarrow> string \<Rightarrow> string option" where
  "cerco_param r name = lookup_ci (rq_params r) name"

definition cerco_header :: "cerco_req \<Rightarrow> string \<Rightarrow> string option" where
  "cerco_header r name = lookup_ci (rq_headers r) name"

text \<open>The walk stops at the first malformed pair; \<open>kbuf\<close> and \<open>vbuf\<close> hold 256 and 2048 bytes.\<close>

definition cerco_query_get :: "(nat \<Rightarrow> bool) \<Rightarrow> cerco_req \<Rightarrow> string \<Rightarrow> string option \<times> cerco_req" where
  "cerco_query_get al r name =
     (let (q, r') = cerco_query al r in
      case find (\<lambda>(k, v). cerco_strcaseeq (cstr k) name) (query_walk q 0 256 2048) of
        None \<Rightarrow> (None, r')
      | Some (k, v) \<Rightarrow> (if al (length (cstr v) + 1) then Some (cstr v) else None, r'))"

definition cookie_ws :: "char \<Rightarrow> bool" where
  "cookie_ws c = (c = CHR '' '' \<or> c = CHR 0x09)"

definition cookie_value :: "string \<Rightarrow> string" where
  "cookie_value raw =
     (if length raw \<ge> 2 \<and> raw ! 0 = CHR 0x22 \<and> raw ! (length raw - 1) = CHR 0x22
      then take (length raw - 2) (drop 1 raw) else raw)"

function cookie_walk :: "(nat \<Rightarrow> bool) \<Rightarrow> string \<Rightarrow> string \<Rightarrow> string option" where
  "cookie_walk al name p =
     (if p = [] then None
      else
        let p1 = dropWhile cookie_ws p;
            semi = (case index_of CHR '';'' p1 of Some i \<Rightarrow> i | None \<Rightarrow> length p1);
            rest = drop (Suc semi) p1
        in case index_of CHR ''='' p1 of
             None \<Rightarrow> cookie_walk al name rest
           | Some eq \<Rightarrow>
               if eq < semi \<and> eq < CERCO_MAX_NAME \<and> cerco_strncaseeq p1 name eq \<and> length name = eq
               then (let v = cookie_value (take (semi - Suc eq) (drop (Suc eq) p1))
                     in if al (length v + 1) then Some v else None)
               else cookie_walk al name rest)"
  by pat_completeness auto
termination
proof (relation "measure (\<lambda>(al, name, p). length p)", simp)
  fix al name and p p1 :: string and semi rest
  assume "p \<noteq> []" "p1 = dropWhile cookie_ws p" "rest = drop (Suc semi) p1"
  moreover have "length (dropWhile cookie_ws p) \<le> length p" by (rule length_dropWhile_le)
  ultimately show "((al, name, rest), al, name, p) \<in> measure (\<lambda>(al, name, p). length p)"
    by (cases p) (auto simp: less_Suc_eq_le)
next
  fix al name and p p1 :: string and semi rest eq
  assume "p \<noteq> []" "p1 = dropWhile cookie_ws p" "rest = drop (Suc semi) p1"
  moreover have "length (dropWhile cookie_ws p) \<le> length p" by (rule length_dropWhile_le)
  ultimately show "((al, name, rest), al, name, p) \<in> measure (\<lambda>(al, name, p). length p)"
    by (cases p) (auto simp: less_Suc_eq_le)
qed

declare cookie_walk.simps [simp del]

definition cerco_cookie :: "(nat \<Rightarrow> bool) \<Rightarrow> cerco_req \<Rightarrow> string \<Rightarrow> string option" where
  "cerco_cookie al r name =
     (case cerco_header r ''cookie'' of None \<Rightarrow> None | Some hv \<Rightarrow> cookie_walk al name hv)"

definition cerco_body :: "cerco_req \<Rightarrow> string option \<times> nat" where
  "cerco_body r = (rq_body r, case rq_body r of Some b \<Rightarrow> length b | None \<Rightarrow> 0)"

subsection \<open>Form bodies\<close>

function form_walk :: "(nat \<Rightarrow> bool) \<Rightarrow> string \<Rightarrow> (string \<times> string) list" where
  "form_walk al b =
     (if b = [] then []
      else
        let key = takeWhile (\<lambda>c. \<not> key_end c) b;
            r1 = dropWhile (\<lambda>c. \<not> key_end c) b;
            has_value = (r1 \<noteq> [] \<and> hd r1 = CHR ''='');
            val = (if has_value then takeWhile (\<lambda>c. c \<noteq> CHR ''&'') (tl r1) else []);
            r2 = (if has_value then dropWhile (\<lambda>c. c \<noteq> CHR ''&'') (tl r1) else r1);
            r3 = (if r2 \<noteq> [] \<and> hd r2 = CHR ''&'' then tl r2 else r2)
        in case cerco_url_decode key 256 True of
             None \<Rightarrow> []
           | Some k \<Rightarrow>
               (case cerco_url_decode val 2048 True of
                  None \<Rightarrow> []
                | Some v \<Rightarrow> if \<not> al 24 then [] else (cstr k, cstr v) # form_walk al r3))"
  by pat_completeness auto
termination
proof (relation "measure (\<lambda>(al, b). length b)", simp)
  fix al and b key r1 val r2 r3 :: string and has_value k v
  assume b: "b \<noteq> []" and r1: "r1 = dropWhile (\<lambda>c. \<not> key_end c) b"
    and hv: "has_value = (r1 \<noteq> [] \<and> hd r1 = CHR ''='')"
    and r2: "r2 = (if has_value then dropWhile (\<lambda>c. c \<noteq> CHR ''&'') (tl r1) else r1)"
    and r3: "r3 = (if r2 \<noteq> [] \<and> hd r2 = CHR ''&'' then tl r2 else r2)"
  have l1: "length r1 \<le> length b" unfolding r1 by (rule length_dropWhile_le)
  have l2: "has_value \<Longrightarrow> length r2 \<le> length (tl r1)" unfolding r2
    using length_dropWhile_le [of "\<lambda>c. c \<noteq> CHR ''&''" "tl r1"] by simp
  have h: "r1 \<noteq> [] \<Longrightarrow> key_end (hd r1)" unfolding r1
    using hd_dropWhile [of "\<lambda>c. \<not> key_end c" b] by simp
  have "length r3 < length b"
  proof (cases "r1 = []")
    case True
    with b r2 r3 hv show ?thesis by simp
  next
    case False
    with h have hd: "hd r1 = CHR ''='' \<or> hd r1 = CHR ''&''" by (simp add: key_end_def)
    have l0: "length (tl r1) < length r1" using False by (cases r1) simp_all
    have l3: "length r3 \<le> length r2" by (simp add: r3)
    show ?thesis
    proof (cases has_value)
      case True
      with l0 l1 l2 l3 show ?thesis by linarith
    next
      case no: False
      with False hv hd have "hd r1 = CHR ''&''" by simp
      with no False r2 r3 have "r3 = tl r1" by simp
      with l0 l1 show ?thesis by simp
    qed
  qed
  then show "((al, r3), al, b) \<in> measure (\<lambda>(al, b). length b)" by simp
qed

declare form_walk.simps [simp del]

definition form_parse :: "(nat \<Rightarrow> bool) \<Rightarrow> cerco_req \<Rightarrow> cerco_req" where
  "form_parse al r =
     (if rq_form r \<noteq> [] then r
      else case cerco_header r ''content-type'' of
        None \<Rightarrow> r
      | Some ct \<Rightarrow>
          if \<not> cerco_strncaseeq ct ''application/x-www-form-urlencoded'' 33 then r
          else (case rq_body r of None \<Rightarrow> r | Some b \<Rightarrow> r\<lparr>rq_form := form_walk al b\<rparr>))"

definition cerco_form :: "(nat \<Rightarrow> bool) \<Rightarrow> cerco_req \<Rightarrow> string \<Rightarrow> string option \<times> cerco_req" where
  "cerco_form al r name = (let r' = form_parse al r in (lookup_ci (rq_form r') name, r'))"

subsection \<open>Remote address\<close>

text \<open>What \<open>uv_tcp_getpeername\<close> and \<open>uv_ip*_name\<close> report; \<open>None\<close> is an error.\<close>

datatype peer = Peer_ip4 string nat | Peer_ip6 string nat | Peer_other

definition cerco_remote_addr :: "peer option \<Rightarrow> cerco_req \<Rightarrow> string" where
  "cerco_remote_addr peer r =
     (if rq_conn r = None then []
      else case peer of
        None \<Rightarrow> []
      | Some (Peer_ip4 host port) \<Rightarrow> host @ '':'' @ dec port
      | Some (Peer_ip6 host port) \<Rightarrow> ''['' @ host @ '']:'' @ dec port
      | Some Peer_other \<Rightarrow> [])"

subsection \<open>JSON string fields\<close>

text \<open>The four hex digits after \<open>\u\<close>; fewer only at the end of the body.\<close>

fun json_hex4 :: "nat \<Rightarrow> u32 \<Rightarrow> string \<Rightarrow> (u32 \<times> string) option" where
  "json_hex4 0 cp q = Some (cp, q)"
| "json_hex4 (Suc n) cp [] = Some (cp, [])"
| "json_hex4 (Suc n) cp (h # q) =
     (if hexval h < 0 then None
      else json_hex4 n (push_bit 4 cp OR word_of_int (hexval h)) q)"

definition utf8_encode :: "u32 \<Rightarrow> string" where
  "utf8_encode cp =
     (let ch = (\<lambda>w :: u32. char_of (unat (ucast w :: byte))) in
      if cp < 0x80 then [ch cp]
      else if cp < 0x800 then [ch (0xC0 OR drop_bit 6 cp), ch (0x80 OR (cp AND 0x3F))]
      else [ch (0xE0 OR drop_bit 12 cp), ch (0x80 OR (drop_bit 6 cp AND 0x3F)), ch (0x80 OR (cp AND 0x3F))])"

lemma json_hex4_length: "json_hex4 n cp q = Some (cp', q') \<Longrightarrow> length q' \<le> length q"
  by (induction n cp q rule: json_hex4.induct) (auto split: if_splits)

definition json_escapes :: "(char \<times> char) list" where
  "json_escapes = [(CHR ''n'', CHR 0x0A), (CHR ''t'', CHR 0x09), (CHR ''r'', CHR 0x0D), (CHR 0x22, CHR 0x22),
                   (CHR 0x5C, CHR 0x5C), (CHR ''/'', CHR ''/'')]"

text \<open>The text up to the closing quote, or \<open>None\<close> when the code gives up.\<close>

function json_unescape :: "string \<Rightarrow> string \<Rightarrow> string option" where
  "json_unescape acc q =
     (case q of
        [] \<Rightarrow> None
      | c # q1 \<Rightarrow>
          if c = CHR 0x22 then Some acc
          else if c = CHR 0x5C \<and> q1 \<noteq> [] then
            (let e = hd q1; q2 = tl q1 in
             case map_of json_escapes e of
               Some ch \<Rightarrow> json_unescape (acc @ [ch]) q2
             | None \<Rightarrow>
                 if e = CHR ''u'' then
                   (case json_hex4 4 0 q2 of
                      None \<Rightarrow> None
                    | Some (cp, q3) \<Rightarrow> json_unescape (acc @ utf8_encode cp) q3)
                 else None)
          else json_unescape (acc @ [c]) q1)"
  by pat_completeness auto
termination
  by (relation "measure (\<lambda>(acc, q). length q)") (auto simp: neq_Nil_conv dest!: json_hex4_length)

declare json_unescape.simps [simp del]

text \<open>
  The search for the key: \<open>prev\<close> is the byte before \<open>rest\<close> (\<open>None\<close> at the start of the body).
  An empty field name makes the loop of the source spin, so it is a partial function; the
  inner \<open>None\<close> is a NULL result.
\<close>

partial_function (option) json_search :: "(nat \<Rightarrow> bool) \<Rightarrow> string \<Rightarrow> char option \<Rightarrow> string \<Rightarrow> string option option" where
  "json_search al field prev rest =
     (case find_sub field rest of
        None \<Rightarrow> Some None
      | Some i \<Rightarrow>
          (let before = (if i = 0 then prev else Some (rest ! (i - 1)));
               after = drop (i + length field) rest;
               next_prev = (if i + length field = 0 then prev else Some (rest ! (i + length field - 1)));
               q = dropWhile cookie_ws after;
               q2 = dropWhile cookie_ws (tl q)
           in if before = Some CHR 0x22 then json_search al field next_prev after
              else if q = [] \<or> hd q \<noteq> CHR '':'' then json_search al field next_prev after
              else if q2 = [] \<or> hd q2 \<noteq> CHR 0x22 then json_search al field next_prev after
              else Some (case json_unescape [] (tl q2) of
                          None \<Rightarrow> None
                        | Some t \<Rightarrow> if t \<noteq> [] \<and> \<not> al (length t + 1) then None else Some (cstr t))))"

definition cerco_json_string :: "(nat \<Rightarrow> bool) \<Rightarrow> cerco_req \<Rightarrow> string \<Rightarrow> string option option" where
  "cerco_json_string al r field =
     (case rq_body r of None \<Rightarrow> Some None | Some b \<Rightarrow> json_search al field None (cstr b))"

subsection \<open>Forms\<close>

lemma dropWhile_key: "dropWhile (\<lambda>c. \<not> key_end c) (url_encode k @ CHR ''='' # s) = CHR ''='' # s"
proof -
  have "\<not> key_end x" if "x \<in> set (url_encode k)" for x
    using url_encode_plain [OF that] by (auto simp: key_end_def)
  then show ?thesis by (subst dropWhile_append2) (auto simp: key_end_def)
qed

lemma dropWhile_value:
  "dropWhile (\<lambda>c. c \<noteq> CHR ''&'') (url_encode v @ CHR ''&'' # s) = CHR ''&'' # s"
  "dropWhile (\<lambda>c. c \<noteq> CHR ''&'') (url_encode v) = []"
proof -
  have *: "x \<noteq> CHR ''&''" if "x \<in> set (url_encode v)" for x
    using url_encode_plain [OF that] by auto
  then show "dropWhile (\<lambda>c. c \<noteq> CHR ''&'') (url_encode v @ CHR ''&'' # s) = CHR ''&'' # s"
    by (subst dropWhile_append2) auto
  from * show "dropWhile (\<lambda>c. c \<noteq> CHR ''&'') (url_encode v) = []"
    by (simp add: dropWhile_eq_Nil_conv)
qed

text \<open>A form whose fields fit the stack buffers of the parser and hold no NUL.\<close>

definition form_ok :: "(string \<times> string) list \<Rightarrow> bool" where
  "form_ok kvs = list_all (\<lambda>(k, v). length k < 256 \<and> length v < 2048 \<and> no_nul k \<and> no_nul v) kvs"

lemma form_walk_string: "form_ok kvs \<Longrightarrow> form_walk lasts (query_string kvs) = kvs"
proof (induction kvs rule: query_string.induct)
  case 1
  then show ?case by (simp add: form_walk.simps)
next
  case (2 k v)
  then have kv: "length k < 256" "length v < 2048" "cstr k = k" "cstr v = v"
    by (auto simp: form_ok_def cstr_id)
  then show ?case
    by (subst form_walk.simps)
       (simp add: takeWhile_key dropWhile_key takeWhile_value dropWhile_value decode_encoded form_walk.simps)
next
  case (3 k v kv kvs)
  then have kv: "length k < 256" "length v < 2048" "cstr k = k" "cstr v = v" and ok: "form_ok (kv # kvs)"
    by (auto simp: form_ok_def cstr_id)
  from kv "3.IH" [OF ok] show ?case
    by (subst form_walk.simps)
       (simp add: takeWhile_key dropWhile_key takeWhile_value dropWhile_value decode_encoded)
qed

subsection \<open>JSON keys\<close>

text \<open>Every occurrence of the field name stands right after a double quote.\<close>

definition only_quoted :: "string \<Rightarrow> char option \<Rightarrow> string \<Rightarrow> bool" where
  "only_quoted field prev s =
     (\<forall>i < Suc (length s). take (length field) (drop i s) = field \<longrightarrow>
        (if i = 0 then prev = Some CHR 0x22 else s ! (i - 1) = CHR 0x22))"

lemma json_search_quoted:
  "field \<noteq> [] \<Longrightarrow> only_quoted field prev s \<Longrightarrow> json_search al field prev s = Some None"
proof (induction "length s" arbitrary: prev s rule: less_induct)
  case less
  show ?case
  proof (cases "find_sub field s")
    case None
    then show ?thesis by (subst json_search.simps) simp
  next
    case (Some i)
    from find_sub_Some [OF Some] have i: "i + length field \<le> length s" "take (length field) (drop i s) = field"
      by simp_all
    let ?n = "i + length field"
    have n: "0 < ?n" using less.prems(1) by (cases field) simp_all
    have before: "(if i = 0 then prev else Some (s ! (i - 1))) = Some CHR 0x22"
      using less.prems(2) i unfolding only_quoted_def by (auto split: if_splits)
    have "only_quoted field (Some (s ! (?n - 1))) (drop ?n s)"
      unfolding only_quoted_def
    proof (intro allI impI)
      fix j
      assume j: "j < Suc (length (drop ?n s))" "take (length field) (drop j (drop ?n s)) = field"
      then have occ: "take (length field) (drop (j + ?n) s) = field" "j + ?n \<le> length s"
        using i(1) by (simp_all add: less_Suc_eq_le)
      with less.prems(2) n have "s ! (j + ?n - 1) = CHR 0x22"
        unfolding only_quoted_def by (metis add_gr_0 less_Suc_eq_le not_gr_zero)
      moreover have "j \<noteq> 0 \<Longrightarrow> drop ?n s ! (j - 1) = s ! (j + ?n - 1)"
        using occ(2) by (simp add: add.commute)
      ultimately show "if j = 0 then Some (s ! (?n - 1)) = Some CHR 0x22 else drop ?n s ! (j - 1) = CHR 0x22"
        by (cases "j = 0") simp_all
    qed
    moreover have "length (drop ?n s) < length s"
      unfolding length_drop by (intro diff_less n less_le_trans [OF n i(1)])
    ultimately have "json_search al field (Some (s ! (?n - 1))) (drop ?n s) = Some None"
      using less.hyps less.prems(1) by blast
    with Some before n less.prems(1) show ?thesis by (subst json_search.simps) (simp add: Let_def)
  qed
qed

subsection \<open>Limits on headers\<close>

definition headers_ok :: "cerco_req \<Rightarrow> bool" where
  "headers_ok r =
     (length (rq_headers r) \<le> CERCO_MAX_HEADERS \<and>
      list_all (\<lambda>(n, v). length n \<le> CERCO_MAX_NAME \<and> length v \<le> CERCO_MAX_VALUE) (rq_headers r))"

lemma finish_headers_ok [inv_rules]:
  assumes "headers_ok r" "req_finish_headers al (Some r) c = (Some r', c')"
  shows "headers_ok r'"
  using assms length_cstr [of "hs_f c"] length_cstr [of "hs_v c"]
  by (auto simp: req_finish_headers_def headers_ok_def split: if_splits)

subsection \<open>Properties\<close>

text \<open>A url-encoded form body gives back every submitted field: looking a name up finds the first
  submitted pair with that name, for all fields below the parser's 256 and 2048 byte buffers.\<close>

theorem form_roundtrip:
  assumes "form_ok kvs" "rq_form r = []" "rq_body r = Some (query_string kvs)"
    and "cerco_header r ''content-type'' = Some ''application/x-www-form-urlencoded''"
  shows "fst (cerco_form lasts r name) = lookup_ci kvs name"
proof -
  have "cerco_strncaseeq s s n" for s n by (induction n arbitrary: s) simp_all
  then have "cerco_strncaseeq ''application/x-www-form-urlencoded'' ''application/x-www-form-urlencoded'' 33"
    by simp
  with assms show ?thesis by (simp add: cerco_form_def form_parse_def form_walk_string)
qed

theorem form_roundtrip_witness:
  "fst (cerco_form lasts
     (req_zero\<lparr>rq_headers := [(''Content-Type'', ''application/x-www-form-urlencoded'')],
              rq_body := Some (query_string [(''name'', ''Ada & Co''), (''msg'', ''1+1=2'')])\<rparr>) ''msg'')
     = Some ''1+1=2''"
proof -
  let ?kvs = "[(''name'', ''Ada & Co''), (''msg'', ''1+1=2'')]"
  let ?r = "req_zero\<lparr>rq_headers := [(''Content-Type'', ''application/x-www-form-urlencoded'')],
              rq_body := Some (query_string ?kvs)\<rparr>"
  have "lookup_ci ?kvs ''msg'' = Some ''1+1=2''"
    by (simp add: lookup_ci_def lower_def in_range_def)
  moreover have "cerco_header ?r ''content-type'' = Some ''application/x-www-form-urlencoded''"
    by (simp add: cerco_header_def lookup_ci_def lower_def in_range_def char_eval)
  ultimately show ?thesis
    using form_roundtrip [of ?kvs ?r "''msg''"] by (simp add: form_ok_def req_zero_def)
qed

text \<open>\<open>cerco_query\<close> returns the decoded query string, not the raw one, and
  \<open>cerco_query_get\<close> decodes it a second time: it walks the decoded text, so an encoded
  \<open>&\<close> or \<open>=\<close> inside a value separates fields. (In the witness the value \<open>x&admin=1\<close> of one field
  makes a second field.)\<close>

theorem query_decoded_twice:
  assumes "rq_path r = None" "rq_query r = None" "rq_target r = Some (''/?'' @ raw)"
    and "pct_decode True raw = Some q" "no_nul q"
  shows "fst (cerco_query lasts r) = q \<and>
         fst (cerco_query_get lasts r name)
           = map_option (\<lambda>(k, v). cstr v) (find (\<lambda>(k, v). cerco_strcaseeq (cstr k) name) (query_walk q 0 256 2048))"
proof -
  have t: "target_path_part (''/?'' @ raw) = ''/''" by (simp add: target_path_part_def)
  have d: "cerco_url_decode ''/'' (Suc (Suc 0)) False = Some ''/''" by (simp add: cerco_url_decode_def)
  from assms have "req_target_path lasts r = (0, r\<lparr>rq_path := Some ''/'', rq_query := Some q\<rparr>)"
    using t d url_decode_fits [of raw True]
    by (simp add: req_target_path_def CERCO_MAX_URL_def cstr_id Let_def)
  then have q: "cerco_query lasts r = (q, r\<lparr>rq_path := Some ''/'', rq_query := Some q\<rparr>)"
    using assms(2) by (simp add: cerco_query_def)
  then show ?thesis by (simp add: cerco_query_get_def split: option.splits)
qed

theorem query_decoded_twice_witness:
  "fst (cerco_query_get lasts (req_zero\<lparr>rq_target := Some (''/?'' @ query_string [(''a'', ''x&admin=1'')])\<rparr>) ''admin'')
     = Some ''1''"
proof -
  let ?r = "req_zero\<lparr>rq_target := Some (''/?'' @ query_string [(''a'', ''x&admin=1'')])\<rparr>"
  have d: "pct_decode True (query_string [(''a'', ''x&admin=1'')]) = Some ''a=x&admin=1''"
    by (simp add: url_encode_char_def url_safe_def in_range_def hex_digit_def hexval_def char_eval)
  have w: "query_walk ''a=x&admin=1'' 0 256 2048 = [(''a'', ''x''), (''admin'', ''1'')]"
  proof -
    have "query_walk ([] @ query_string [(''a'', ''x''), (''admin'', ''1'')]) (length ([] :: string)) 256 2048
        = [(''a'', ''x''), (''admin'', ''1'')]"
      by (rule query_walk_string) auto
    then show ?thesis by (simp add: url_encode_char_def url_safe_def in_range_def)
  qed
  have "find (\<lambda>(k, v). cerco_strcaseeq (cstr k) ''admin'') [(''a'', ''x''), (''admin'', ''1'')] = Some (''admin'', ''1'')"
    by (simp add: lower_def in_range_def)
  then show ?thesis
    using query_decoded_twice [of ?r "query_string [(''a'', ''x&admin=1'')]" "''a=x&admin=1''" "''admin''"] d w
    by (simp add: req_zero_def)
qed

text \<open>The header block is bounded in the number of headers and in each name and value, but not in
  its total size: any header within those limits is accepted whatever the sizes of the others.\<close>

theorem header_limits:
  assumes "headers_ok r" "length (rq_headers r) < CERCO_MAX_HEADERS" "hs_f c \<noteq> []"
    and "length (hs_f c) \<le> CERCO_MAX_NAME" "length (hs_v c) \<le> CERCO_MAX_VALUE"
  shows "\<exists>r' c'. req_finish_headers lasts (Some r) c = (Some r', c') \<and> headers_ok r' \<and>
           hs_bad c' = hs_bad c \<and> rq_headers r' = rq_headers r @ [(cstr (hs_f c), cstr (hs_v c))]"
proof -
  have "length (hs_f c) + length (hs_v c) + length (rq_headers r) * 2 \<le> CERCO_MAX_HEADER_BYTES"
    using assms(2,4,5) unfolding limit_defs by linarith
  then have e: "req_finish_headers lasts (Some r) c =
      (Some (r\<lparr>rq_headers := rq_headers r @ [(cstr (hs_f c), cstr (hs_v c))]\<rparr>),
       c\<lparr>hs_f := [], hs_v := [], hs_in_value := False\<rparr>)"
    using assms(2-5) by (simp add: req_finish_headers_def)
  show ?thesis using finish_headers_ok [OF assms(1) e] e by simp
qed

theorem header_limits_witness:
  "\<exists>r' c'. req_finish_headers lasts (Some (req_zero\<lparr>rq_headers := replicate 99 (''x'', replicate 8192 CHR ''v'')\<rparr>))
             \<lparr>hs_f = ''y'', hs_v = replicate 8192 CHR ''v'', hs_in_value = True, hs_bad = 0\<rparr> = (Some r', c') \<and>
           hs_bad c' = 0"
proof -
  let ?r = "req_zero\<lparr>rq_headers := replicate 99 (''x'', replicate 8192 CHR ''v'')\<rparr>"
  let ?c = "\<lparr>hs_f = ''y'', hs_v = replicate 8192 CHR ''v'', hs_in_value = True, hs_bad = 0\<rparr>"
  have "headers_ok ?r" by (simp add: headers_ok_def limit_defs list_all_length)
  from header_limits [OF this, of ?c] show ?thesis by (auto simp: limit_defs)
qed

text \<open>\<open>cerco_json_string\<close> never finds an ordinary JSON key: when every occurrence of the field
  name in the body follows a double quote, as in \<open>{"name":"x"}\<close>, the search ends with NULL.\<close>

theorem json_string_quoted_key:
  assumes "field \<noteq> []" "rq_body r = Some b" "only_quoted field None (cstr b)"
  shows "cerco_json_string al r field = Some None"
  using assms by (simp add: cerco_json_string_def json_search_quoted)

theorem json_string_quoted_key_witness:
  "cerco_json_string (\<lambda>n. n < 4096) (req_zero\<lparr>rq_body := Some (CHR ''{'' # CHR 0x22 # ''id'' @ CHR 0x22 # '':'' @ CHR 0x22 # ''7'' @ CHR 0x22 # ''}'')\<rparr>) ''id''
     = Some None"
proof -
  let ?b = "CHR ''{'' # CHR 0x22 # ''id'' @ CHR 0x22 # '':'' @ CHR 0x22 # ''7'' @ CHR 0x22 # ''}''"
  have "only_quoted ''id'' None (cstr ?b)"
    unfolding only_quoted_def by (simp add: All_less_Suc)
  then show ?thesis by (intro json_string_quoted_key [of _ _ ?b]) simp_all
qed

end
