(* ===== verification/Render.thy ===== *)
theory Render
  imports Request
begin

text \<open>
  The response writer of \<open>runtime/server/render.c\<close>: status, headers and cookies, escaped text,
  formatted text, tags, and the page title that is patched into the finished document.
  \<open>snp spec t v\<close> is the text \<open>snprintf\<close> produces for a conversion of a value of C type \<open>t\<close>
  (\<open>None\<close> on an output error); \<open>%s\<close> conversions are handled by the code itself.
\<close>

subsection \<open>Status and headers\<close>

definition cerco_status :: "int \<Rightarrow> cerco_req \<Rightarrow> cerco_req" where
  "cerco_status code r = (if 100 \<le> code \<and> code \<le> 599 then r\<lparr>rq_status := code\<rparr> else r)"

definition resp_hdr_add :: "(nat \<Rightarrow> bool) \<Rightarrow> string \<Rightarrow> string \<Rightarrow> cerco_req \<Rightarrow> cerco_req" where
  "resp_hdr_add al name v r =
     (if length (rq_resp_hdrs r) \<ge> 64 then r
      else if \<not> al 24 then r
      else if \<not> al (length name + 1) \<or> \<not> al (length v + 1) then r
      else r\<lparr>rq_resp_hdrs := rq_resp_hdrs r @ [(name, v)]\<rparr>)"

fun replace_header :: "string \<Rightarrow> string \<Rightarrow> (string \<times> string) list \<Rightarrow> (string \<times> string) list option" where
  "replace_header name v [] = None"
| "replace_header name v ((k, x) # hs) =
     (if cerco_strcaseeq k name then Some ((k, v) # hs)
      else map_option (Cons (k, x)) (replace_header name v hs))"

definition cerco_set_header :: "(nat \<Rightarrow> bool) \<Rightarrow> string \<Rightarrow> string \<Rightarrow> cerco_req \<Rightarrow> cerco_req" where
  "cerco_set_header al name v r =
     (case replace_header name v (rq_resp_hdrs r) of
        Some hs \<Rightarrow> r\<lparr>rq_resp_hdrs := hs\<rparr>
      | None \<Rightarrow> resp_hdr_add al name v r)"

definition cerco_add_header :: "(nat \<Rightarrow> bool) \<Rightarrow> string \<Rightarrow> string \<Rightarrow> cerco_req \<Rightarrow> cerco_req" where
  "cerco_add_header al name v r = resp_hdr_add al name v r"

definition cerco_content_type :: "(nat \<Rightarrow> bool) \<Rightarrow> string \<Rightarrow> cerco_req \<Rightarrow> cerco_req" where
  "cerco_content_type al ct r = cerco_set_header al ''Content-Type'' ct r"

record cookie_flags =
  ck_httponly :: bool
  ck_secure :: bool
  ck_lax :: bool
  ck_strict :: bool
  ck_none :: bool

definition cerco_set_cookie ::
  "(nat \<Rightarrow> bool) \<Rightarrow> (nat \<Rightarrow> bool) \<Rightarrow> string \<Rightarrow> string \<Rightarrow> int \<Rightarrow> string option \<Rightarrow> cookie_flags \<Rightarrow>
     cerco_req \<Rightarrow> cerco_req" where
  "cerco_set_cookie ra al name v max_age path flags r =
     (let puts = (\<lambda>s b. sb_puts ra (Some s) b);
          sb = puts v (puts ''='' (puts name sb_init));
          sb = (if max_age \<ge> 0 then sb_printf ra (Some (''; Max-Age='' @ dec_int max_age)) sb else sb);
          sb = puts (case path of Some p \<Rightarrow> p | None \<Rightarrow> ''/'') (puts ''; Path='' sb);
          sb = (if ck_httponly flags then puts ''; HttpOnly'' sb else sb);
          sb = (if ck_secure flags then puts ''; Secure'' sb else sb);
          sb = (if ck_lax flags then puts ''; SameSite=Lax'' sb else sb);
          sb = (if ck_strict flags then puts ''; SameSite=Strict'' sb else sb);
          sb = (if ck_none flags then puts ''; SameSite=None'' sb else sb)
      in cerco_add_header al ''Set-Cookie'' (if sb_alloc sb then sb_data sb else []) r)"

definition cerco_redirect :: "(nat \<Rightarrow> bool) \<Rightarrow> string \<Rightarrow> cerco_req \<Rightarrow> cerco_req" where
  "cerco_redirect al location r =
     (let r1 = r\<lparr>rq_status := (if cerco_strcaseeq (cerco_method r) ''POST'' then 303 else 302)\<rparr>;
          r2 = cerco_set_header al ''Location'' location r1
      in r2\<lparr>rq_resp := wbuf_puts al ''redirecting...'' (wbuf_reset (rq_resp r2)), rq_responded := True\<rparr>)"

subsection \<open>Text\<close>

definition on_resp :: "(cerco_wbuf \<Rightarrow> cerco_wbuf) \<Rightarrow> cerco_req \<Rightarrow> cerco_req" where
  "on_resp f r = r\<lparr>rq_resp := f (rq_resp r)\<rparr>"

definition cerco_text :: "(nat \<Rightarrow> bool) \<Rightarrow> string option \<Rightarrow> cerco_req \<Rightarrow> cerco_req" where
  "cerco_text al s r = (case s of None \<Rightarrow> r | Some t \<Rightarrow> on_resp (wbuf_escape al t) r)"

datatype ctype = T_double | T_ulonglong | T_ulong | T_longlong | T_long | T_size | T_uint | T_int

datatype farg = Fa_str "string option" | Fa_num int

definition conv_chars :: string where "conv_chars = ''diouxXeEfgGcs''"

text \<open>
  One conversion specification after the \<open>%\<close>: at most 37 more bytes go into \<open>spec[40]\<close>. The
  result is the specification without its conversion, the length modifier, the conversion
  (\<open>None\<close> when none was found) and the rest of the format.
\<close>

fun scan_spec :: "nat \<Rightarrow> string \<Rightarrow> char option \<Rightarrow> string \<Rightarrow> string \<times> char option \<times> char option \<times> string" where
  "scan_spec 0 spec lenmod p = (spec, lenmod, None, p)"
| "scan_spec (Suc n) spec lenmod [] = (spec, lenmod, None, [])"
| "scan_spec (Suc n) spec lenmod (ch # p) =
     (if ch \<in> set conv_chars then (spec, lenmod, Some ch, p)
      else scan_spec n (spec @ [ch])
             (if ch = CHR ''l'' \<or> ch = CHR ''z'' \<or> ch = CHR ''h'' then Some ch else lenmod) p)"

lemma scan_spec_length: "scan_spec n spec lm p = (s, l, c, p') \<Longrightarrow> length p' \<le> length p"
  by (induction n spec lm p rule: scan_spec.induct) (auto split: if_splits)

definition conv_type :: "char \<Rightarrow> char option \<Rightarrow> string \<Rightarrow> ctype" where
  "conv_type c lenmod spec =
     (if c \<in> set ''fgeGE'' then T_double
      else if lenmod = Some CHR ''l'' then
        (let ll = (length spec > 1 \<and> last spec = CHR ''l'') in
         if c \<in> set ''uxXo'' then (if ll then T_ulonglong else T_ulong)
         else (if ll then T_longlong else T_long))
      else if lenmod = Some CHR ''z'' then T_size
      else if c \<in> set ''uxXo'' then T_uint
      else T_int)"

text \<open>\<open>None\<close>: an argument is missing or of the wrong kind, which is undefined in C.\<close>

function textf_loop ::
  "(nat \<Rightarrow> bool) \<Rightarrow> (string \<Rightarrow> ctype \<Rightarrow> int \<Rightarrow> string option) \<Rightarrow> string \<Rightarrow> farg list \<Rightarrow> cerco_wbuf \<Rightarrow>
     cerco_wbuf option" where
  "textf_loop al snp p args b =
     (case p of
        [] \<Rightarrow> Some b
      | c # p1 \<Rightarrow>
          if c \<noteq> CHR ''%'' then textf_loop al snp p1 args (wbuf_putc al c b)
          else if p1 \<noteq> [] \<and> hd p1 = CHR ''%'' then textf_loop al snp (tl p1) args (wbuf_putc al CHR ''%'' b)
          else case scan_spec 37 [CHR ''%''] None p1 of
            (spec, lenmod, None, p2) \<Rightarrow> Some b
          | (spec, lenmod, Some cv, p2) \<Rightarrow>
              (case args of
                 [] \<Rightarrow> None
               | Fa_str s # args' \<Rightarrow>
                   if cv \<noteq> CHR ''s'' then None
                   else textf_loop al snp p2 args'
                     (case s of Some t \<Rightarrow> wbuf_escape al t b | None \<Rightarrow> wbuf_puts al ''(null)'' b)
               | Fa_num v # args' \<Rightarrow>
                   if cv = CHR ''s'' then None
                   else textf_loop al snp p2 args'
                     (case snp (spec @ [cv]) (conv_type cv lenmod spec) v of
                        Some t \<Rightarrow> if length t > 0 then wbuf_putn al (take 159 t) b else b
                      | None \<Rightarrow> b)))"
  by pat_completeness auto
termination
proof (relation "measure (\<lambda>(al, snp, p, args, b). length p)", goal_cases)
  case 1
  show ?case by simp
next
  case 2
  then show ?case by simp
next
  case (3 al snp p args b c p1)
  then show ?case by (cases p1) simp_all
next
  case 4
  then show ?case by (simp add: less_Suc_eq_le) (metis scan_spec_length)
next
  case 5
  then show ?case by (simp add: less_Suc_eq_le) (metis scan_spec_length)
qed

declare textf_loop.simps [simp del]

definition cerco_textf ::
  "(nat \<Rightarrow> bool) \<Rightarrow> (string \<Rightarrow> ctype \<Rightarrow> int \<Rightarrow> string option) \<Rightarrow> string \<Rightarrow> farg list \<Rightarrow> cerco_req \<Rightarrow>
     cerco_req option" where
  "cerco_textf al snp fmtd args r = map_option (\<lambda>b. r\<lparr>rq_resp := b\<rparr>) (textf_loop al snp fmtd args (rq_resp r))"

definition cerco_raw :: "(nat \<Rightarrow> bool) \<Rightarrow> string \<Rightarrow> cerco_req \<Rightarrow> cerco_req" where
  "cerco_raw al s r = on_resp (wbuf_puts al s) r"

definition cerco_write_bytes :: "(nat \<Rightarrow> bool) \<Rightarrow> string \<Rightarrow> cerco_req \<Rightarrow> cerco_req" where
  "cerco_write_bytes al data r = on_resp (wbuf_putn al data) r"

text \<open>Sizing call, allocation, writing call: the escaped copy or NULL.\<close>

definition escaped_copy :: "(nat \<Rightarrow> bool) \<Rightarrow> string \<Rightarrow> string option" where
  "escaped_copy al s =
     (case cerco_html_escape s None of
        Needed need \<Rightarrow>
          if \<not> al (need + 1) then None
          else (case cerco_html_escape s (Some (need + 1)) of Escaped e \<Rightarrow> Some e | _ \<Rightarrow> Some [])
      | _ \<Rightarrow> None)"

definition cerco_prop_escape :: "(nat \<Rightarrow> bool) \<Rightarrow> string option \<Rightarrow> string" where
  "cerco_prop_escape al json =
     (case json of None \<Rightarrow> [] | Some j \<Rightarrow> (case escaped_copy al j of Some e \<Rightarrow> e | None \<Rightarrow> []))"

subsection \<open>The page title\<close>

definition cerco_title :: "(nat \<Rightarrow> bool) \<Rightarrow> string option \<Rightarrow> cerco_req \<Rightarrow> cerco_req" where
  "cerco_title al title r =
     (case title of
        None \<Rightarrow> r
      | Some t \<Rightarrow> (case escaped_copy al t of None \<Rightarrow> r | Some e \<Rightarrow> r\<lparr>rq_page_title := Some e\<rparr>))"

definition apply_page_title :: "(nat \<Rightarrow> bool) \<Rightarrow> cerco_req \<Rightarrow> cerco_req" where
  "apply_page_title al r =
     (case rq_page_title r of
        None \<Rightarrow> r
      | Some title \<Rightarrow>
          if wb_cap (rq_resp r) = 0 then r
          else case wbuf_find (rq_resp r) 0 (Some ''<title>'') of
            None \<Rightarrow> r
          | Some op \<Rightarrow>
              (let inner = op + 7 in
               case wbuf_find (rq_resp r) inner (Some ''</title>'') of
                 None \<Rightarrow> r
               | Some cl \<Rightarrow>
                   let data = wb_data (rq_resp r);
                       nb = take inner data @ title @ drop cl data
                   in if \<not> al (length nb) then r
                      else r\<lparr>rq_resp := \<lparr>wb_data = nb, wb_cap = length nb\<rparr>\<rparr>))"

subsection \<open>Tags\<close>

definition put_attr :: "(nat \<Rightarrow> bool) \<Rightarrow> string \<times> string option \<Rightarrow> cerco_wbuf \<Rightarrow> cerco_wbuf" where
  "put_attr al a b =
     (let b = wbuf_puts al [CHR ''='', CHR 0x22] (wbuf_puts al (fst a) (wbuf_putc al CHR '' '' b));
          b = (case snd a of Some v \<Rightarrow> wbuf_escape al v b | None \<Rightarrow> b)
      in wbuf_putc al CHR 0x22 b)"

definition cerco_tag_open :: "(nat \<Rightarrow> bool) \<Rightarrow> string \<Rightarrow> (string \<times> string option) list \<Rightarrow> cerco_req \<Rightarrow> cerco_req" where
  "cerco_tag_open al tag attrs r =
     on_resp (\<lambda>b. wbuf_putc al CHR ''>''
                (fold (put_attr al) attrs (wbuf_puts al tag (wbuf_putc al CHR ''<'' b)))) r"

definition cerco_tag_close :: "(nat \<Rightarrow> bool) \<Rightarrow> string \<Rightarrow> cerco_req \<Rightarrow> cerco_req" where
  "cerco_tag_close al tag r =
     on_resp (\<lambda>b. wbuf_putc al CHR ''>'' (wbuf_puts al tag (wbuf_puts al ''</'' b))) r"

definition cerco_void_tag :: "(nat \<Rightarrow> bool) \<Rightarrow> string \<Rightarrow> (string \<times> string option) list \<Rightarrow> cerco_req \<Rightarrow> cerco_req" where
  "cerco_void_tag al tag attrs r =
     on_resp (\<lambda>b. wbuf_putc al CHR ''>''
                (fold (put_attr al) attrs (wbuf_puts al tag (wbuf_putc al CHR ''<'' b)))) r"

subsection \<open>Response headers\<close>

lemma replace_header_None: "replace_header n v hs = None \<longleftrightarrow> lookup_ci hs n = None"
  by (induction hs) (auto simp: lookup_ci_def)

lemma replace_header_Some:
  "replace_header n v hs = Some hs' \<Longrightarrow>
     length hs' = length hs \<and>
     lookup_ci hs' m = (if cerco_strcaseeq n m then Some v else lookup_ci hs m)"
proof (induction hs arbitrary: hs')
  case Nil
  then show ?case by simp
next
  case (Cons h hs)
  obtain k x where h: "h = (k, x)" by (cases h)
  show ?case
  proof (cases "cerco_strcaseeq k n")
    case True
    with Cons.prems h have hs': "hs' = (k, v) # hs" by simp
    have "cerco_strcaseeq k m = cerco_strcaseeq n m" using True by (simp add: strcaseeq_iff)
    with hs' h show ?thesis by (simp add: lookup_ci_def)
  next
    case False
    with Cons.prems h obtain hs1 where hs1: "replace_header n v hs = Some hs1" "hs' = (k, x) # hs1" by auto
    have "cerco_strcaseeq k m \<Longrightarrow> \<not> cerco_strcaseeq n m" using False by (simp add: strcaseeq_iff)
    with Cons.IH [OF hs1(1)] hs1(2) h show ?thesis by (auto simp: lookup_ci_def)
  qed
qed

lemma lookup_ci_append: "lookup_ci (hs @ [(n, v)]) m =
    (case lookup_ci hs m of Some x \<Rightarrow> Some x | None \<Rightarrow> if cerco_strcaseeq n m then Some v else None)"
  by (induction hs) (auto simp: lookup_ci_def split: option.splits)

subsection \<open>Formatted text\<close>

text \<open>The characters of a format that are copied to the output.\<close>

function textf_lits :: "string \<Rightarrow> string" where
  "textf_lits p =
     (case p of
        [] \<Rightarrow> []
      | c # p1 \<Rightarrow>
          if c \<noteq> CHR ''%'' then c # textf_lits p1
          else if p1 \<noteq> [] \<and> hd p1 = CHR ''%'' then CHR ''%'' # textf_lits (tl p1)
          else case scan_spec 37 [CHR ''%''] None p1 of
            (spec, lenmod, None, p2) \<Rightarrow> []
          | (spec, lenmod, Some cv, p2) \<Rightarrow> textf_lits p2)"
  by pat_completeness auto
termination
proof (relation "measure length", goal_cases)
  case (3 p c p1)
  then show ?case by (cases p1) simp_all
next
  case 4
  then show ?case by (simp add: less_Suc_eq_le) (metis scan_spec_length)
qed simp_all

declare textf_lits.simps [simp del]

abbreviation markup :: "string \<Rightarrow> string" where "markup \<equiv> filter markup_char"

lemma markup_esc [simp]: "markup (esc s) = []"
  by (auto simp: filter_empty_conv dest: esc_no_markup)

definition plain_numbers :: "(string \<Rightarrow> ctype \<Rightarrow> int \<Rightarrow> string option) \<Rightarrow> bool" where
  "plain_numbers snp = (\<forall>spec t v x. snp spec t v = Some x \<longrightarrow> markup x = [])"

lemma markup_take: "markup x = [] \<Longrightarrow> markup (take n x) = []"
  by (auto simp: filter_empty_conv dest: in_set_takeD)

lemma textf_conv:
  assumes "\<not> (p \<noteq> [] \<and> hd p = CHR ''%'')"
  shows "textf_lits (CHR ''%'' # p) =
      (case scan_spec 37 [CHR ''%''] None p of
         (spec, lenmod, None, p2) \<Rightarrow> [] | (spec, lenmod, Some cv, p2) \<Rightarrow> textf_lits p2)"
    and "textf_loop al snp (CHR ''%'' # p) args b =
      (case scan_spec 37 [CHR ''%''] None p of
         (spec, lenmod, None, p2) \<Rightarrow> Some b
       | (spec, lenmod, Some cv, p2) \<Rightarrow>
           (case args of
              [] \<Rightarrow> None
            | Fa_str s # args' \<Rightarrow>
                if cv \<noteq> CHR ''s'' then None
                else textf_loop al snp p2 args'
                  (case s of Some t \<Rightarrow> wbuf_escape al t b | None \<Rightarrow> wbuf_puts al ''(null)'' b)
            | Fa_num v # args' \<Rightarrow>
                if cv = CHR ''s'' then None
                else textf_loop al snp p2 args'
                  (case snp (spec @ [cv]) (conv_type cv lenmod spec) v of
                     Some t \<Rightarrow> if length t > 0 then wbuf_putn al (take 159 t) b else b
                   | None \<Rightarrow> b)))"
  using assms by (simp_all only: textf_lits.simps [of "CHR ''%'' # p"] textf_loop.simps [of _ _ "CHR ''%'' # p"]
      list.case simp_thms if_not_P if_False)

lemma textf_markup:
  assumes "plain_numbers snp"
  shows "textf_loop lasts snp p args b = Some b' \<Longrightarrow>
         markup (wb_data b') = markup (wb_data b) @ markup (textf_lits p)"
proof (induction "length p" arbitrary: p args b rule: less_induct)
  case less
  show ?case
  proof (cases p)
    case Nil
    with less.prems show ?thesis by (simp add: textf_loop.simps [of _ _ "[]"] textf_lits.simps [of "[]"])
  next
    case (Cons c p1)
    consider (lit) "c \<noteq> CHR ''%''" | (pct) "c = CHR ''%''" "p1 \<noteq> []" "hd p1 = CHR ''%''"
      | (spec) "c = CHR ''%''" "\<not> (p1 \<noteq> [] \<and> hd p1 = CHR ''%'')" by blast
    then show ?thesis
    proof cases
      case lit
      with less.prems Cons have "textf_loop lasts snp p1 args (wbuf_putc lasts c b) = Some b'"
        by (simp add: textf_loop.simps [of _ _ "c # p1"])
      from less.hyps [OF _ this] Cons lit show ?thesis by (simp add: textf_lits.simps [of "c # p1"])
    next
      case pct
      then obtain q where q: "p1 = CHR ''%'' # q" by (cases p1) simp_all
      with less.prems Cons pct have "textf_loop lasts snp q args (wbuf_putc lasts CHR ''%'' b) = Some b'"
        by (simp add: textf_loop.simps [of _ _ "CHR ''%'' # CHR ''%'' # q"])
      from less.hyps [OF _ this] Cons pct q show ?thesis
        by (simp add: textf_lits.simps [of "CHR ''%'' # CHR ''%'' # q"])
    next
      case spec
      obtain sp lm cv p2 where sc: "scan_spec 37 [CHR ''%''] None p1 = (sp, lm, cv, p2)"
        by (metis prod_cases4)
      then have len: "length p2 < length p" using scan_spec_length Cons by (fastforce simp: less_Suc_eq_le)
      show ?thesis
      proof (cases cv)
        case None
        with spec sc less.prems Cons show ?thesis by (simp add: textf_conv)
      next
        case (Some k)
        with spec sc less.prems Cons obtain a args' b1 where
          run: "textf_loop lasts snp p2 args' b1 = Some b'" and args: "args = a # args'" and
          b1: "markup (wb_data b1) = markup (wb_data b)"
          by (cases args)
             (auto simp: textf_conv markup_take markup_char_def
               split: farg.splits if_splits option.splits
               dest: assms [unfolded plain_numbers_def, rule_format])
        from less.hyps [OF len run] b1 spec sc Some Cons show ?thesis
          by (simp add: textf_conv)
      qed
    qed
  qed
qed

subsection \<open>Tags and titles\<close>

definition attr_text :: "string \<times> string option \<Rightarrow> string" where
  "attr_text a = CHR '' '' # fst a @ [CHR ''='', CHR 0x22] @
     (case snd a of Some v \<Rightarrow> esc v | None \<Rightarrow> []) @ [CHR 0x22]"

lemma put_attr_data [simp]: "wb_data (put_attr lasts a b) = wb_data b @ attr_text a"
  by (cases "snd a") (simp_all add: put_attr_def attr_text_def Let_def)

lemma fold_put_attr [simp]: "wb_data (fold (put_attr lasts) attrs b) = wb_data b @ concat (map attr_text attrs)"
  by (induction attrs arbitrary: b) simp_all

lemma escaped_copy_eq: "escaped_copy lasts s = Some (esc s)"
  by (simp add: escaped_copy_def html_escape_exact)

lemma find_sub_append:
  "find_sub n xs = Some i \<Longrightarrow> find_sub n (xs @ ys) = Some i"
proof (induction n xs arbitrary: i rule: find_sub.induct)
  case (1 n)
  then show ?case by (cases ys) (auto split: if_splits)
next
  case (2 n x xs)
  show ?case
  proof (cases "take (length n) (x # xs) = n")
    case True
    then have "length n \<le> length (x # xs)" by (metis length_take min.absorb_iff2 min.commute)
    then have "take (length n) (x # xs @ ys) = take (length n) (x # xs)" by (metis append_Cons take_append diff_is_0_eq' take0 append_Nil2)
    with True 2 show ?thesis by simp
  next
    case False
    with 2 obtain j where j: "find_sub n xs = Some j" "i = Suc j" by auto
    from find_sub_Some [OF j(1)] have "length n \<le> length (x # xs)" by simp
    then have "take (length n) (x # xs @ ys) = take (length n) (x # xs)" by (metis append_Cons take_append diff_is_0_eq' take0 append_Nil2)
    with False 2 j show ?thesis by simp
  qed
qed

subsection \<open>Properties\<close>

text \<open>Setting a response header makes a lookup of its name (in any case) return the new value and
  leaves every other name's first value alone, as long as there are fewer than 64 headers; a
  header that exists is replaced in place, not added again.\<close>

theorem set_header_lookup:
  assumes "length (rq_resp_hdrs r) < 64"
  shows "lookup_ci (rq_resp_hdrs (cerco_set_header lasts n v r)) m
           = (if cerco_strcaseeq n m then Some v else lookup_ci (rq_resp_hdrs r) m) \<and>
         length (rq_resp_hdrs (cerco_set_header lasts n v r))
           = length (rq_resp_hdrs r) + (if lookup_ci (rq_resp_hdrs r) n = None then 1 else 0)"
proof (cases "replace_header n v (rq_resp_hdrs r)")
  case None
  then have no: "lookup_ci (rq_resp_hdrs r) n = None" by (simp add: replace_header_None)
  have "cerco_strcaseeq n m \<Longrightarrow> lookup_ci (rq_resp_hdrs r) m = None"
  proof -
    assume "cerco_strcaseeq n m"
    then have "cerco_strcaseeq k m = cerco_strcaseeq k n" for k by (auto simp: strcaseeq_iff)
    with no show ?thesis by (simp add: lookup_ci_def)
  qed
  with None no assms show ?thesis
    by (auto simp: cerco_set_header_def resp_hdr_add_def lookup_ci_append split: option.splits)
next
  case (Some hs)
  then have "lookup_ci (rq_resp_hdrs r) n \<noteq> None" by (metis option.distinct(1) replace_header_None)
  with Some replace_header_Some [OF Some, of m] show ?thesis by (simp add: cerco_set_header_def)
qed

theorem set_header_lookup_witness:
  "lookup_ci (rq_resp_hdrs (cerco_set_header lasts ''location'' ''/b''
     (req_zero\<lparr>rq_resp_hdrs := [(''Location'', ''/a'')]\<rparr>))) ''LOCATION'' = Some ''/b''"
  using set_header_lookup [of "req_zero\<lparr>rq_resp_hdrs := [(''Location'', ''/a'')]\<rparr>" "''location''" "''/b''" "''LOCATION''"]
  by (simp add: lower_def in_range_def char_eval)

text \<open>Formatted text never lets a string argument produce markup: the markup characters of what
  \<open>cerco_textf\<close> appends are exactly those of the format's own literal text, for every argument
  list, as long as the numeric conversions print none.\<close>

theorem textf_no_injection:
  assumes "plain_numbers snp" "cerco_textf lasts snp fmtd args r = Some r'"
  shows "markup (wb_data (rq_resp r')) = markup (wb_data (rq_resp r)) @ markup (textf_lits fmtd)"
  using assms textf_markup [OF assms(1)] by (auto simp: cerco_textf_def)

theorem textf_no_injection_witness:
  "\<exists>r'. cerco_textf lasts (\<lambda>spec t v. None) ''<p>%s</p>'' [Fa_str (Some ''<script>'')] req_zero = Some r' \<and>
        markup (wb_data (rq_resp r')) = ''<><>''"
proof -
  let ?snp = "\<lambda>spec t v. None"
  obtain b where b: "textf_loop lasts ?snp ''<p>%s</p>'' [Fa_str (Some ''<script>'')] (rq_resp req_zero) = Some b"
    by (simp add: textf_loop.simps conv_chars_def numeral_eq_Suc)
  then have r: "cerco_textf lasts ?snp ''<p>%s</p>'' [Fa_str (Some ''<script>'')] req_zero = Some (req_zero\<lparr>rq_resp := b\<rparr>)"
    by (simp add: cerco_textf_def)
  have "textf_lits ''<p>%s</p>'' = ''<p></p>''"
    by (simp add: textf_lits.simps conv_chars_def numeral_eq_Suc)
  with textf_no_injection [OF _ r] r show ?thesis
    by (auto simp: plain_numbers_def markup_char_def req_zero_def wbuf_init_def)
qed

text \<open>The finalizer replaces exactly the contents of the document's first \<open><title>\<close> element with
  the escaped page title and leaves the rest of the document as it was.\<close>

theorem page_title_replaced:
  assumes "wb_wf (rq_resp r)" "wb_data (rq_resp r) = pre @ ''<title>'' @ old @ ''</title>'' @ post"
    and "find_sub ''<title>'' (pre @ ''<title>'') = Some (length pre)"
    and "find_sub ''</title>'' (old @ ''</title>'') = Some (length old)"
  shows "wb_data (rq_resp (apply_page_title lasts (cerco_title lasts (Some t) r)))
           = pre @ ''<title>'' @ esc t @ ''</title>'' @ post"
proof -
  let ?b = "rq_resp r"
  have cap: "wb_cap ?b \<noteq> 0" using assms(1,2) by (simp add: wb_wf_def)
  have f1: "wbuf_find ?b 0 (Some ''<title>'') = Some (length pre)"
    using find_sub_append [OF assms(3), of "old @ ''</title>'' @ post"] assms(1,2)
    by (simp add: wbuf_find_eq)
  have d: "drop (length pre + 7) (wb_data ?b) = (old @ ''</title>'') @ post" by (simp add: assms(2))
  have f2: "wbuf_find ?b (length pre + 7) (Some ''</title>'') = Some (length pre + 7 + length old)"
    using find_sub_append [OF assms(4), of post] assms(1) by (simp add: wbuf_find_eq d)
  have "take (length pre + 7) (wb_data ?b) = pre @ ''<title>''" by (simp add: assms(2))
  moreover have "drop (length pre + 7 + length old) (wb_data ?b) = ''</title>'' @ post"
  proof -
    have "wb_data ?b = (pre @ ''<title>'' @ old) @ ''</title>'' @ post" by (simp add: assms(2))
    moreover have "length (pre @ ''<title>'' @ old) = length pre + 7 + length old" by simp
    ultimately show ?thesis by (metis append_eq_conv_conj)
  qed
  ultimately show ?thesis
    using cap f1 f2 by (simp add: apply_page_title_def cerco_title_def escaped_copy_eq Let_def)
qed

theorem page_title_replaced_witness:
  "wb_data (rq_resp (apply_page_title lasts (cerco_title lasts (Some ''a<b'')
     (req_zero\<lparr>rq_resp := \<lparr>wb_data = ''<h><title>old</title></h>'', wb_cap = 4096\<rparr>\<rparr>))))
   = ''<h><title>a&lt;b</title></h>''"
  using page_title_replaced [of "req_zero\<lparr>rq_resp := \<lparr>wb_data = ''<h><title>old</title></h>'', wb_cap = 4096\<rparr>\<rparr>"
      "''<h>''" "''old''" "''</h>''" "''a<b''"]
  by (simp add: wb_wf_def esc_char_def esc_rep_def)

text \<open>An opening tag is written with each attribute as \<open>key="value"\<close>, the value escaped, so it
  contains no quote and cannot end the attribute.\<close>

theorem tag_open_attributes:
  "wb_data (rq_resp (cerco_tag_open lasts tag attrs r))
     = wb_data (rq_resp r) @ ''<'' @ tag @ concat (map attr_text attrs) @ ''>'' \<and>
   CHR 0x22 \<notin> set (esc v)"
proof -
  have "CHR 0x22 \<notin> set (esc v)" using esc_no_markup [of "CHR 0x22" v] by (auto simp: markup_char_def)
  then show ?thesis by (simp add: cerco_tag_open_def on_resp_def)
qed

end
