(* ===== verification/Router.thy ===== *)
theory Router
  imports Render
begin

text \<open>
  \<open>runtime/server/router.c\<close>: the route table parsed at startup, the tri-state lookup with
  parameter capture, and what the event loop does with its result.

  A route handler is a number. \<open>ra\<close> and \<open>al\<close> say whether \<open>malloc\<close> and the request arena
  return a block; \<open>submit\<close> is whether \<open>wpool_try_submit\<close> accepts the request. What the
  dispatching functions hand to the connection is a \<open>reply\<close>.
\<close>

definition CERCO_RT_MAX_SEGS :: nat where "CERCO_RT_MAX_SEGS = 24"

datatype cerco_rt_seg = Seg_lit string | Seg_param string | Seg_catchall string

record cerco_route_entry =
  re_method :: string
  re_path :: string
  re_fn :: nat

record cerco_rt_route =
  rr_method :: string
  rr_orig_path :: string
  rr_segs :: "cerco_rt_seg list"
  rr_fn :: nat

definition seg_parse :: "string \<Rightarrow> cerco_rt_seg" where
  "seg_parse p =
     (if char_at p 0 = CHR '':'' then Seg_param (drop 1 p)
      else if char_at p 0 = CHR ''*'' \<and> char_at p 1 \<noteq> NUL then Seg_catchall (drop 1 p)
      else Seg_lit p)"

text \<open>The segment loop of \<open>router_init\<close>, for at most \<open>n\<close> more segments.\<close>

fun parse_segs :: "(nat \<Rightarrow> bool) \<Rightarrow> nat \<Rightarrow> string \<Rightarrow> cerco_rt_seg list option" where
  "parse_segs ra 0 p = Some []"
| "parse_segs ra (Suc n) p =
     (if p = [] then Some []
      else case index_of CHR ''/'' p of
        None \<Rightarrow> if ra (length p + 1) then Some [seg_parse p] else None
      | Some k \<Rightarrow>
          if ra (k + 1) then map_option (Cons (seg_parse (take k p))) (parse_segs ra n (drop (Suc k) p))
          else None)"

definition skip_slash :: "string \<Rightarrow> string" where
  "skip_slash p = (if char_at p 0 = CHR ''/'' then drop 1 p else p)"

definition parse_route :: "(nat \<Rightarrow> bool) \<Rightarrow> cerco_route_entry \<Rightarrow> cerco_rt_route option" where
  "parse_route ra e =
     map_option (\<lambda>segs. \<lparr>rr_method = re_method e, rr_orig_path = re_path e, rr_segs = segs, rr_fn = re_fn e\<rparr>)
       (parse_segs ra CERCO_RT_MAX_SEGS (skip_slash (re_path e)))"

fun router_init :: "(nat \<Rightarrow> bool) \<Rightarrow> cerco_route_entry list \<Rightarrow> cerco_rt_route list option" where
  "router_init ra [] = Some []"
| "router_init ra (e # es) =
     (case parse_route ra e of
        None \<Rightarrow> None
      | Some r \<Rightarrow> map_option (Cons r) (router_init ra es))"

subsection \<open>Matching\<close>

definition seg_eq :: "cerco_rt_seg \<Rightarrow> string \<Rightarrow> bool" where
  "seg_eq s q = (case s of Seg_catchall _ \<Rightarrow> True | Seg_param _ \<Rightarrow> True | Seg_lit l \<Rightarrow> cerco_strcaseeq l q)"

text \<open>The loop of \<open>split_path\<close>: \<open>None\<close> is -1, more than \<open>n\<close> segments.\<close>

fun split_segs :: "nat \<Rightarrow> string \<Rightarrow> string list option" where
  "split_segs 0 p = (if p = [] then Some [] else None)"
| "split_segs (Suc n) p =
     (if p = [] then Some []
      else case index_of CHR ''/'' p of
        None \<Rightarrow> Some [p]
      | Some k \<Rightarrow> map_option (Cons (take k p)) (split_segs n (drop (Suc k) p)))"

definition split_path :: "string \<Rightarrow> string list option" where
  "split_path path = split_segs 64 (skip_slash path)"

fun match_segs :: "cerco_rt_seg list \<Rightarrow> string list \<Rightarrow> bool" where
  "match_segs [] qs = (qs = [])"
| "match_segs (Seg_catchall p # ss) qs = True"
| "match_segs (s # ss) [] = False"
| "match_segs (s # ss) (q # qs) = (if \<not> seg_eq s q then False else match_segs ss qs)"

fun join_slash :: "string list \<Rightarrow> string" where
  "join_slash [] = []"
| "join_slash [q] = q"
| "join_slash (q # qs) = q @ ''/'' @ join_slash qs"

definition add_param :: "string \<Rightarrow> string \<Rightarrow> (string \<times> string) list \<Rightarrow> (string \<times> string) list" where
  "add_param n v ps = (if length ps < 16 then ps @ [(n, v)] else ps)"

text \<open>Capture stops with the request's segments: a catch-all with nothing left sets nothing.\<close>

fun capture ::
  "(nat \<Rightarrow> bool) \<Rightarrow> cerco_rt_seg list \<Rightarrow> string list \<Rightarrow> (string \<times> string) list \<Rightarrow> (string \<times> string) list" where
  "capture al [] qs ps = ps"
| "capture al ss [] ps = ps"
| "capture al (s # ss) (q # qs) ps =
     (case s of
        Seg_catchall n \<Rightarrow>
          if al (1 + sum_list (map (\<lambda>x. length x + 1) (q # qs))) then add_param n (join_slash (q # qs)) ps else ps
      | Seg_param n \<Rightarrow> capture al ss qs (add_param n q ps)
      | Seg_lit l \<Rightarrow> capture al ss qs ps)"

datatype rt_result = RT_MISS | RT_MATCH | RT_METHOD_MISMATCH

text \<open>The mask of allowed methods.\<close>

definition method_bit :: "string \<Rightarrow> u32" where
  "method_bit m =
     (if cerco_strcaseeq m ''GET'' then 0x1
      else if cerco_strcaseeq m ''POST'' then 0x2
      else if cerco_strcaseeq m ''PUT'' then 0x4
      else if cerco_strcaseeq m ''PATCH'' then 0x8
      else if cerco_strcaseeq m ''DELETE'' then 0x10
      else if cerco_strcaseeq m ''HEAD'' then 0x20
      else if cerco_strcaseeq m ''OPTIONS'' then 0x40
      else 0)"

definition method_ok :: "string \<Rightarrow> string \<Rightarrow> bool" where
  "method_ok m method =
     (cerco_strcaseeq m method \<or> (cerco_strcaseeq method ''HEAD'' \<and> cerco_strcaseeq m ''GET''))"

fun find_loop ::
  "(nat \<Rightarrow> bool) \<Rightarrow> string list \<Rightarrow> cerco_rt_route list \<Rightarrow> rt_result \<Rightarrow> u32 \<Rightarrow> cerco_req \<Rightarrow>
     rt_result \<times> nat option \<times> u32 \<times> cerco_req" where
  "find_loop al qs [] result am r = (result, None, am, r)"
| "find_loop al qs (rr # rrs) result am r =
     (if \<not> match_segs (rr_segs rr) qs then find_loop al qs rrs result am r
      else
        let r' = r\<lparr>rq_params := capture al (rr_segs rr) qs []\<rparr> in
        if method_ok (rr_method rr) (cerco_method r) then (RT_MATCH, Some (rr_fn rr), am, r')
        else find_loop al qs rrs RT_METHOD_MISMATCH (am OR method_bit (rr_method rr)) r')"

definition router_find ::
  "(nat \<Rightarrow> bool) \<Rightarrow> cerco_rt_route list \<Rightarrow> cerco_req \<Rightarrow> rt_result \<times> nat option \<times> u32 \<times> cerco_req" where
  "router_find al rt r =
     (if \<not> al (length (cerco_path r) + 1) then (RT_MISS, None, 0, r)
      else case split_path (cerco_path r) of
        None \<Rightarrow> (RT_MISS, None, 0, r)
      | Some qs \<Rightarrow> find_loop al qs rt RT_MISS 0 r)"

definition router_probe ::
  "(nat \<Rightarrow> bool) \<Rightarrow> cerco_rt_route list \<Rightarrow> cerco_req \<Rightarrow> nat \<times> nat option \<times> u32 \<times> cerco_req" where
  "router_probe al rt r =
     (case router_find al rt r of
        (res, fn, am, r') \<Rightarrow>
          (case res of RT_MATCH \<Rightarrow> 1 | RT_METHOD_MISMATCH \<Rightarrow> 2 | RT_MISS \<Rightarrow> 0, fn, am, r'))"

subsection \<open>Replies\<close>

datatype reply =
  R_worker                                        \<comment> \<open>queued for a worker\<close>
| R_simple int "string option" "string option"    \<comment> \<open>\<open>conn_send_simple\<close>: code, extra header, body\<close>
| R_staged                                        \<comment> \<open>\<open>conn_start_response\<close> of the staged request\<close>
| R_sse                                           \<comment> \<open>the connection became a live-reload stream\<close>

text \<open>The request, the reply and by how much \<open>rejected_jobs\<close> grows.\<close>

type_synonym dispatched = "cerco_req \<times> reply \<times> nat"

definition submit_or_busy :: "bool \<Rightarrow> cerco_req \<Rightarrow> dispatched" where
  "submit_or_busy submit r =
     (if submit then (r, R_worker, 0)
      else (r, R_simple 503 (Some ''Retry-After: 1'') (Some (''server busy'' @ [CHR 0x0A])), 1))"

text \<open>The names of the set bits, comma-separated; what is printed when there is none.\<close>

definition allow_names :: "(u32 \<times> string) list \<Rightarrow> u32 \<Rightarrow> string" where
  "allow_names table am =
     (let names = map snd (filter (\<lambda>(b, n). am AND b \<noteq> 0) table);
          off = fold (\<lambda>n out. out @ (if out \<noteq> [] then '', '' else []) @ n) names []
      in if off = [] then ''GET, HEAD, OPTIONS'' else off)"

definition allow_table :: "(u32 \<times> string) list" where
  "allow_table = [(0x1, ''GET''), (0x2, ''POST''), (0x4, ''PUT''), (0x8, ''PATCH''), (0x10, ''DELETE'')]"

definition router_send_404 :: "(nat \<Rightarrow> bool) \<Rightarrow> bool \<Rightarrow> cerco_rt_route list \<Rightarrow> cerco_req \<Rightarrow> dispatched" where
  "router_send_404 al submit rt r =
     (let staged = (\<lambda>r. (r\<lparr>rq_status := 404,
              rq_resp := wbuf_puts al ''<!doctype html><title>404</title><h1>404 Not Found</h1>'' (wbuf_reset (rq_resp r))\<rparr>,
              R_staged, 0))
      in case find (\<lambda>rr. cerco_strcaseeq (rr_method rr) ''GET'' \<and> cerco_strcaseeq (rr_orig_path rr) ''/__cerco/404'') rt of
           None \<Rightarrow> staged r
         | Some rr \<Rightarrow>
             (let r' = r\<lparr>rq_status := 404, rq_handler := Some (rr_fn rr)\<rparr>
              in if submit then (r', R_worker, 0) else staged r'))"

definition router_send_405 :: "u32 \<Rightarrow> cerco_req \<Rightarrow> dispatched" where
  "router_send_405 am r =
     (r\<lparr>rq_status := 405\<rparr>,
      R_simple 405 (Some (''Allow: '' @ allow_names (allow_table @ [(0x40, ''OPTIONS'')]) am))
        (Some (''method not allowed'' @ [CHR 0x0A])), 0)"

definition router_dispatch :: "(nat \<Rightarrow> bool) \<Rightarrow> bool \<Rightarrow> cerco_rt_route list \<Rightarrow> cerco_req \<Rightarrow> dispatched" where
  "router_dispatch al submit rt r =
     (case router_find al rt r of
        (RT_MATCH, fn, am, r') \<Rightarrow> submit_or_busy submit (r'\<lparr>rq_handler := fn\<rparr>)
      | (RT_METHOD_MISMATCH, fn, am, r') \<Rightarrow>
          if cerco_strcaseeq (cerco_method r') ''OPTIONS'' then router_send_405 (am OR 0x40) r'
          else router_send_405 am r'
      | (RT_MISS, fn, am, r') \<Rightarrow> router_send_404 al submit rt r')"

subsection \<open>What a lookup finds\<close>

text \<open>
  When a pattern fits a path: the segments before the first catch-all agree one by one (a literal
  up to case, a parameter with anything); without a catch-all there are no further segments.
\<close>

definition seg_fits :: "cerco_rt_seg \<Rightarrow> string \<Rightarrow> bool" where
  "seg_fits s q = (\<forall>l. s = Seg_lit l \<longrightarrow> map lower l = map lower q)"

definition is_catchall :: "cerco_rt_seg \<Rightarrow> bool" where
  "is_catchall s = (\<exists>p. s = Seg_catchall p)"

definition path_matches :: "string list \<Rightarrow> cerco_rt_route \<Rightarrow> bool" where
  "path_matches qs rr =
     (let fixed = takeWhile (\<lambda>s. \<not> is_catchall s) (rr_segs rr); n = length fixed in
      n \<le> length qs \<and> (\<forall>i < n. seg_fits (fixed ! i) (qs ! i)) \<and>
      (fixed = rr_segs rr \<longrightarrow> length qs = n))"

definition serves_method :: "string \<Rightarrow> string \<Rightarrow> bool" where
  "serves_method m method =
     (map lower m = map lower method \<or> (map lower method = ''head'' \<and> map lower m = ''get''))"

definition route_matches :: "string list \<Rightarrow> string \<Rightarrow> cerco_rt_route \<Rightarrow> bool" where
  "route_matches qs method rr = (path_matches qs rr \<and> serves_method (rr_method rr) method)"

lemma seg_fits_simps [simp]:
  "seg_fits (Seg_lit l) q \<longleftrightarrow> cerco_strcaseeq l q" "seg_fits (Seg_param p) q" "\<not> is_catchall (Seg_lit l)"
  "\<not> is_catchall (Seg_param p)" "is_catchall (Seg_catchall p)"
  by (auto simp: seg_fits_def is_catchall_def strcaseeq_iff)

lemma match_segs_fits:
  "match_segs ss qs \<longleftrightarrow>
     (let fixed = takeWhile (\<lambda>s. \<not> is_catchall s) ss; n = length fixed in
      n \<le> length qs \<and> (\<forall>i < n. seg_fits (fixed ! i) (qs ! i)) \<and> (fixed = ss \<longrightarrow> length qs = n))"
  by (induction ss qs rule: match_segs.induct) (auto simp: Let_def seg_eq_def All_less_Suc2)

lemma path_matches_iff: "path_matches qs rr = match_segs (rr_segs rr) qs"
  by (simp add: path_matches_def match_segs_fits)

lemma serves_method_iff: "serves_method m method = method_ok m method"
proof -
  have "map lower ''GET'' = ''get''" "map lower ''HEAD'' = ''head''" by code_simp+
  then show ?thesis by (auto simp: serves_method_def method_ok_def strcaseeq_iff simp del: list.map)
qed

lemma route_matches_iff: "route_matches qs method rr = (match_segs (rr_segs rr) qs \<and> method_ok (rr_method rr) method)"
  by (simp add: route_matches_def path_matches_iff serves_method_iff)

lemma cerco_method_params [simp]: "cerco_method (r\<lparr>rq_params := ps\<rparr>) = cerco_method r"
  by (simp add: cerco_method_def)

lemma find_loop_match:
  "find (route_matches qs (cerco_method r)) rt = Some rr \<Longrightarrow>
     \<exists>am' . find_loop al qs rt res am r = (RT_MATCH, Some (rr_fn rr), am', r\<lparr>rq_params := capture al (rr_segs rr) qs []\<rparr>)"
proof (induction rt arbitrary: res am r)
  case Nil
  then show ?case by simp
next
  case (Cons x rt)
  show ?case
  proof (cases "route_matches qs (cerco_method r) x")
    case True
    with Cons.prems show ?thesis by (simp add: route_matches_iff path_matches_iff)
  next
    case False
    with Cons.prems have f: "find (route_matches qs (cerco_method r)) rt = Some rr" by simp
    show ?thesis
    proof (cases "match_segs (rr_segs x) qs")
      case True
      with False have "\<not> method_ok (rr_method x) (cerco_method r)" by (simp add: route_matches_iff path_matches_iff)
      with True Cons.IH [of "r\<lparr>rq_params := capture al (rr_segs x) qs []\<rparr>" RT_METHOD_MISMATCH "am OR method_bit (rr_method x)"] f
      show ?thesis by (simp add: Let_def)
    next
      case no: False
      with Cons.IH [OF f, of res am] show ?thesis by simp
    qed
  qed
qed

definition mask_of :: "string list \<Rightarrow> cerco_rt_route list \<Rightarrow> u32" where
  "mask_of qs rt = fold (OR) (map (method_bit \<circ> rr_method) (filter (path_matches qs) rt)) 0"

lemma fold_or: "fold (OR) xs (a :: u32) = a OR fold (OR) xs 0"
proof (induction xs arbitrary: a)
  case (Cons x xs)
  show ?case using Cons.IH [of "x OR a"] Cons.IH [of x] by (simp add: or.assoc [symmetric] or.commute [of a x])
qed simp

lemma find_loop_nomatch:
  "find (route_matches qs (cerco_method r)) rt = None \<Longrightarrow>
     \<exists>ps. find_loop al qs rt res am r =
       (if \<exists>x \<in> set rt. path_matches qs x then RT_METHOD_MISMATCH else res, None, am OR mask_of qs rt, r\<lparr>rq_params := ps\<rparr>)"
proof (induction rt arbitrary: res am r)
  case Nil
  have "r = r\<lparr>rq_params := rq_params r\<rparr>" by simp
  then show ?case by (auto simp: mask_of_def intro: exI [of _ "rq_params r"])
next
  case (Cons x rt)
  then have f: "find (route_matches qs (cerco_method r)) rt = None" and n: "\<not> route_matches qs (cerco_method r) x"
    by (auto split: if_splits)
  show ?case
  proof (cases "match_segs (rr_segs x) qs")
    case True
    with n have nm: "\<not> method_ok (rr_method x) (cerco_method r)" by (simp add: route_matches_iff path_matches_iff)
    from Cons.IH [of "r\<lparr>rq_params := capture al (rr_segs x) qs []\<rparr>" RT_METHOD_MISMATCH "am OR method_bit (rr_method x)"] f
    obtain ps where ps: "find_loop al qs rt RT_METHOD_MISMATCH (am OR method_bit (rr_method x)) (r\<lparr>rq_params := capture al (rr_segs x) qs []\<rparr>)
        = (RT_METHOD_MISMATCH, None, am OR method_bit (rr_method x) OR mask_of qs rt, r\<lparr>rq_params := ps\<rparr>)"
      by (auto simp: or.assoc split: if_splits)
    have "mask_of qs (x # rt) = method_bit (rr_method x) OR mask_of qs rt"
      using True fold_or [of _ "method_bit (rr_method x)"] by (simp add: mask_of_def path_matches_iff)
    with True nm ps show ?thesis by (auto simp: Let_def path_matches_iff or.assoc)
  next
    case False
    with Cons.IH [OF f, of res am] show ?thesis by (auto simp: mask_of_def path_matches_iff)
  qed
qed

subsection \<open>Building a path for a route\<close>

text \<open>A segment a URL can carry, and the path made of such segments.\<close>

definition seg_ok :: "string \<Rightarrow> bool" where
  "seg_ok q = (q \<noteq> [] \<and> CHR ''/'' \<notin> set q)"

definition path_of :: "string list \<Rightarrow> string" where
  "path_of qs = CHR ''/'' # join_slash qs"

lemma index_of_slash: "CHR ''/'' \<notin> set q \<Longrightarrow> index_of CHR ''/'' (q @ CHR ''/'' # rest) = Some (length q)"
  by (induction q) auto

lemma split_segs_join: "list_all seg_ok qs \<Longrightarrow> length qs \<le> n \<Longrightarrow> split_segs n (join_slash qs) = Some qs"
proof (induction qs arbitrary: n rule: join_slash.induct)
  case 1
  then show ?case by (cases n) simp_all
next
  case (2 q)
  then obtain m where "n = Suc m" by (cases n) simp_all
  moreover from 2 have "index_of CHR ''/'' q = None" "q \<noteq> []" by (simp_all add: seg_ok_def index_of_None)
  ultimately show ?case by simp
next
  case (3 q q' qs)
  then obtain m where m: "n = Suc m" by (cases n) simp_all
  from 3 have "index_of CHR ''/'' (q @ CHR ''/'' # join_slash (q' # qs)) = Some (length q)"
    by (intro index_of_slash) (simp add: seg_ok_def)
  with 3 m show ?case by simp
qed

lemma split_path_of: "list_all seg_ok qs \<Longrightarrow> length qs \<le> 64 \<Longrightarrow> split_path (path_of qs) = Some qs"
  by (simp add: split_path_def path_of_def skip_slash_def char_at_def split_segs_join)

text \<open>The request segments and parameters of a pattern without catch-all, one value a parameter.\<close>

fun instantiate :: "cerco_rt_seg list \<Rightarrow> string list \<Rightarrow> string list" where
  "instantiate [] vs = []"
| "instantiate (Seg_lit l # ss) vs = l # instantiate ss vs"
| "instantiate (Seg_param n # ss) (v # vs) = v # instantiate ss vs"
| "instantiate (s # ss) vs = []"

fun param_names :: "cerco_rt_seg list \<Rightarrow> string list" where
  "param_names [] = []"
| "param_names (Seg_lit l # ss) = param_names ss"
| "param_names (Seg_param n # ss) = n # param_names ss"
| "param_names (Seg_catchall n # ss) = n # param_names ss"

definition no_catchall :: "cerco_rt_seg list \<Rightarrow> bool" where
  "no_catchall ss = list_all (\<lambda>s. case s of Seg_catchall n \<Rightarrow> False | _ \<Rightarrow> True) ss"

lemma match_instantiate:
  "no_catchall ss \<Longrightarrow> length vs = length (param_names ss) \<Longrightarrow> match_segs ss (instantiate ss vs)"
  by (induction ss vs rule: instantiate.induct) (auto simp: no_catchall_def seg_eq_def)

lemma capture_instantiate:
  "no_catchall ss \<Longrightarrow> length vs = length (param_names ss) \<Longrightarrow> length ps + length vs \<le> 16 \<Longrightarrow>
     capture al ss (instantiate ss vs) ps = ps @ zip (param_names ss) vs"
  by (induction ss vs arbitrary: ps rule: instantiate.induct) (auto simp: no_catchall_def add_param_def)

text \<open>A request for a path built from the pattern reaches the route.\<close>

lemma route_reached:
  assumes "no_catchall (rr_segs rr)" "length vs = length (param_names (rr_segs rr))" "length vs \<le> 16"
    and "list_all seg_ok (instantiate (rr_segs rr) vs)" "length (instantiate (rr_segs rr) vs) \<le> 64"
    and "rq_path r = Some (path_of (instantiate (rr_segs rr) vs))" "method_ok (rr_method rr) (cerco_method r)"
  shows "\<exists>am r'. router_find lasts (rr # rt) r = (RT_MATCH, Some (rr_fn rr), am, r') \<and>
           (\<forall>n. cerco_param r' n = lookup_ci (zip (param_names (rr_segs rr)) vs) n)"
proof -
  from split_path_of [OF assms(4,5)] assms(6)
  have "split_path (cerco_path r) = Some (instantiate (rr_segs rr) vs)" by (simp add: cerco_path_def)
  moreover have "match_segs (rr_segs rr) (instantiate (rr_segs rr) vs)" by (rule match_instantiate [OF assms(1,2)])
  moreover have "capture lasts (rr_segs rr) (instantiate (rr_segs rr) vs) [] = zip (param_names (rr_segs rr)) vs"
    using capture_instantiate [OF assms(1,2), of "[]"] assms(3) by simp
  ultimately show ?thesis using assms(7) by (simp add: router_find_def cerco_param_def)
qed

subsection \<open>Properties\<close>

text \<open>C8: The lookup returns the first route of the table whose pattern matches the path and whose
  method serves the request (GET also serves HEAD), with that route's parameters; when only the
  method is wrong it says so with the mask of exactly the methods of the matching patterns; and
  otherwise it is a miss.\<close>

theorem router_find_spec:
  assumes "split_path (cerco_path r) = Some qs"
  shows "case find (route_matches qs (cerco_method r)) rt of
      Some rr \<Rightarrow> (\<exists>am. router_find lasts rt r =
        (RT_MATCH, Some (rr_fn rr), am, r\<lparr>rq_params := capture lasts (rr_segs rr) qs []\<rparr>))
    | None \<Rightarrow> (\<exists>ps. router_find lasts rt r =
        (if \<exists>rr \<in> set rt. path_matches qs rr then RT_METHOD_MISMATCH else RT_MISS, None,
         mask_of qs rt, r\<lparr>rq_params := ps\<rparr>))"
proof (cases "find (route_matches qs (cerco_method r)) rt")
  case None
  from find_loop_nomatch [OF None, of lasts RT_MISS 0] assms None show ?thesis
    by (simp add: router_find_def)
next
  case (Some rr)
  from find_loop_match [OF Some, of lasts RT_MISS 0] assms Some show ?thesis
    by (simp add: router_find_def)
qed

theorem router_find_spec_witness:
  "\<exists>am. router_find lasts
     [\<lparr>rr_method = ''GET'', rr_orig_path = ''/u/:id'', rr_segs = [Seg_lit ''u'', Seg_param ''id''], rr_fn = 7\<rparr>]
     (req_zero\<lparr>rq_method := Some ''HEAD'', rq_path := Some ''/u/42''\<rparr>)
   = (RT_MATCH, Some 7, am, req_zero\<lparr>rq_method := Some ''HEAD'', rq_path := Some ''/u/42'', rq_params := [(''id'', ''42'')]\<rparr>)"
proof -
  let ?r = "req_zero\<lparr>rq_method := Some ''HEAD'', rq_path := Some ''/u/42''\<rparr>"
  let ?rt = "[\<lparr>rr_method = ''GET'', rr_orig_path = ''/u/:id'', rr_segs = [Seg_lit ''u'', Seg_param ''id''], rr_fn = 7\<rparr>]"
  have "split_path (cerco_path ?r) = Some [''u'', ''42'']"
    by (simp add: split_path_def cerco_path_def skip_slash_def char_at_def numeral_eq_Suc)
  from router_find_spec [OF this, of ?rt] show ?thesis
    by (simp add: route_matches_iff path_matches_iff method_ok_def cerco_method_def seg_eq_def add_param_def)
qed



end
