(* ===== verification/Staticfiles.thy ===== *)
theory Staticfiles
  imports Router Config Sha256
begin

text \<open>
  \<open>runtime/server/static.c\<close>: embedded assets and, in development, files below the dist
  directory. The file system is the parameter \<open>fs\<close>: \<open>realpath\<close>, and what reading a file
  yields (\<open>None\<close> when any of \<open>fopen\<close>, \<open>ftell\<close>, \<open>fread\<close> fails).
\<close>

record file_system =
  fs_realpath :: "string \<Rightarrow> string option"
  fs_read :: "string \<Rightarrow> string option"

record cerco_asset_entry =
  as_path :: string
  as_mime :: string
  as_etag :: string
  as_bytes :: string

definition if_none_match_hits :: "cerco_req \<Rightarrow> string \<Rightarrow> bool" where
  "if_none_match_hits r etag =
     (case cerco_header r ''if-none-match'' of
        None \<Rightarrow> False
      | Some inm \<Rightarrow> find_sub etag inm \<noteq> None)"

definition quoted_etag :: "string \<Rightarrow> string" where
  "quoted_etag etag = take 127 (CHR 0x22 # etag @ [CHR 0x22])"

definition serve_asset_bytes ::
  "(nat \<Rightarrow> bool) \<Rightarrow> string \<Rightarrow> string \<Rightarrow> string \<Rightarrow> bool \<Rightarrow> cerco_req \<Rightarrow> dispatched" where
  "serve_asset_bytes al mime etag bytes cacheable r =
     (if if_none_match_hits r etag then
        (cerco_set_header al ''Cache-Control'' ''public, max-age=300''
           (cerco_set_header al ''ETag'' (quoted_etag etag) (r\<lparr>rq_status := 304\<rparr>)), R_staged, 0)
      else
        (let r1 = cerco_set_header al ''Content-Type'' mime (r\<lparr>rq_status := 200\<rparr>);
             r2 = cerco_set_header al ''ETag'' (quoted_etag etag) r1;
             r3 = cerco_set_header al ''Cache-Control''
                    (if cacheable then ''public, max-age=300'' else ''no-store'') r2
         in (cerco_write_bytes al bytes r3, R_staged, 0)))"

definition PATH_MAX :: nat where "PATH_MAX = 4096"

text \<open>The checks of \<open>dev_serve_from_disk\<close> up to \<open>fopen\<close>: the resolved name of the file to open.\<close>

definition dev_resolve :: "file_system \<Rightarrow> string \<Rightarrow> string \<Rightarrow> string option" where
  "dev_resolve fs base path =
     (if base = [] then None
      else if find_sub ''..'' path \<noteq> None then None
      else
        let full = base @ path in
        if length full = 0 \<or> length full \<ge> PATH_MAX then None
        else case fs_realpath fs full of
          None \<Rightarrow> None
        | Some resolved \<Rightarrow>
            (case fs_realpath fs base of
               None \<Rightarrow> None
             | Some base_real \<Rightarrow>
                 let bl = length base_real in
                 if take bl resolved \<noteq> base_real \<or>
                    (char_at resolved bl \<noteq> CHR ''/'' \<and> char_at resolved bl \<noteq> NUL)
                 then None else Some resolved))"

definition to_bytes :: "string \<Rightarrow> byte list" where
  "to_bytes s = map (\<lambda>c. of_nat (ccode c)) s"

definition file_etag :: "string \<Rightarrow> string" where
  "file_etag buf = (case cerco_sha256_hex (to_bytes buf) of Some h \<Rightarrow> take 16 h | None \<Rightarrow> [])"

definition dev_serve_from_disk ::
  "(nat \<Rightarrow> bool) \<Rightarrow> (nat \<Rightarrow> bool) \<Rightarrow> file_system \<Rightarrow> cerco_config \<Rightarrow> cerco_req \<Rightarrow> dispatched option" where
  "dev_serve_from_disk al ra fs cfg r =
     (case dev_resolve fs (cf_dist_dir cfg) (cerco_path r) of
        None \<Rightarrow> None
      | Some resolved \<Rightarrow>
          (case fs_read fs resolved of
             None \<Rightarrow> None
           | Some buf \<Rightarrow>
               if length buf > unat (cf_max_body cfg * 4) then None
               else if \<not> ra (if length buf > 0 then length buf else 1) then None
               else Some (serve_asset_bytes al (cerco_mime_from_ext resolved) (file_etag buf) buf False r)))"

definition static_is_asset_path :: "string \<Rightarrow> bool" where
  "static_is_asset_path path =
     (case last_index_of CHR ''.'' path of
        None \<Rightarrow> False
      | Some dot \<Rightarrow>
          if dot = 0 then False
          else (case last_index_of CHR ''/'' path of
                  Some slash \<Rightarrow> if slash > dot then False else char_at path (Suc dot) \<noteq> NUL
                | None \<Rightarrow> char_at path (Suc dot) \<noteq> NUL))"

definition static_try_serve ::
  "(nat \<Rightarrow> bool) \<Rightarrow> (nat \<Rightarrow> bool) \<Rightarrow> bool \<Rightarrow> file_system \<Rightarrow> cerco_config \<Rightarrow> cerco_asset_entry list \<Rightarrow>
     cerco_rt_route list \<Rightarrow> cerco_req \<Rightarrow> dispatched" where
  "static_try_serve al ra submit fs cfg assets rt r =
     (case find (\<lambda>a. cerco_strcaseeq (as_path a) (cerco_path r)) assets of
        Some a \<Rightarrow> serve_asset_bytes al (as_mime a) (as_etag a) (as_bytes a) True r
      | None \<Rightarrow>
          (case (if cf_dev_mode cfg then dev_serve_from_disk al ra fs cfg r else None) of
             Some d \<Rightarrow> d
           | None \<Rightarrow> router_send_404 al submit rt r))"

subsection \<open>Properties\<close>

text \<open>C9: Development file serving is confined to the dist directory: a file that is opened is the
  canonical name of the requested path and is the canonical dist directory itself or lies below it
  (a sibling such as \<open>dist-old\<close> does not count), and the request path had no \<open>..\<close> in it.\<close>

theorem dev_serve_confined:
  assumes "dev_resolve fs base path = Some f" "\<And>p q. fs_realpath fs p = Some q \<Longrightarrow> no_nul q"
  shows "\<exists>b. fs_realpath fs base = Some b \<and> fs_realpath fs (base @ path) = Some f \<and>
             (f = b \<or> prefix (b @ ''/'') f) \<and> (\<forall>i. take 2 (drop i path) \<noteq> ''..'')"
proof -
  from assms(1) obtain b where b: "fs_realpath fs base = Some b" "fs_realpath fs (base @ path) = Some f"
    and pre: "take (length b) f = b" and nxt: "char_at f (length b) = CHR ''/'' \<or> char_at f (length b) = NUL"
    and nodots: "find_sub ''..'' path = None"
    by (auto simp: dev_resolve_def Let_def split: if_splits option.splits)
  have f: "f = b @ drop (length b) f" using pre by (metis append_take_drop_id)
  have "f = b \<or> prefix (b @ ''/'') f"
  proof (cases "drop (length b) f")
    case Nil
    with f show ?thesis by simp
  next
    case (Cons c cs)
    with f have fc: "f = b @ c # cs" by simp
    then have at: "char_at f (length b) = c" by (simp add: char_at_def)
    have "no_nul f" using assms(2) b(2) by blast
    with fc have "c \<noteq> NUL" by simp
    with at nxt have "c = CHR ''/''" by simp
    with fc show ?thesis by simp
  qed
  moreover have "\<forall>i. take 2 (drop i path) \<noteq> ''..''"
    using find_sub_None [OF nodots] by (auto simp: numeral_2_eq_2)
  ultimately show ?thesis using b by blast
qed

theorem dev_serve_confined_witness:
  "\<exists>b. [''dist'' \<mapsto> ''/srv/dist'', ''dist/app.css'' \<mapsto> ''/srv/dist/app.css''] ''dist'' = Some b \<and>
       prefix (b @ ''/'') ''/srv/dist/app.css''"
proof -
  let ?fs = "\<lparr>fs_realpath = [''dist'' \<mapsto> ''/srv/dist'', ''dist/app.css'' \<mapsto> ''/srv/dist/app.css''], fs_read = Map.empty\<rparr>"
  have "dev_resolve ?fs ''dist'' ''/app.css'' = Some ''/srv/dist/app.css''"
    by (simp add: dev_resolve_def PATH_MAX_def char_at_def)
  from dev_serve_confined [OF this] show ?thesis by (auto split: if_splits)
qed

text \<open>A conditional request whose If-None-Match names the entity tag gets 304 with the tag and
  without the asset's bytes; any other request gets 200, the asset's bytes and type.\<close>

theorem asset_conditional:
  assumes "rq_resp_hdrs r = []"
  shows "case serve_asset_bytes lasts mime etag bytes cacheable r of (r', reply, n) \<Rightarrow>
     reply = R_staged \<and> lookup_ci (rq_resp_hdrs r') ''etag'' = Some (quoted_etag etag) \<and>
     (if if_none_match_hits r etag then rq_status r' = 304 \<and> rq_resp r' = rq_resp r
      else rq_status r' = 200 \<and> wb_data (rq_resp r') = wb_data (rq_resp r) @ bytes \<and>
           lookup_ci (rq_resp_hdrs r') ''content-type'' = Some mime)"
  using assms
  by (simp add: serve_asset_bytes_def cerco_set_header_def resp_hdr_add_def cerco_write_bytes_def on_resp_def
      lookup_ci_def lower_def in_range_def char_eval)

theorem asset_conditional_witness:
  "case serve_asset_bytes lasts ''text/css'' ''ab12'' ''body'' True
     (req_zero\<lparr>rq_headers := [(''if-none-match'', CHR 0x22 # ''ab12'' @ [CHR 0x22])]\<rparr>) of (r', reply, n) \<Rightarrow> rq_status r' = 304"
proof -
  let ?r = "req_zero\<lparr>rq_headers := [(''if-none-match'', CHR 0x22 # ''ab12'' @ [CHR 0x22])]\<rparr>"
  have "if_none_match_hits ?r ''ab12''"
    by (simp add: if_none_match_hits_def cerco_header_def lookup_ci_def)
  moreover have "rq_resp_hdrs ?r = []" by (simp add: req_zero_def)
  note asset_conditional [OF this, where mime = "''text/css''" and etag = "''ab12''" and bytes = "''body''" and cacheable = True]
  ultimately show ?thesis
    by (cases "serve_asset_bytes lasts ''text/css'' ''ab12'' ''body'' True ?r") simp
qed

end
