(* ===== verification/Serverfn.thy ===== *)
theory Serverfn
  imports Staticfiles Wire
begin

text \<open>
  \<open>runtime/server/sf.c\<close>: server-function dispatch (event loop), execution (worker), the
  reserved endpoints and the live-reload script of development mode. The generated adapter
  \<open>ent->call\<close> is the parameter \<open>call\<close>. Turning the connection into an event stream is
  modelled with the connection; here it is the reply \<open>R_sse\<close>.
\<close>

definition of_bytes :: "byte list \<Rightarrow> string" where
  "of_bytes bs = map (\<lambda>b. char_of (unat b)) bs"

lemma of_to_bytes [simp]: "of_bytes (to_bytes s) = s"
proof -
  have "char_of (unat (of_nat (ccode c) :: byte)) = c" for c
  proof -
    have "ccode c mod 256 = (ccode c :: nat)" by simp
    then show ?thesis by (simp add: unat_of_nat)
  qed
  then show ?thesis by (simp add: of_bytes_def to_bytes_def comp_def map_idI)
qed

lemma to_of_bytes [simp]: "to_bytes (of_bytes bs) = bs"
proof -
  have "of_nat (ccode (char_of (unat b))) = b" for b :: byte
  proof -
    have "unat b < 256" using unsigned_less [of b, where ?'a = nat] by simp
    then have "unat b mod 256 = unat b" by simp
    then show ?thesis by (simp add: of_char_of take_bit_eq_mod)
  qed
  then show ?thesis by (simp add: of_bytes_def to_bytes_def comp_def map_idI)
qed

lemma of_bytes_simps [simp]: "of_bytes [] = []" "of_bytes (xs @ ys) = of_bytes xs @ of_bytes ys"
  "length (of_bytes xs) = length xs"
  by (simp_all add: of_bytes_def)

lemma to_bytes_simps [simp]: "to_bytes [] = []" "to_bytes (s @ t) = to_bytes s @ to_bytes t"
  "length (to_bytes s) = length s"
  by (simp_all add: to_bytes_def)

definition SF_CONTENT_TYPE :: string where "SF_CONTENT_TYPE = ''application/x-cerco-sf''"

definition sf_is_sf_path :: "string \<Rightarrow> bool" where
  "sf_is_sf_path path =
     (if \<not> cerco_strncaseeq path ''/__cerco/sf/'' 12 then False else char_at path 12 \<noteq> NUL)"

subsection \<open>The call context\<close>

record cerco_sf_ctx =
  sx_failed :: bool
  sx_error :: "string option"
  sx_reader :: cerco_wreader
  sx_ret_type :: byte
  sx_ret_i32 :: u32
  sx_ret_i64 :: u64
  sx_ret_f64 :: u64
  sx_ret_bool :: byte
  sx_ret_str :: "string option"
  sx_ret_bytes :: "byte list"

definition sf_ctx_init :: "byte list \<Rightarrow> cerco_sf_ctx" where
  "sf_ctx_init body =
     \<lparr>sx_failed = False, sx_error = None, sx_reader = cerco_wreader_init body, sx_ret_type = 0,
      sx_ret_i32 = 0, sx_ret_i64 = 0, sx_ret_f64 = 0, sx_ret_bool = 0, sx_ret_str = None, sx_ret_bytes = []\<rparr>"

definition cerco_sf_fail :: "string option \<Rightarrow> cerco_sf_ctx \<Rightarrow> cerco_sf_ctx" where
  "cerco_sf_fail message ctx = ctx\<lparr>sx_failed := True, sx_error := message\<rparr>"

definition sf_type_code :: "byte \<Rightarrow> char" where
  "sf_type_code t =
     (if t = WT_I32 then CHR ''i'' else if t = WT_I64 then CHR ''l''
      else if t = WT_F64 then CHR ''f'' else if t = WT_BOOL then CHR ''b''
      else if t = WT_STR then CHR ''s'' else if t = WT_BYTES then CHR ''y'' else CHR ''?'')"

text \<open>The next argument when it has the wanted type; the reader moves either way.\<close>

definition sf_arg_of_type :: "char \<Rightarrow> cerco_sf_ctx \<Rightarrow> cerco_wval option \<times> cerco_sf_ctx" where
  "sf_arg_of_type want ctx =
     (case cerco_r_val (sx_reader ctx) of
        (None, rd) \<Rightarrow> (None, ctx\<lparr>sx_reader := rd\<rparr>)
      | (Some v, rd) \<Rightarrow>
          (let got = sf_type_code (wv_type v) in
           (if want = got \<or> (want = CHR ''i'' \<and> got = CHR ''b'') \<or> (want = CHR ''b'' \<and> got = CHR ''i'')
            then Some v else None, ctx\<lparr>sx_reader := rd\<rparr>)))"

subsection \<open>Dispatch on the event loop\<close>

record cerco_sf_entry =
  se_id :: u32
  se_method :: string

text \<open>\<open>id = id * 10 + digit\<close> in 32 bits, over the leading digits; the rest is returned.\<close>

fun sf_scan_id :: "u32 \<Rightarrow> string \<Rightarrow> u32 \<times> string" where
  "sf_scan_id i [] = (i, [])"
| "sf_scan_id i (c # cs) =
     (if is_digit c then sf_scan_id (i * 10 + of_nat (digit_val c)) cs else (i, c # cs))"

definition sf_parse_id :: "string \<Rightarrow> u32 option" where
  "sf_parse_id s = (case sf_scan_id 0 s of (i, rest) \<Rightarrow> if rest \<noteq> [] \<or> s = [] then None else Some i)"

definition sf_dispatch :: "bool \<Rightarrow> cerco_sf_entry list \<Rightarrow> string \<Rightarrow> nat \<Rightarrow> cerco_req \<Rightarrow> dispatched" where
  "sf_dispatch submit sfs id_str sf_run_handler r =
     (case sf_parse_id id_str of
        None \<Rightarrow> (r, R_simple 400 None (Some (''bad sf id'' @ [CHR 0x0A])), 0)
      | Some i \<Rightarrow>
          (case find (\<lambda>(k, e). se_id e = i) (enumerate 0 sfs) of
             None \<Rightarrow> (r, R_simple 404 None (Some (''unknown server function'' @ [CHR 0x0A])), 0)
           | Some (k, ent) \<Rightarrow>
               let method = cerco_method r in
               if \<not> cerco_strcaseeq method (se_method ent) \<and>
                  \<not> (cerco_strcaseeq method ''HEAD'' \<and> cerco_strcaseeq (se_method ent) ''GET'')
               then (r, R_simple 405 (Some ''Allow: POST'') (Some (''method not allowed'' @ [CHR 0x0A])), 0)
               else if (case cerco_header r ''content-type'' of
                          None \<Rightarrow> True
                        | Some ct \<Rightarrow> \<not> cerco_strncaseeq ct SF_CONTENT_TYPE 22)
               then (r, R_simple 415 None (Some (take 31 (''expected application/x-cerco-sf'' @ [CHR 0x0A]))), 0)
               else submit_or_busy submit (r\<lparr>rq_sf_entry := Some k, rq_handler := Some sf_run_handler\<rparr>)))"

subsection \<open>Execution on a worker\<close>

definition sb_put_u32le :: "(nat \<Rightarrow> bool) \<Rightarrow> u32 \<Rightarrow> cerco_sb \<Rightarrow> cerco_sb" where
  "sb_put_u32le ra v sb = sb_putn ra (of_bytes (bytes32 v)) sb"

text \<open>The value the adapter left in the context.\<close>

definition sf_result :: "cerco_sf_ctx \<Rightarrow> cerco_wval" where
  "sf_result ctx =
     (let t = sx_ret_type ctx; v = \<lparr>wv_type = t, wv_as = 0, wv_bytes = []\<rparr> in
      if t = WT_I32 then v\<lparr>wv_as := ucast (sx_ret_i32 ctx)\<rparr>
      else if t = WT_I64 then v\<lparr>wv_as := sx_ret_i64 ctx\<rparr>
      else if t = WT_F64 then v\<lparr>wv_as := sx_ret_f64 ctx\<rparr>
      else if t = WT_BOOL then v\<lparr>wv_as := (if sx_ret_bool ctx \<noteq> 0 then 1 else 0)\<rparr>
      else if t = WT_STR then v\<lparr>wv_bytes := to_bytes (case sx_ret_str ctx of Some s \<Rightarrow> s | None \<Rightarrow> [])\<rparr>
      else if t = WT_BYTES then v\<lparr>wv_bytes := sx_ret_bytes ctx\<rparr>
      else v)"

definition sf_reply_error :: "(nat \<Rightarrow> bool) \<Rightarrow> int \<Rightarrow> string \<Rightarrow> cerco_req \<Rightarrow> cerco_req" where
  "sf_reply_error al status msg r =
     r\<lparr>rq_status := status, rq_resp := wbuf_puts al (msg @ [CHR 0x0A]) (wbuf_reset (rq_resp r))\<rparr>"

text \<open>The frame of a finished call: \<open>Inl\<close> is the error text of a 500.\<close>

definition sf_frame :: "(nat \<Rightarrow> bool) \<Rightarrow> cerco_sf_ctx \<Rightarrow> string + cerco_sb" where
  "sf_frame ra ctx =
     (if sx_failed ctx then
        (let msg = (case sx_error ctx of Some m \<Rightarrow> m | None \<Rightarrow> ''error'')
         in Inr (sb_puts ra (Some msg) (sb_put_u32le ra (of_nat (length msg)) (sb_putc ra (char_of (1 :: nat)) sb_init))))
      else
        (let out = sb_put_u32le ra 1 (sb_put_u32le ra 0 (sb_putc ra (char_of (0 :: nat)) sb_init));
             v = sf_result ctx;
             need = cerco_wval_size v
         in if \<not> ra (if need > 0 then need else 1) then Inl ''oom''
            else let w = cerco_w_val v (cerco_wwriter_init need)
              in if ww_err w then Inl ''encode error'' else Inr (sb_putn ra (of_bytes (ww_out w)) out)))"

definition sf_run ::
  "(nat \<Rightarrow> bool) \<Rightarrow> (nat \<Rightarrow> bool) \<Rightarrow> (cerco_req \<Rightarrow> cerco_sf_ctx \<Rightarrow> cerco_req \<times> cerco_sf_ctx) \<Rightarrow>
     cerco_req \<Rightarrow> cerco_req" where
  "sf_run al ra call r =
     (let ctx = sf_ctx_init (to_bytes (case rq_body r of Some b \<Rightarrow> b | None \<Rightarrow> []));
          (arg_count, rd) = cerco_r_u32 (sx_reader ctx)
      in if wr_err rd then sf_reply_error al 400 ''truncated sf payload'' r
         else
           let (r1, ctx1) = call r (ctx\<lparr>sx_reader := rd\<rparr>) in
           if wr_err (sx_reader ctx1) then sf_reply_error al 400 ''malformed sf payload'' r1
           else case sf_frame ra ctx1 of
             Inl msg \<Rightarrow> sf_reply_error al 500 msg r1
           | Inr out \<Rightarrow>
               let r2 = cerco_set_header al ''Cache-Control'' ''no-store''
                          (cerco_set_header al ''Content-Type'' SF_CONTENT_TYPE (r1\<lparr>rq_status := 200\<rparr>))
               in r2\<lparr>rq_resp := wbuf_putn al (sb_data out) (wbuf_reset (rq_resp r2))\<rparr>)"

subsection \<open>Reserved endpoints\<close>

definition plain_reply :: "(nat \<Rightarrow> bool) \<Rightarrow> string \<Rightarrow> string \<Rightarrow> cerco_req \<Rightarrow> dispatched" where
  "plain_reply al ct body r =
     (let r1 = cerco_set_header al ''Cache-Control'' ''no-store''
                 (cerco_set_header al ''Content-Type'' ct (r\<lparr>rq_status := 200\<rparr>))
      in (r1\<lparr>rq_resp := wbuf_puts al body (wbuf_reset (rq_resp r1))\<rparr>, R_staged, 0))"

definition send_health :: "(nat \<Rightarrow> bool) \<Rightarrow> cerco_req \<Rightarrow> dispatched" where
  "send_health al r = plain_reply al ''text/plain; charset=utf-8'' ''ok'' r"

text \<open>The keys of the statistics object, in the order of the counters.\<close>

definition stats_keys :: "string list" where
  "stats_keys =
     [''active_connections'', ''total_connections'', ''active_requests'', ''total_requests'',
      ''queued_jobs'', ''completed_jobs'', ''rejected_jobs'', ''bytes_read'', ''bytes_written'',
      ''responses_2xx'', ''responses_3xx'', ''responses_4xx'', ''responses_5xx'', ''arena_high_water'',
      ''event_loop_lag_ms'', ''sse_clients'']"

definition stats_text :: "int list \<Rightarrow> string" where
  "stats_text vals =
     ''{'' @ concat (map (\<lambda>(i, k, v). (if i = 0 then [] else '','') @ [CHR 0x22] @ k @ [CHR 0x22] @ '':'' @ dec_int v)
                     (enumerate 0 (zip stats_keys vals))) @ ''}''"

definition send_stats :: "(nat \<Rightarrow> bool) \<Rightarrow> int list \<Rightarrow> cerco_req \<Rightarrow> dispatched" where
  "send_stats al vals r =
     (let r1 = cerco_set_header al ''Cache-Control'' ''no-store''
                 (cerco_set_header al ''Content-Type'' ''application/json; charset=utf-8'' (r\<lparr>rq_status := 200\<rparr>))
      in (r1\<lparr>rq_resp := fst (wbuf_printf al (Some (stats_text vals)) (wbuf_reset (rq_resp r1)))\<rparr>, R_staged, 0))"

definition live_js :: string where
  "live_js = ''new EventSource('' @ [CHR 0x27] @ ''/__cerco/live'' @ [CHR 0x27] @
             '').onmessage=function(){location.reload();};''"

definition send_live_js :: "(nat \<Rightarrow> bool) \<Rightarrow> cerco_req \<Rightarrow> dispatched" where
  "send_live_js al r = plain_reply al ''text/javascript; charset=utf-8'' live_js r"

definition sf_handle_reserved ::
  "(nat \<Rightarrow> bool) \<Rightarrow> bool \<Rightarrow> cerco_config \<Rightarrow> int list \<Rightarrow> cerco_rt_route list \<Rightarrow> cerco_req \<Rightarrow> dispatched" where
  "sf_handle_reserved al submit cfg vals rt r =
     (let path = cerco_path r in
      if cerco_strcaseeq path ''/__cerco/health'' then send_health al r
      else if cerco_strcaseeq path ''/__cerco/stats'' then
        (if \<not> cf_stats_enabled cfg then router_send_404 al submit rt r else send_stats al vals r)
      else if cerco_strcaseeq path ''/__cerco/live'' then
        (if \<not> cf_dev_mode cfg then router_send_404 al submit rt r else (r, R_sse, 0))
      else if cerco_strcaseeq path ''/__cerco/live.js'' then
        (if \<not> cf_dev_mode cfg then router_send_404 al submit rt r else send_live_js al r)
      else router_send_404 al submit rt r)"

definition live_script :: string where
  "live_script =
     ''<script src='' @ [CHR 0x22] @ ''/assets/host.js'' @ [CHR 0x22] @ '' defer></script>'' @
     ''<script src='' @ [CHR 0x22] @ ''/__cerco/live.js'' @ [CHR 0x22] @ '' defer></script>''"

definition dev_inject_live_script :: "(nat \<Rightarrow> bool) \<Rightarrow> cerco_config \<Rightarrow> cerco_req \<Rightarrow> cerco_req" where
  "dev_inject_live_script al cfg r =
     (if \<not> cf_dev_mode cfg \<or> rq_head_injected r \<or> rq_status r \<noteq> 200 then r
      else if (case lookup_ci (rq_resp_hdrs r) ''content-type'' of
                 Some ct \<Rightarrow> \<not> cerco_strncaseeq ct ''text/html'' 9 | None \<Rightarrow> False) then r
      else
        let data = wb_data (rq_resp r);
            insert_at = (case wbuf_find (rq_resp r) 0 (Some ''<head>'') of Some h \<Rightarrow> h + 6 | None \<Rightarrow> 0);
            nb = take insert_at data @ live_script @ drop insert_at data
        in if \<not> al (length nb) then r
           else r\<lparr>rq_resp := \<lparr>wb_data = nb, wb_cap = length nb\<rparr>, rq_head_injected := True\<rparr>)"

subsection \<open>Lemmas\<close>

lemma sf_scan_id_digits:
  "sf_scan_id i s = (j, []) \<Longrightarrow> list_all is_digit s \<and> j = of_nat (dec_value (unat i) s)"
proof (induction s arbitrary: i)
  case Nil
  then show ?case by simp
next
  case (Cons c s)
  then have d: "is_digit c" and s: "sf_scan_id (i * 10 + of_nat (digit_val c)) s = (j, [])"
    by (auto split: if_splits)
  have shift: "(of_nat (dec_value m t) :: u32) = of_nat (dec_value n t)" if "(of_nat m :: u32) = of_nat n" for m n t
    using that
  proof (induction t arbitrary: m n)
    case (Cons x t)
    have "(of_nat (m * 10 + digit_val x) :: u32) = of_nat (n * 10 + digit_val x)"
      using Cons.prems by simp
    from Cons.IH [OF this] show ?case by simp
  qed simp
  have "(of_nat (unat (i * 10 + of_nat (digit_val c))) :: u32) = of_nat (unat i * 10 + digit_val c)" by simp
  from shift [OF this, of s] Cons.IH [OF s] d show ?case by simp
qed

lemma sf_parse_id_value: "sf_parse_id s = Some i \<Longrightarrow> s \<noteq> [] \<and> list_all is_digit s \<and> i = of_nat (dec_value 0 s)"
  using sf_scan_id_digits [of 0 s] by (auto simp: sf_parse_id_def split: prod.splits if_splits)

lemma find_enumerate:
  "find (\<lambda>(k, e). P e) (enumerate n xs) = Some (k, e) \<Longrightarrow> n \<le> k \<and> k - n < length xs \<and> xs ! (k - n) = e \<and> P e"
proof (induction xs arbitrary: n)
  case (Cons x xs)
  show ?case
  proof (cases "P x")
    case True
    with Cons.prems show ?thesis by simp
  next
    case False
    with Cons.prems have "find (\<lambda>(k, e). P e) (enumerate (Suc n) xs) = Some (k, e)" by simp
    from Cons.IH [OF this] show ?thesis by (auto simp: nth_Cons' )
  qed
qed simp

lemma sb_put_data [simp]:
  "sb_data (sb_putn lasts s b) = sb_data b @ s" "sb_data (sb_putc lasts c b) = sb_data b @ [c]"
  "sb_data (sb_puts lasts (Some s) b) = sb_data b @ s" "sb_data (sb_put_u32le lasts v b) = sb_data b @ of_bytes (bytes32 v)"
  by (simp_all add: sb_sink.put_appends sb_putc_eq sb_puts_def sb_put_u32le_def)

text \<open>The specification of a response frame.\<close>

definition frame_spec :: "cerco_sf_ctx \<Rightarrow> byte list" where
  "frame_spec ctx =
     (if sx_failed ctx then
        (let msg = (case sx_error ctx of Some m \<Rightarrow> m | None \<Rightarrow> ''error'')
         in 1 # bytes32 (of_nat (length msg)) @ to_bytes msg)
      else 0 # bytes32 0 @ bytes32 1 @ enc_val (sf_result ctx))"

definition result_ok :: "cerco_sf_ctx \<Rightarrow> bool" where
  "result_ok ctx = (sx_failed ctx \<or> wval_ok (sf_result ctx))"

lemma sf_frame_spec:
  assumes "result_ok ctx"
  shows "\<exists>out. sf_frame lasts ctx = Inr out \<and> to_bytes (sb_data out) = frame_spec ctx"
proof (cases "sx_failed ctx")
  case True
  moreover have "to_bytes (char_of (1 :: nat) # t) = 1 # to_bytes t" for t by (simp add: to_bytes_def)
  ultimately show ?thesis by (simp add: sf_frame_def frame_spec_def Let_def sb_init_def)
next
  case False
  with assms have ok: "wval_ok (sf_result ctx)" by (simp add: result_ok_def)
  have w: "cerco_w_val (sf_result ctx) (cerco_wwriter_init (cerco_wval_size (sf_result ctx)))
      = (cerco_wwriter_init (cerco_wval_size (sf_result ctx)))\<lparr>ww_out := enc_val (sf_result ctx)\<rparr>"
    using w_val_room [OF ok, of "cerco_wwriter_init (cerco_wval_size (sf_result ctx))"]
    by (simp add: cerco_wwriter_init_def length_enc_val [OF ok])
  have "to_bytes (char_of (0 :: nat) # t) = 0 # to_bytes t" for t by (simp add: to_bytes_def)
  with False show ?thesis
    by (simp add: sf_frame_def frame_spec_def Let_def w) (simp add: cerco_wwriter_init_def sb_init_def)
qed

lemma sf_worker:
  assumes "sf_dispatch submit sfs s h r = (r', R_worker, n)"
  shows "\<exists>k < length sfs. rq_sf_entry r' = Some k \<and> rq_handler r' = Some h \<and> submit \<and>
           s \<noteq> [] \<and> list_all is_digit s \<and> se_id (sfs ! k) = of_nat (dec_value 0 s) \<and>
           method_ok (se_method (sfs ! k)) (cerco_method r) \<and>
           (\<exists>ct. cerco_header r ''content-type'' = Some ct \<and> cerco_strncaseeq ct SF_CONTENT_TYPE 22)"
proof -
  from assms obtain i where i: "sf_parse_id s = Some i" by (auto simp: sf_dispatch_def split: option.splits)
  with assms obtain k e where f: "find (\<lambda>(k, e). se_id e = i) (enumerate 0 sfs) = Some (k, e)"
    by (auto simp: sf_dispatch_def split: option.splits)
  from find_enumerate [OF f] have k: "k < length sfs" "sfs ! k = e" "se_id e = i" by auto
  from assms i f have g: "cerco_strcaseeq (cerco_method r) (se_method e) \<or>
        (cerco_strcaseeq (cerco_method r) ''HEAD'' \<and> cerco_strcaseeq (se_method e) ''GET'')"
    "\<exists>ct. cerco_header r ''content-type'' = Some ct \<and> cerco_strncaseeq ct SF_CONTENT_TYPE 22"
    "submit" "r' = r\<lparr>rq_sf_entry := Some k, rq_handler := Some h\<rparr>"
    by (auto simp: sf_dispatch_def Let_def submit_or_busy_def split: if_splits option.splits)
  from g(1) have "method_ok (se_method e) (cerco_method r)" by (auto simp: method_ok_def strcaseeq_sym)
  with k g(2-4) sf_parse_id_value [OF i] show ?thesis by auto
qed

subsection \<open>Properties\<close>

text \<open>C35: Only registered functions run: a request is queued for a worker only when its id is a
  non-empty digit string whose value modulo 2^32 is the id of a table entry (so ids wrap), its
  method is the entry's (HEAD for GET), and its content type is that of the protocol.\<close>

theorem sf_dispatch_gate:
  assumes "sf_dispatch submit sfs s h r = (r', R_worker, n)"
  shows "\<exists>k < length sfs. rq_sf_entry r' = Some k \<and> rq_handler r' = Some h \<and> submit \<and>
           s \<noteq> [] \<and> list_all is_digit s \<and> se_id (sfs ! k) = of_nat (dec_value 0 s) \<and>
           method_ok (se_method (sfs ! k)) (cerco_method r) \<and>
           (\<exists>ct. cerco_header r ''content-type'' = Some ct \<and> cerco_strncaseeq ct SF_CONTENT_TYPE 22)"
  by (rule sf_worker [OF assms])

theorem sf_dispatch_gate_witness:
  "\<exists>k < length [\<lparr>se_id = 1, se_method = ''POST''\<rparr>]. se_id ([\<lparr>se_id = 1, se_method = ''POST''\<rparr>] ! k) = of_nat (dec_value 0 ''4294967297'')"
proof -
  let ?r = "req_zero\<lparr>rq_method := Some ''POST'', rq_headers := [(''content-type'', SF_CONTENT_TYPE)]\<rparr>"
  have "cerco_strncaseeq SF_CONTENT_TYPE SF_CONTENT_TYPE 22"
    by (subst strncaseeq_literal) (simp_all add: SF_CONTENT_TYPE_def)
  moreover have "cerco_header ?r ''content-type'' = Some SF_CONTENT_TYPE" by (simp add: cerco_header_def lookup_ci_def)
  moreover have "sf_parse_id ''4294967297'' = Some 1"
    by (simp add: sf_parse_id_def is_digit_def in_range_def digit_val_def)
  ultimately have "\<exists>r'. sf_dispatch True [\<lparr>se_id = 1, se_method = ''POST''\<rparr>] ''4294967297'' 9 ?r = (r', R_worker, 0)"
    by (simp add: sf_dispatch_def cerco_method_def submit_or_busy_def Let_def)
  then obtain r' where "sf_dispatch True [\<lparr>se_id = 1, se_method = ''POST''\<rparr>] ''4294967297'' 9 ?r = (r', R_worker, 0)" ..
  from sf_dispatch_gate [OF this] show ?thesis by auto
qed

text \<open>A call whose adapter consumed a well-formed frame yields status 200 and exactly the response
  frame of the protocol: one zero byte, an empty error, one value and its encoding; or one, the
  error's length and its bytes.\<close>

theorem sf_run_frame:
  assumes "cerco_r_u32 (cerco_wreader_init (to_bytes b)) = (argc, rd)" "\<not> wr_err rd" "rq_body r = Some b"
    and "call r ((sf_ctx_init (to_bytes b))\<lparr>sx_reader := rd\<rparr>) = (r1, ctx)" "\<not> wr_err (sx_reader ctx)" "result_ok ctx"
  shows "rq_status (sf_run lasts lasts call r) = 200 \<and>
         to_bytes (wb_data (rq_resp (sf_run lasts lasts call r))) = frame_spec ctx"
proof -
  obtain out where out: "sf_frame lasts ctx = Inr out" "to_bytes (sb_data out) = frame_spec ctx"
    using sf_frame_spec [OF assms(6)] by blast
  have st: "rq_status (cerco_set_header al n v q) = rq_status q" "rq_resp (cerco_set_header al n v q) = rq_resp q" for al n v q
    by (auto simp: cerco_set_header_def resp_hdr_add_def split: option.splits)
  have rd: "sx_reader (sf_ctx_init (to_bytes b)) = cerco_wreader_init (to_bytes b)" by (simp add: sf_ctx_init_def)
  show ?thesis
    using assms out by (simp add: sf_run_def Let_def rd st wbuf_reset_def)
qed

theorem sf_run_frame_witness:
  "to_bytes (wb_data (rq_resp (sf_run lasts lasts
      (\<lambda>r ctx. (r, ctx\<lparr>sx_ret_type := WT_BOOL, sx_ret_bool := 1\<rparr>))
      (req_zero\<lparr>rq_body := Some (of_bytes [0, 0, 0, 0])\<rparr>))))
   = [0, 0, 0, 0, 0, 1, 0, 0, 0, 3, 1, 0, 0, 0]"
proof -
  let ?call = "\<lambda>(r :: cerco_req) ctx. (r, ctx\<lparr>sx_ret_type := WT_BOOL, sx_ret_bool := 1\<rparr>)"
  let ?r = "req_zero\<lparr>rq_body := Some (of_bytes [0, 0, 0, 0])\<rparr>"
  have rd: "cerco_r_u32 (cerco_wreader_init (to_bytes (of_bytes [0, 0, 0, 0])))
      = (0, \<lparr>wr_p = [0, 0, 0, 0], wr_pos = 4, wr_err = False\<rparr>)"
    by (simp add: cerco_r_u32_def r_take_def cerco_wreader_init_def le32_def)
  show ?thesis
    using sf_run_frame [where call = ?call and r = ?r, OF rd _ _ refl]
    by (simp add: frame_spec_def result_ok_def sf_result_def wval_ok_def sf_ctx_init_def enc_val_def bytes32_def WT_defs as_b_def)
qed
end
