(* ===== verification/Workers.thy ===== *)
theory Workers
  imports Serverfn Arena "HOL-Library.Multiset"
begin

text \<open>
  \<open>runtime/server/worker.c\<close>: the bounded worker pool. A request is a number. Each critical
  section of the code (submitting, taking a job, pushing and draining a completion) is one
  operation on the pool; \<open>pool_step\<close> interleaves them in any order, which is what the mutexes
  allow. \<open>ps_submitted\<close> and \<open>ps_delivered\<close> are ghost histories.
\<close>

subsection \<open>Bounded queues\<close>

text \<open>The contract of a bounded FIFO queue: below its capacity it appends, and it takes from the front.\<close>

locale bounded_queue =
  fixes ok :: "'q \<Rightarrow> bool"
    and enq :: "'a \<Rightarrow> 'q \<Rightarrow> 'q"
    and deq :: "'q \<Rightarrow> 'a option \<times> 'q"
    and contents :: "'q \<Rightarrow> 'a list"
    and capacity :: "'q \<Rightarrow> nat"
  assumes enq_ok: "ok q \<Longrightarrow> length (contents q) < capacity q \<Longrightarrow>
      ok (enq x q) \<and> contents (enq x q) = contents q @ [x] \<and> capacity (enq x q) = capacity q"
    and deq_ok: "ok q \<Longrightarrow> contents q = x # xs \<Longrightarrow>
      fst (deq q) = Some x \<and> ok (snd (deq q)) \<and> contents (snd (deq q)) = xs \<and> capacity (snd (deq q)) = capacity q"
begin

lemma enq_all:
  "ok q \<Longrightarrow> length (contents q) + length xs \<le> capacity q \<Longrightarrow>
     ok (fold enq xs q) \<and> contents (fold enq xs q) = contents q @ xs \<and> capacity (fold enq xs q) = capacity q"
proof (induction xs arbitrary: q)
  case (Cons x xs)
  then show ?case using enq_ok [of q x] by simp
qed simp

lemma enq_count: "ok q \<Longrightarrow> length (contents q) < capacity q \<Longrightarrow>
    mset (contents (enq x q)) = add_mset x (mset (contents q))"
  using enq_ok [of q x] by simp

lemma deq_count: "ok q \<Longrightarrow> contents q \<noteq> [] \<Longrightarrow>
    \<exists>x. fst (deq q) = Some x \<and> mset (contents q) = add_mset x (mset (contents (snd (deq q))))"
  using deq_ok [of q] by (cases "contents q") auto

end

subsection \<open>Ring buffers\<close>

text \<open>The job and completion rings: slots, head, tail and count. Pushing does not look at the count.\<close>

record 'a ring =
  rg_slots :: "'a option list"
  rg_head :: nat
  rg_tail :: nat
  rg_count :: nat

definition ring_init :: "nat \<Rightarrow> 'a ring" where
  "ring_init cap = \<lparr>rg_slots = replicate cap None, rg_head = 0, rg_tail = 0, rg_count = 0\<rparr>"

definition ring_cap :: "'a ring \<Rightarrow> nat" where "ring_cap q = length (rg_slots q)"

definition ring_push :: "'a \<Rightarrow> 'a ring \<Rightarrow> 'a ring" where
  "ring_push x q =
     q\<lparr>rg_slots := (rg_slots q)[rg_tail q := Some x],
      rg_tail := (rg_tail q + 1) mod ring_cap q,
      rg_count := rg_count q + 1\<rparr>"

definition ring_pop :: "'a ring \<Rightarrow> 'a option \<times> 'a ring" where
  "ring_pop q =
     (rg_slots q ! rg_head q,
      q\<lparr>rg_head := (rg_head q + 1) mod ring_cap q, rg_count := rg_count q - 1\<rparr>)"

definition ring_contents :: "'a ring \<Rightarrow> 'a list" where
  "ring_contents q = map (\<lambda>i. the (rg_slots q ! ((rg_head q + i) mod ring_cap q))) [0..<rg_count q]"

definition ring_ok :: "'a ring \<Rightarrow> bool" where
  "ring_ok q =
     (0 < ring_cap q \<and> rg_head q < ring_cap q \<and> rg_count q \<le> ring_cap q \<and>
      rg_tail q = (rg_head q + rg_count q) mod ring_cap q \<and>
      (\<forall>i < rg_count q. rg_slots q ! ((rg_head q + i) mod ring_cap q) \<noteq> None))"

lemma ring_init_ok: "0 < cap \<Longrightarrow> ring_ok (ring_init cap) \<and> ring_contents (ring_init cap) = [] \<and> ring_cap (ring_init cap) = cap"
  by (simp add: ring_ok_def ring_init_def ring_cap_def ring_contents_def)

lemma length_ring_contents [simp]: "length (ring_contents q) = rg_count q"
  by (simp add: ring_contents_def)

lemma ring_cap_push [simp]: "ring_cap (ring_push x q) = ring_cap q" "ring_cap (snd (ring_pop q)) = ring_cap q"
  by (simp_all add: ring_push_def ring_pop_def ring_cap_def)

text \<open>Distinct positions below the capacity are distinct slots.\<close>

lemma slot_neq: "i < k \<Longrightarrow> k < (c :: nat) \<Longrightarrow> (h + i) mod c \<noteq> (h + k) mod c"
proof
  assume ik: "i < k" "k < c" and eq: "(h + i) mod c = (h + k) mod c"
  then have "c dvd (h + k) - (h + i)" by (metis mod_eq_dvd_iff_nat nat_add_left_cancel_le less_imp_le)
  then have "c dvd k - i" by simp
  with ik show False by (auto dest: dvd_imp_le)
qed

lemma ring_push_ok:
  assumes "ring_ok q" "rg_count q < ring_cap q"
  shows "ring_ok (ring_push x q) \<and> ring_contents (ring_push x q) = ring_contents q @ [x]"
proof -
  let ?c = "ring_cap q"
  have c: "0 < ?c" and tl: "rg_tail q = (rg_head q + rg_count q) mod ?c" using assms by (auto simp: ring_ok_def)
  have tlt: "rg_tail q < length (rg_slots q)" using c tl by (simp add: ring_cap_def)
  have old: "(rg_slots q)[rg_tail q := Some x] ! ((rg_head q + i) mod ?c) = rg_slots q ! ((rg_head q + i) mod ?c)"
    if "i < rg_count q" for i
    using slot_neq [OF that assms(2), of "rg_head q"] tl by simp
  have new: "(rg_slots q)[rg_tail q := Some x] ! ((rg_head q + rg_count q) mod ?c) = Some x"
    using tlt tl by simp
  have cap: "ring_cap (ring_push x q) = ?c" by simp
  have "ring_ok (ring_push x q)"
    unfolding ring_ok_def cap
    using assms old new tl
    by (auto simp: ring_push_def ring_ok_def less_Suc_eq mod_Suc_eq)
  moreover have "ring_contents (ring_push x q) = ring_contents q @ [x]"
    unfolding ring_contents_def cap
    using old new by (simp add: ring_push_def)
  ultimately show ?thesis ..
qed

lemma ring_pop_ok:
  assumes "ring_ok q" "ring_contents q = x # xs"
  shows "fst (ring_pop q) = Some x \<and> ring_ok (snd (ring_pop q)) \<and> ring_contents (snd (ring_pop q)) = xs"
proof -
  let ?c = "ring_cap q"
  from assms(2) have n: "rg_count q = Suc (length xs)" by (metis length_Cons length_ring_contents)
  have h: "rg_head q < ?c" using assms(1) by (simp add: ring_ok_def)
  have sh: "(Suc (rg_head q) mod ?c + i) mod ?c = Suc (rg_head q + i) mod ?c" for i
    by (metis add_Suc mod_add_left_eq)
  have "ring_contents q ! 0 = the (rg_slots q ! rg_head q)" using n h by (simp add: ring_contents_def del: upt_Suc)
  moreover have "rg_slots q ! rg_head q \<noteq> None"
    using assms(1) n h unfolding ring_ok_def by (metis add.right_neutral mod_less zero_less_Suc)
  ultimately have "rg_slots q ! rg_head q = Some x" using assms(2) by auto
  moreover have "ring_ok (snd (ring_pop q))"
    using assms(1) n unfolding ring_ok_def ring_cap_push
    by (auto simp: ring_pop_def sh mod_simps)
  moreover have "ring_contents (snd (ring_pop q)) = tl (ring_contents q)"
    unfolding ring_contents_def ring_cap_push
    using n by (simp add: ring_pop_def sh upt_conv_Cons map_Suc_upt [symmetric] del: upt_Suc)
  ultimately show ?thesis using assms(2) by (simp add: ring_pop_def)
qed

interpretation ring_queue: bounded_queue ring_ok ring_push ring_pop ring_contents ring_cap
  by unfold_locales (auto dest: ring_push_ok ring_pop_ok)

subsection \<open>The pool\<close>

record wpool =
  wp_jobs :: "nat ring"
  wp_running :: "nat list"      \<comment> \<open>requests taken by a worker and not yet pushed\<close>
  wp_done :: "nat ring"
  wp_n_threads :: nat
  wp_shutdown :: bool
  wp_queued_jobs :: int
  wp_completed_jobs :: int

text \<open>
  \<open>ra\<close>: which \<open>calloc\<close> calls succeed (jobs, completions, threads); \<open>created\<close>: how many
  threads \<open>uv_thread_create_ex\<close> starts before it fails. \<open>None\<close> is -1.
\<close>

definition wpool_start :: "bool \<times> bool \<times> bool \<Rightarrow> nat \<Rightarrow> nat \<Rightarrow> nat \<Rightarrow> wpool option" where
  "wpool_start ra created n_threads queue_cap =
     (let (jobs_ok, done_ok, threads_ok) = ra;
          n = (if created < n_threads then created else n_threads);
          p = \<lparr>wp_jobs = ring_init queue_cap, wp_running = [], wp_done = ring_init queue_cap,
               wp_n_threads = n, wp_shutdown = False, wp_queued_jobs = 0, wp_completed_jobs = 0\<rparr>
      in if \<not> jobs_ok \<or> \<not> done_ok then None
         else if \<not> threads_ok then None
         else if n > 0 then Some p else None)"

definition wpool_try_submit :: "nat \<Rightarrow> wpool \<Rightarrow> bool \<times> wpool" where
  "wpool_try_submit req p =
     (if \<not> wp_shutdown p \<and> rg_count (wp_jobs p) < ring_cap (wp_jobs p) then
        (True, p\<lparr>wp_jobs := ring_push req (wp_jobs p), wp_queued_jobs := wp_queued_jobs p + 1\<rparr>)
      else (False, p))"

definition wpool_push_done :: "nat \<Rightarrow> wpool \<Rightarrow> wpool" where
  "wpool_push_done req p = p\<lparr>wp_done := ring_push req (wp_done p)\<rparr>"

datatype worker_next = Worker_waits | Worker_exits | Worker_runs nat wpool

text \<open>A worker at the top of its loop, with the job mutex; the slot is read whatever it holds.\<close>

definition worker_take :: "wpool \<Rightarrow> worker_next" where
  "worker_take p =
     (if rg_count (wp_jobs p) = 0 \<and> \<not> wp_shutdown p then Worker_waits
      else if rg_count (wp_jobs p) = 0 then Worker_exits
      else case ring_pop (wp_jobs p) of
        (Some req, jobs) \<Rightarrow> Worker_runs req
          (p\<lparr>wp_jobs := jobs, wp_running := wp_running p @ [req], wp_queued_jobs := wp_queued_jobs p - 1\<rparr>)
      | (None, jobs) \<Rightarrow> Worker_exits)"

definition worker_finish :: "nat \<Rightarrow> wpool \<Rightarrow> wpool" where
  "worker_finish req p = wpool_push_done req (p\<lparr>wp_running := remove1 req (wp_running p)\<rparr>)"

text \<open>One round of the drain loop: the completion taken, if any.\<close>

definition drain_one :: "wpool \<Rightarrow> nat option \<times> wpool" where
  "drain_one p =
     (if rg_count (wp_done p) = 0 then (None, p)
      else case ring_pop (wp_done p) of
        (r, d) \<Rightarrow> (r, p\<lparr>wp_done := d, wp_completed_jobs := wp_completed_jobs p + 1\<rparr>))"

definition wpool_shutdown :: "wpool \<Rightarrow> wpool" where
  "wpool_shutdown p = p\<lparr>wp_shutdown := True\<rparr>"

subsection \<open>What the drain does with a completion\<close>

text \<open>\<open>None\<close>: the client is gone and the result is discarded.\<close>

definition complete_req ::
  "(nat \<Rightarrow> bool) \<Rightarrow> cerco_config \<Rightarrow> bool \<Rightarrow> bool \<Rightarrow> cerco_req \<Rightarrow> cerco_req option" where
  "complete_req al cfg arena_failed conn_gone r =
     (if rq_cancelled r \<or> rq_conn r = None \<or> conn_gone then None
      else
        let r1 =
          (if arena_failed \<and> rq_status r < 500 then
             r\<lparr>rq_status := 500,
               rq_resp := wbuf_puts al (''request exceeded memory limit'' @ [CHR 0x0A]) (wbuf_reset (rq_resp r)),
               rq_resp_hdrs := []\<rparr>
           else if wb_data (rq_resp r) = [] \<and> rq_status r < 300 then
             r\<lparr>rq_status := 500, rq_resp := wbuf_puts al (''empty response'' @ [CHR 0x0A]) (rq_resp r)\<rparr>
           else r)
        in Some (dev_inject_live_script al cfg (apply_page_title al r1)))"

definition arena_hwm_update :: "nat \<Rightarrow> nat \<Rightarrow> nat" where
  "arena_hwm_update tot hwm = (if tot > hwm then tot else hwm)"

subsection \<open>Interleavings\<close>

record pool_state =
  ps_pool :: wpool
  ps_submitted :: "nat list"
  ps_delivered :: "nat list"
  ps_overflow :: bool          \<comment> \<open>a completion was pushed into a full ring\<close>

inductive pool_step :: "pool_state \<Rightarrow> pool_state \<Rightarrow> bool" where
  submit: "wpool_try_submit req (ps_pool s) = (True, p) \<Longrightarrow>
     pool_step s (s\<lparr>ps_pool := p, ps_submitted := req # ps_submitted s\<rparr>)"
| take_job: "length (wp_running (ps_pool s)) < wp_n_threads (ps_pool s) \<Longrightarrow>
     worker_take (ps_pool s) = Worker_runs req p \<Longrightarrow> pool_step s (s\<lparr>ps_pool := p\<rparr>)"
| finish: "req \<in> set (wp_running (ps_pool s)) \<Longrightarrow>
     pool_step s (s\<lparr>ps_pool := worker_finish req (ps_pool s),
       ps_overflow := ps_overflow s \<or> rg_count (wp_done (ps_pool s)) \<ge> ring_cap (wp_done (ps_pool s))\<rparr>)"
| drain: "drain_one (ps_pool s) = (Some req, p) \<Longrightarrow>
     pool_step s (s\<lparr>ps_pool := p, ps_delivered := req # ps_delivered s\<rparr>)"
| shutdown: "pool_step s (s\<lparr>ps_pool := wpool_shutdown (ps_pool s)\<rparr>)"

inductive_cases pool_stepE: "pool_step s t"

definition pool_start :: "pool_state \<Rightarrow> bool" where
  "pool_start s =
     (\<exists>ra created n cap p. 0 < cap \<and> wpool_start ra created n cap = Some p \<and>
        s = \<lparr>ps_pool = p, ps_submitted = [], ps_delivered = [], ps_overflow = False\<rparr>)"

text \<open>Nothing is lost or duplicated as long as no completion was pushed into a full ring.\<close>

definition pool_inv :: "pool_state \<Rightarrow> bool" where
  "pool_inv s =
     (let p = ps_pool s in
      ring_ok (wp_jobs p) \<and> length (wp_running p) \<le> wp_n_threads p \<and> ring_cap (wp_done p) = ring_cap (wp_jobs p) \<and>
      (\<not> ps_overflow s \<longrightarrow> ring_ok (wp_done p) \<and>
         mset (ps_submitted s) = mset (ring_contents (wp_jobs p)) + mset (wp_running p) +
                                 mset (ring_contents (wp_done p)) + mset (ps_delivered s)))"

lemma pool_start_inv: "pool_start s \<Longrightarrow> pool_inv s"
proof -
  assume "pool_start s"
  then obtain ra created n cap p where p: "0 < cap" "wpool_start ra created n cap = Some p"
    "s = \<lparr>ps_pool = p, ps_submitted = [], ps_delivered = [], ps_overflow = False\<rparr>"
    by (auto simp: pool_start_def)
  then have "wp_jobs p = ring_init cap" "wp_done p = ring_init cap" "wp_running p = []"
    by (auto simp: wpool_start_def Let_def split: prod.splits if_splits)
  moreover have "ring_ok (ring_init cap :: nat ring) \<and> ring_contents (ring_init cap :: nat ring) = [] \<and>
      ring_cap (ring_init cap :: nat ring) = cap"
    by (rule ring_init_ok [OF p(1)])
  ultimately show ?thesis by (simp add: pool_inv_def p(3))
qed

lemma pool_step_inv:
  assumes "pool_step s t" "pool_inv s"
  shows "pool_inv t"
  using assms(1)
proof cases
  case (submit req p)
  then have p: "p = (ps_pool s)\<lparr>wp_jobs := ring_push req (wp_jobs (ps_pool s)), wp_queued_jobs := wp_queued_jobs (ps_pool s) + 1\<rparr>"
    and room: "rg_count (wp_jobs (ps_pool s)) < ring_cap (wp_jobs (ps_pool s))"
    by (auto simp: wpool_try_submit_def split: if_splits)
  from assms(2) room ring_push_ok [of "wp_jobs (ps_pool s)" req] show ?thesis
    unfolding submit(1) p by (simp add: pool_inv_def Let_def)
next
  case (take_job req p)
  then have ne: "rg_count (wp_jobs (ps_pool s)) \<noteq> 0"
    and pop: "fst (ring_pop (wp_jobs (ps_pool s))) = Some req"
    and p: "p = (ps_pool s)\<lparr>wp_jobs := snd (ring_pop (wp_jobs (ps_pool s))), wp_running := wp_running (ps_pool s) @ [req],
             wp_queued_jobs := wp_queued_jobs (ps_pool s) - 1\<rparr>"
    by (auto simp: worker_take_def split: if_splits prod.splits option.splits)
  obtain x xs where x: "ring_contents (wp_jobs (ps_pool s)) = x # xs"
    using ne by (metis length_0_conv length_ring_contents neq_Nil_conv)
  from assms(2) have "ring_ok (wp_jobs (ps_pool s))" by (simp add: pool_inv_def Let_def)
  from ring_pop_ok [OF this x] pop assms(2) x take_job(2) show ?thesis
    unfolding take_job(1) p by (simp add: pool_inv_def Let_def)
next
  case (finish req)
  let ?p = "ps_pool s"
  have len: "length (remove1 req (wp_running ?p)) \<le> wp_n_threads ?p"
  proof -
    have "length (remove1 req (wp_running ?p)) \<le> length (wp_running ?p)" by (simp add: length_remove1)
    moreover have "length (wp_running ?p) \<le> wp_n_threads ?p" using assms(2) by (simp add: pool_inv_def Let_def)
    ultimately show ?thesis by linarith
  qed
  show ?thesis
  proof (cases "ps_overflow s \<or> rg_count (wp_done ?p) \<ge> ring_cap (wp_done ?p)")
    case True
    with assms(2) len show ?thesis
      unfolding finish(1) by (simp add: pool_inv_def Let_def worker_finish_def wpool_push_done_def)
  next
    case False
    with assms(2) have "ring_ok (wp_done ?p)" by (simp add: pool_inv_def Let_def)
    from ring_push_ok [OF this, of req] False assms(2) len finish(2) show ?thesis
      unfolding finish(1)
      by (simp add: pool_inv_def Let_def worker_finish_def wpool_push_done_def)
  qed
next
  case (drain req p)
  let ?d = "wp_done (ps_pool s)"
  from drain have ne: "rg_count ?d \<noteq> 0" and pop: "fst (ring_pop ?d) = Some req"
    and p: "p = (ps_pool s)\<lparr>wp_done := snd (ring_pop ?d), wp_completed_jobs := wp_completed_jobs (ps_pool s) + 1\<rparr>"
    by (auto simp: drain_one_def split: if_splits prod.splits)
  obtain x xs where x: "ring_contents ?d = x # xs"
    using ne by (metis length_0_conv length_ring_contents neq_Nil_conv)
  show ?thesis
  proof (cases "ps_overflow s")
    case True
    with assms(2) show ?thesis unfolding drain(1) p by (simp add: pool_inv_def Let_def)
  next
    case False
    with assms(2) have "ring_ok ?d" by (simp add: pool_inv_def Let_def)
    from ring_pop_ok [OF this x] pop assms(2) x False show ?thesis
      unfolding drain(1) p by (simp add: pool_inv_def Let_def)
  qed
next
  case shutdown
  with assms(2) show ?thesis by (simp add: pool_inv_def Let_def wpool_shutdown_def)
qed

interpretation pool_system: transition_system pool_start pool_step pool_inv
  by unfold_locales (auto intro: pool_start_inv pool_step_inv)

subsection \<open>A run that overflows the completion ring\<close>

text \<open>One request is submitted, taken and finished while the event loop does not drain.\<close>

lemma pool_round:
  assumes "ring_ok (wp_jobs (ps_pool s))" "rg_count (wp_jobs (ps_pool s)) = 0" "wp_running (ps_pool s) = []"
    and "0 < wp_n_threads (ps_pool s)" "\<not> wp_shutdown (ps_pool s)"
  shows "\<exists>t. pool_step\<^sup>*\<^sup>* s t \<and> ring_ok (wp_jobs (ps_pool t)) \<and> rg_count (wp_jobs (ps_pool t)) = 0 \<and>
     wp_running (ps_pool t) = [] \<and> wp_n_threads (ps_pool t) = wp_n_threads (ps_pool s) \<and>
     \<not> wp_shutdown (ps_pool t) \<and> wp_done (ps_pool t) = ring_push req (wp_done (ps_pool s)) \<and>
     ps_submitted t = req # ps_submitted s \<and> ps_delivered t = ps_delivered s \<and>
     (ps_overflow t \<longleftrightarrow> ps_overflow s \<or> rg_count (wp_done (ps_pool s)) \<ge> ring_cap (wp_done (ps_pool s)))"
proof -
  let ?p = "ps_pool s"
  define p1 where "p1 = ?p\<lparr>wp_jobs := ring_push req (wp_jobs ?p), wp_queued_jobs := wp_queued_jobs ?p + 1\<rparr>"
  define s1 where "s1 = s\<lparr>ps_pool := p1, ps_submitted := req # ps_submitted s\<rparr>"
  have cap: "0 < ring_cap (wp_jobs ?p)" using assms(1) by (simp add: ring_ok_def)
  have sub: "wpool_try_submit req ?p = (True, p1)" using assms(2,5) cap by (simp add: wpool_try_submit_def p1_def)
  have c0: "ring_contents (wp_jobs ?p) = []" using assms(2) by (metis length_0_conv length_ring_contents)
  from ring_push_ok [OF assms(1), of req] assms(2) cap c0
  have j1: "ring_ok (wp_jobs p1)" "ring_contents (wp_jobs p1) = [req]" by (simp_all add: p1_def)
  from ring_pop_ok [OF j1(1)] j1(2)
  have pop: "fst (ring_pop (wp_jobs p1)) = Some req" "ring_ok (snd (ring_pop (wp_jobs p1)))"
    "ring_contents (snd (ring_pop (wp_jobs p1))) = []" by auto
  define p2 where "p2 = p1\<lparr>wp_jobs := snd (ring_pop (wp_jobs p1)), wp_running := [req], wp_queued_jobs := wp_queued_jobs p1 - 1\<rparr>"
  have "rg_count (wp_jobs p1) = 1" using j1(2) by (metis length_ring_contents length_Cons list.size(3) One_nat_def)
  then have tk: "worker_take p1 = Worker_runs req p2"
    using pop(1) assms(3) by (cases "ring_pop (wp_jobs p1)") (simp add: worker_take_def p2_def p1_def)
  define s2 where "s2 = s1\<lparr>ps_pool := p2\<rparr>"
  define s3 where "s3 = s2\<lparr>ps_pool := worker_finish req p2,
      ps_overflow := ps_overflow s2 \<or> rg_count (wp_done p2) \<ge> ring_cap (wp_done p2)\<rparr>"
  have "pool_step s s1" unfolding s1_def by (rule pool_step.submit [OF sub])
  moreover have "pool_step s1 s2" unfolding s2_def
    by (rule pool_step.take_job [of _ req]) (use tk assms(3,4) in \<open>simp_all add: s1_def p1_def\<close>)
  moreover have "pool_step s2 s3"
    using pool_step.finish [of req s2] by (simp add: s3_def s2_def p2_def)
  ultimately have "pool_step\<^sup>*\<^sup>* s s3" by (meson rtranclp.rtrancl_into_rtrancl rtranclp.rtrancl_refl)
  moreover have "rg_count (snd (ring_pop (wp_jobs p1))) = 0" using pop(3) by (metis length_ring_contents list.size(3))
  ultimately show ?thesis
    using pop assms(3-5)
    by (intro exI [of _ s3]) (simp add: s3_def s2_def s1_def p2_def p1_def worker_finish_def wpool_push_done_def)
qed

lemma pool_rounds:
  assumes "0 < cap" "0 < n"
  shows "\<exists>s t. pool_start s \<and> pool_step\<^sup>*\<^sup>* s t \<and> ring_ok (wp_jobs (ps_pool t)) \<and> rg_count (wp_jobs (ps_pool t)) = 0 \<and>
     wp_running (ps_pool t) = [] \<and> wp_n_threads (ps_pool t) = n \<and> \<not> wp_shutdown (ps_pool t) \<and>
     wp_done (ps_pool t) = fold ring_push [0..<k] (ring_init cap) \<and> ps_submitted t = rev [0..<k] \<and>
     ps_delivered t = [] \<and> (k > cap \<longrightarrow> ps_overflow t)"
proof (induction k)
  case 0
  define p where "p = \<lparr>wp_jobs = ring_init cap, wp_running = [], wp_done = ring_init cap, wp_n_threads = n,
      wp_shutdown = False, wp_queued_jobs = 0, wp_completed_jobs = 0\<rparr>"
  define s where "s = \<lparr>ps_pool = p, ps_submitted = [], ps_delivered = [], ps_overflow = False\<rparr>"
  have "wpool_start (True, True, True) n n cap = Some p" using assms(2) by (simp add: wpool_start_def p_def)
  with assms(1) have "pool_start s" unfolding pool_start_def s_def by blast
  moreover have "ring_ok (ring_init cap :: nat ring)" using ring_init_ok [OF assms(1)] by blast
  ultimately show ?case
    by (intro exI [of _ s] conjI) (simp_all add: s_def p_def ring_init_def)
next
  case (Suc k)
  then obtain s t where st: "pool_start s" "pool_step\<^sup>*\<^sup>* s t" "ring_ok (wp_jobs (ps_pool t))" "rg_count (wp_jobs (ps_pool t)) = 0"
     "wp_running (ps_pool t) = []" "wp_n_threads (ps_pool t) = n" "\<not> wp_shutdown (ps_pool t)"
     "wp_done (ps_pool t) = fold ring_push [0..<k] (ring_init cap)" "ps_submitted t = rev [0..<k]"
     "ps_delivered t = []" "k > cap \<longrightarrow> ps_overflow t" by blast
  have n0: "0 < wp_n_threads (ps_pool t)" using assms(2) st(6) by simp
  from pool_round [OF st(3,4,5) n0 st(7), of k] obtain u where
    u: "pool_step\<^sup>*\<^sup>* t u" "ring_ok (wp_jobs (ps_pool u))" "rg_count (wp_jobs (ps_pool u)) = 0"
     "wp_running (ps_pool u) = []" "wp_n_threads (ps_pool u) = n" "\<not> wp_shutdown (ps_pool u)"
     "wp_done (ps_pool u) = ring_push k (wp_done (ps_pool t))" "ps_submitted u = k # ps_submitted t"
     "ps_delivered u = ps_delivered t"
     "ps_overflow u \<longleftrightarrow> ps_overflow t \<or> rg_count (wp_done (ps_pool t)) \<ge> ring_cap (wp_done (ps_pool t))"
    using st(6) by metis
  have "rg_count (fold ring_push [0..<k] (ring_init cap)) = k \<and> ring_cap (fold ring_push [0..<k] (ring_init cap :: nat ring)) = cap"
    by (induction k) (simp_all add: ring_init_def ring_push_def ring_cap_def)
  with u(10) st(8) have "Suc k > cap \<longrightarrow> ps_overflow u" by simp
  moreover from st(2) u(1) have "pool_step\<^sup>*\<^sup>* s u" by simp
  ultimately show ?case using st u by - (rule exI [of _ s], rule exI [of _ u], simp)
qed

lemma full_pushes:
  assumes "0 < cap" "k \<le> cap"
  shows "let q = fold ring_push [0..<k] (ring_init cap) in
     length (rg_slots q) = cap \<and> rg_tail q = k mod cap \<and> rg_count q = k \<and> (\<forall>i < k. rg_slots q ! i = Some i)"
  using assms(2)
proof (induction k)
  case 0
  then show ?case by (simp add: ring_init_def)
next
  case (Suc k)
  then have "k < cap" by simp
  then have km: "k mod cap = k" by simp
  from Suc km \<open>k < cap\<close> show ?case
    by (auto simp: Let_def ring_push_def ring_cap_def mod_Suc_eq less_Suc_eq)
qed

subsection \<open>Properties\<close>

text \<open>C36: Whatever the interleaving of the event loop and the workers, at most the configured number of
  jobs waits, at most one job a thread runs, and, unless a completion is pushed into a full ring,
  every accepted request is in exactly one place: waiting, running, completed or delivered.\<close>

theorem pool_conserves_requests:
  assumes "pool_start s" "pool_step\<^sup>*\<^sup>* s t"
  shows "let p = ps_pool t in
     length (ring_contents (wp_jobs p)) \<le> ring_cap (wp_jobs p) \<and> length (wp_running p) \<le> wp_n_threads p \<and>
     (\<not> ps_overflow t \<longrightarrow> mset (ps_submitted t) =
        mset (ring_contents (wp_jobs p)) + mset (wp_running p) + mset (ring_contents (wp_done p)) + mset (ps_delivered t))"
  using pool_system.reachable_inv [OF assms(2,1)] by (simp add: pool_inv_def Let_def ring_ok_def)

theorem pool_conserves_requests_witness:
  "\<exists>t :: pool_state. wp_running (ps_pool t) = [] \<and> ps_submitted t = [1, 0] \<and>
       length (ring_contents (wp_jobs (ps_pool t))) \<le> ring_cap (wp_jobs (ps_pool t))"
proof -
  obtain s t where "pool_start s" "pool_step\<^sup>*\<^sup>* s t" "wp_running (ps_pool t) = []" "ps_submitted t = rev [0..<2]"
    using pool_rounds [of 4 1 2] by (metis zero_less_numeral zero_less_one)
  note t = this
  have "rev [0..<2] = [1, 0 :: nat]" by (simp add: numeral_2_eq_2)
  moreover have "length (ring_contents (wp_jobs (ps_pool t))) \<le> ring_cap (wp_jobs (ps_pool t))"
    using pool_conserves_requests [OF t(1,2)] unfolding Let_def by blast
  ultimately show ?thesis using t(3,4) by metis
qed

text \<open>Jobs are served in the order they were accepted: after a batch is submitted to a pool with
  room for it, the waiting jobs are the earlier ones followed by the batch, and a worker takes the
  first of them.\<close>

theorem jobs_fifo:
  assumes "ring_ok (wp_jobs p)" "\<not> wp_shutdown p" "length (ring_contents (wp_jobs p)) + length reqs \<le> ring_cap (wp_jobs p)"
    and "p' = fold (\<lambda>r q. snd (wpool_try_submit r q)) reqs p" "ring_contents (wp_jobs p) @ reqs = x # xs"
  shows "\<exists>q. worker_take p' = Worker_runs x q \<and> ring_contents (wp_jobs q) = xs"
proof -
  have jobs: "wp_jobs (fold (\<lambda>r q. snd (wpool_try_submit r q)) rs q) = fold ring_push rs (wp_jobs q) \<and>
       wp_shutdown (fold (\<lambda>r q. snd (wpool_try_submit r q)) rs q) = wp_shutdown q"
    if "ring_ok (wp_jobs q)" "\<not> wp_shutdown q" "length (ring_contents (wp_jobs q)) + length rs \<le> ring_cap (wp_jobs q)" for rs q
    using that
  proof (induction rs arbitrary: q)
    case (Cons r rs)
    have sub: "snd (wpool_try_submit r q) = q\<lparr>wp_jobs := ring_push r (wp_jobs q), wp_queued_jobs := wp_queued_jobs q + 1\<rparr>"
      using Cons.prems by (simp add: wpool_try_submit_def)
    have "ring_ok (ring_push r (wp_jobs q))" "ring_contents (ring_push r (wp_jobs q)) = ring_contents (wp_jobs q) @ [r]"
      using ring_push_ok [OF Cons.prems(1), of r] Cons.prems(3) by simp_all
    with Cons.IH [of "snd (wpool_try_submit r q)"] Cons.prems show ?case
      by (simp add: sub)
  qed simp
  from ring_queue.enq_all [OF assms(1,3)] have q: "ring_ok (wp_jobs p')" "ring_contents (wp_jobs p') = x # xs"
    using jobs [OF assms(1-3)] assms(4,5) by simp_all
  then have "rg_count (wp_jobs p') \<noteq> 0" by (metis length_ring_contents length_0_conv list.distinct(1))
  with ring_pop_ok [OF q] show ?thesis
    by (cases "ring_pop (wp_jobs p')") (simp add: worker_take_def)
qed

theorem jobs_fifo_witness:
  "\<exists>p q. wpool_start (True, True, True) 2 2 4 = Some p \<and>
     worker_take (fold (\<lambda>r q. snd (wpool_try_submit r q)) [7, 8, 9] p) = Worker_runs 7 q \<and> ring_contents (wp_jobs q) = [8, 9]"
proof -
  obtain p where p: "wpool_start (True, True, True) 2 2 4 = Some p" and j: "wp_jobs p = ring_init 4" "\<not> wp_shutdown p"
    by (simp add: wpool_start_def)
  have "ring_ok (wp_jobs p)" "ring_contents (wp_jobs p) = []" "ring_cap (wp_jobs p) = 4"
  proof -
    have "ring_ok (ring_init 4 :: nat ring) \<and> ring_contents (ring_init 4 :: nat ring) = [] \<and>
        ring_cap (ring_init 4 :: nat ring) = 4"
      by (rule ring_init_ok) simp
    then show "ring_ok (wp_jobs p)" "ring_contents (wp_jobs p) = []" "ring_cap (wp_jobs p) = 4"
      unfolding j by simp_all
  qed
  then show ?thesis
    using jobs_fifo [OF _ j(2), of "[7, 8, 9]" _ 7 "[8, 9]", OF _ _ refl] p by auto
qed

text \<open>The completion ring can overflow, for every capacity: with one worker and no drain between,
  one more request than the ring has slots is accepted and finished, and the first completion is
  then in no slot, running nowhere and not delivered.\<close>

theorem done_ring_overflows:
  assumes "0 < cap" "0 < n"
  shows "\<exists>s t. pool_start s \<and> pool_step\<^sup>*\<^sup>* s t \<and> ps_overflow t \<and> wp_n_threads (ps_pool t) = n \<and>
     ring_cap (wp_done (ps_pool t)) = cap \<and> rg_count (wp_done (ps_pool t)) = cap + 1 \<and> 0 \<in> set (ps_submitted t) \<and>
     Some 0 \<notin> set (rg_slots (wp_done (ps_pool t))) \<and> wp_running (ps_pool t) = [] \<and> ps_delivered t = []"
proof -
  obtain s t where st: "pool_start s" "pool_step\<^sup>*\<^sup>* s t" "wp_running (ps_pool t) = []" "wp_n_threads (ps_pool t) = n"
    "wp_done (ps_pool t) = fold ring_push [0..<Suc cap] (ring_init cap)" "ps_submitted t = rev [0..<Suc cap]"
    "ps_delivered t = []" "ps_overflow t"
    using pool_rounds [OF assms, of "Suc cap"] by blast
  define q where "q = fold ring_push [0..<cap] (ring_init cap :: nat ring)"
  from full_pushes [OF assms(1) order_refl] have q: "length (rg_slots q) = cap" "rg_tail q = 0" "rg_count q = cap"
    "\<forall>i < cap. rg_slots q ! i = Some i" by (simp_all add: q_def Let_def)
  have d: "wp_done (ps_pool t) = ring_push cap q" by (simp add: st(5) q_def)
  have "Some 0 \<notin> set (rg_slots (ring_push cap q))"
  proof
    assume "Some 0 \<in> set (rg_slots (ring_push cap q))"
    then obtain i where i: "i < cap" "(rg_slots q)[0 := Some cap] ! i = Some 0"
      using q(1,2) by (auto simp: ring_push_def in_set_conv_nth)
    with q(1,4) assms(1) show False by (cases i) auto
  qed
  moreover have "ring_cap (ring_push cap q) = cap" "rg_count (ring_push cap q) = cap + 1"
    using q by (simp_all add: ring_push_def ring_cap_def)
  moreover have "0 \<in> set (rev [0..<Suc cap])" by (simp only: set_rev set_upt) simp
  ultimately show ?thesis
    using st(1-4,7,8) unfolding d [symmetric] st(6) [symmetric] by blast
qed

theorem done_ring_overflows_witness:
  "\<exists>s t. pool_start s \<and> pool_step\<^sup>*\<^sup>* s t \<and> ps_overflow t \<and> rg_count (wp_done (ps_pool t)) = 1025"
  using done_ring_overflows [of 1024 4] by auto

text \<open>The result of a finished handler is discarded exactly when the client is gone; a request that
  outgrew its memory becomes a 500, and so does every status below 300 with an empty body, an
  intended 204 included.\<close>

theorem completion_outcome:
  "map_option rq_status (complete_req al cfg arena_failed gone r) =
     (if rq_cancelled r \<or> rq_conn r = None \<or> gone then None
      else Some (if (arena_failed \<and> rq_status r < 500) \<or> (wb_data (rq_resp r) = [] \<and> rq_status r < 300)
                 then 500 else rq_status r))"
proof -
  have "rq_status (dev_inject_live_script al cfg q) = rq_status q" for q
    by (simp add: dev_inject_live_script_def Let_def)
  moreover have "rq_status (apply_page_title al q) = rq_status q" for q
    by (simp add: apply_page_title_def Let_def split: option.splits)
  ultimately show ?thesis by (auto simp: complete_req_def Let_def)
qed

end
