(* ===== verification/Dispatch.thy ===== *)
theory Dispatch
  imports Serverfn
begin

text \<open>
  \<open>runtime/server/dispatch.c\<close>: what the event loop does with a complete request, in the order
  the code tries it: server functions, reserved endpoints, routes, static assets, 404.

  \<open>app_env\<close> collects what the dispatcher reads besides the request: the allocation oracles, whether
  the worker pool accepts a job, the application's tables (the routes as \<open>router_init\<close> parsed
  them), the files, and the counters the statistics page prints.
\<close>

record app_env =
  ae_al :: "nat \<Rightarrow> bool"
  ae_ra :: "nat \<Rightarrow> bool"
  ae_submit :: bool
  ae_fs :: file_system
  ae_cfg :: cerco_config
  ae_assets :: "cerco_asset_entry list"
  ae_rt :: "cerco_rt_route list"
  ae_sfs :: "cerco_sf_entry list"
  ae_sf_run :: nat               \<comment> \<open>the handler number of \<open>sf_run\<close>\<close>
  ae_stats :: "int list"

text \<open>The reply to an OPTIONS request for a path whose routes take other methods.\<close>

definition options_reply :: "u32 \<Rightarrow> cerco_req \<Rightarrow> dispatched" where
  "options_reply am r =
     (r\<lparr>rq_status := 204\<rparr>, R_simple 204 (Some (''Allow: '' @ allow_names allow_table am)) None, 0)"

text \<open>\<open>None\<close>: the connection has no request or was already found bad, and nothing is done.\<close>

definition conn_request_dispatch :: "app_env \<Rightarrow> bool \<Rightarrow> cerco_req option \<Rightarrow> dispatched option" where
  "conn_request_dispatch e bad req =
     (case req of
        None \<Rightarrow> None
      | Some r \<Rightarrow>
          if bad then None
          else
            let path = cerco_path r; method = cerco_method r;
                get_like = (cerco_strcaseeq method ''GET'' \<or> cerco_strcaseeq method ''HEAD'')
            in Some (
              if sf_is_sf_path path then
                sf_dispatch (ae_submit e) (ae_sfs e) (drop 12 path) (ae_sf_run e) r
              else if cerco_strncaseeq path ''/__cerco/'' 9 then
                sf_handle_reserved (ae_al e) (ae_submit e) (ae_cfg e) (ae_stats e) (ae_rt e) r
              else case router_probe (ae_al e) (ae_rt e) r of
                (res, fn, am, r') \<Rightarrow>
                  if res = 1 then submit_or_busy (ae_submit e) (r'\<lparr>rq_handler := fn\<rparr>)
                  else if res = 2 then
                    (if cerco_strcaseeq method ''OPTIONS'' then options_reply am r'
                     else router_send_405 am r')
                  else if get_like \<and> static_is_asset_path path then
                    static_try_serve (ae_al e) (ae_ra e) (ae_submit e) (ae_fs e) (ae_cfg e) (ae_assets e) (ae_rt e) r'
                  else router_send_404 (ae_al e) (ae_submit e) (ae_rt e) r'))"

subsection \<open>Who may run a handler\<close>

text \<open>
  The reasons for which a request may be queued: a server function that the request names, a route
  whose pattern and method match it, or the application's own 404 page.
\<close>

definition is_404_page :: "cerco_rt_route \<Rightarrow> bool" where
  "is_404_page rr = (cerco_strcaseeq (rr_method rr) ''GET'' \<and> cerco_strcaseeq (rr_orig_path rr) ''/__cerco/404'')"

definition may_run :: "app_env \<Rightarrow> cerco_req \<Rightarrow> cerco_req \<Rightarrow> bool" where
  "may_run e r r' =
     ((\<exists>k < length (ae_sfs e). sf_is_sf_path (cerco_path r) \<and> rq_sf_entry r' = Some k \<and>
          rq_handler r' = Some (ae_sf_run e) \<and> method_ok (se_method (ae_sfs e ! k)) (cerco_method r)) \<or>
      (\<not> cerco_strncaseeq (cerco_path r) ''/__cerco/'' 9 \<and>
         (\<exists>qs rr. split_path (cerco_path r) = Some qs \<and> rr \<in> set (ae_rt e) \<and>
            route_matches qs (cerco_method r) rr \<and> rq_handler r' = Some (rr_fn rr))) \<or>
      (\<exists>rr \<in> set (ae_rt e). is_404_page rr \<and> rq_handler r' = Some (rr_fn rr) \<and> rq_status r' = 404))"

lemma send_404_worker:
  "router_send_404 al submit rt r = (r', R_worker, n) \<Longrightarrow>
     \<exists>rr \<in> set rt. is_404_page rr \<and> rq_handler r' = Some (rr_fn rr) \<and> rq_status r' = 404"
  by (auto simp: router_send_404_def Let_def is_404_page_def find_Some_iff split: option.splits if_splits)

lemma find_loop_fn:
  "find_loop al qs rt res am r = (res', fn, am', r') \<Longrightarrow> res \<noteq> RT_MATCH \<Longrightarrow> res' = RT_MATCH \<Longrightarrow>
     \<exists>rr \<in> set rt. route_matches qs (cerco_method r) rr \<and> fn = Some (rr_fn rr)"
proof (induction rt arbitrary: res am r)
  case (Cons rr rt)
  show ?case
  proof (cases "route_matches qs (cerco_method r) rr")
    case True
    with Cons.prems show ?thesis by (simp add: route_matches_iff path_matches_iff Let_def)
  next
    case False
    show ?thesis
    proof (cases "match_segs (rr_segs rr) qs")
      case True
      with Cons.prems False Cons.IH [of RT_METHOD_MISMATCH _ "r\<lparr>rq_params := capture al (rr_segs rr) qs []\<rparr>"]
      show ?thesis by (auto simp: route_matches_iff path_matches_iff Let_def)
    next
      case nm: False
      with Cons.prems Cons.IH [of res am r] show ?thesis by auto
    qed
  qed
qed simp

lemma probe_match:
  assumes "router_probe al rt r = (1, fn, am, r')"
  shows "\<exists>qs rr. split_path (cerco_path r) = Some qs \<and> rr \<in> set rt \<and> route_matches qs (cerco_method r) rr \<and> fn = Some (rr_fn rr)"
proof -
  obtain res where f: "router_find al rt r = (res, fn, am, r')" "res = RT_MATCH"
    using assms by (auto simp: router_probe_def split: prod.splits rt_result.splits)
  then show ?thesis
    by (auto simp: router_find_def dest: find_loop_fn split: if_splits option.splits)
qed

lemma reserved_worker:
  "sf_handle_reserved al submit cfg vals rt r = (r', R_worker, n) \<Longrightarrow>
     \<exists>rr \<in> set rt. is_404_page rr \<and> rq_handler r' = Some (rr_fn rr) \<and> rq_status r' = 404"
  by (auto simp: sf_handle_reserved_def Let_def send_health_def send_stats_def send_live_js_def plain_reply_def
      dest: send_404_worker split: if_splits)

lemma static_worker:
  "static_try_serve al ra submit fs cfg assets rt r = (r', R_worker, n) \<Longrightarrow>
     \<exists>rr \<in> set rt. is_404_page rr \<and> rq_handler r' = Some (rr_fn rr) \<and> rq_status r' = 404"
  by (auto simp: static_try_serve_def serve_asset_bytes_def dev_serve_from_disk_def Let_def
      dest: send_404_worker split: if_splits option.splits)

text \<open>C6: A request reaches a worker only for a reason: it names a registered server function with
  the right method, or its path and method match a route and it is outside the reserved
  \<open>/__cerco/\<close> space, or the application's own 404 page renders it. So no route can shadow a
  reserved endpoint, and static files and errors never run application code.\<close>

theorem worker_runs_only_routed:
  assumes "conn_request_dispatch e bad (Some r) = Some (r', R_worker, n)"
  shows "may_run e r r'"
proof -
  let ?p = "cerco_path r"
  consider (sf) "sf_is_sf_path ?p" "sf_dispatch (ae_submit e) (ae_sfs e) (drop 12 ?p) (ae_sf_run e) r = (r', R_worker, n)"
    | (res) "sf_handle_reserved (ae_al e) (ae_submit e) (ae_cfg e) (ae_stats e) (ae_rt e) r = (r', R_worker, n)"
    | (rest) "\<not> cerco_strncaseeq ?p ''/__cerco/'' 9" "\<not> sf_is_sf_path ?p"
    using assms by (auto simp: conn_request_dispatch_def Let_def split: if_splits)
  then show ?thesis
  proof cases
    case sf
    from sf_worker [OF sf(2)] sf(1) show ?thesis unfolding may_run_def by blast
  next
    case res
    from reserved_worker [OF res] show ?thesis unfolding may_run_def by blast
  next
    case rest
    obtain k fn am q where p: "router_probe (ae_al e) (ae_rt e) r = (k, fn, am, q)" by (cases "router_probe (ae_al e) (ae_rt e) r")
    consider (m) "k = 1" | (mm) "k = 2" | (miss) "k \<noteq> 1" "k \<noteq> 2" by blast
    then show ?thesis
    proof cases
      case m
      with assms rest p have "rq_handler r' = fn"
        by (auto simp: conn_request_dispatch_def Let_def submit_or_busy_def split: if_splits)
      moreover from probe_match p m obtain qs rr where "split_path ?p = Some qs" "rr \<in> set (ae_rt e)"
        "route_matches qs (cerco_method r) rr" "fn = Some (rr_fn rr)" by blast
      ultimately show ?thesis using rest(1) unfolding may_run_def by blast
    next
      case mm
      with assms rest p show ?thesis
        by (auto simp: conn_request_dispatch_def Let_def options_reply_def router_send_405_def split: if_splits)
    next
      case miss
      with assms rest p have "\<exists>rr \<in> set (ae_rt e). is_404_page rr \<and> rq_handler r' = Some (rr_fn rr) \<and> rq_status r' = 404"
        by (auto simp: conn_request_dispatch_def Let_def dest: static_worker send_404_worker split: if_splits)
      then show ?thesis unfolding may_run_def by blast
    qed
  qed
qed

definition example_env :: app_env where
  "example_env =
     \<lparr>ae_al = (\<lambda>n. True), ae_ra = (\<lambda>n. True), ae_submit = True,
      ae_fs = \<lparr>fs_realpath = (\<lambda>p. None), fs_read = (\<lambda>p. None)\<rparr>,
      ae_cfg = cerco_config_from_env (\<lambda>k. None) None, ae_assets = [],
      ae_rt = [\<lparr>rr_method = ''GET'', rr_orig_path = ''/'', rr_segs = [], rr_fn = 3\<rparr>],
      ae_sfs = [], ae_sf_run = 0, ae_stats = []\<rparr>"

definition example_get :: "string option \<Rightarrow> nat option \<Rightarrow> cerco_req" where
  "example_get t h = req_zero\<lparr>rq_conn := Some 0, rq_status := 200, rq_method := Some ''GET'',
     rq_target := t, rq_path := Some ''/'', rq_query := Some [], rq_handler := h\<rparr>"

lemma example_dispatch:
  "conn_request_dispatch (example_env\<lparr>ae_submit := True, ae_stats := vs\<rparr>) False (Some (example_get t h))
     = Some (example_get t (Some 3), R_worker, 0)"
proof -
  have "router_probe (ae_al example_env) (ae_rt example_env) (example_get t h) = (1, Some 3, 0, example_get t h)"
    by (simp add: router_probe_def router_find_def example_env_def example_get_def cerco_path_def split_path_def
        skip_slash_def char_at_def numeral_eq_Suc cerco_method_def method_ok_def req_zero_def)
  moreover have "\<not> cerco_strncaseeq ''/'' ''/__cerco/'' 9" "\<not> cerco_strncaseeq ''/'' ''/__cerco/sf/'' 12"
    by (simp_all add: strncaseeq_literal)
  moreover have "cerco_path (example_get t h) = ''/''" by (simp add: example_get_def cerco_path_def)
  ultimately show ?thesis by (simp add: conn_request_dispatch_def sf_is_sf_path_def submit_or_busy_def example_get_def)
qed

theorem worker_runs_only_routed_witness:
  "may_run (example_env\<lparr>ae_submit := True, ae_stats := []\<rparr>) (example_get (Some ''/'') None)
     (example_get (Some ''/'') (Some 3))"
  by (rule worker_runs_only_routed [OF example_dispatch])

end
