(* ===== verification/Connection.thy ===== *)
theory Connection
  imports Dispatch Workers
begin

text \<open>
  The data of \<open>runtime/server/http.c\<close> and its resource handling: connections, the server state
  of \<open>internal.h\<close>, the pools of read buffers and connections, and the teardown that waits for the
  close callback and the outstanding writes.

  A connection is a number, and so is its current request: the request lives at the start of the
  connection's arena, so the worker pool's request \<open>c\<close> is the one of connection \<open>c\<close>. The linked
  lists of connections are lists, newest first; their order is the order the code iterates in.
  Buffers and positions inside them are 64-bit addresses, because the code subtracts such pointers.
\<close>

definition CERCO_READ_BUF :: nat where "CERCO_READ_BUF = 16 * 1024"

datatype cerco_phase =
  PHASE_HEADERS | PHASE_BODY | PHASE_WORK | PHASE_WRITE | PHASE_IDLE | PHASE_DRAIN

text \<open>The parser's error field, as far as the code distinguishes its values.\<close>

datatype hpe = HPE_OK | HPE_PAUSED | HPE_INVALID_METHOD | HPE_INVALID_URL | HPE_USER | HPE_OTHER

record cerco_conn =
  cn_parser_error :: hpe
  cn_error_pos :: u64              \<comment> \<open>0 is NULL\<close>
  cn_method :: string              \<comment> \<open>the parser's current method\<close>
  cn_arena :: bool                 \<comment> \<open>\<open>arena.head != NULL\<close>\<close>
  cn_req :: "cerco_req option"
  cn_body_cap :: nat
  cn_read_buf :: u64               \<comment> \<open>0 is NULL\<close>
  cn_filled :: u64
  cn_consumed :: u64
  cn_stage :: hdr_stage            \<comment> \<open>\<open>f_sb\<close>, \<open>v_sb\<close>, \<open>in_value\<close>, \<open>bad_request\<close>\<close>
  cn_url :: string
  cn_status_sent :: bool
  cn_phase :: cerco_phase
  cn_deadline_ms :: int
  cn_keep_alive :: bool
  cn_closing :: bool
  cn_finalized :: bool
  cn_close_cb_done :: bool
  cn_force_close :: bool
  cn_pending_writes :: int
  cn_msg_started :: int
  cn_msg_completed :: int
  cn_sse :: bool
  cn_reading :: bool               \<comment> \<open>between \<open>uv_read_start\<close> and \<open>uv_read_stop\<close>\<close>

definition conn_zero :: cerco_conn where
  "conn_zero =
     \<lparr>cn_parser_error = HPE_OK, cn_error_pos = 0, cn_method = [], cn_arena = False, cn_req = None,
      cn_body_cap = 0, cn_read_buf = 0, cn_filled = 0, cn_consumed = 0,
      cn_stage = \<lparr>hs_f = [], hs_v = [], hs_in_value = False, hs_bad = 0\<rparr>, cn_url = [],
      cn_status_sent = False, cn_phase = PHASE_HEADERS, cn_deadline_ms = 0, cn_keep_alive = False,
      cn_closing = False, cn_finalized = False, cn_close_cb_done = False, cn_force_close = False,
      cn_pending_writes = 0, cn_msg_started = 0, cn_msg_completed = 0, cn_sse = False, cn_reading = False\<rparr>"

abbreviation cn_bad :: "cerco_conn \<Rightarrow> nat" where "cn_bad c \<equiv> hs_bad (cn_stage c)"

record cerco_stats =
  st_active_conns :: int
  st_total_conns :: int
  st_active_reqs :: int
  st_total_reqs :: int
  st_rejected_jobs :: int
  st_bytes_read :: int
  st_bytes_written :: int
  st_r2xx :: int
  st_r3xx :: int
  st_r4xx :: int
  st_r5xx :: int
  st_arena_hwm :: int
  st_event_loop_lag_ms :: int
  st_sse_clients :: int

definition stats_zero :: cerco_stats where
  "stats_zero =
     \<lparr>st_active_conns = 0, st_total_conns = 0, st_active_reqs = 0, st_total_reqs = 0,
      st_rejected_jobs = 0, st_bytes_read = 0, st_bytes_written = 0, st_r2xx = 0, st_r3xx = 0,
      st_r4xx = 0, st_r5xx = 0, st_arena_hwm = 0, st_event_loop_lag_ms = 0, st_sse_clients = 0\<rparr>"

text \<open>Which write a \<open>write_ctx\<close> belongs to: its completion callback.\<close>

datatype write_kind = W_response | W_simple | W_sse

record cerco_server =
  sv_app :: app_env
  sv_store :: "nat \<Rightarrow> cerco_conn"
  sv_next :: nat                        \<comment> \<open>the first number \<open>calloc\<close> has not returned\<close>
  sv_conns :: "nat list"
  sv_sse :: "nat list"
  sv_n_conns :: int
  sv_conn_free :: "nat list"
  sv_buf_free :: "u64 list"
  sv_stats :: cerco_stats
  sv_pool :: wpool
  sv_shutting_down :: bool
  sv_shutdown_started :: int
  sv_sweep_last :: int
  sv_stopped :: bool                    \<comment> \<open>\<open>uv_stop\<close> was called\<close>
  sv_listening :: bool
  sv_writes :: "(nat \<times> write_kind) list" \<comment> \<open>writes queued in libuv\<close>
  sv_closes :: "nat list"               \<comment> \<open>close callbacks queued in libuv\<close>
  sv_log :: "(nat \<times> string) list"       \<comment> \<open>ghost: everything written, oldest first\<close>

text \<open>
  The environment of one event-loop callback: the clock, \<open>malloc\<close>, the address a new read buffer
  gets (0 when there is none), and whether the \<open>n\<close>-th write since the start is accepted.
\<close>

record io_env =
  io_now :: int
  io_malloc :: "nat \<Rightarrow> bool"
  io_buf :: u64
  io_write :: "nat \<Rightarrow> bool"

definition conn_of :: "cerco_server \<Rightarrow> nat \<Rightarrow> cerco_conn" where
  "conn_of s c = sv_store s c"

definition on_conn :: "nat \<Rightarrow> (cerco_conn \<Rightarrow> cerco_conn) \<Rightarrow> cerco_server \<Rightarrow> cerco_server" where
  "on_conn c f s = s\<lparr>sv_store := (sv_store s)(c := f (sv_store s c))\<rparr>"

definition on_stats :: "(cerco_stats \<Rightarrow> cerco_stats) \<Rightarrow> cerco_server \<Rightarrow> cerco_server" where
  "on_stats f s = s\<lparr>sv_stats := f (sv_stats s)\<rparr>"

abbreviation sv_cfg :: "cerco_server \<Rightarrow> cerco_config" where "sv_cfg s \<equiv> ae_cfg (sv_app s)"

text \<open>A \<open>uint64_t\<close> timeout added to the clock as an \<open>int64_t\<close>.\<close>

definition deadline :: "io_env \<Rightarrow> u64 \<Rightarrow> int" where
  "deadline io ms = io_now io + sint ms"

subsection \<open>Pools\<close>

definition buf_get :: "io_env \<Rightarrow> cerco_server \<Rightarrow> u64 \<times> cerco_server" where
  "buf_get io s =
     (case sv_buf_free s of
        p # ps \<Rightarrow> (p, s\<lparr>sv_buf_free := ps\<rparr>)
      | [] \<Rightarrow> (io_buf io, s))"

definition buf_put :: "u64 \<Rightarrow> cerco_server \<Rightarrow> cerco_server" where
  "buf_put p s = (if length (sv_buf_free s) \<ge> 256 then s else s\<lparr>sv_buf_free := p # sv_buf_free s\<rparr>)"

text \<open>A pooled connection, or a zeroed new one.\<close>

definition conn_get :: "io_env \<Rightarrow> cerco_server \<Rightarrow> nat option \<times> cerco_server" where
  "conn_get io s =
     (case sv_conn_free s of
        c # cs \<Rightarrow> (Some c, s\<lparr>sv_conn_free := cs\<rparr>)
      | [] \<Rightarrow>
          if io_malloc io 1 then
            (Some (sv_next s), (on_conn (sv_next s) (\<lambda>_. conn_zero) s)\<lparr>sv_next := Suc (sv_next s)\<rparr>)
          else (None, s))"

definition conn_put :: "nat \<Rightarrow> cerco_server \<Rightarrow> cerco_server" where
  "conn_put c s = (if length (sv_conn_free s) \<ge> 256 then s else s\<lparr>sv_conn_free := c # sv_conn_free s\<rparr>)"

subsection \<open>Teardown\<close>

definition conn_unlink :: "nat \<Rightarrow> cerco_server \<Rightarrow> cerco_server" where
  "conn_unlink c s = s\<lparr>sv_conns := remove1 c (sv_conns s)\<rparr>"

text \<open>The staged buffers are freed and the read buffer goes back to its pool.\<close>

definition release_buffers :: "nat \<Rightarrow> cerco_server \<Rightarrow> cerco_server" where
  "release_buffers c s =
     (let s1 = on_conn c (\<lambda>k. k\<lparr>cn_stage := (cn_stage k)\<lparr>hs_f := [], hs_v := []\<rparr>, cn_url := []\<rparr>) s
      in if cn_read_buf (conn_of s1 c) \<noteq> 0
         then on_conn c (\<lambda>k. k\<lparr>cn_read_buf := 0\<rparr>) (buf_put (cn_read_buf (conn_of s1 c)) s1)
         else s1)"

definition conn_finalize :: "nat \<Rightarrow> cerco_server \<Rightarrow> cerco_server" where
  "conn_finalize c s =
     (if cn_finalized (conn_of s c) then s
      else
        let s1 = conn_unlink c (on_conn c (\<lambda>k. k\<lparr>cn_finalized := True\<rparr>) s);
            s2 = on_stats (\<lambda>t. t\<lparr>st_active_conns := st_active_conns t - 1\<rparr>)
                   (s1\<lparr>sv_n_conns := sv_n_conns s1 - 1\<rparr>);
            s3 = release_buffers c s2
        in if length (sv_conn_free s3) < 256 then conn_put c s3
           else on_conn c (\<lambda>k. k\<lparr>cn_arena := False\<rparr>) s3)"

definition conn_maybe_finalize :: "nat \<Rightarrow> cerco_server \<Rightarrow> cerco_server" where
  "conn_maybe_finalize c s =
     (let k = conn_of s c in
      if \<not> cn_closing k \<or> cn_finalized k then s
      else if \<not> cn_close_cb_done k then s
      else if cn_pending_writes k > 0 then s
      else if cn_req k \<noteq> None \<and> cn_phase k = PHASE_WORK then s
      else conn_finalize c s)"

definition conn_on_stream_closed :: "nat \<Rightarrow> cerco_server \<Rightarrow> cerco_server" where
  "conn_on_stream_closed c s = conn_maybe_finalize c (on_conn c (\<lambda>k. k\<lparr>cn_close_cb_done := True\<rparr>) s)"

definition cancel_req :: "cerco_conn \<Rightarrow> cerco_conn" where
  "cancel_req k = k\<lparr>cn_req := map_option (\<lambda>r. r\<lparr>rq_cancelled := True\<rparr>) (cn_req k)\<rparr>"

definition uv_close :: "nat \<Rightarrow> cerco_server \<Rightarrow> cerco_server" where
  "uv_close c s = s\<lparr>sv_closes := sv_closes s @ [c]\<rparr>"

definition conn_close_and_free :: "nat \<Rightarrow> cerco_server \<Rightarrow> cerco_server" where
  "conn_close_and_free c s =
     (if cn_closing (conn_of s c) then s
      else
        let s1 = on_conn c (\<lambda>k. k\<lparr>cn_closing := True\<rparr>) s;
            s2 = (if cn_sse (conn_of s1 c) then
                    on_stats (\<lambda>t. t\<lparr>st_sse_clients := st_sse_clients t - 1\<rparr>)
                      ((on_conn c (\<lambda>k. k\<lparr>cn_sse := False\<rparr>) s1)\<lparr>sv_sse := remove1 c (sv_sse s1)\<rparr>)
                  else s1);
            s3 = on_conn c (\<lambda>k. (cancel_req k)\<lparr>cn_reading := False\<rparr>) s2
        in conn_maybe_finalize c (uv_close c s3))"

text \<open>\<open>uv_read_start\<close> refuses a closing handle.\<close>

definition start_reading :: "cerco_conn \<Rightarrow> cerco_conn" where
  "start_reading k = (if cn_closing k then k else k\<lparr>cn_reading := True\<rparr>)"

definition conn_close_graceful :: "io_env \<Rightarrow> nat \<Rightarrow> cerco_server \<Rightarrow> cerco_server" where
  "conn_close_graceful io c s =
     (if cn_closing (conn_of s c) then s
      else on_conn c (\<lambda>k. start_reading (k\<lparr>cn_phase := PHASE_DRAIN, cn_deadline_ms := io_now io + 300\<rparr>)) s)"

end
