(* ===== verification/Http.thy ===== *)
theory Http
  imports Connection
begin

text \<open>
  The event-loop callbacks of \<open>runtime/server/http.c\<close> and the live-reload streams of \<open>sf.c\<close>:
  writing responses, the parser's callbacks, reading, accepting and the deadline sweep.

  What the parser makes of the bytes of a read is a \<open>parse\<close>: the callbacks it calls, in order,
  and how it ends. \<open>llhttp_execute\<close> follows \<open>llhttp__internal_execute\<close>: an error that is already
  set is returned before anything is parsed, a callback that returns -1 ends the run, and
  \<open>llhttp_pause\<close>, called from a callback, only sets the error: it does not end the run in
  progress (the header of the parser tells users not to call it there).
\<close>

subsection \<open>Writing\<close>

definition crlf :: string where "crlf = [CHR 0x0D, CHR 0x0A]"

definition has_hdr :: "string \<Rightarrow> (string \<times> string) list \<Rightarrow> bool" where
  "has_hdr name hs = list_ex (\<lambda>(n, v). cerco_strcaseeq n name) hs"

definition put_headers :: "(nat \<Rightarrow> bool) \<Rightarrow> (string \<times> string) list \<Rightarrow> cerco_sb \<Rightarrow> cerco_sb" where
  "put_headers ra hs b = fold (\<lambda>(n, v) b. sb_printf ra (Some (n @ '': '' @ v @ crlf)) b) hs b"

definition no_body :: "bool \<Rightarrow> int \<Rightarrow> bool" where
  "no_body is_head code = (is_head \<or> code = 204 \<or> code = 304)"

text \<open>\<open>keep\<close> is whether the connection stays open.\<close>

definition response_head :: "(nat \<Rightarrow> bool) \<Rightarrow> bool \<Rightarrow> bool \<Rightarrow> cerco_req \<Rightarrow> cerco_sb" where
  "response_head ra is_head keep r =
     (let code = rq_status r; hs = rq_resp_hdrs r;
          b = sb_printf ra (Some (''HTTP/1.1 '' @ dec_int code @ '' '' @ cerco_status_text code @ crlf)) sb_init;
          b = put_headers ra hs b;
          b = (if \<not> has_hdr ''content-type'' hs \<and> \<not> no_body is_head code
               then sb_puts ra (Some (''Content-Type: text/html; charset=utf-8'' @ crlf)) b else b);
          b = (if \<not> has_hdr ''content-length'' hs \<and> code \<noteq> 304
               then sb_printf ra (Some (''Content-Length: '' @ dec (length (wb_data (rq_resp r))) @ crlf)) b else b);
          b = (if \<not> has_hdr ''connection'' hs
               then sb_puts ra (Some ((if keep then ''Connection: keep-alive'' else ''Connection: close'') @ crlf)) b else b);
          b = sb_puts ra (Some (''X-Content-Type-Options: nosniff'' @ crlf)) b;
          b = sb_puts ra (Some (''Referrer-Policy: strict-origin-when-cross-origin'' @ crlf)) b
      in sb_puts ra (Some (''Server: cerco'' @ crlf @ crlf)) b)"

text \<open>The bytes handed to \<open>uv_write\<close>: the head, then the body unless there must be none.\<close>

definition response_bytes :: "(nat \<Rightarrow> bool) \<Rightarrow> bool \<Rightarrow> bool \<Rightarrow> cerco_req \<Rightarrow> string" where
  "response_bytes ra is_head keep r =
     sb_data (response_head ra is_head keep r) @
     (if no_body is_head (rq_status r) then [] else wb_data (rq_resp r))"

definition count_status :: "int \<Rightarrow> cerco_stats \<Rightarrow> cerco_stats" where
  "count_status code t =
     (if code < 300 then t\<lparr>st_r2xx := st_r2xx t + 1\<rparr>
      else if code < 400 then t\<lparr>st_r3xx := st_r3xx t + 1\<rparr>
      else if code < 500 then t\<lparr>st_r4xx := st_r4xx t + 1\<rparr>
      else t\<lparr>st_r5xx := st_r5xx t + 1\<rparr>)"

text \<open>\<open>uv_write\<close> after \<open>pending_writes++\<close>; a rejected write is undone and drops the connection.\<close>

definition queue_write :: "io_env \<Rightarrow> nat \<Rightarrow> write_kind \<Rightarrow> string \<Rightarrow> cerco_server \<Rightarrow> bool \<times> cerco_server" where
  "queue_write io c k txt s =
     (if io_write io (length (sv_log s)) then
        (True, (on_conn c (\<lambda>k. k\<lparr>cn_pending_writes := cn_pending_writes k + 1\<rparr>) s)
           \<lparr>sv_writes := sv_writes s @ [(c, k)], sv_log := sv_log s @ [(c, txt)]\<rparr>)
      else (False, conn_close_and_free c s))"

definition count_written :: "nat \<Rightarrow> cerco_stats \<Rightarrow> cerco_stats" where
  "count_written n t = t\<lparr>st_bytes_written := st_bytes_written t + int n\<rparr>"

definition conn_start_response :: "io_env \<Rightarrow> nat \<Rightarrow> cerco_server \<Rightarrow> cerco_server" where
  "conn_start_response io c s =
     (case cn_req (conn_of s c) of
        None \<Rightarrow> s
      | Some r \<Rightarrow>
          let s1 = on_conn c (\<lambda>k. k\<lparr>cn_phase := PHASE_WRITE,
                     cn_deadline_ms := deadline io (cf_request_timeout_ms (sv_cfg s))\<rparr>) s;
              k = conn_of s1 c;
              is_head = (cn_method k = ''HEAD'');
              s2 = on_stats (count_status (rq_status r)) s1;
              keep = (\<not> (cn_force_close k \<or> \<not> cn_keep_alive k));
              head = response_head (ae_ra (sv_app s)) is_head keep r
          in if \<not> io_malloc io 0 then conn_close_and_free c s2
             else snd (queue_write io c W_response (response_bytes (ae_ra (sv_app s)) is_head keep r)
                         (on_stats (count_written (length (sb_data head))) s2)))"

definition simple_head :: "int \<Rightarrow> string option \<Rightarrow> nat \<Rightarrow> bool \<Rightarrow> string" where
  "simple_head code extra body_len fc =
     ''HTTP/1.1 '' @ dec_int code @ '' '' @
     (if cerco_status_text code = [] then ''Error'' else cerco_status_text code) @ crlf @
     ''Content-Type: text/plain; charset=utf-8'' @ crlf @
     ''Content-Length: '' @ dec body_len @ crlf @
     (case extra of Some x \<Rightarrow> x @ crlf | None \<Rightarrow> []) @
     ''Connection: '' @ (if fc then ''close'' else ''keep-alive'') @ crlf @
     ''X-Content-Type-Options: nosniff'' @ crlf @
     ''Server: cerco'' @ crlf @ crlf"

text \<open>The size of the buffer the head and the body are copied to.\<close>

definition simple_cap :: "string option \<Rightarrow> nat \<Rightarrow> nat" where
  "simple_cap extra body_len = 256 + (case extra of Some x \<Rightarrow> length x | None \<Rightarrow> 0) + body_len + 64"

definition conn_send_simple ::
  "io_env \<Rightarrow> nat \<Rightarrow> int \<Rightarrow> string option \<Rightarrow> string \<Rightarrow> bool \<Rightarrow> cerco_server \<Rightarrow> cerco_server" where
  "conn_send_simple io c code extra body fc s =
     (if \<not> io_malloc io (simple_cap extra (length body)) then conn_close_and_free c s
      else if \<not> io_malloc io 0 then conn_close_and_free c s
      else
        let out = simple_head code extra (length body) fc @ body;
            s1 = on_stats (count_written (length out)) s;
            s2 = (if code \<ge> 400 then on_stats (\<lambda>t. t\<lparr>st_r4xx := st_r4xx t + 1\<rparr>) s1 else s1);
            s3 = on_conn c (\<lambda>k. k\<lparr>cn_keep_alive := \<not> fc, cn_force_close := fc, cn_status_sent := True\<rparr>) s2
        in snd (queue_write io c W_simple out s3))"

text \<open>One chunk of a live-reload stream.\<close>

fun hex_text :: "nat \<Rightarrow> string" where
  "hex_text n = (if n < 16 then [hexd ! n] else hex_text (n div 16) @ [hexd ! (n mod 16)])"

definition conn_sse_write :: "io_env \<Rightarrow> nat \<Rightarrow> string \<Rightarrow> cerco_server \<Rightarrow> cerco_server" where
  "conn_sse_write io c data s =
     (let txt = hex_text (length data) @ crlf @ data @ crlf in
      if \<not> io_malloc io (length txt) then conn_close_and_free c s
      else if \<not> io_malloc io 0 then conn_close_and_free c s
      else snd (queue_write io c W_sse txt s))"

definition sse_head :: string where
  "sse_head =
     ''HTTP/1.1 200 OK'' @ crlf @ ''Content-Type: text/event-stream'' @ crlf @
     ''Cache-Control: no-store'' @ crlf @ ''Connection: keep-alive'' @ crlf @ ''Server: cerco'' @ crlf @ crlf"

definition send_live_sse :: "io_env \<Rightarrow> nat \<Rightarrow> cerco_server \<Rightarrow> cerco_server" where
  "send_live_sse io c s =
     (if \<not> io_malloc io (length sse_head) then conn_close_and_free c s
      else if \<not> io_malloc io 0 then conn_close_and_free c s
      else case queue_write io c W_sse sse_head s of
        (False, s1) \<Rightarrow> s1
      | (True, s1) \<Rightarrow>
          let s2 = on_conn c (\<lambda>k. k\<lparr>cn_sse := True\<rparr>) s1;
              s3 = on_stats (\<lambda>t. t\<lparr>st_sse_clients := st_sse_clients t + 1, st_active_reqs := st_active_reqs t - 1\<rparr>)
                     (s2\<lparr>sv_sse := c # sv_sse s2\<rparr>)
          in conn_sse_write io c ('':ok'' @ [CHR 0x0A, CHR 0x0A]) s3)"

definition conn_send_sse_reload :: "io_env \<Rightarrow> cerco_server \<Rightarrow> cerco_server" where
  "conn_send_sse_reload io s =
     fold (\<lambda>c s. if \<not> cn_closing (conn_of s c) then conn_sse_write io c (''data: reload'' @ [CHR 0x0A, CHR 0x0A]) s else s)
       (sv_sse s) s"

end
