(* ===== verification/Eventloop.thy ===== *)
theory Eventloop
  imports Http
begin

text \<open>
  The parser's callbacks, the read and write callbacks, accepting and the deadline sweep of
  \<open>runtime/server/http.c\<close>, each as a function on the server state.
\<close>

subsection \<open>Parser callbacks\<close>

text \<open>
  The callbacks of one \<open>llhttp_execute\<close>. \<open>Method_seen\<close> is the parser setting its own method
  field; the arguments of \<open>Headers_complete\<close> and \<open>Message_complete\<close> are what the parser reports:
  the content length, whether the body is chunked, and \<open>llhttp_should_keep_alive\<close>.
\<close>

datatype parse_event =
  Message_begin
| Method_seen string
| Url_data string
| Header_field string
| Header_value string
| Headers_complete u64 bool
| Body_data string
| Message_complete bool

record parse =
  pa_events :: "parse_event list"
  pa_end :: hpe                  \<comment> \<open>how parsing ends when no callback stops it\<close>
  pa_error_pos :: u64

definition REQ_SIZE :: nat where "REQ_SIZE = 2048"  \<comment> \<open>\<open>sizeof(cerco_req)\<close>\<close>

text \<open>\<open>sb_putn\<close> on a staging buffer; \<open>malloc\<close> may drop the data.\<close>

definition stage_put :: "io_env \<Rightarrow> string \<Rightarrow> string \<Rightarrow> string" where
  "stage_put io old at = (if io_malloc io (length old + length at + 1) then old @ at else old)"

definition set_bad :: "nat \<Rightarrow> cerco_conn \<Rightarrow> cerco_conn" where
  "set_bad code k = k\<lparr>cn_stage := (cn_stage k)\<lparr>hs_bad := code\<rparr>\<rparr>"

text \<open>Each callback: whether it returns -1, and the connection.\<close>

definition on_message_begin :: "io_env \<Rightarrow> app_env \<Rightarrow> nat \<Rightarrow> cerco_conn \<Rightarrow> bool \<times> cerco_conn" where
  "on_message_begin io e c k =
     (case cn_req k of
        Some r \<Rightarrow> (False, k\<lparr>cn_force_close := True\<rparr>)
      | None \<Rightarrow>
          let k1 = k\<lparr>cn_arena := True\<rparr> in
          if \<not> ae_al e REQ_SIZE then (True, k1)
          else (False, k1\<lparr>cn_req := Some (req_setup c), cn_body_cap := 0, cn_msg_started := cn_msg_started k + 1,
                  cn_phase := PHASE_HEADERS, cn_deadline_ms := deadline io (cf_header_timeout_ms (ae_cfg e))\<rparr>))"

definition on_url :: "io_env \<Rightarrow> string \<Rightarrow> cerco_conn \<Rightarrow> bool \<times> cerco_conn" where
  "on_url io at k =
     (if length (cn_url k) + length at > CERCO_MAX_URL then (True, set_bad 414 k)
      else (False, k\<lparr>cn_url := stage_put io (cn_url k) at\<rparr>))"

definition commit_header :: "app_env \<Rightarrow> cerco_conn \<Rightarrow> cerco_conn" where
  "commit_header e k =
     (case req_finish_headers (ae_al e) (cn_req k) (cn_stage k) of
        (r, st) \<Rightarrow> k\<lparr>cn_req := r, cn_stage := st\<rparr>)"

definition on_header_field :: "io_env \<Rightarrow> app_env \<Rightarrow> string \<Rightarrow> cerco_conn \<Rightarrow> bool \<times> cerco_conn" where
  "on_header_field io e at k =
     (if cn_bad k \<noteq> 0 then (True, k)
      else
        let k1 = (if hs_f (cn_stage k) \<noteq> [] \<or> hs_v (cn_stage k) \<noteq> [] then commit_header e k else k)
        in if cn_bad k1 \<noteq> 0 then (True, k1)
           else if length (hs_f (cn_stage k1)) + length at > CERCO_MAX_NAME then (True, set_bad 431 k1)
           else (False, k1\<lparr>cn_stage := (cn_stage k1)\<lparr>hs_f := stage_put io (hs_f (cn_stage k1)) at\<rparr>\<rparr>))"

definition on_header_value :: "io_env \<Rightarrow> string \<Rightarrow> cerco_conn \<Rightarrow> bool \<times> cerco_conn" where
  "on_header_value io at k =
     (if cn_bad k \<noteq> 0 then (True, k)
      else
        let k1 = k\<lparr>cn_stage := (cn_stage k)\<lparr>hs_in_value := True\<rparr>\<rparr>
        in if length (hs_v (cn_stage k1)) + length at > CERCO_MAX_VALUE then (True, set_bad 431 k1)
           else (False, k1\<lparr>cn_stage := (cn_stage k1)\<lparr>hs_v := stage_put io (hs_v (cn_stage k1)) at\<rparr>\<rparr>))"

definition body_alloc :: "app_env \<Rightarrow> nat \<Rightarrow> cerco_req \<Rightarrow> cerco_conn \<Rightarrow> bool \<times> cerco_conn" where
  "body_alloc e n r k =
     (if ae_al e n then (False, k\<lparr>cn_req := Some (r\<lparr>rq_body := Some []\<rparr>), cn_body_cap := n\<rparr>)
      else (True, set_bad 413 (k\<lparr>cn_req := Some (r\<lparr>rq_body := None\<rparr>), cn_body_cap := n\<rparr>)))"

definition on_headers_complete :: "io_env \<Rightarrow> app_env \<Rightarrow> u64 \<Rightarrow> bool \<Rightarrow> cerco_conn \<Rightarrow> bool \<times> cerco_conn" where
  "on_headers_complete io e content_length chunked k =
     (if cn_bad k \<noteq> 0 then (True, k)
      else
        let k1 = commit_header e k in
        if cn_bad k1 \<noteq> 0 then (True, k1)
        else case cn_req k1 of
          None \<Rightarrow> (True, k1)
        | Some r \<Rightarrow>
            if content_length > 0 \<and> content_length > cf_max_body (ae_cfg e) then (True, set_bad 413 k1)
            else
              let (failed, k2) =
                (if content_length > 0 then body_alloc e (unat content_length) r k1
                 else if chunked then body_alloc e 4096 r k1
                 else (False, k1))
              in if failed then (True, k2)
                 else (False, k2\<lparr>cn_phase := PHASE_BODY, cn_deadline_ms := deadline io (cf_body_timeout_ms (ae_cfg e))\<rparr>))"

definition body_of :: "cerco_req \<Rightarrow> string" where
  "body_of r = (case rq_body r of Some b \<Rightarrow> b | None \<Rightarrow> [])"

definition on_body :: "app_env \<Rightarrow> string \<Rightarrow> cerco_conn \<Rightarrow> bool \<times> cerco_conn" where
  "on_body e at k =
     (case cn_req k of
        None \<Rightarrow> (False, k)
      | Some r \<Rightarrow>
          let need = length (body_of r) + length at in
          if need > unat (cf_max_body (ae_cfg e)) then (True, set_bad 413 k)
          else if need > cn_body_cap k then
            (let ncap = double_until (if cn_body_cap k \<noteq> 0 then cn_body_cap k * 2 else 4096) need in
             if \<not> ae_al e ncap then (True, set_bad 413 k)
             else (False, k\<lparr>cn_req := Some (r\<lparr>rq_body := Some (body_of r @ at)\<rparr>), cn_body_cap := ncap\<rparr>))
          else (False, k\<lparr>cn_req := Some (r\<lparr>rq_body := Some (body_of r @ at)\<rparr>)\<rparr>))"

text \<open>The part of \<open>on_message_complete\<close> before the dispatch.\<close>

definition message_target :: "app_env \<Rightarrow> cerco_conn \<Rightarrow> cerco_req \<Rightarrow> bool \<times> cerco_conn" where
  "message_target e k r =
     (let dup = (\<lambda>s. if ae_al e (length s + 1) then Some s else None);
          r1 = r\<lparr>rq_method := dup (cn_method k),
                 rq_target := (if cn_url k \<noteq> [] then dup (cstr (cn_url k)) else Some ''/'')\<rparr>;
          k1 = k\<lparr>cn_url := []\<rparr>
      in case req_target_path (ae_al e) r1 of
           (err, r2) \<Rightarrow>
             if err \<noteq> 0 then (True, set_bad err (k1\<lparr>cn_req := Some r2\<rparr>))
             else (False, k1\<lparr>cn_req := Some r2\<rparr>))"

text \<open>The counters of the statistics page, in the order it prints them.\<close>

definition server_stats :: "cerco_server \<Rightarrow> int list" where
  "server_stats s =
     (let t = sv_stats s in
      [st_active_conns t, st_total_conns t, st_active_reqs t, st_total_reqs t,
       wp_queued_jobs (sv_pool s), wp_completed_jobs (sv_pool s), st_rejected_jobs t,
       st_bytes_read t, st_bytes_written t, st_r2xx t, st_r3xx t, st_r4xx t, st_r5xx t,
       st_arena_hwm t, st_event_loop_lag_ms t, st_sse_clients t])"

text \<open>The reply of the dispatcher is carried out on the connection.\<close>

definition apply_reply :: "io_env \<Rightarrow> nat \<Rightarrow> dispatched \<Rightarrow> cerco_server \<Rightarrow> cerco_server" where
  "apply_reply io c d s =
     (case d of (r, rep, rej) \<Rightarrow>
        let s1 = on_conn c (\<lambda>k. k\<lparr>cn_req := Some r\<rparr>)
                   (on_stats (\<lambda>t. t\<lparr>st_rejected_jobs := st_rejected_jobs t + int rej\<rparr>) s)
        in (case rep of
              R_worker \<Rightarrow> s1\<lparr>sv_pool := snd (wpool_try_submit c (sv_pool s1))\<rparr>
            | R_simple code extra body \<Rightarrow>
                conn_send_simple io c code extra (case body of Some b \<Rightarrow> b | None \<Rightarrow> []) False s1
            | R_staged \<Rightarrow> conn_start_response io c s1
            | R_sse \<Rightarrow> send_live_sse io c s1))"

definition dispatch_conn :: "io_env \<Rightarrow> nat \<Rightarrow> cerco_server \<Rightarrow> cerco_server" where
  "dispatch_conn io c s =
     (let k = conn_of s c;
          e = (sv_app s)\<lparr>ae_submit := fst (wpool_try_submit c (sv_pool s)), ae_stats := server_stats s\<rparr>
      in case conn_request_dispatch e (cn_bad k \<noteq> 0) (cn_req k) of
           None \<Rightarrow> s
         | Some d \<Rightarrow> apply_reply io c d s)"

definition llhttp_pause :: "cerco_conn \<Rightarrow> cerco_conn" where
  "llhttp_pause k = (if cn_parser_error k \<noteq> HPE_OK then k else k\<lparr>cn_parser_error := HPE_PAUSED\<rparr>)"

definition llhttp_resume :: "cerco_conn \<Rightarrow> cerco_conn" where
  "llhttp_resume k = (if cn_parser_error k \<noteq> HPE_PAUSED then k else k\<lparr>cn_parser_error := HPE_OK\<rparr>)"

definition on_message_complete :: "io_env \<Rightarrow> nat \<Rightarrow> bool \<Rightarrow> cerco_server \<Rightarrow> bool \<times> cerco_server" where
  "on_message_complete io c keep s =
     (let s1 = on_conn c (\<lambda>k. k\<lparr>cn_msg_completed := cn_msg_completed k + 1, cn_keep_alive := keep\<rparr>) s;
          (failed, k2) = (case cn_req (conn_of s1 c) of
             None \<Rightarrow> (False, conn_of s1 c)
           | Some r \<Rightarrow> message_target (sv_app s) (conn_of s1 c) r);
          s2 = on_conn c (\<lambda>_. k2) s1
      in if failed then (True, s2)
         else
           let s3 = on_stats (\<lambda>t. t\<lparr>st_active_reqs := st_active_reqs t + 1, st_total_reqs := st_total_reqs t + 1\<rparr>) s2
           in (False, on_conn c llhttp_pause (dispatch_conn io c s3)))"

text \<open>A callback that only touches the connection.\<close>

definition conn_callback ::
  "nat \<Rightarrow> (cerco_conn \<Rightarrow> bool \<times> cerco_conn) \<Rightarrow> cerco_server \<Rightarrow> bool \<times> cerco_server" where
  "conn_callback c f s = (case f (conn_of s c) of (failed, k) \<Rightarrow> (failed, on_conn c (\<lambda>_. k) s))"

definition run_callback :: "io_env \<Rightarrow> nat \<Rightarrow> parse_event \<Rightarrow> cerco_server \<Rightarrow> bool \<times> cerco_server" where
  "run_callback io c ev s =
     (case ev of
        Message_begin \<Rightarrow> conn_callback c (on_message_begin io (sv_app s) c) s
      | Method_seen m \<Rightarrow> conn_callback c (\<lambda>k. (False, k\<lparr>cn_method := m\<rparr>)) s
      | Url_data at \<Rightarrow> conn_callback c (on_url io at) s
      | Header_field at \<Rightarrow> conn_callback c (on_header_field io (sv_app s) at) s
      | Header_value at \<Rightarrow> conn_callback c (on_header_value io at) s
      | Headers_complete n chunked \<Rightarrow> conn_callback c (on_headers_complete io (sv_app s) n chunked) s
      | Body_data at \<Rightarrow> conn_callback c (on_body (sv_app s) at) s
      | Message_complete keep \<Rightarrow> on_message_complete io c keep s)"

fun run_callbacks :: "io_env \<Rightarrow> nat \<Rightarrow> parse_event list \<Rightarrow> cerco_server \<Rightarrow> bool \<times> cerco_server" where
  "run_callbacks io c [] s = (False, s)"
| "run_callbacks io c (ev # evs) s =
     (case run_callback io c ev s of
        (True, s') \<Rightarrow> (True, s')
      | (False, s') \<Rightarrow> run_callbacks io c evs s')"

definition llhttp_execute :: "io_env \<Rightarrow> nat \<Rightarrow> parse \<Rightarrow> cerco_server \<Rightarrow> hpe \<times> cerco_server" where
  "llhttp_execute io c p s =
     (if cn_parser_error (conn_of s c) \<noteq> HPE_OK then (cn_parser_error (conn_of s c), s)
      else case run_callbacks io c (pa_events p) s of
        (True, s') \<Rightarrow>
          (HPE_USER, on_conn c (\<lambda>k. k\<lparr>cn_parser_error := HPE_USER, cn_error_pos := pa_error_pos p\<rparr>) s')
      | (False, s') \<Rightarrow>
          if pa_end p = HPE_OK then (HPE_OK, s')
          else (pa_end p, on_conn c (\<lambda>k. k\<lparr>cn_parser_error := pa_end p, cn_error_pos := pa_error_pos p\<rparr>) s'))"

end
