(* ===== verification/Lifecycle.thy ===== *)
theory Lifecycle
  imports Eventloop
begin

text \<open>
  The life of a connection: reads, completed writes, accepting and the deadline sweep of
  \<open>runtime/server/http.c\<close>, the completions a worker hands back (\<open>worker.c\<close>), the timer and
  the shutdown of \<open>runtime/server/serve.c\<close>, and the step relation of the whole event loop.
\<close>

subsection \<open>Completed writes\<close>

definition send_400 :: "io_env \<Rightarrow> nat \<Rightarrow> string \<Rightarrow> nat \<Rightarrow> cerco_server \<Rightarrow> cerco_server" where
  "send_400 io c reason code s =
     conn_send_simple io c (int code) None reason True (on_conn c (\<lambda>k. k\<lparr>cn_force_close := True\<rparr>) s)"

definition bad_request_text :: string where "bad_request_text = ''bad request'' @ [CHR 0x0A]"

text \<open>The connection between two requests; \<open>p\<close> is what the parser makes of the leftover bytes.\<close>

definition resume_conn :: "io_env \<Rightarrow> nat \<Rightarrow> parse \<Rightarrow> cerco_server \<Rightarrow> cerco_server" where
  "resume_conn io c p s =
     (let s1 = on_conn c (\<lambda>k. llhttp_resume (k\<lparr>cn_phase := PHASE_IDLE,
                 cn_deadline_ms := deadline io (cf_keep_alive_timeout_ms (sv_cfg s)), cn_req := None,
                 cn_msg_started := 0, cn_msg_completed := 0, cn_status_sent := False,
                 cn_stage := (cn_stage k)\<lparr>hs_bad := 0\<rparr>, cn_force_close := False\<rparr>)) s;
          leftover = cn_filled (conn_of s1 c) - cn_consumed (conn_of s1 c);
          s2 = on_conn c (\<lambda>k. k\<lparr>cn_filled := leftover, cn_consumed := 0\<rparr>) s1;
          reading = on_conn c start_reading
      in if leftover > 0 then
           (case llhttp_execute io c p s2 of
              (HPE_OK, s3) \<Rightarrow> reading (on_conn c (\<lambda>k. k\<lparr>cn_consumed := leftover\<rparr>) s3)
            | (HPE_PAUSED, s3) \<Rightarrow>
                reading (on_conn c (\<lambda>k. k\<lparr>cn_consumed := cn_error_pos k - cn_read_buf k\<rparr>) s3)
            | (err, s3) \<Rightarrow> send_400 io c bad_request_text 400 s3)
         else reading s2)"

definition after_response :: "io_env \<Rightarrow> nat \<Rightarrow> parse \<Rightarrow> bool \<Rightarrow> cerco_server \<Rightarrow> cerco_server" where
  "after_response io c p ok s =
     (let s1 = on_stats (\<lambda>t. t\<lparr>st_active_reqs := st_active_reqs t - 1\<rparr>) s; k = conn_of s1 c
      in if \<not> ok then conn_maybe_finalize c (conn_close_and_free c s1)
         else if cn_closing k then conn_maybe_finalize c (on_conn c (\<lambda>k. k\<lparr>cn_req := None\<rparr>) s1)
         else if cn_force_close k \<or> \<not> cn_keep_alive k then conn_close_graceful io c s1
         else resume_conn io c p s1)"

definition write_done :: "nat \<Rightarrow> cerco_server \<Rightarrow> cerco_server" where
  "write_done c s = on_conn c (\<lambda>k. k\<lparr>cn_pending_writes := cn_pending_writes k - 1\<rparr>) s"

definition on_response_written :: "io_env \<Rightarrow> nat \<Rightarrow> parse \<Rightarrow> bool \<Rightarrow> cerco_server \<Rightarrow> cerco_server" where
  "on_response_written io c p ok s =
     (let s1 = write_done c s in
      if \<not> cn_finalized (conn_of s1 c) then after_response io c p ok s1
      else conn_maybe_finalize c s1)"

definition on_simple_written :: "io_env \<Rightarrow> nat \<Rightarrow> bool \<Rightarrow> cerco_server \<Rightarrow> cerco_server" where
  "on_simple_written io c ok s =
     (let s1 = on_stats (\<lambda>t. t\<lparr>st_active_reqs := st_active_reqs t - 1\<rparr>) (write_done c s); k = conn_of s1 c
      in if cn_finalized k \<or> cn_closing k then conn_maybe_finalize c s1
         else if \<not> ok then conn_close_and_free c s1
         else if cn_keep_alive k \<and> \<not> cn_force_close k then
           on_conn c (\<lambda>k. start_reading (llhttp_resume (k\<lparr>cn_phase := PHASE_IDLE,
               cn_deadline_ms := deadline io (cf_keep_alive_timeout_ms (sv_cfg s)), cn_status_sent := False,
               cn_stage := (cn_stage k)\<lparr>hs_bad := 0\<rparr>, cn_filled := 0, cn_consumed := 0\<rparr>))) s1
         else conn_close_graceful io c s1)"

definition conn_on_sse_written :: "nat \<Rightarrow> bool \<Rightarrow> cerco_server \<Rightarrow> cerco_server" where
  "conn_on_sse_written c ok s =
     (let s1 = write_done c s; k = conn_of s1 c
      in if \<not> ok \<and> \<not> cn_closing k \<and> \<not> cn_finalized k then conn_close_and_free c s1
         else conn_maybe_finalize c s1)"

definition on_written :: "io_env \<Rightarrow> write_kind \<Rightarrow> nat \<Rightarrow> parse \<Rightarrow> bool \<Rightarrow> cerco_server \<Rightarrow> cerco_server" where
  "on_written io w c p ok s =
     (case w of
        W_response \<Rightarrow> on_response_written io c p ok s
      | W_simple \<Rightarrow> on_simple_written io c ok s
      | W_sse \<Rightarrow> conn_on_sse_written c ok s)"

subsection \<open>Reading\<close>

text \<open>The buffer handed to libuv: its address and length (address 0: no buffer).\<close>

definition conn_alloc_cb :: "io_env \<Rightarrow> nat \<Rightarrow> cerco_server \<Rightarrow> u64 \<times> u64 \<times> cerco_server" where
  "conn_alloc_cb io c s =
     (let k = conn_of s c in
      if cn_closing k \<or> cn_finalized k then (0, 0, s)
      else
        let give = (\<lambda>s. (cn_read_buf (conn_of s c) + cn_filled (conn_of s c),
                         of_nat CERCO_READ_BUF - cn_filled (conn_of s c), s))
        in if cn_read_buf k = 0 then
             (case buf_get io s of
                (p, s1) \<Rightarrow>
                  if p = 0 then (0, 0, s1)
                  else give (on_conn c (\<lambda>k. k\<lparr>cn_read_buf := p, cn_filled := 0, cn_consumed := 0\<rparr>) s1))
           else give (on_conn c (\<lambda>k. k\<lparr>cn_filled := cn_filled k - cn_consumed k, cn_consumed := 0\<rparr>) s))"

text \<open>The reply to a parse error.\<close>

definition error_reason :: "nat \<Rightarrow> hpe \<Rightarrow> string" where
  "error_reason bad err =
     (if bad = 431 then ''header fields too large''
      else if bad = 413 then ''payload too large''
      else if bad = 414 then ''uri too long''
      else if bad = 0 \<and> err = HPE_INVALID_METHOD then ''invalid method''
      else if bad = 0 \<and> err = HPE_INVALID_URL then ''invalid url''
      else ''malformed request'') @ [CHR 0x0A]"

text \<open>\<open>nread\<close> bytes arrived; \<open>p\<close> is what the parser makes of the buffer.\<close>

definition conn_on_read :: "io_env \<Rightarrow> nat \<Rightarrow> int \<Rightarrow> parse \<Rightarrow> cerco_server \<Rightarrow> cerco_server" where
  "conn_on_read io c nread p s =
     (if nread < 0 then conn_close_and_free c s
      else if nread = 0 then s
      else
        let s1 = on_conn c (\<lambda>k. k\<lparr>cn_filled := cn_filled k + word_of_int nread\<rparr>)
                   (on_stats (\<lambda>t. t\<lparr>st_bytes_read := st_bytes_read t + nread\<rparr>) s);
            k = conn_of s1 c;
            at_error = on_conn c (\<lambda>k. k\<lparr>cn_consumed := cn_error_pos k - cn_read_buf k\<rparr>)
        in if cn_status_sent k \<or> cn_phase k = PHASE_DRAIN then
             (if cn_filled k \<ge> of_nat CERCO_READ_BUF then conn_close_and_free c s1 else s1)
           else case llhttp_execute io c p s1 of
             (HPE_OK, s2) \<Rightarrow> on_conn c (\<lambda>k. k\<lparr>cn_consumed := cn_filled k\<rparr>) s2
           | (HPE_PAUSED, s2) \<Rightarrow> on_conn c (\<lambda>k. k\<lparr>cn_reading := False\<rparr>) (at_error s2)
           | (err, s2) \<Rightarrow>
               let s3 = at_error s2; bad = cn_bad (conn_of s3 c)
               in send_400 io c (error_reason bad err) (if bad \<noteq> 0 then bad else 400) s3)"

subsection \<open>Accepting and the sweep\<close>

text \<open>\<open>tcp_ok\<close> and \<open>accept_ok\<close>: \<open>uv_tcp_init\<close> and \<open>uv_accept\<close> succeed.\<close>

definition cerco_connection_cb :: "io_env \<Rightarrow> bool \<Rightarrow> bool \<Rightarrow> bool \<Rightarrow> cerco_server \<Rightarrow> cerco_server" where
  "cerco_connection_cb io status_ok tcp_ok accept_ok s =
     (if \<not> status_ok \<or> sv_shutting_down s then s
      else case conn_get io s of
        (None, s1) \<Rightarrow> s1
      | (Some c, s1) \<Rightarrow>
          let s2 = on_conn c (\<lambda>_. conn_zero\<lparr>cn_keep_alive := True\<rparr>) s1 in
          if \<not> tcp_ok then conn_put c s2
          else if \<not> accept_ok then conn_maybe_finalize c (uv_close c s2)
          else
            let s3 = on_stats (\<lambda>t. t\<lparr>st_active_conns := st_active_conns t + 1, st_total_conns := st_total_conns t + 1\<rparr>)
                       (s2\<lparr>sv_conns := c # sv_conns s2, sv_n_conns := sv_n_conns s2 + 1\<rparr>);
                s4 = on_conn c (\<lambda>k. k\<lparr>cn_phase := PHASE_HEADERS,
                       cn_deadline_ms := deadline io (cf_header_timeout_ms (sv_cfg s))\<rparr>) s3
            in if sv_n_conns s4 > cf_max_connections (sv_cfg s)
               then conn_send_simple io c 503 None (''server busy'' @ [CHR 0x0A]) True s4
               else on_conn c start_reading s4)"

definition conn_deadline_pass :: "nat \<Rightarrow> cerco_server \<Rightarrow> cerco_server" where
  "conn_deadline_pass c s =
     conn_close_and_free c (on_conn c (\<lambda>k. (cancel_req k)\<lparr>cn_force_close := True\<rparr>) s)"

definition conn_sweep_deadlines :: "io_env \<Rightarrow> cerco_server \<Rightarrow> cerco_server" where
  "conn_sweep_deadlines io s =
     fold (\<lambda>c s. if \<not> cn_closing (conn_of s c) \<and> \<not> cn_finalized (conn_of s c) \<and>
                    io_now io \<ge> cn_deadline_ms (conn_of s c)
                 then conn_deadline_pass c s else s) (sv_conns s) s"

subsection \<open>Worker completions\<close>

text \<open>
  One round of \<open>wpool_drain_completions\<close> for the request of connection \<open>c\<close>, whose pointer was
  taken from the ring; \<open>arena_failed\<close> and \<open>tot\<close> are the state of its arena. \<open>None\<close>: the
  connection has no request any more, and the pointer leads into a reset or reused arena.
\<close>

definition drain_completion ::
  "io_env \<Rightarrow> bool \<Rightarrow> nat \<Rightarrow> nat \<Rightarrow> cerco_server \<Rightarrow> cerco_server option" where
  "drain_completion io arena_failed tot c s =
     (let k = conn_of s c in
      case cn_req k of
        None \<Rightarrow> None
      | Some r \<Rightarrow>
          Some (case complete_req (ae_al (sv_app s)) (sv_cfg s) arena_failed (cn_finalized k \<or> cn_closing k) r of
             None \<Rightarrow> if rq_conn r \<noteq> None then conn_maybe_finalize c s else s
           | Some r' \<Rightarrow>
               conn_start_response io c
                 (on_conn c (\<lambda>k. k\<lparr>cn_req := Some r'\<rparr>)
                    (on_stats (\<lambda>t. t\<lparr>st_arena_hwm := int (arena_hwm_update tot (nat (st_arena_hwm t)))\<rparr>) s))))"

subsection \<open>The timer and the shutdown\<close>

definition start_shutdown :: "io_env \<Rightarrow> cerco_server \<Rightarrow> cerco_server" where
  "start_shutdown io s =
     (if sv_shutting_down s then s
      else
        let s1 = s\<lparr>sv_shutting_down := True, sv_shutdown_started := io_now io, sv_listening := False\<rparr>
        in fold (\<lambda>c s. let k = conn_of s c in
                  if cn_phase k = PHASE_IDLE \<or> cn_phase k = PHASE_HEADERS \<or> cn_phase k = PHASE_BODY
                  then conn_close_and_free c s
                  else if cn_req k \<noteq> None then on_conn c (\<lambda>k. (cancel_req k)\<lparr>cn_force_close := True\<rparr>) s
                  else s) (sv_conns s1) s1)"

text \<open>The development reload file: its modification time when it can be read, and what was last seen.\<close>

definition dev_check_reload_signal ::
  "io_env \<Rightarrow> int option \<Rightarrow> int option \<Rightarrow> cerco_server \<Rightarrow> int option \<times> cerco_server" where
  "dev_check_reload_signal io mtime last_mtime s =
     (case mtime of
        None \<Rightarrow> (last_mtime, s)
      | Some m \<Rightarrow>
          (case last_mtime of
             None \<Rightarrow> (Some m, s)
           | Some l \<Rightarrow> if m \<noteq> l then (Some m, conn_send_sse_reload io s) else (last_mtime, s)))"

definition on_sweep :: "io_env \<Rightarrow> int option \<Rightarrow> int option \<Rightarrow> cerco_server \<Rightarrow> int option \<times> cerco_server" where
  "on_sweep io mtime last_mtime s =
     (let now = io_now io;
          s1 = (if sv_sweep_last s \<noteq> 0 then
                  on_stats (\<lambda>t. t\<lparr>st_event_loop_lag_ms := max 0 (now - sv_sweep_last s - 1000)\<rparr>) s
                else s);
          s2 = conn_sweep_deadlines io (s1\<lparr>sv_sweep_last := now\<rparr>);
          (lm, s3) = (if cf_dev_mode (sv_cfg s2) then dev_check_reload_signal io mtime last_mtime s2 else (last_mtime, s2));
          stop = s3\<lparr>sv_stopped := True\<rparr>
      in (lm,
          if sv_shutting_down s3 then
            (if sv_n_conns s3 = 0 \<and> wp_queued_jobs (sv_pool s3) = 0 then stop
             else if sv_shutdown_started s3 \<noteq> 0 \<and>
                     now - sv_shutdown_started s3 > sint (cf_shutdown_timeout_ms (sv_cfg s3)) then stop
             else s3)
          else s3))"

subsection \<open>The event loop\<close>

definition server_zero :: "app_env \<Rightarrow> wpool \<Rightarrow> cerco_server" where
  "server_zero e p =
     \<lparr>sv_app = e, sv_store = (\<lambda>_. conn_zero), sv_next = 0, sv_conns = [], sv_sse = [], sv_n_conns = 0,
      sv_conn_free = [], sv_buf_free = [], sv_stats = stats_zero, sv_pool = p, sv_shutting_down = False,
      sv_shutdown_started = 0, sv_sweep_last = 0, sv_stopped = False, sv_listening = True,
      sv_writes = [], sv_closes = [], sv_log = []\<rparr>"

text \<open>
  \<open>cerco_serve\<close> up to \<open>uv_run\<close>: the route table, then the worker pool, then the sockets.
  \<open>lib\<close>: which of the libuv calls (loop, async, tcp, bind, listen) succeed. \<open>None\<close> is exit code 1.
\<close>

definition cerco_serve_start ::
  "(nat \<Rightarrow> bool) \<Rightarrow> bool \<times> bool \<times> bool \<Rightarrow> nat \<Rightarrow> bool list \<Rightarrow> cerco_route_entry list \<Rightarrow> app_env \<Rightarrow>
     cerco_server option" where
  "cerco_serve_start ra pool_ra created lib routes e =
     (case router_init ra routes of
        None \<Rightarrow> None
      | Some rt \<Rightarrow>
          if lib \<noteq> [] \<and> \<not> hd lib then None
          else case wpool_start pool_ra created (nat (cf_workers (ae_cfg e))) (unat (cf_work_queue (ae_cfg e))) of
            None \<Rightarrow> None
          | Some p \<Rightarrow> if \<not> list_all id (tl lib) then None else Some (server_zero (e\<lparr>ae_rt := rt\<rparr>) p))"

text \<open>One event: a callback of the event loop or a critical section of a worker. \<open>h\<close> is what a
  handler does to its request.\<close>

inductive server_step :: "(nat option \<Rightarrow> cerco_req \<Rightarrow> cerco_req) \<Rightarrow> cerco_server \<Rightarrow> cerco_server \<Rightarrow> bool"
  for h :: "nat option \<Rightarrow> cerco_req \<Rightarrow> cerco_req" where
  accept: "sv_listening s \<Longrightarrow> server_step h s (cerco_connection_cb io st tcp acc s)"
| read_data: "cn_reading (conn_of s c) \<Longrightarrow> conn_alloc_cb io c s = (base, len, s1) \<Longrightarrow>
     nread \<le> uint len \<Longrightarrow> server_step h s (conn_on_read io c nread p s1)"
| written: "(c, w) \<in> set (sv_writes s) \<Longrightarrow>
     server_step h s (on_written io w c p ok (s\<lparr>sv_writes := remove1 (c, w) (sv_writes s)\<rparr>))"
| closed: "c \<in> set (sv_closes s) \<Longrightarrow>
     server_step h s (conn_on_stream_closed c (s\<lparr>sv_closes := remove1 c (sv_closes s)\<rparr>))"
| sweep: "on_sweep io mtime lm s = (lm', t) \<Longrightarrow> server_step h s t"
| signal: "server_step h s (start_shutdown io s)"
| take_job: "length (wp_running (sv_pool s)) < wp_n_threads (sv_pool s) \<Longrightarrow>
     worker_take (sv_pool s) = Worker_runs c p \<Longrightarrow> server_step h s (s\<lparr>sv_pool := p\<rparr>)"
| finish: "c \<in> set (wp_running (sv_pool s)) \<Longrightarrow>
     server_step h s
       (on_conn c (\<lambda>k. k\<lparr>cn_req := map_option (\<lambda>r. h (rq_handler r) r) (cn_req k)\<rparr>)
          (s\<lparr>sv_pool := worker_finish c (sv_pool s)\<rparr>))"
| drain: "drain_one (sv_pool s) = (Some c, p) \<Longrightarrow>
     drain_completion io arena_failed tot c (s\<lparr>sv_pool := p\<rparr>) = Some t \<Longrightarrow> server_step h s t"

inductive_cases server_stepE: "server_step h s t"

definition server_start :: "cerco_server \<Rightarrow> bool" where
  "server_start s = (\<exists>ra pool_ra created lib routes e. cerco_serve_start ra pool_ra created lib routes e = Some s)"

end
