(* ===== verification/Conn_Safety.thy ===== *)
theory Conn_Safety
  imports Lifecycle
begin

text \<open>
  The ownership rules of connections: the invariant of the event loop's resource handling and its
  preservation by every event.
\<close>

subsection \<open>The invariant\<close>

definition writes_of :: "(nat \<times> write_kind) list \<Rightarrow> nat \<Rightarrow> nat" where
  "writes_of ws c = length (filter (\<lambda>(d, w). d = c) ws)"

text \<open>What the resource handling knows of one connection.\<close>

definition life :: "cerco_conn \<Rightarrow> bool \<times> bool \<times> bool \<times> int \<times> bool" where
  "life k = (cn_finalized k, cn_closing k, cn_close_cb_done k, cn_pending_writes k, cn_reading k)"

text \<open>The lists and counters, for a server that is not in development mode.\<close>

definition lists_ok :: "cerco_server \<Rightarrow> bool" where
  "lists_ok s =
     (\<not> cf_dev_mode (sv_cfg s) \<and> distinct (sv_conns s) \<and> distinct (sv_conn_free s) \<and> distinct (sv_closes s) \<and>
      set (sv_conns s) \<inter> set (sv_conn_free s) = {} \<and> set (sv_conn_free s) \<inter> set (sv_closes s) = {} \<and>
      (\<forall>c \<in> set (sv_conns s) \<union> set (sv_conn_free s) \<union> set (sv_closes s). c < sv_next s) \<and>
      sv_n_conns s = int (length (sv_conns s)) \<and> st_active_conns (sv_stats s) = int (length (sv_conns s)))"

definition conn_ok :: "cerco_server \<Rightarrow> nat \<Rightarrow> bool" where
  "conn_ok s c =
     (let k = conn_of s c in
      cn_pending_writes k = int (writes_of (sv_writes s) c) \<and>
      (cn_closing k \<longrightarrow> \<not> cn_reading k) \<and>
      (if c \<in> set (sv_conns s) then
         \<not> cn_finalized k \<and> (c \<in> set (sv_closes s) \<longleftrightarrow> cn_closing k \<and> \<not> cn_close_cb_done k) \<and>
         (cn_close_cb_done k \<longrightarrow> cn_closing k)
       else
         \<not> cn_reading k \<and> writes_of (sv_writes s) c = 0 \<and>
         (cn_finalized k \<or> (cn_req k = None \<and> \<not> cn_closing k))))"

definition server_ok :: "cerco_server \<Rightarrow> bool" where
  "server_ok s = (lists_ok s \<and> (\<forall>c. conn_ok s c))"

text \<open>An operation that keeps the invariant and the active list.\<close>

definition stays :: "cerco_server \<Rightarrow> cerco_server \<Rightarrow> bool" where
  "stays s t = (server_ok t \<and> sv_conns t = sv_conns s)"

lemma stays_refl [intro]: "server_ok s \<Longrightarrow> stays s s"
  by (simp add: stays_def)

lemma stays_trans [trans]: "stays s t \<Longrightarrow> stays t u \<Longrightarrow> stays s u"
  by (simp add: stays_def)

lemma staysD: "stays s t \<Longrightarrow> server_ok t" "stays s t \<Longrightarrow> sv_conns t = sv_conns s"
  by (simp_all add: stays_def)

lemma conn_of_simps [simp]:
  "conn_of (on_conn c f s) d = (if d = c then f (conn_of s c) else conn_of s d)"
  "conn_of (on_stats g s) d = conn_of s d"
  by (simp_all add: conn_of_def on_conn_def on_stats_def)

lemma on_conn_fields [simp]:
  "sv_app (on_conn c f s) = sv_app s" "sv_next (on_conn c f s) = sv_next s" "sv_conns (on_conn c f s) = sv_conns s"
  "sv_sse (on_conn c f s) = sv_sse s" "sv_n_conns (on_conn c f s) = sv_n_conns s"
  "sv_conn_free (on_conn c f s) = sv_conn_free s" "sv_buf_free (on_conn c f s) = sv_buf_free s"
  "sv_stats (on_conn c f s) = sv_stats s" "sv_pool (on_conn c f s) = sv_pool s"
  "sv_shutting_down (on_conn c f s) = sv_shutting_down s" "sv_writes (on_conn c f s) = sv_writes s"
  "sv_closes (on_conn c f s) = sv_closes s" "sv_log (on_conn c f s) = sv_log s"
  by (simp_all add: on_conn_def)

lemma on_stats_fields [simp]:
  "sv_app (on_stats g s) = sv_app s" "sv_next (on_stats g s) = sv_next s" "sv_conns (on_stats g s) = sv_conns s"
  "sv_sse (on_stats g s) = sv_sse s" "sv_n_conns (on_stats g s) = sv_n_conns s"
  "sv_conn_free (on_stats g s) = sv_conn_free s" "sv_buf_free (on_stats g s) = sv_buf_free s"
  "sv_stats (on_stats g s) = g (sv_stats s)" "sv_pool (on_stats g s) = sv_pool s"
  "sv_shutting_down (on_stats g s) = sv_shutting_down s" "sv_writes (on_stats g s) = sv_writes s"
  "sv_closes (on_stats g s) = sv_closes s" "sv_log (on_stats g s) = sv_log s"
  by (simp_all add: on_stats_def)

text \<open>Only these fields matter.\<close>

lemma server_ok_cong:
  assumes "sv_app t = sv_app s" "sv_store t = sv_store s" "sv_next t = sv_next s" "sv_conns t = sv_conns s" "sv_n_conns t = sv_n_conns s"
    "sv_conn_free t = sv_conn_free s" "sv_writes t = sv_writes s" "sv_closes t = sv_closes s"
    "st_active_conns (sv_stats t) = st_active_conns (sv_stats s)"
  shows "server_ok t = server_ok s"
  using assms by (simp add: server_ok_def lists_ok_def conn_ok_def conn_of_def)

lemma stays_same:
  assumes "server_ok s" "sv_app t = sv_app s" "sv_store t = sv_store s" "sv_next t = sv_next s" "sv_conns t = sv_conns s"
    "sv_n_conns t = sv_n_conns s" "sv_conn_free t = sv_conn_free s" "sv_writes t = sv_writes s"
    "sv_closes t = sv_closes s" "st_active_conns (sv_stats t) = st_active_conns (sv_stats s)"
  shows "stays s t"
  unfolding stays_def using assms(1) server_ok_cong [OF assms(2-)] assms(5) by simp

lemma stays_fields:
  "server_ok s \<Longrightarrow> stays s (s\<lparr>sv_pool := p\<rparr>)" "server_ok s \<Longrightarrow> stays s (s\<lparr>sv_sse := l\<rparr>)"
  "server_ok s \<Longrightarrow> stays s (s\<lparr>sv_buf_free := b\<rparr>)"
  "server_ok s \<Longrightarrow> stays s (s\<lparr>sv_sweep_last := n\<rparr>)" "server_ok s \<Longrightarrow> stays s (s\<lparr>sv_stopped := x\<rparr>)"
  by (rule stays_same; simp)+

lemma stays_stats: "server_ok s \<Longrightarrow> (\<And>t. st_active_conns (g t) = st_active_conns t) \<Longrightarrow> stays s (on_stats g s)"
  by (rule stays_same) (simp_all add: on_stats_def)

text \<open>A change that leaves the life fields of an active connection alone.\<close>

lemma stays_conn:
  assumes "server_ok s" "c \<in> set (sv_conns s)" "life (f (conn_of s c)) = life (conn_of s c)"
  shows "stays s (on_conn c f s)"
proof -
  have "conn_ok (on_conn c f s) d" for d
    using assms(1,3) assms(2) unfolding server_ok_def conn_ok_def life_def by (auto simp: Let_def)
  then show ?thesis using assms(1) by (simp add: stays_def server_ok_def lists_ok_def)
qed

subsection \<open>Closing\<close>

lemma maybe_finalize_cases:
  "conn_maybe_finalize c s = s \<or>
   (cn_closing (conn_of s c) \<and> \<not> cn_finalized (conn_of s c) \<and> cn_close_cb_done (conn_of s c) \<and>
    \<not> cn_pending_writes (conn_of s c) > 0 \<and> conn_maybe_finalize c s = conn_finalize c s)"
  by (simp add: conn_maybe_finalize_def Let_def)

lemma finalize_view:
  assumes "\<not> cn_finalized (conn_of s c)"
  shows "sv_conns (conn_finalize c s) = remove1 c (sv_conns s)"
    and "sv_conn_free (conn_finalize c s) =
           (if length (sv_conn_free s) < 256 then c # sv_conn_free s else sv_conn_free s)"
    and "sv_app (conn_finalize c s) = sv_app s" "sv_next (conn_finalize c s) = sv_next s" "sv_writes (conn_finalize c s) = sv_writes s"
    and "sv_closes (conn_finalize c s) = sv_closes s" "sv_n_conns (conn_finalize c s) = sv_n_conns s - 1"
    and "st_active_conns (sv_stats (conn_finalize c s)) = st_active_conns (sv_stats s) - 1"
    and "d \<noteq> c \<Longrightarrow> conn_of (conn_finalize c s) d = conn_of s d"
    and "cn_finalized (conn_of (conn_finalize c s) c)"
    and "cn_pending_writes (conn_of (conn_finalize c s) c) = cn_pending_writes (conn_of s c)"
    and "cn_reading (conn_of (conn_finalize c s) c) = cn_reading (conn_of s c)"
    and "cn_closing (conn_of (conn_finalize c s) c) = cn_closing (conn_of s c)"
  using assms
  by (simp_all add: conn_finalize_def release_buffers_def conn_put_def buf_put_def conn_unlink_def Let_def
      conn_of_def on_conn_def on_stats_def)

lemma maybe_finalize_ok:
  assumes "server_ok s"
  shows "server_ok (conn_maybe_finalize c s)"
proof (rule disjE [OF maybe_finalize_cases [of c s]])
  assume "conn_maybe_finalize c s = s"
  then show ?thesis using assms by simp
next
  assume f: "cn_closing (conn_of s c) \<and> \<not> cn_finalized (conn_of s c) \<and> cn_close_cb_done (conn_of s c) \<and>
    \<not> cn_pending_writes (conn_of s c) > 0 \<and> conn_maybe_finalize c s = conn_finalize c s"
  then have nf: "\<not> cn_finalized (conn_of s c)" by blast
  from assms have co: "conn_ok s c" and lo: "lists_ok s" by (auto simp: server_ok_def)
  with f have cin: "c \<in> set (sv_conns s)" by (auto simp: conn_ok_def Let_def split: if_splits)
  with co f have w: "writes_of (sv_writes s) c = 0" "c \<notin> set (sv_closes s)" "\<not> cn_reading (conn_of s c)"
    by (auto simp: conn_ok_def Let_def)
  have "conn_ok (conn_finalize c s) d" for d
  proof (cases "d = c")
    case True
    with co w lo show ?thesis
      by (simp add: conn_ok_def Let_def finalize_view [OF nf] lists_ok_def)
  next
    case False
    moreover from assms have "conn_ok s d" by (simp add: server_ok_def)
    ultimately show ?thesis by (simp add: conn_ok_def Let_def finalize_view [OF nf] in_set_remove1)
  qed
  moreover have "int (length (remove1 c (sv_conns s))) = int (length (sv_conns s)) - 1"
    using length_pos_if_in_set [OF cin] cin
    by (simp add: length_remove1 of_nat_diff Suc_le_eq del: length_greater_0_conv)
  with lo cin w(2) have "lists_ok (conn_finalize c s)"
    by (auto simp: lists_ok_def finalize_view [OF nf])
  ultimately show ?thesis using f by (simp add: server_ok_def)
qed

lemma stays_maybe_finalize:
  "server_ok s \<Longrightarrow> \<not> cn_close_cb_done (conn_of s c) \<Longrightarrow> stays s (conn_maybe_finalize c s)"
  using maybe_finalize_cases [of c s] by (auto simp: stays_def)

text \<open>Marking a connection closing and queueing its close callback.\<close>

lemma stays_closing:
  assumes "server_ok s" "c \<in> set (sv_conns s)" "\<not> cn_closing (conn_of s c)"
    and "life (f (conn_of s c)) = (False, True, cn_close_cb_done (conn_of s c), cn_pending_writes (conn_of s c), False)"
  shows "stays s (uv_close c (on_conn c f s))"
proof -
  have "conn_ok s c" and lo: "lists_ok s" using assms(1) by (auto simp: server_ok_def)
  with assms(2,3) have nc: "c \<notin> set (sv_closes s)" "\<not> cn_close_cb_done (conn_of s c)"
    by (auto simp: conn_ok_def Let_def)
  have co: "conn_of (uv_close c t) d = conn_of t d" for t d by (simp add: uv_close_def conn_of_def)
  have "conn_ok (uv_close c (on_conn c f s)) d" for d
  proof -
    from assms(1) have "conn_ok s d" by (simp add: server_ok_def)
    with assms(2-) nc show ?thesis by (auto simp: conn_ok_def Let_def life_def co) (auto simp: uv_close_def)
  qed
  moreover have "lists_ok (uv_close c (on_conn c f s))"
    using lo nc(1) assms(2) by (auto simp: lists_ok_def uv_close_def)
  ultimately show ?thesis by (simp add: stays_def server_ok_def) (simp add: uv_close_def)
qed

lemma close_ok:
  assumes "server_ok s" "c \<in> set (sv_conns s)"
  shows "stays s (conn_close_and_free c s)"
proof (cases "cn_closing (conn_of s c)")
  case True
  with assms(1) show ?thesis by (simp add: conn_close_and_free_def stays_refl)
next
  case False
  let ?close = "\<lambda>k. (cancel_req (k\<lparr>cn_closing := True\<rparr>))\<lparr>cn_reading := False\<rparr>"
  let ?close' = "\<lambda>k. (cancel_req (k\<lparr>cn_closing := True, cn_sse := False\<rparr>))\<lparr>cn_reading := False\<rparr>"
  have co: "conn_ok s c" using assms by (simp add: server_ok_def)
  have lf: "life (?close (conn_of s c)) = (False, True, cn_close_cb_done (conn_of s c), cn_pending_writes (conn_of s c), False)"
    "life (?close' (conn_of s c)) = (False, True, cn_close_cb_done (conn_of s c), cn_pending_writes (conn_of s c), False)"
    using co assms(2) by (simp_all add: life_def cancel_req_def conn_ok_def Let_def)
  obtain t where t: "conn_close_and_free c s = conn_maybe_finalize c t" "stays s t" "cn_close_cb_done (conn_of t c) = cn_close_cb_done (conn_of s c)"
  proof (cases "cn_sse (conn_of s c)")
    case True
    let ?s = "on_stats (\<lambda>t. t\<lparr>st_sse_clients := st_sse_clients t - 1\<rparr>) (s\<lparr>sv_sse := remove1 c (sv_sse s)\<rparr>)"
    have "stays s ?s"
      using stays_trans [OF stays_fields(2) [OF assms(1)] stays_stats [OF staysD(1) [OF stays_fields(2) [OF assms(1)]]]] by simp
    then have s1: "server_ok ?s" "sv_conns ?s = sv_conns s" by (auto simp: stays_def)
    have cs: "conn_of ?s c = conn_of s c" by (simp add: conn_of_def on_stats_def)
    have "stays ?s (uv_close c (on_conn c ?close' ?s))"
      by (rule stays_closing) (use s1 assms False cs lf in simp_all)
    with s1(2) have st: "stays s (uv_close c (on_conn c ?close' ?s))" by (simp add: stays_def)
    show ?thesis
      by (rule that [OF _ st]) (use False True in \<open>simp_all add: conn_close_and_free_def Let_def conn_of_def on_conn_def
          on_stats_def uv_close_def cancel_req_def\<close>)
  next
    case nosse: False
    have st: "stays s (uv_close c (on_conn c ?close s))"
      by (rule stays_closing) (use assms False lf in simp_all)
    show ?thesis
      by (rule that [OF _ st]) (use False nosse in \<open>simp_all add: conn_close_and_free_def Let_def conn_of_def on_conn_def
          on_stats_def uv_close_def cancel_req_def\<close>)
  qed
  have "\<not> cn_close_cb_done (conn_of s c)" using co assms(2) False by (auto simp: conn_ok_def Let_def)
  with t have "stays t (conn_maybe_finalize c t)" by (intro stays_maybe_finalize) (auto simp: stays_def)
  with t show ?thesis by (metis stays_trans)
qed

subsection \<open>Writing\<close>

lemma writes_of_simps [simp]:
  "writes_of (ws @ vs) c = writes_of ws c + writes_of vs c" "writes_of [] c = 0"
  "writes_of [(d, w)] c = (if d = c then 1 else 0)"
  by (simp_all add: writes_of_def)

lemma writes_of_remove: "(c, w) \<in> set ws \<Longrightarrow>
    int (writes_of (remove1 (c, w) ws) d) = int (writes_of ws d) - (if d = c then 1 else 0)"
  by (induction ws) (auto simp: writes_of_def)

lemma queue_write_ok:
  assumes "server_ok s" "c \<in> set (sv_conns s)"
  shows "stays s (snd (queue_write io c w txt s))"
proof (cases "io_write io (length (sv_log s))")
  case True
  let ?t = "(on_conn c (\<lambda>k. k\<lparr>cn_pending_writes := cn_pending_writes k + 1\<rparr>) s)
           \<lparr>sv_writes := sv_writes s @ [(c, w)], sv_log := sv_log s @ [(c, txt)]\<rparr>"
  have co: "conn_of ?t d = conn_of (on_conn c (\<lambda>k. k\<lparr>cn_pending_writes := cn_pending_writes k + 1\<rparr>) s) d" for d
    by (simp add: conn_of_def)
  have "conn_ok ?t d" for d
  proof -
    from assms(1) have "conn_ok s d" by (simp add: server_ok_def)
    with assms(2) show ?thesis by (auto simp: conn_ok_def Let_def co)
  qed
  moreover from assms(1) have "lists_ok ?t" by (simp add: server_ok_def lists_ok_def)
  ultimately show ?thesis using True by (simp add: queue_write_def stays_def server_ok_def)
next
  case False
  with assms show ?thesis by (simp add: queue_write_def close_ok)
qed

text \<open>Chaining: the next operation starts from the invariant and the same active list.\<close>

lemma stays_then:
  assumes "stays s t" "c \<in> set (sv_conns s)" "\<And>u. server_ok u \<Longrightarrow> c \<in> set (sv_conns u) \<Longrightarrow> stays u (f u)"
  shows "stays s (f t)"
  using assms by (metis stays_trans staysD)

lemma conn_then:
  assumes "server_ok s" "c \<in> set (sv_conns s)" "\<And>k. life (g k) = life k"
    and "\<And>u. server_ok u \<Longrightarrow> c \<in> set (sv_conns u) \<Longrightarrow> stays u (f u)"
  shows "stays s (f (on_conn c g s))"
  by (rule stays_then [OF stays_conn [OF assms(1,2)] assms(2)]) (use assms(3,4) in simp_all)

lemma stats_then:
  assumes "server_ok s" "c \<in> set (sv_conns s)" "\<And>t. st_active_conns (g t) = st_active_conns t"
    and "\<And>u. server_ok u \<Longrightarrow> c \<in> set (sv_conns u) \<Longrightarrow> stays u (f u)"
  shows "stays s (f (on_stats g s))"
  by (rule stays_then [OF stays_stats [OF assms(1)] assms(2)]) (use assms(3,4) in simp_all)

lemma count_active [simp]:
  "st_active_conns (count_status code t) = st_active_conns t" "st_active_conns (count_written n t) = st_active_conns t"
  by (simp_all add: count_status_def count_written_def)

lemma start_response_ok:
  assumes "server_ok s" "c \<in> set (sv_conns s)"
  shows "stays s (conn_start_response io c s)"
proof (cases "cn_req (conn_of s c)")
  case None
  with assms show ?thesis by (simp add: conn_start_response_def stays_refl)
next
  case (Some r)
  let ?s = "on_stats (count_status (rq_status r)) (on_conn c (\<lambda>k. k\<lparr>cn_phase := PHASE_WRITE,
      cn_deadline_ms := deadline io (cf_request_timeout_ms (sv_cfg s))\<rparr>) s)"
  have st: "stays s ?s"
    by (rule conn_then [OF assms]) (simp_all add: life_def stays_stats)
  have c: "server_ok ?s" "c \<in> set (sv_conns ?s)" using st assms(2) by (simp_all add: stays_def)
  have cl: "stays s (conn_close_and_free c ?s)"
    by (rule stays_trans [OF st close_ok [OF c]])
  have qu: "stays s (snd (queue_write io c W_response tx (on_stats (count_written n) ?s)))" for tx n
    by (rule stays_trans [OF st stats_then [OF c]]) (simp_all add: queue_write_ok)
  show ?thesis
    unfolding conn_start_response_def Some option.case Let_def using cl qu by (simp only: split: if_splits) blast
qed

lemma send_simple_ok:
  assumes "server_ok s" "c \<in> set (sv_conns s)"
  shows "stays s (conn_send_simple io c code extra body fc s)"
proof -
  let ?g = "\<lambda>k. k\<lparr>cn_keep_alive := \<not> fc, cn_force_close := fc, cn_status_sent := True\<rparr>"
  have q: "stays u (snd (queue_write io c W_simple out (on_conn c ?g u)))"
    if "server_ok u" "c \<in> set (sv_conns u)" for u out
    by (rule conn_then [OF that]) (simp_all add: life_def queue_write_ok)
  have q2: "stays u (snd (queue_write io c W_simple out (on_conn c ?g (on_stats (\<lambda>t. t\<lparr>st_r4xx := st_r4xx t + 1\<rparr>) u))))"
    if "server_ok u" "c \<in> set (sv_conns u)" for u out
    by (rule stats_then [OF that]) (simp_all add: q)
  show ?thesis
    using assms unfolding conn_send_simple_def Let_def
    by (auto intro: close_ok stats_then [OF assms] q q2)
qed

lemma sse_write_ok:
  "server_ok s \<Longrightarrow> c \<in> set (sv_conns s) \<Longrightarrow> stays s (conn_sse_write io c data s)"
  by (simp add: conn_sse_write_def Let_def close_ok queue_write_ok)

lemma live_sse_ok:
  assumes "server_ok s" "c \<in> set (sv_conns s)"
  shows "stays s (send_live_sse io c s)"
proof -
  obtain b s1 where q: "queue_write io c W_sse sse_head s = (b, s1)" by (cases "queue_write io c W_sse sse_head s")
  from queue_write_ok [OF assms, of io W_sse sse_head] q have s1: "stays s s1" by simp
  let ?g = "\<lambda>t. t\<lparr>st_sse_clients := st_sse_clients t + 1, st_active_reqs := st_active_reqs t - 1\<rparr>"
  have sub0: "stays u (conn_sse_write io c d (on_stats ?g u))" if "server_ok u" "c \<in> set (sv_conns u)" for u d
    by (rule stats_then [OF that]) (simp_all add: sse_write_ok)
  have sub: "stays u (conn_sse_write io c d (on_stats ?g (u\<lparr>sv_sse := l\<rparr>)))" if "server_ok u" "c \<in> set (sv_conns u)" for u d l
    by (rule stays_then [OF stays_fields(2) [OF that(1)] that(2)])
      (rule sub0)
  have "stays s1 (conn_sse_write io c d (on_stats ?g ((on_conn c (\<lambda>k. k\<lparr>cn_sse := True\<rparr>) s1)\<lparr>sv_sse := l\<rparr>)))" for d l
    using conn_then [of s1 c "\<lambda>k. k\<lparr>cn_sse := True\<rparr>" "\<lambda>u. conn_sse_write io c d (on_stats ?g (u\<lparr>sv_sse := l\<rparr>))"]
      s1 assms(2) sub by (simp add: life_def stays_def)
  with s1 have "stays s (conn_sse_write io c d (on_stats ?g ((on_conn c (\<lambda>k. k\<lparr>cn_sse := True\<rparr>) s1)\<lparr>sv_sse := l\<rparr>)))" for d l
    by (rule stays_trans)
  then show ?thesis
    using assms s1 by (auto simp: send_live_sse_def q Let_def close_ok split: bool.splits)
qed

lemma fold_stays:
  assumes "server_ok s" "set cs \<subseteq> set (sv_conns s)"
    and "\<And>c u. server_ok u \<Longrightarrow> c \<in> set (sv_conns u) \<Longrightarrow> stays u (f c u)"
  shows "stays s (fold f cs s)"
  using assms(1,2)
proof (induction cs arbitrary: s)
  case Nil
  then show ?case by (simp add: stays_refl)
next
  case (Cons c cs)
  then have "stays s (f c s)" by (simp add: assms(3))
  moreover from this Cons have "stays (f c s) (fold f cs (f c s))" by (auto simp: stays_def)
  ultimately show ?case by (metis fold_simps(2) stays_trans)
qed

subsection \<open>Parsing\<close>

lemma life_updates [simp]:
  "life (k\<lparr>cn_req := r\<rparr>) = life k" "life (k\<lparr>cn_stage := st\<rparr>) = life k" "life (k\<lparr>cn_url := u\<rparr>) = life k"
  "life (k\<lparr>cn_method := m\<rparr>) = life k" "life (k\<lparr>cn_arena := a\<rparr>) = life k" "life (k\<lparr>cn_body_cap := n\<rparr>) = life k"
  "life (k\<lparr>cn_phase := p\<rparr>) = life k" "life (k\<lparr>cn_deadline_ms := d\<rparr>) = life k" "life (k\<lparr>cn_force_close := b\<rparr>) = life k"
  "life (k\<lparr>cn_keep_alive := b\<rparr>) = life k" "life (k\<lparr>cn_msg_started := i\<rparr>) = life k"
  "life (k\<lparr>cn_msg_completed := i\<rparr>) = life k" "life (k\<lparr>cn_filled := w\<rparr>) = life k" "life (k\<lparr>cn_consumed := w\<rparr>) = life k"
  "life (k\<lparr>cn_parser_error := er\<rparr>) = life k" "life (k\<lparr>cn_error_pos := w\<rparr>) = life k" "life (k\<lparr>cn_read_buf := w\<rparr>) = life k"
  "life (k\<lparr>cn_status_sent := b\<rparr>) = life k" "life (set_bad code k) = life k" "life (llhttp_pause k) = life k"
  "life (llhttp_resume k) = life k" "life (cancel_req k) = life k" "life (commit_header e k) = life k"
  by (simp_all add: life_def set_bad_def llhttp_pause_def llhttp_resume_def cancel_req_def commit_header_def split: prod.splits)

lemma life_callbacks:
  "life (snd (on_message_begin io e c k)) = life k" "life (snd (on_url io at k)) = life k"
  "life (snd (on_header_field io e at k)) = life k" "life (snd (on_header_value io at k)) = life k"
  "life (snd (body_alloc e n r k)) = life k" "life (snd (on_body e at k)) = life k"
  "life (snd (message_target e k r)) = life k"
  by (simp_all add: on_message_begin_def on_url_def on_header_field_def on_header_value_def body_alloc_def on_body_def
      message_target_def Let_def split: option.splits prod.splits)

lemma life_headers_complete: "life (snd (on_headers_complete io e n ch k)) = life k"
proof -
  have "life k2 = life j" if "body_alloc e m r j = (b, k2)" for m r j b k2
    using life_callbacks(5) [of e m r j] that by simp
  then show ?thesis
    by (fastforce simp: on_headers_complete_def Let_def split: option.splits prod.splits if_splits)
qed

lemma callback_ok:
  assumes "server_ok s" "c \<in> set (sv_conns s)" "life (snd (f (conn_of s c))) = life (conn_of s c)"
  shows "stays s (snd (conn_callback c f s))"
proof -
  obtain b k where f: "f (conn_of s c) = (b, k)" by (cases "f (conn_of s c)")
  with assms(3) have "stays s (on_conn c (\<lambda>_. k) s)" by (intro stays_conn assms(1,2)) simp
  with f show ?thesis by (simp add: conn_callback_def)
qed

lemma apply_reply_ok:
  assumes "server_ok s" "c \<in> set (sv_conns s)"
  shows "stays s (apply_reply io c d s)"
proof -
  obtain r rep rej where d: "d = (r, rep, rej)" by (cases d)
  let ?s = "on_conn c (\<lambda>k. k\<lparr>cn_req := Some r\<rparr>) (on_stats (\<lambda>t. t\<lparr>st_rejected_jobs := st_rejected_jobs t + int rej\<rparr>) s)"
  have st: "stays s ?s"
    by (rule stats_then [OF assms]) (auto intro: stays_conn)
  then have c: "server_ok ?s" "c \<in> set (sv_conns ?s)" using assms(2) by (auto simp: stays_def)
  have "stays ?s (apply_reply io c d s)"
    by (cases rep) (simp_all add: apply_reply_def d Let_def send_simple_ok [OF c] start_response_ok [OF c]
        live_sse_ok [OF c] stays_fields(1) [OF c(1)])
  with st show ?thesis by (rule stays_trans)
qed

lemma dispatch_ok:
  "server_ok s \<Longrightarrow> c \<in> set (sv_conns s) \<Longrightarrow> stays s (dispatch_conn io c s)"
  by (auto simp: dispatch_conn_def Let_def apply_reply_ok split: option.splits)

lemma message_complete_ok:
  assumes "server_ok s" "c \<in> set (sv_conns s)"
  shows "stays s (snd (on_message_complete io c keep s))"
proof -
  let ?k1 = "(conn_of s c)\<lparr>cn_msg_completed := cn_msg_completed (conn_of s c) + 1, cn_keep_alive := keep\<rparr>"
  obtain b k2 where k2: "(case cn_req ?k1 of None \<Rightarrow> (False, ?k1) | Some r \<Rightarrow> message_target (sv_app s) ?k1 r) = (b, k2)"
    by (cases "case cn_req ?k1 of None \<Rightarrow> (False, ?k1) | Some r \<Rightarrow> message_target (sv_app s) ?k1 r")
  then have "life k2 = life ?k1"
    using life_callbacks(7) [of "sv_app s" ?k1] by (auto split: option.splits) (metis snd_conv)
  then have l: "life k2 = life (conn_of s c)" by simp
  let ?s2 = "on_conn c (\<lambda>_. k2) (on_conn c (\<lambda>k. k\<lparr>cn_msg_completed := cn_msg_completed k + 1, cn_keep_alive := keep\<rparr>) s)"
  have st: "stays s ?s2"
    using stays_conn [OF assms, of "\<lambda>_. k2"] l by (simp add: on_conn_def)
  let ?g = "\<lambda>t. t\<lparr>st_active_reqs := st_active_reqs t + 1, st_total_reqs := st_total_reqs t + 1\<rparr>"
  have p: "stays u (on_conn c llhttp_pause (dispatch_conn io c u))" if "server_ok u" "c \<in> set (sv_conns u)" for u
    by (rule stays_then [OF dispatch_ok [OF that] that(2)]) (simp add: stays_conn)
  have "stays u (on_conn c llhttp_pause (dispatch_conn io c (on_stats ?g u)))" if "server_ok u" "c \<in> set (sv_conns u)" for u
    by (rule stats_then [OF that]) (simp_all add: p)
  then have "stays s (on_conn c llhttp_pause (dispatch_conn io c (on_stats ?g ?s2)))"
    by (rule stays_then [OF st assms(2)])
  with st k2 show ?thesis by (simp add: on_message_complete_def Let_def split: option.splits)
qed

lemma run_callback_ok:
  assumes "server_ok s" "c \<in> set (sv_conns s)"
  shows "stays s (snd (run_callback io c ev s))"
  by (cases ev) (simp_all add: run_callback_def callback_ok [OF assms] life_callbacks life_headers_complete
      message_complete_ok [OF assms])

lemma run_callbacks_ok:
  "server_ok s \<Longrightarrow> c \<in> set (sv_conns s) \<Longrightarrow> stays s (snd (run_callbacks io c evs s))"
proof (induction evs arbitrary: s)
  case Nil
  then show ?case by (simp add: stays_refl)
next
  case (Cons ev evs)
  obtain b t where r: "run_callback io c ev s = (b, t)" by (cases "run_callback io c ev s")
  with run_callback_ok [OF Cons.prems, of io ev] have st: "stays s t" by simp
  then have "stays t (snd (run_callbacks io c evs t))" using Cons by (auto simp: stays_def)
  with st r show ?case by (auto split: bool.splits intro: stays_trans)
qed

lemma execute_ok:
  assumes "server_ok s" "c \<in> set (sv_conns s)"
  shows "stays s (snd (llhttp_execute io c p s))"
proof -
  obtain b t where r: "run_callbacks io c (pa_events p) s = (b, t)" by (cases "run_callbacks io c (pa_events p) s")
  with run_callbacks_ok [OF assms, of io "pa_events p"] have st: "stays s t" by simp
  then have "stays s (on_conn c (\<lambda>k. k\<lparr>cn_parser_error := e, cn_error_pos := w\<rparr>) t)" for e w
    using assms(2) by (intro stays_trans [OF st stays_conn]) (auto simp: stays_def)
  with st r show ?thesis
    by (auto simp: llhttp_execute_def stays_refl [OF assms(1)] split: bool.splits)
qed

subsection \<open>Events\<close>

lemma life_start_reading: "\<not> cn_closing k \<Longrightarrow> life (start_reading k) = (cn_finalized k, False, cn_close_cb_done k, cn_pending_writes k, True)"
  by (simp add: start_reading_def life_def)

lemma start_reading_ok:
  assumes "server_ok s" "c \<in> set (sv_conns s)" "life (f (conn_of s c)) = life (conn_of s c)"
  shows "stays s (on_conn c (\<lambda>k. start_reading (f k)) s)"
proof -
  have "conn_ok (on_conn c (\<lambda>k. start_reading (f k)) s) d" for d
    using assms unfolding server_ok_def conn_ok_def life_def start_reading_def by (auto simp: Let_def)
  then show ?thesis using assms(1) by (simp add: stays_def server_ok_def lists_ok_def)
qed

lemma stop_reading_ok:
  assumes "server_ok s" "c \<in> set (sv_conns s)"
  shows "stays s (on_conn c (\<lambda>k. k\<lparr>cn_reading := False\<rparr>) s)"
proof -
  have "conn_ok (on_conn c (\<lambda>k. k\<lparr>cn_reading := False\<rparr>) s) d" for d
    using assms unfolding server_ok_def conn_ok_def by (auto simp: Let_def)
  then show ?thesis using assms(1) by (simp add: stays_def server_ok_def lists_ok_def)
qed

lemma graceful_ok:
  "server_ok s \<Longrightarrow> c \<in> set (sv_conns s) \<Longrightarrow> stays s (conn_close_graceful io c s)"
  by (auto simp: conn_close_graceful_def intro: start_reading_ok)

lemma send_400_ok:
  assumes "server_ok s" "c \<in> set (sv_conns s)"
  shows "stays s (send_400 io c reason code s)"
  unfolding send_400_def by (rule conn_then [OF assms]) (simp_all add: send_simple_ok)

lemma conn_reading_ok:
  assumes "stays s t" "c \<in> set (sv_conns s)" "\<And>k. life (g k) = life k"
  shows "stays s (on_conn c start_reading (on_conn c g t))"
proof -
  have "stays t (on_conn c g t)" using assms by (intro stays_conn) (auto simp: stays_def)
  with assms(1) have st: "stays s (on_conn c g t)" by (rule stays_trans)
  then have "stays (on_conn c g t) (on_conn c (\<lambda>k. start_reading k) (on_conn c g t))"
    using assms(2) by (intro start_reading_ok) (auto simp: stays_def)
  with st show ?thesis by (rule stays_trans)
qed

lemma resume_ok:
  assumes "server_ok s" "c \<in> set (sv_conns s)"
  shows "stays s (resume_conn io c p s)"
proof -
  define s1 where "s1 = on_conn c (\<lambda>k. llhttp_resume (k\<lparr>cn_phase := PHASE_IDLE,
      cn_deadline_ms := deadline io (cf_keep_alive_timeout_ms (sv_cfg s)), cn_req := None,
      cn_msg_started := 0, cn_msg_completed := 0, cn_status_sent := False,
      cn_stage := (cn_stage k)\<lparr>hs_bad := 0\<rparr>, cn_force_close := False\<rparr>)) s"
  define lo where "lo = cn_filled (conn_of s1 c) - cn_consumed (conn_of s1 c)"
  define s2 where "s2 = on_conn c (\<lambda>k. k\<lparr>cn_filled := lo, cn_consumed := 0\<rparr>) s1"
  have st: "stays s s1" unfolding s1_def by (rule stays_conn [OF assms]) simp
  then have "stays s1 s2" using assms(2) unfolding s2_def by (intro stays_conn) (auto simp: stays_def)
  with st have st2: "stays s s2" by (rule stays_trans)
  obtain e s3 where ex: "llhttp_execute io c p s2 = (e, s3)" by (cases "llhttp_execute io c p s2")
  have "stays s2 s3" using execute_ok [of s2 c io p] st2 assms(2) ex by (simp add: stays_def)
  with st2 have st3: "stays s s3" by (rule stays_trans)
  have r: "resume_conn io c p s =
     (if lo > 0 then
        (case (e, s3) of
           (HPE_OK, s3) \<Rightarrow> on_conn c start_reading (on_conn c (\<lambda>k. k\<lparr>cn_consumed := lo\<rparr>) s3)
         | (HPE_PAUSED, s3) \<Rightarrow> on_conn c start_reading (on_conn c (\<lambda>k. k\<lparr>cn_consumed := cn_error_pos k - cn_read_buf k\<rparr>) s3)
         | (err, s3) \<Rightarrow> send_400 io c bad_request_text 400 s3)
      else on_conn c start_reading (on_conn c (\<lambda>k. k) s2))"
    unfolding resume_conn_def Let_def s1_def [symmetric] lo_def [symmetric] s2_def [symmetric] ex
    by (simp add: on_conn_def)
  have "stays s3 (send_400 io c bad_request_text 400 s3)" using st3 assms(2) by (intro send_400_ok) (auto simp: stays_def)
  with st3 have bad: "stays s (send_400 io c bad_request_text 400 s3)" by (rule stays_trans)
  show ?thesis
    unfolding r using conn_reading_ok [OF st3 assms(2)] conn_reading_ok [OF st2 assms(2)] bad
    by (cases e) simp_all
qed

lemma close_finalize_ok:
  assumes "server_ok s" "c \<in> set (sv_conns s)"
  shows "server_ok (conn_maybe_finalize c (conn_close_and_free c s))"
  using maybe_finalize_ok staysD(1) [OF close_ok [OF assms]] by blast

lemma after_response_ok:
  assumes "server_ok s" "c \<in> set (sv_conns s)"
  shows "server_ok (after_response io c p ok s)"
proof -
  let ?s = "on_stats (\<lambda>t. t\<lparr>st_active_reqs := st_active_reqs t - 1\<rparr>) s"
  have "stays s ?s" by (rule stays_stats [OF assms(1)]) simp
  then have c: "server_ok ?s" "c \<in> set (sv_conns ?s)" using assms(2) by (auto simp: stays_def)
  have "stays ?s (on_conn c (\<lambda>k. k\<lparr>cn_req := None\<rparr>) ?s)" by (rule stays_conn [OF c]) simp
  then show ?thesis
    using maybe_finalize_ok [of "on_conn c (\<lambda>k. k\<lparr>cn_req := None\<rparr>) ?s" c]
    by (auto simp: after_response_def Let_def close_finalize_ok [OF c] staysD(1) [OF graceful_ok [OF c]]
        staysD(1) [OF resume_ok [OF c]] stays_def)
qed

text \<open>A completed write leaves the queue and the counter together.\<close>

lemma write_done_ok:
  assumes "server_ok s" "(c, w) \<in> set (sv_writes s)"
  shows "stays s (write_done c (s\<lparr>sv_writes := remove1 (c, w) (sv_writes s)\<rparr>))" "c \<in> set (sv_conns s)"
proof -
  have "writes_of (sv_writes s) c \<noteq> 0" using assms(2) by (auto simp: writes_of_def filter_empty_conv)
  moreover have "conn_ok s c" using assms(1) by (simp add: server_ok_def)
  ultimately show cin: "c \<in> set (sv_conns s)" by (auto simp: conn_ok_def Let_def split: if_splits)
  have co: "conn_of (s\<lparr>sv_writes := ws\<rparr>) d = conn_of s d" for ws d by (simp add: conn_of_def)
  have "conn_ok (write_done c (s\<lparr>sv_writes := remove1 (c, w) (sv_writes s)\<rparr>)) d" for d
  proof -
    have "conn_ok s d" using assms(1) by (simp add: server_ok_def)
    moreover have "d \<noteq> c \<Longrightarrow> writes_of (remove1 (c, w) (sv_writes s)) d = writes_of (sv_writes s) d"
      using writes_of_remove [OF assms(2), of d] by simp
    ultimately show ?thesis
      using cin writes_of_remove [OF assms(2), of c] by (auto simp: conn_ok_def Let_def write_done_def co)
  qed
  moreover have "lists_ok s" using assms(1) by (simp add: server_ok_def)
  ultimately show "stays s (write_done c (s\<lparr>sv_writes := remove1 (c, w) (sv_writes s)\<rparr>))"
    by (simp add: stays_def server_ok_def lists_ok_def) (simp add: write_done_def)
qed

lemma simple_written_ok:
  assumes "server_ok s1" "c \<in> set (sv_conns s1)" "s1 = write_done c s"
  shows "server_ok (on_simple_written io c ok s)"
proof -
  let ?s = "on_stats (\<lambda>t. t\<lparr>st_active_reqs := st_active_reqs t - 1\<rparr>) s1"
  have "stays s1 ?s" by (rule stays_stats [OF assms(1)]) simp
  then have c: "server_ok ?s" "c \<in> set (sv_conns ?s)" using assms(2) by (auto simp: stays_def)
  let ?f = "\<lambda>k. llhttp_resume (k\<lparr>cn_phase := PHASE_IDLE,
      cn_deadline_ms := deadline io (cf_keep_alive_timeout_ms (sv_cfg s)), cn_status_sent := False,
      cn_stage := (cn_stage k)\<lparr>hs_bad := 0\<rparr>, cn_filled := 0, cn_consumed := 0\<rparr>)"
  have "sv_app s1 = sv_app s" by (simp add: assms(3) write_done_def)
  moreover have "stays ?s (on_conn c (\<lambda>k. start_reading (?f k)) ?s)" by (rule start_reading_ok [OF c]) simp
  ultimately show ?thesis
    using maybe_finalize_ok [OF c(1), of c] staysD(1) [OF close_ok [OF c]] staysD(1) [OF graceful_ok [OF c]]
    unfolding on_simple_written_def Let_def assms(3) [symmetric] by (simp add: stays_def)
qed

lemma written_ok:
  assumes "server_ok s" "(c, w) \<in> set (sv_writes s)"
  shows "server_ok (on_written io w c p ok (s\<lparr>sv_writes := remove1 (c, w) (sv_writes s)\<rparr>))"
proof -
  let ?r = "s\<lparr>sv_writes := remove1 (c, w) (sv_writes s)\<rparr>"
  have st: "stays s (write_done c ?r)" and cin: "c \<in> set (sv_conns s)" by (rule write_done_ok [OF assms])+
  then have c: "server_ok (write_done c ?r)" "c \<in> set (sv_conns (write_done c ?r))" by (auto simp: stays_def)
  show ?thesis
  proof (cases w)
    case W_response
    with c show ?thesis
      by (simp add: on_written_def on_response_written_def Let_def after_response_ok maybe_finalize_ok)
  next
    case W_simple
    with c show ?thesis by (simp add: on_written_def simple_written_ok)
  next
    case W_sse
    with c show ?thesis
      by (simp add: on_written_def conn_on_sse_written_def Let_def maybe_finalize_ok staysD(1) [OF close_ok])
  qed
qed

lemma alloc_ok:
  assumes "server_ok s" "c \<in> set (sv_conns s)" "conn_alloc_cb io c s = (b, n, t)"
  shows "stays s t"
proof -
  obtain p s1 where g: "buf_get io s = (p, s1)" by (cases "buf_get io s")
  then have st: "stays s s1" using assms(1) by (auto simp: buf_get_def stays_fields stays_refl split: list.splits)
  have "stays s1 (on_conn c (\<lambda>k. k\<lparr>cn_read_buf := p, cn_filled := 0, cn_consumed := 0\<rparr>) s1)"
    using st assms(2) by (intro stays_conn) (auto simp: stays_def)
  with st have "stays s (on_conn c (\<lambda>k. k\<lparr>cn_read_buf := p, cn_filled := 0, cn_consumed := 0\<rparr>) s1)"
    by (rule stays_trans)
  moreover have "stays s (on_conn c (\<lambda>k. k\<lparr>cn_filled := cn_filled k - cn_consumed k, cn_consumed := 0\<rparr>) s)"
    by (rule stays_conn [OF assms(1,2)]) simp
  ultimately show ?thesis
    using assms(3) st stays_refl [OF assms(1)] by (auto simp: conn_alloc_cb_def Let_def g split: if_splits)
qed

lemma on_read_ok:
  assumes "server_ok s" "c \<in> set (sv_conns s)"
  shows "stays s (conn_on_read io c nread p s)"
proof -
  define s1 where "s1 = on_conn c (\<lambda>k. k\<lparr>cn_filled := cn_filled k + word_of_int nread\<rparr>)
      (on_stats (\<lambda>t. t\<lparr>st_bytes_read := st_bytes_read t + nread\<rparr>) s)"
  have st: "stays s s1" unfolding s1_def by (rule stats_then [OF assms]) (auto intro: stays_conn)
  obtain e s2 where ex: "llhttp_execute io c p s1 = (e, s2)" by (cases "llhttp_execute io c p s1")
  have "stays s1 s2" using execute_ok [of s1 c io p] st assms(2) ex by (simp add: stays_def)
  with st have st2: "stays s s2" by (rule stays_trans)
  have up: "stays s (on_conn c g t)" if "stays s t" "life (g (conn_of t c)) = life (conn_of t c)" for g t
    using that assms(2) by (intro stays_trans [OF that(1) stays_conn]) (auto simp: stays_def)
  have at: "stays s (on_conn c (\<lambda>k. k\<lparr>cn_consumed := cn_error_pos k - cn_read_buf k\<rparr>) s2)" (is "stays s ?e")
    by (rule up [OF st2]) simp
  have nr: "stays s (on_conn c (\<lambda>k. k\<lparr>cn_reading := False\<rparr>) ?e)"
    using at assms(2) by (intro stays_trans [OF at stop_reading_ok]) (auto simp: stays_def)
  have bad: "stays s (send_400 io c m n ?e)" for m n
    using at assms(2) by (intro stays_trans [OF at send_400_ok]) (auto simp: stays_def)
  have cl: "stays s (conn_close_and_free c s1)"
    using st assms(2) by (intro stays_trans [OF st close_ok]) (auto simp: stays_def)
  have ok: "stays s (on_conn c (\<lambda>k. k\<lparr>cn_consumed := cn_filled k\<rparr>) s2)" by (rule up [OF st2]) simp
  show ?thesis
    unfolding conn_on_read_def Let_def s1_def [symmetric] ex
    using cl st nr bad ok close_ok [OF assms] stays_refl [OF assms(1)] by (cases e) simp_all
qed

lemma closed_ok:
  assumes "server_ok s" "c \<in> set (sv_closes s)"
  shows "server_ok (conn_on_stream_closed c (s\<lparr>sv_closes := remove1 c (sv_closes s)\<rparr>))"
proof -
  let ?t = "on_conn c (\<lambda>k. k\<lparr>cn_close_cb_done := True\<rparr>) (s\<lparr>sv_closes := remove1 c (sv_closes s)\<rparr>)"
  have co: "conn_of (s\<lparr>sv_closes := l\<rparr>) d = conn_of s d" for l d by (simp add: conn_of_def)
  have lo: "lists_ok s" using assms(1) by (simp add: server_ok_def)
  have "conn_ok ?t d" for d
  proof -
    have "conn_ok s d" using assms(1) by (simp add: server_ok_def)
    with lo assms(2) show ?thesis by (auto simp: conn_ok_def Let_def co lists_ok_def set_remove1_eq)
  qed
  moreover from lo have "lists_ok ?t" by (auto simp: lists_ok_def distinct_remove1 set_remove1_eq)
  ultimately have "server_ok ?t" by (simp add: server_ok_def)
  then show ?thesis unfolding conn_on_stream_closed_def by (rule maybe_finalize_ok)
qed

text \<open>A connection number outside every list, as \<open>conn_get\<close> returns it.\<close>

lemma conn_get_fresh:
  assumes "server_ok s" "conn_get io s = (Some c, t)"
  shows "server_ok (on_conn c (\<lambda>_. conn_zero\<lparr>cn_keep_alive := True\<rparr>) t)" "c \<notin> set (sv_conns t)" "c \<notin> set (sv_conn_free t)"
    "c \<notin> set (sv_closes t)" "c < sv_next t" "writes_of (sv_writes t) c = 0"
proof -
  have lo: "lists_ok s" and co: "\<And>d. conn_ok s d" using assms(1) by (auto simp: server_ok_def)
  have "c \<notin> set (sv_conns s) \<and> c \<notin> set (sv_closes s) \<and> c < sv_next t \<and> c \<notin> set (sv_conn_free t) \<and>
      sv_writes t = sv_writes s \<and> sv_conns t = sv_conns s \<and> sv_closes t = sv_closes s \<and> lists_ok t \<and>
      (\<forall>d. d \<noteq> c \<longrightarrow> conn_of t d = conn_of s d)"
  proof (cases "sv_conn_free s")
    case (Cons d ds)
    with assms(2) lo show ?thesis by (auto simp: conn_get_def lists_ok_def conn_of_def)
  next
    case Nil
    with assms(2) have "c = sv_next s" "t = (on_conn c (\<lambda>_. conn_zero) s)\<lparr>sv_next := Suc (sv_next s)\<rparr>"
      by (auto simp: conn_get_def split: if_splits)
    with lo Nil show ?thesis by (auto simp: lists_ok_def less_Suc_eq conn_of_def on_conn_def)
  qed
  note t = this
  from t show "c \<notin> set (sv_conns t)" "c \<notin> set (sv_conn_free t)" "c \<notin> set (sv_closes t)" "c < sv_next t" by auto
  from co [of c] t show w: "writes_of (sv_writes t) c = 0" by (auto simp: conn_ok_def Let_def)
  have "conn_ok (on_conn c (\<lambda>_. conn_zero\<lparr>cn_keep_alive := True\<rparr>) t) d" for d
    using co [of d] t w by (cases "d = c") (auto simp: conn_ok_def Let_def conn_zero_def)
  moreover from t have "lists_ok t" by blast
  ultimately show "server_ok (on_conn c (\<lambda>_. conn_zero\<lparr>cn_keep_alive := True\<rparr>) t)"
    by (simp add: server_ok_def lists_ok_def)
qed

lemma connection_ok:
  assumes "server_ok s"
  shows "server_ok (cerco_connection_cb io st tcp acc s)"
proof (cases "\<not> st \<or> sv_shutting_down s")
  case True
  with assms show ?thesis by (auto simp: cerco_connection_cb_def)
next
  case run: False
  obtain o' t where g: "conn_get io s = (o', t)" by (cases "conn_get io s")
  show ?thesis
  proof (cases o')
    case None
    with g assms run show ?thesis
      by (auto simp: cerco_connection_cb_def conn_get_def split: list.splits if_splits)
  next
    case (Some c)
    note f = conn_get_fresh [OF assms g [unfolded Some]]
    define s2 where "s2 = on_conn c (\<lambda>_. conn_zero\<lparr>cn_keep_alive := True\<rparr>) t"
    have ok: "lists_ok s2" "\<And>d. conn_ok s2 d" using f(1) by (simp_all add: s2_def server_ok_def)
    have z: "conn_of s2 c = conn_zero\<lparr>cn_keep_alive := True\<rparr>" by (simp add: s2_def)
    have fr: "c \<notin> set (sv_conns s2)" "c \<notin> set (sv_conn_free s2)" "c \<notin> set (sv_closes s2)" "c < sv_next s2"
      "writes_of (sv_writes s2) c = 0" using f by (simp_all add: s2_def)
    have ci: "conn_of (conn_put c s2) d = conn_of s2 d" "conn_of (uv_close c s2) d = conn_of s2 d" for d
      by (simp_all add: conn_put_def uv_close_def conn_of_def)
    have pf: "sv_conns (conn_put c s2) = sv_conns s2" "sv_closes (conn_put c s2) = sv_closes s2"
      "sv_writes (conn_put c s2) = sv_writes s2" by (simp_all add: conn_put_def)
    have "conn_ok (conn_put c s2) d" for d using ok(2) [of d] by (simp only: conn_ok_def ci pf)
    moreover have "lists_ok (conn_put c s2)" using ok(1) fr by (auto simp: lists_ok_def conn_put_def)
    ultimately have put: "server_ok (conn_put c s2)" by (simp add: server_ok_def)
    have uf: "sv_conns (uv_close c s2) = sv_conns s2" "sv_closes (uv_close c s2) = sv_closes s2 @ [c]"
      "sv_writes (uv_close c s2) = sv_writes s2" by (simp_all add: uv_close_def)
    have "conn_ok (uv_close c s2) d" for d
      using ok(2) [of d] fr(1) unfolding conn_ok_def ci uf Let_def by (cases "d = c") auto
    moreover have "lists_ok (uv_close c s2)" using ok(1) fr by (auto simp: lists_ok_def uv_close_def)
    ultimately have cl: "server_ok (uv_close c s2)" by (simp add: server_ok_def)
    define s3 where "s3 = on_stats (\<lambda>t. t\<lparr>st_active_conns := st_active_conns t + 1, st_total_conns := st_total_conns t + 1\<rparr>)
        (s2\<lparr>sv_conns := c # sv_conns s2, sv_n_conns := sv_n_conns s2 + 1\<rparr>)"
    have c3: "conn_of s3 d = conn_of s2 d" for d by (simp add: s3_def) (simp add: conn_of_def)
    have ok3: "server_ok s3"
    proof -
      have sf: "sv_conns s3 = c # sv_conns s2" "sv_closes s3 = sv_closes s2" "sv_writes s3 = sv_writes s2"
        by (simp_all add: s3_def)
      have "conn_ok s3 d" for d
      proof (cases "d = c")
        case True
        with fr z show ?thesis unfolding conn_ok_def c3 sf Let_def by (simp add: conn_zero_def)
      next
        case False
        with ok(2) [of d] show ?thesis unfolding conn_ok_def c3 sf Let_def by simp
      qed
      moreover have "lists_ok s3" using ok(1) fr by (auto simp: lists_ok_def s3_def)
      ultimately show ?thesis by (simp add: server_ok_def)
    qed
    have in3: "c \<in> set (sv_conns s3)" by (simp add: s3_def)
    let ?f = "\<lambda>k. k\<lparr>cn_phase := PHASE_HEADERS, cn_deadline_ms := deadline io (cf_header_timeout_ms (sv_cfg s))\<rparr>"
    have "server_ok (conn_send_simple io c 503 None (''server busy'' @ [CHR 0x0A]) True (on_conn c ?f s3))"
      by (rule staysD(1) [OF conn_then [OF ok3 in3]]) (simp_all add: send_simple_ok)
    moreover have "server_ok (on_conn c start_reading (on_conn c ?f s3))"
      by (rule staysD(1) [OF conn_reading_ok [OF stays_refl [OF ok3] in3]]) simp
    ultimately show ?thesis
      using run g Some put maybe_finalize_ok [OF cl]
      by (simp add: cerco_connection_cb_def Let_def s2_def [symmetric] s3_def [symmetric])
  qed
qed

lemma deadline_pass_ok:
  assumes "server_ok s" "c \<in> set (sv_conns s)"
  shows "stays s (conn_deadline_pass c s)"
  unfolding conn_deadline_pass_def by (rule conn_then [OF assms]) (simp_all add: close_ok)

lemma sweep_deadlines_ok: "server_ok s \<Longrightarrow> stays s (conn_sweep_deadlines io s)"
  unfolding conn_sweep_deadlines_def
  by (rule fold_stays) (auto simp: deadline_pass_ok stays_refl)

lemma on_sweep_ok:
  assumes "server_ok s" "on_sweep io mtime lm s = (lm', t)"
  shows "server_ok t"
proof -
  let ?g = "\<lambda>t. t\<lparr>st_event_loop_lag_ms := max 0 (io_now io - sv_sweep_last s - 1000)\<rparr>"
  define s1 where "s1 = (if sv_sweep_last s \<noteq> 0 then on_stats ?g s else s)"
  have "server_ok (on_stats ?g s)" by (rule staysD(1) [OF stays_stats [OF assms(1)]]) simp
  then have "server_ok s1" using assms(1) by (simp add: s1_def)
  then have "server_ok (s1\<lparr>sv_sweep_last := io_now io\<rparr>)" by (rule staysD(1) [OF stays_fields(4)])
  then have ok: "server_ok (conn_sweep_deadlines io (s1\<lparr>sv_sweep_last := io_now io\<rparr>))"
    by (rule staysD(1) [OF sweep_deadlines_ok])
  then have "\<not> cf_dev_mode (sv_cfg (conn_sweep_deadlines io (s1\<lparr>sv_sweep_last := io_now io\<rparr>)))"
    by (simp add: server_ok_def lists_ok_def)
  with assms(2) staysD(1) [OF stays_fields(5) [OF ok]] ok show ?thesis
    unfolding on_sweep_def Let_def s1_def [symmetric] by (auto split: if_splits)
qed

lemma shutdown_ok:
  assumes "server_ok s"
  shows "server_ok (start_shutdown io s)"
proof (cases "sv_shutting_down s")
  case True
  with assms show ?thesis by (simp add: start_shutdown_def)
next
  case False
  let ?s = "s\<lparr>sv_shutting_down := True, sv_shutdown_started := io_now io, sv_listening := False\<rparr>"
  let ?f = "\<lambda>c s. let k = conn_of s c in
      if cn_phase k = PHASE_IDLE \<or> cn_phase k = PHASE_HEADERS \<or> cn_phase k = PHASE_BODY
      then conn_close_and_free c s
      else if cn_req k \<noteq> None then on_conn c (\<lambda>k. (cancel_req k)\<lparr>cn_force_close := True\<rparr>) s else s"
  have s: "stays s ?s" by (rule stays_same [OF assms]) simp_all
  have "stays ?s (fold ?f (sv_conns ?s) ?s)"
    by (rule fold_stays [OF staysD(1) [OF s]]) (auto simp: Let_def close_ok stays_refl intro: stays_conn)
  with False show ?thesis by (simp add: start_shutdown_def Let_def stays_def)
qed

lemma drain_ok:
  assumes "server_ok s" "drain_completion io af tot c s = Some t"
  shows "server_ok t"
proof -
  from assms(2) obtain r where r: "cn_req (conn_of s c) = Some r"
    by (auto simp: drain_completion_def Let_def split: option.splits)
  let ?k = "conn_of s c"
  show ?thesis
  proof (cases "complete_req (ae_al (sv_app s)) (sv_cfg s) af (cn_finalized ?k \<or> cn_closing ?k) r")
    case None
    with assms r show ?thesis by (auto simp: drain_completion_def Let_def maybe_finalize_ok split: if_splits)
  next
    case (Some r')
    then have "\<not> cn_finalized ?k" by (auto simp: complete_req_def)
    moreover have "conn_ok s c" using assms(1) by (simp add: server_ok_def)
    ultimately have cin: "c \<in> set (sv_conns s)" using r by (auto simp: conn_ok_def Let_def split: if_splits)
    let ?g = "\<lambda>t. t\<lparr>st_arena_hwm := int (arena_hwm_update tot (nat (st_arena_hwm t)))\<rparr>"
    have c: "stays u (conn_start_response io c (on_conn c (\<lambda>k. k\<lparr>cn_req := Some r'\<rparr>) u))"
      if "server_ok u" "c \<in> set (sv_conns u)" for u
      by (rule conn_then [OF that]) (simp_all add: start_response_ok)
    have "stays s (conn_start_response io c (on_conn c (\<lambda>k. k\<lparr>cn_req := Some r'\<rparr>) (on_stats ?g s)))"
      by (rule stats_then [OF assms(1) cin]) (simp_all add: c)
    with assms(2) r Some show ?thesis by (auto simp: drain_completion_def Let_def stays_def)
  qed
qed

lemma finish_ok:
  assumes "server_ok s"
  shows "server_ok (on_conn c (\<lambda>k. k\<lparr>cn_req := map_option g (cn_req k)\<rparr>) s)"
proof -
  have "conn_ok (on_conn c (\<lambda>k. k\<lparr>cn_req := map_option g (cn_req k)\<rparr>) s) d" for d
    using assms unfolding server_ok_def conn_ok_def by (auto simp: Let_def)
  then show ?thesis using assms by (simp add: server_ok_def lists_ok_def)
qed

lemma step_ok:
  assumes "server_step h s t" "server_ok s"
  shows "server_ok t"
  using assms(1)
proof cases
  case (accept io st tcp acc)
  with assms(2) show ?thesis by (simp add: connection_ok)
next
  case (read_data c io base len s1 nread p)
  have "conn_ok s c" using assms(2) by (simp add: server_ok_def)
  with read_data(2) have "c \<in> set (sv_conns s)" by (auto simp: conn_ok_def Let_def split: if_splits)
  with alloc_ok [OF assms(2) this read_data(3)] have "server_ok s1" "c \<in> set (sv_conns s1)" by (simp_all add: stays_def)
  then show ?thesis unfolding read_data(1) by (rule staysD(1) [OF on_read_ok])
next
  case (written c w io p ok)
  with assms(2) show ?thesis by (simp add: written_ok)
next
  case (closed c)
  with assms(2) show ?thesis by (simp add: closed_ok)
next
  case (sweep io mtime lm lm')
  with assms(2) show ?thesis using on_sweep_ok by blast
next
  case (signal io)
  with assms(2) show ?thesis by (simp add: shutdown_ok)
next
  case (take_job c p)
  with assms(2) show ?thesis using staysD(1) [OF stays_fields(1)] by blast
next
  case (finish c)
  with finish_ok staysD(1) [OF stays_fields(1) [OF assms(2)]] show ?thesis by blast
next
  case (drain c p io af tot)
  with drain_ok staysD(1) [OF stays_fields(1) [OF assms(2)]] show ?thesis by blast
qed

definition production_start :: "cerco_server \<Rightarrow> bool" where
  "production_start s = (server_start s \<and> \<not> cf_dev_mode (sv_cfg s))"

lemma server_zero_ok: "\<not> cf_dev_mode (ae_cfg e) \<Longrightarrow> server_ok (server_zero e p)"
  by (simp add: server_zero_def server_ok_def lists_ok_def conn_ok_def conn_of_def conn_zero_def stats_zero_def Let_def)

lemma serve_start_zero:
  assumes "cerco_serve_start ra pool_ra created lib routes e = Some s"
  shows "\<exists>rt p. s = server_zero (e\<lparr>ae_rt := rt\<rparr>) p \<and> router_init ra routes = Some rt \<and>
    wpool_start pool_ra created (nat (cf_workers (ae_cfg e))) (unat (cf_work_queue (ae_cfg e))) = Some p"
proof (cases "router_init ra routes")
  case None
  with assms show ?thesis by (simp add: cerco_serve_start_def)
next
  case (Some rt)
  with assms show ?thesis
    by (cases "wpool_start pool_ra created (nat (cf_workers (ae_cfg e))) (unat (cf_work_queue (ae_cfg e)))")
      (simp_all add: cerco_serve_start_def split: if_splits)
qed

lemma start_ok: "production_start s \<Longrightarrow> server_ok s"
proof -
  assume "production_start s"
  moreover from this obtain e p where "s = server_zero e p"
    unfolding production_start_def server_start_def using serve_start_zero by blast
  moreover have "sv_cfg (server_zero e p) = ae_cfg e" for e p by (simp add: server_zero_def)
  ultimately show ?thesis by (simp add: production_start_def server_zero_ok)
qed

interpretation server_sys: transition_system production_start "server_step h" server_ok
  by unfold_locales (auto intro: start_ok step_ok)

subsection \<open>Properties\<close>


end
