(* ===== verification/Conn_Traces.thy ===== *)
theory Conn_Traces
  imports Conn_Safety
begin

text \<open>
  Concrete runs of the server: a client connects, sends requests and goes away. They show that
  the documented rules on worker references and on pipelining do not hold.
\<close>

subsection \<open>The example server and its client\<close>

definition io0 :: io_env where
  "io0 = \<lparr>io_now = 0, io_malloc = (\<lambda>_. True), io_buf = 65536, io_write = (\<lambda>_. True)\<rparr>"

definition pool0 :: wpool where
  "pool0 = \<lparr>wp_jobs = ring_init 1024, wp_running = [], wp_done = ring_init 1024, wp_n_threads = 1,
     wp_shutdown = False, wp_queued_jobs = 0, wp_completed_jobs = 0\<rparr>"

definition example_start :: cerco_server where
  "example_start = server_zero example_env pool0"

text \<open>A whole GET request in one read, and the same with a second request behind it.\<close>

definition get_events :: "string \<Rightarrow> parse_event list" where
  "get_events url = [Message_begin, Method_seen ''GET'', Url_data url, Headers_complete 0 False, Message_complete True]"

definition one_get :: parse where
  "one_get = \<lparr>pa_events = get_events ''/'', pa_end = HPE_OK, pa_error_pos = 0\<rparr>"

definition two_gets :: parse where
  "two_gets = \<lparr>pa_events = get_events ''/'' @ get_events ''/other'', pa_end = HPE_OK, pa_error_pos = 0\<rparr>"

lemma example_cfg:
  "cf_work_queue (ae_cfg example_env) = 1024" "cf_max_connections (ae_cfg example_env) = 10000"
  "\<not> cf_dev_mode (ae_cfg example_env)" "cf_workers (ae_cfg example_env) = 1"
proof -
  have "cerco_parse_i64 [] = None" by (simp add: cerco_parse_i64_def)
  then show "cf_work_queue (ae_cfg example_env) = 1024" "cf_max_connections (ae_cfg example_env) = 10000"
      "\<not> cf_dev_mode (ae_cfg example_env)" "cf_workers (ae_cfg example_env) = 1"
    by (simp_all add: example_env_def cerco_config_from_env_def config_queue_def config_clamped_def config_workers_def
        env_or_def cerco_cpu_count_def lower_def in_range_def)
qed

lemma example_started: "production_start example_start"
proof -
  have r: "router_init lasts [\<lparr>re_method = ''GET'', re_path = ''/'', re_fn = 3\<rparr>] = Some (ae_rt example_env)"
    by (simp add: parse_route_def skip_slash_def char_at_def CERCO_RT_MAX_SEGS_def numeral_eq_Suc example_env_def)
  have p: "wpool_start (True, True, True) 1 (nat (cf_workers (ae_cfg example_env))) (unat (cf_work_queue (ae_cfg example_env)))
      = Some pool0"
    by (simp add: example_cfg wpool_start_def pool0_def)
  have "example_env\<lparr>ae_rt := ae_rt example_env\<rparr> = example_env" by simp
  with r p have "cerco_serve_start lasts (True, True, True) 1 [] [\<lparr>re_method = ''GET'', re_path = ''/'', re_fn = 3\<rparr>] example_env
      = Some example_start"
    by (simp add: cerco_serve_start_def example_start_def)
  moreover have "\<not> cf_dev_mode (sv_cfg example_start)" by (simp add: example_start_def server_zero_def example_cfg)
  ultimately show ?thesis unfolding production_start_def server_start_def by blast
qed

text \<open>The server once the client has connected.\<close>

definition connected :: cerco_server where
  "connected = cerco_connection_cb io0 True True True example_start"

lemma connected_step: "server_step h example_start connected"
  unfolding connected_def by (rule server_step.accept) (simp add: example_start_def server_zero_def)

lemma connected_view:
  "conn_of connected 0 = conn_zero\<lparr>cn_keep_alive := True,
     cn_deadline_ms := deadline io0 (cf_header_timeout_ms (ae_cfg example_env)), cn_reading := True\<rparr>"
  "sv_conns connected = [0]" "sv_conn_free connected = []" "sv_pool connected = pool0" "sv_app connected = example_env"
  "sv_buf_free connected = []" "sv_writes connected = []" "sv_closes connected = []"
  by (simp_all add: connected_def cerco_connection_cb_def example_start_def server_zero_def conn_get_def io0_def Let_def
      start_reading_def conn_of_def on_conn_def on_stats_def example_cfg conn_zero_def)

lemma root_decodes:
  "req_target_path (ae_al example_env) ((req_setup 0)\<lparr>rq_method := Some ''GET'', rq_target := Some ''/''\<rparr>)
     = (0, example_get (Some ''/'') None)"
  by (simp add: req_target_path_def req_setup_def req_zero_def example_env_def target_path_part_def cerco_url_decode_def example_get_def
      Let_def CERCO_MAX_URL_def)

lemma other_keeps_path:
  "req_target_path al (example_get t h) = (0, example_get t h)"
  by (simp add: req_target_path_def example_get_def)

lemma conn_of_fields [simp]:
  "conn_of (s\<lparr>sv_closes := l\<rparr>) c = conn_of s c" "conn_of (s\<lparr>sv_pool := q\<rparr>) c = conn_of s c"
  by (simp_all add: conn_of_def)

lemma on_conn_const [simp]: "on_conn c (\<lambda>_. k) (on_conn c g s) = on_conn c (\<lambda>_. k) s"
  by (simp add: on_conn_def)

text \<open>A complete message for the root path goes to a worker.\<close>

lemma complete_to_worker:
  assumes "sv_app s = example_env" "fst (wpool_try_submit 0 (sv_pool s))" "cn_req (conn_of s 0) = Some r"
    and "message_target example_env ((conn_of s 0)\<lparr>cn_msg_completed := cn_msg_completed (conn_of s 0) + 1, cn_keep_alive := True\<rparr>) r
      = (False, k)" "cn_req k = Some (example_get tgt h)" "cn_bad k = 0"
  shows "\<exists>t. on_message_complete io0 0 True s = (False, t) \<and> sv_app t = example_env \<and>
           conn_of t 0 = llhttp_pause (k\<lparr>cn_req := Some (example_get tgt (Some 3))\<rparr>) \<and>
           sv_pool t = snd (wpool_try_submit 0 (sv_pool s)) \<and>
           sv_conns t = sv_conns s \<and> sv_conn_free t = sv_conn_free s \<and> sv_writes t = sv_writes s \<and> sv_closes t = sv_closes s"
proof -
  have e: "example_env\<lparr>ae_submit := True, ae_stats := vs\<rparr> = (sv_app s)\<lparr>ae_submit := fst (wpool_try_submit 0 (sv_pool s)), ae_stats := vs\<rparr>" for vs
    using assms(1,2) by simp
  show ?thesis
    using assms by (simp add: on_message_complete_def Let_def dispatch_conn_def apply_reply_def example_dispatch e [symmetric])
qed

text \<open>The connection after the dispatch of the first, and of the second message of the same read.\<close>

definition waiting :: "string option \<Rightarrow> bool \<Rightarrow> int \<Rightarrow> cerco_conn \<Rightarrow> cerco_conn" where
  "waiting t fc n k = k\<lparr>cn_parser_error := HPE_PAUSED, cn_method := ''GET'', cn_arena := True,
     cn_req := Some (example_get t (Some 3)), cn_phase := PHASE_BODY,
     cn_deadline_ms := deadline io0 (cf_body_timeout_ms (ae_cfg example_env)), cn_keep_alive := True,
     cn_force_close := fc, cn_msg_started := 1, cn_msg_completed := n\<rparr>"

lemma run_callbacks_Cons: "run_callbacks io c (ev # evs) s =
    (if fst (run_callback io c ev s) then (True, snd (run_callback io c ev s))
     else run_callbacks io c evs (snd (run_callback io c ev s)))"
  by (simp split: prod.splits bool.splits)

lemma example_oracles [simp]: "ae_al example_env n" "io_malloc io0 n"
  by (simp_all add: example_env_def io0_def)

lemma first_get:
  assumes "sv_app s = example_env" "fst (wpool_try_submit 0 (sv_pool s))"
    and "conn_of s 0 = conn_zero\<lparr>cn_keep_alive := True, cn_deadline_ms := d, cn_reading := True, cn_read_buf := b, cn_filled := n\<rparr>"
  shows "\<exists>t. run_callbacks io0 0 (get_events ''/'') s = (False, t) \<and> sv_app t = example_env \<and>
           conn_of t 0 = waiting (Some ''/'') False 1 (conn_of s 0) \<and> sv_pool t = snd (wpool_try_submit 0 (sv_pool s)) \<and>
           sv_conns t = sv_conns s \<and> sv_conn_free t = sv_conn_free s \<and> sv_writes t = sv_writes s \<and> sv_closes t = sv_closes s"
proof -
  define k where "k = (conn_of s 0)\<lparr>cn_arena := True, cn_req := Some (req_setup 0), cn_msg_started := 1, cn_method := ''GET'',
      cn_url := ''/'', cn_phase := PHASE_BODY, cn_deadline_ms := deadline io0 (cf_body_timeout_ms (ae_cfg example_env))\<rparr>"
  have ev: "run_callbacks io0 0 (get_events ''/'') s = run_callbacks io0 0 [Message_complete True] (on_conn 0 (\<lambda>_. k) s)"
    using assms(1,3)
    by (simp add: get_events_def run_callbacks_Cons run_callback_def conn_callback_def on_message_begin_def on_url_def
        on_headers_complete_def commit_header_def req_finish_headers_def Let_def conn_zero_def k_def CERCO_MAX_URL_def
        stage_put_def del: run_callbacks.simps(2))
  have mt: "message_target example_env (k\<lparr>cn_msg_completed := 1, cn_keep_alive := True\<rparr>) (req_setup 0)
      = (False, k\<lparr>cn_msg_completed := 1, cn_keep_alive := True, cn_url := [], cn_req := Some (example_get (Some ''/'') None)\<rparr>)"
    by (simp add: message_target_def Let_def k_def root_decodes)
  have "\<exists>t. on_message_complete io0 0 True (on_conn 0 (\<lambda>_. k) s) = (False, t) \<and> sv_app t = example_env \<and>
      conn_of t 0 = llhttp_pause (k\<lparr>cn_msg_completed := 1, cn_keep_alive := True, cn_url := [],
        cn_req := Some (example_get (Some ''/'') None)\<rparr>\<lparr>cn_req := Some (example_get (Some ''/'') (Some 3))\<rparr>) \<and>
      sv_pool t = snd (wpool_try_submit 0 (sv_pool s)) \<and>
      sv_conns t = sv_conns s \<and> sv_conn_free t = sv_conn_free s \<and> sv_writes t = sv_writes s \<and> sv_closes t = sv_closes s"
    using complete_to_worker [of "on_conn 0 (\<lambda>_. k) s" "req_setup 0"
        "k\<lparr>cn_msg_completed := 1, cn_keep_alive := True, cn_url := [], cn_req := Some (example_get (Some ''/'') None)\<rparr>" "Some ''/''"]
      assms mt by (simp add: k_def conn_zero_def)
  then show ?thesis
    using assms(3) by (auto simp: ev run_callback_def waiting_def llhttp_pause_def k_def conn_zero_def)
qed

lemma second_get:
  assumes "sv_app s = example_env" "fst (wpool_try_submit 0 (sv_pool s))"
    and "conn_of s 0 = waiting (Some ''/'') False 1 k0" "cn_stage k0 = \<lparr>hs_f = [], hs_v = [], hs_in_value = False, hs_bad = 0\<rparr>"
      "cn_url k0 = []"
  shows "\<exists>t. run_callbacks io0 0 (get_events ''/other'') s = (False, t) \<and> sv_app t = example_env \<and>
           conn_of t 0 = waiting (Some ''/other'') True 2 k0 \<and> sv_pool t = snd (wpool_try_submit 0 (sv_pool s)) \<and>
           sv_conns t = sv_conns s \<and> sv_conn_free t = sv_conn_free s \<and> sv_writes t = sv_writes s \<and> sv_closes t = sv_closes s"
proof -
  let ?r = "example_get (Some ''/'') (Some 3)"
  define k where "k = (waiting (Some ''/'') True 1 k0)\<lparr>cn_url := ''/other''\<rparr>"
  have "(waiting (Some ''/'') False 1 k0)\<lparr>cn_force_close := True, cn_method := ''GET'', cn_url := ''/other'',
      cn_req := Some ?r, cn_stage := (cn_stage k0)\<lparr>hs_in_value := False\<rparr>,
      cn_phase := PHASE_BODY, cn_deadline_ms := deadline io0 (cf_body_timeout_ms (ae_cfg example_env))\<rparr> = k"
    using assms(4) by (simp add: waiting_def k_def)
  then have ev: "run_callbacks io0 0 (get_events ''/other'') s = run_callbacks io0 0 [Message_complete True] (on_conn 0 (\<lambda>_. k) s)"
    using assms
    by (simp add: get_events_def run_callbacks_Cons run_callback_def conn_callback_def on_message_begin_def on_url_def
        on_headers_complete_def commit_header_def req_finish_headers_def Let_def CERCO_MAX_URL_def waiting_def
        stage_put_def del: run_callbacks.simps(2))
  let ?k = "k\<lparr>cn_msg_completed := 2, cn_keep_alive := True, cn_url := [], cn_req := Some (example_get (Some ''/other'') (Some 3))\<rparr>"
  have "?r\<lparr>rq_method := Some ''GET'', rq_target := Some ''/other''\<rparr> = example_get (Some ''/other'') (Some 3)"
    by (simp add: example_get_def)
  then have mt: "message_target example_env (k\<lparr>cn_msg_completed := 2, cn_keep_alive := True\<rparr>) ?r = (False, ?k)"
    by (simp add: message_target_def Let_def k_def waiting_def other_keeps_path)
  have "\<exists>t. on_message_complete io0 0 True (on_conn 0 (\<lambda>_. k) s) = (False, t) \<and> sv_app t = example_env \<and>
      conn_of t 0 = llhttp_pause (?k\<lparr>cn_req := Some (example_get (Some ''/other'') (Some 3))\<rparr>) \<and>
      sv_pool t = snd (wpool_try_submit 0 (sv_pool s)) \<and>
      sv_conns t = sv_conns s \<and> sv_conn_free t = sv_conn_free s \<and> sv_writes t = sv_writes s \<and> sv_closes t = sv_closes s"
    using complete_to_worker [of "on_conn 0 (\<lambda>_. k) s" ?r ?k "Some ''/other''" "Some 3"] assms mt
    by (simp add: k_def waiting_def)
  then show ?thesis
    using assms(5) by (auto simp: ev run_callback_def waiting_def llhttp_pause_def k_def)
qed

subsection \<open>Reading a request\<close>

definition after_read :: "parse \<Rightarrow> cerco_server" where
  "after_read p = conn_on_read io0 0 100 p (snd (snd (conn_alloc_cb io0 0 connected)))"

lemma read_step: "server_step h connected (after_read p)"
proof -
  obtain b n a where al: "conn_alloc_cb io0 0 connected = (b, n, a)" by (cases "conn_alloc_cb io0 0 connected")
  then have "n = 16384"
    by (simp add: conn_alloc_cb_def Let_def buf_get_def connected_view io0_def conn_zero_def CERCO_READ_BUF_def)
  then have "(100 :: int) \<le> uint n" by simp
  with al show ?thesis
    unfolding after_read_def al snd_conv
    by (intro server_step.read_data [OF _ al]) (simp_all add: connected_view)
qed

text \<open>The state the parser starts from.\<close>

definition read_state :: cerco_server where
  "read_state = on_conn 0 (\<lambda>k. k\<lparr>cn_filled := cn_filled k + 100\<rparr>)
     (on_stats (\<lambda>t. t\<lparr>st_bytes_read := st_bytes_read t + 100\<rparr>) (snd (snd (conn_alloc_cb io0 0 connected))))"

lemma alloc_view:
  "snd (snd (conn_alloc_cb io0 0 connected)) = on_conn 0 (\<lambda>k. k\<lparr>cn_read_buf := 65536, cn_filled := 0, cn_consumed := 0\<rparr>) connected"
  by (simp add: conn_alloc_cb_def Let_def buf_get_def connected_view io0_def conn_zero_def)

lemma read_view:
  "conn_of read_state 0 = conn_zero\<lparr>cn_keep_alive := True,
     cn_deadline_ms := deadline io0 (cf_header_timeout_ms (ae_cfg example_env)), cn_reading := True, cn_read_buf := 65536, cn_filled := 100\<rparr>"
  "sv_app read_state = example_env" "sv_pool read_state = pool0" "sv_conns read_state = [0]" "sv_conn_free read_state = []"
  "sv_writes read_state = []" "sv_closes read_state = []"
  by (simp_all add: read_state_def alloc_view connected_view conn_zero_def)

lemma after_read_ok:
  assumes "llhttp_execute io0 0 p read_state = (HPE_OK, t)"
  shows "after_read p = on_conn 0 (\<lambda>k. k\<lparr>cn_consumed := cn_filled k\<rparr>) t"
  using assms read_view(1)
  by (simp add: after_read_def conn_on_read_def Let_def read_state_def [symmetric] conn_zero_def)

lemma submit_room:
  assumes "\<not> wp_shutdown p" "rg_count (wp_jobs p) < ring_cap (wp_jobs p)"
  shows "wpool_try_submit c p = (True, p\<lparr>wp_jobs := ring_push c (wp_jobs p), wp_queued_jobs := wp_queued_jobs p + 1\<rparr>)"
  using assms by (simp add: wpool_try_submit_def)

definition pool1 :: wpool where "pool1 = pool0\<lparr>wp_jobs := ring_push 0 (ring_init 1024), wp_queued_jobs := 1\<rparr>"
definition pool2 :: wpool where "pool2 = pool1\<lparr>wp_jobs := ring_push 0 (wp_jobs pool1), wp_queued_jobs := 2\<rparr>"

lemma pool_views:
  "wpool_try_submit 0 pool0 = (True, pool1)" "wpool_try_submit 0 pool1 = (True, pool2)"
  "ring_ok (wp_jobs pool1)" "ring_contents (wp_jobs pool1) = [0]" "ring_contents (wp_jobs pool2) = [0, 0]"
proof -
  have "ring_ok (ring_init 1024 :: nat ring) \<and> ring_contents (ring_init 1024 :: nat ring) = [] \<and> ring_cap (ring_init 1024 :: nat ring) = 1024"
    by (rule ring_init_ok) simp
  then have i: "ring_ok (ring_init 1024 :: nat ring)" "ring_contents (ring_init 1024 :: nat ring) = []"
    "ring_cap (ring_init 1024 :: nat ring) = 1024" "rg_count (ring_init 1024 :: nat ring) = 0"
    using length_ring_contents [of "ring_init 1024 :: nat ring"] by simp_all
  with ring_push_ok [of "ring_init 1024" "0 :: nat"] have
    p: "ring_ok (ring_push 0 (ring_init 1024 :: nat ring))" "ring_contents (ring_push 0 (ring_init 1024 :: nat ring)) = [0]"
    by simp_all
  have c: "rg_count (ring_push 0 (ring_init 1024 :: nat ring)) = 1" using length_ring_contents [of "ring_push 0 (ring_init 1024 :: nat ring)"] p by simp
  show "wpool_try_submit 0 pool0 = (True, pool1)"
    using i by (simp add: submit_room pool0_def pool1_def)
  show "wpool_try_submit 0 pool1 = (True, pool2)"
    using i c by (subst submit_room) (simp_all add: pool1_def pool2_def, simp_all add: pool0_def)
  show "ring_ok (wp_jobs pool1)" "ring_contents (wp_jobs pool1) = [0]" using p by (simp_all add: pool1_def)
  show "ring_contents (wp_jobs pool2) = [0, 0]"
    using ring_push_ok [OF p(1), of 0] p c i by (simp add: pool2_def pool1_def)
qed

text \<open>After one request in one read, the request waits in the job queue.\<close>

lemma one_get_view:
  "conn_of (after_read one_get) 0 =
     (waiting (Some ''/'') False 1 (conn_of read_state 0))\<lparr>cn_consumed := 100\<rparr>"
  "sv_pool (after_read one_get) = pool1" "sv_conns (after_read one_get) = [0]" "sv_conn_free (after_read one_get) = []"
  "sv_writes (after_read one_get) = []" "sv_closes (after_read one_get) = []" "sv_app (after_read one_get) = example_env"
proof -
  obtain t where t: "run_callbacks io0 0 (get_events ''/'') read_state = (False, t)" "sv_app t = example_env"
    "conn_of t 0 = waiting (Some ''/'') False 1 (conn_of read_state 0)" "sv_pool t = pool1"
    "sv_conns t = [0]" "sv_conn_free t = []" "sv_writes t = []" "sv_closes t = []"
    using first_get [OF read_view(2) _ read_view(1)] read_view(3-) pool_views(1) by auto
  have "llhttp_execute io0 0 one_get read_state = (HPE_OK, t)"
    using t(1) by (simp add: llhttp_execute_def read_view conn_zero_def one_get_def)
  from after_read_ok [OF this] t
  show "conn_of (after_read one_get) 0 = (waiting (Some ''/'') False 1 (conn_of read_state 0))\<lparr>cn_consumed := 100\<rparr>"
    "sv_pool (after_read one_get) = pool1" "sv_conns (after_read one_get) = [0]" "sv_conn_free (after_read one_get) = []"
    "sv_writes (after_read one_get) = []" "sv_closes (after_read one_get) = []" "sv_app (after_read one_get) = example_env"
    by (simp_all add: read_view waiting_def conn_zero_def)
qed

text \<open>Two requests in one read put the same request into the queue twice.\<close>

lemma two_gets_view:
  "conn_of (after_read two_gets) 0 =
     (waiting (Some ''/other'') True 2 (conn_of read_state 0))\<lparr>cn_consumed := 100\<rparr>"
  "sv_pool (after_read two_gets) = pool2"
proof -
  obtain t where t: "run_callbacks io0 0 (get_events ''/'') read_state = (False, t)" "sv_app t = example_env"
    "conn_of t 0 = waiting (Some ''/'') False 1 (conn_of read_state 0)" "sv_pool t = pool1"
    using first_get [OF read_view(2) _ read_view(1)] read_view(3-) pool_views(1) by auto
  obtain u where u: "run_callbacks io0 0 (get_events ''/other'') t = (False, u)"
    "conn_of u 0 = waiting (Some ''/other'') True 2 (conn_of read_state 0)" "sv_pool u = pool2"
    using second_get [OF t(2) _ t(3)] t(4) pool_views(2) by (auto simp: read_view conn_zero_def)
  have app: "run_callbacks io c (xs @ ys) s = (case run_callbacks io c xs s of (True, s') \<Rightarrow> (True, s') | (False, s') \<Rightarrow> run_callbacks io c ys s')"
    for io c xs ys s
    by (induction xs arbitrary: s) (auto split: prod.splits bool.splits)
  have "llhttp_execute io0 0 two_gets read_state = (HPE_OK, u)"
    using t(1) u(1) by (simp add: llhttp_execute_def read_view conn_zero_def two_gets_def app)
  from after_read_ok [OF this] u
  show "conn_of (after_read two_gets) 0 = (waiting (Some ''/other'') True 2 (conn_of read_state 0))\<lparr>cn_consumed := 100\<rparr>"
    "sv_pool (after_read two_gets) = pool2"
    by (simp_all add: read_view waiting_def conn_zero_def)
qed

lemma reach_read: "(server_step h)\<^sup>*\<^sup>* example_start (after_read p)"
  by (meson connected_step read_step rtranclp.rtrancl_refl rtranclp.rtrancl_into_rtrancl)

subsection \<open>A worker outlives its connection\<close>

definition taken :: cerco_server where
  "taken = (after_read one_get)\<lparr>sv_pool := pool1\<lparr>wp_jobs := snd (ring_pop (wp_jobs pool1)), wp_running := [0], wp_queued_jobs := 0\<rparr>\<rparr>"

lemma taken_step: "server_step h (after_read one_get) taken"
proof -
  have f: "fst (ring_pop (wp_jobs pool1)) = Some 0" using ring_pop_ok [OF pool_views(3,4)] by simp
  then obtain q where q: "ring_pop (wp_jobs pool1) = (Some 0, q)" by (cases "ring_pop (wp_jobs pool1)") auto
  have "rg_count (wp_jobs pool1) = 1" using length_ring_contents [of "wp_jobs pool1"] by (simp add: pool_views)
  moreover have p: "wp_running pool1 = []" "wp_n_threads pool1 = 1" "wp_queued_jobs pool1 = 1" by (simp_all add: pool1_def pool0_def)
  ultimately have "worker_take pool1 = Worker_runs 0 (pool1\<lparr>wp_jobs := snd (ring_pop (wp_jobs pool1)), wp_running := [0], wp_queued_jobs := 0\<rparr>)"
    using q by (simp add: worker_take_def)
  then show ?thesis
    unfolding taken_def by (intro server_step.take_job) (simp_all add: one_get_view p)
qed

text \<open>The client goes away: the read fails, and the handle is closed.\<close>

definition gone :: cerco_server where
  "gone = conn_on_read io0 0 (-1) one_get (snd (snd (conn_alloc_cb io0 0 taken)))"

lemma gone_step: "server_step h taken gone"
proof -
  obtain b n a where al: "conn_alloc_cb io0 0 taken = (b, n, a)" by (cases "conn_alloc_cb io0 0 taken")
  have "cn_reading (conn_of taken 0)"
    using one_get_view(1) by (simp add: taken_def conn_of_def read_view [unfolded conn_of_def] waiting_def)
  moreover have "(- 1 :: int) \<le> uint n" using uint_ge_0 [of n] by linarith
  ultimately show ?thesis
    unfolding gone_def al snd_conv by (intro server_step.read_data [OF _ al])
qed

definition collected :: cerco_server where
  "collected = conn_on_stream_closed 0 (gone\<lparr>sv_closes := remove1 0 (sv_closes gone)\<rparr>)"

lemma taken_view:
  "conn_of taken 0 = (waiting (Some ''/'') False 1 (conn_of read_state 0))\<lparr>cn_consumed := 100\<rparr>"
  "sv_conns taken = [0]" "sv_conn_free taken = []" "sv_writes taken = []" "sv_closes taken = []"
  "wp_running (sv_pool taken) = [0]"
  using one_get_view by (simp_all add: taken_def conn_of_def)

lemma gone_view:
  "cn_closing (conn_of gone 0)" "\<not> cn_finalized (conn_of gone 0)" "cn_pending_writes (conn_of gone 0) = 0"
  "cn_phase (conn_of gone 0) = PHASE_BODY" "sv_conns gone = [0]" "sv_conn_free gone = []" "sv_closes gone = [0]"
  "sv_pool gone = sv_pool taken"
proof -
  have al: "snd (snd (conn_alloc_cb io0 0 taken)) = on_conn 0 (\<lambda>k. k\<lparr>cn_filled := cn_filled k - cn_consumed k, cn_consumed := 0\<rparr>) taken"
    by (simp add: conn_alloc_cb_def Let_def taken_view waiting_def read_view conn_zero_def)
  show "cn_closing (conn_of gone 0)" "\<not> cn_finalized (conn_of gone 0)" "cn_pending_writes (conn_of gone 0) = 0"
    "cn_phase (conn_of gone 0) = PHASE_BODY" "sv_conns gone = [0]" "sv_conn_free gone = []" "sv_closes gone = [0]"
    "sv_pool gone = sv_pool taken"
    by (simp_all add: gone_def al conn_on_read_def conn_close_and_free_def Let_def taken_view waiting_def read_view conn_zero_def
        conn_maybe_finalize_def uv_close_def cancel_req_def)
qed

lemma finalize_pool: "sv_pool (conn_finalize c s) = sv_pool s"
  by (simp add: conn_finalize_def release_buffers_def conn_put_def buf_put_def conn_unlink_def Let_def on_conn_def on_stats_def)

lemma collected_view: "0 \<in> set (sv_conn_free collected)" "sv_pool collected = sv_pool taken"
proof -
  let ?t = "on_conn 0 (\<lambda>k. k\<lparr>cn_close_cb_done := True\<rparr>) (gone\<lparr>sv_closes := remove1 0 (sv_closes gone)\<rparr>)"
  have v: "conn_of ?t 0 = (conn_of gone 0)\<lparr>cn_close_cb_done := True\<rparr>" by (simp add: conn_of_def on_conn_def)
  have "collected = conn_finalize 0 ?t"
    using gone_view by (simp add: collected_def conn_on_stream_closed_def conn_maybe_finalize_def Let_def v)
  moreover have "\<not> cn_finalized (conn_of ?t 0)" using gone_view(2) v by simp
  ultimately show "0 \<in> set (sv_conn_free collected)" "sv_pool collected = sv_pool taken"
    using finalize_view(2) [of ?t 0] finalize_pool [of 0 ?t] gone_view by simp_all
qed

subsection \<open>Properties\<close>

text \<open>C23: A worker can hold a request whose connection was already recycled: no code sets the phase
  \<open>CERCO_PHASE_WORK\<close> that the teardown waits on, so when the client disconnects while a handler runs,
  the connection and the arena that holds the request go to the free pool at once.\<close>

theorem worker_outlives_connection:
  "\<exists>s t. production_start s \<and> (server_step h)\<^sup>*\<^sup>* s t \<and>
     (\<exists>c. c \<in> set (wp_running (sv_pool t)) \<and> c \<in> set (sv_conn_free t))"
proof -
  have "server_step h gone collected"
    unfolding collected_def by (rule server_step.closed) (simp add: gone_view)
  with reach_read [of h one_get] taken_step gone_step have "(server_step h)\<^sup>*\<^sup>* example_start collected"
    by (meson rtranclp.rtrancl_into_rtrancl)
  moreover have "0 \<in> set (wp_running (sv_pool collected))" by (simp add: collected_view taken_view)
  ultimately show ?thesis using example_started collected_view(1) by blast
qed

text \<open>C25: A request that arrives behind another one in the same read is not held back: the same
  request object is queued for the workers a second time, now with the second target but with the
  path of the first, and the second request itself is lost.\<close>

theorem pipelined_request_dispatched_twice:
  "\<exists>s t. production_start s \<and> (server_step h)\<^sup>*\<^sup>* s t \<and> ring_contents (wp_jobs (sv_pool t)) = [0, 0] \<and>
     (\<exists>r. cn_req (conn_of t 0) = Some r \<and> rq_target r = Some ''/other'' \<and> cerco_path r = ''/'')"
proof -
  have "cn_req (conn_of (after_read two_gets) 0) = Some (example_get (Some ''/other'') (Some 3))"
    by (simp add: two_gets_view waiting_def)
  moreover have "rq_target (example_get (Some ''/other'') (Some 3)) = Some ''/other''"
    "cerco_path (example_get (Some ''/other'') (Some 3)) = ''/''" by (simp_all add: example_get_def cerco_path_def)
  ultimately show ?thesis
    using example_started reach_read [of h two_gets] two_gets_view(2) pool_views(5) by metis
qed

text \<open>C29: Bytes that arrive while a request is being answered corrupt the read buffer's bookkeeping:
  the parser is paused without an error position, so the position of the unparsed rest is computed
  from NULL, and the rest that is moved when the response has been written is larger than the
  buffer.\<close>

theorem read_while_paused_overruns:
  assumes "cn_parser_error (conn_of s c) = HPE_PAUSED" "cn_error_pos (conn_of s c) = 0"
    and "\<not> cn_status_sent (conn_of s c)" "cn_phase (conn_of s c) \<noteq> PHASE_DRAIN"
    and "0 < nread" "CERCO_READ_BUF < unat (cn_read_buf (conn_of s c))"
    and "uint (cn_read_buf (conn_of s c)) + uint (cn_filled (conn_of s c)) + nread < 2 ^ 64"
  shows "unat (cn_filled (conn_of (conn_on_read io c nread p s) c) - cn_consumed (conn_of (conn_on_read io c nread p s) c))
           > CERCO_READ_BUF"
proof -
  let ?k = "conn_of s c"
  let ?f = "cn_filled ?k + word_of_int nread"
  have v: "cn_filled (conn_of (conn_on_read io c nread p s) c) = ?f"
    "cn_consumed (conn_of (conn_on_read io c nread p s) c) = 0 - cn_read_buf ?k"
    using assms(1-5) by (simp_all add: conn_on_read_def Let_def llhttp_execute_def)
  have "uint (?f + cn_read_buf ?k) = uint (cn_read_buf ?k) + uint (cn_filled ?k) + nread" (is "_ = ?n")
  proof -
    have e: "?f + cn_read_buf ?k = word_of_int ?n" by (simp add: algebra_simps)
    have "0 \<le> ?n" using assms(5) uint_ge_0 [of "cn_read_buf ?k"] uint_ge_0 [of "cn_filled ?k"] by linarith
    with assms(7) show ?thesis unfolding e by (subst uint_word_of_int_eq) (simp add: take_bit_int_eq_self)
  qed
  then have "uint (cn_read_buf ?k) \<le> uint (?f + cn_read_buf ?k)" using assms(5) uint_ge_0 [of "cn_filled ?k"] by linarith
  then have "unat (cn_read_buf ?k) \<le> unat (?f + cn_read_buf ?k)" by (metis word_le_def word_le_nat_alt)
  with assms(6) v show ?thesis by simp
qed

theorem read_while_paused_overruns_witness:
  "\<exists>io p. unat (cn_filled (conn_of (conn_on_read io 0 50 p (after_read one_get)) 0) -
         cn_consumed (conn_of (conn_on_read io 0 50 p (after_read one_get)) 0)) > CERCO_READ_BUF"
proof -
  have k: "conn_of (after_read one_get) 0 = (waiting (Some ''/'') False 1 (conn_of read_state 0))\<lparr>cn_consumed := 100\<rparr>"
    by (rule one_get_view)
  show ?thesis
    by (intro exI, rule read_while_paused_overruns)
      (simp_all add: k waiting_def read_view conn_zero_def CERCO_READ_BUF_def)
qed

lemma target_kept:
  assumes "rq_path r = Some path"
  shows "\<exists>k' r'. message_target e k r = (False, k') \<and> cn_req k' = Some r' \<and> rq_path r' = Some path"
  using assms by (simp add: message_target_def Let_def req_target_path_def)

text \<open>After a reply that bypasses the response path on a connection that stays open (503, OPTIONS,
  405, a bad function id) the answered request stays current: the next message on the connection
  does not get a request of its own, and whatever its target, it is dispatched with the old path.\<close>

theorem simple_reply_keeps_request:
  assumes "\<not> cn_finalized (conn_of s c)" "\<not> cn_closing (conn_of s c)" "cn_keep_alive (conn_of s c)"
    and "\<not> cn_force_close (conn_of s c)" "cn_req (conn_of s c) = Some r" "rq_path r = Some path"
  shows "let k = conn_of (on_simple_written io c True s) c in
      cn_phase k = PHASE_IDLE \<and> cn_req k = Some r \<and>
      cn_req (snd (on_message_begin io' e c k)) = Some r \<and>
      (\<forall>m url. \<exists>k' r'. message_target e (k\<lparr>cn_method := m, cn_url := url\<rparr>) r = (False, k') \<and>
         cn_req k' = Some r' \<and> rq_path r' = Some path)"
  using assms target_kept [OF assms(6)]
  by (simp add: on_simple_written_def write_done_def Let_def start_reading_def llhttp_resume_def on_message_begin_def)

theorem simple_reply_keeps_request_witness:
  "cn_req (conn_of (on_simple_written io0 0 True (on_conn 0 (\<lambda>k. k\<lparr>cn_req := Some (example_get None None)\<rparr>) connected)) 0)
     = Some (example_get None None)"
  using simple_reply_keeps_request [of "on_conn 0 (\<lambda>k. k\<lparr>cn_req := Some (example_get None None)\<rparr>) connected" 0
      "example_get None None" "''/''" io0 io0 example_env]
  by (simp add: connected_view conn_zero_def example_get_def Let_def)


end
