(* ===== verification/Client_Libc.thy ===== *)
theory Client_Libc
  imports Serverfn
begin

text \<open>
  \<open>runtime/client/env.c\<close>, the part that replaces the C library in the browser: the client is
  freestanding 32-bit WebAssembly. Linear memory is a function from addresses to bytes, so
  an address computation that wraps does so here too. Routines that only read C strings take
  the string itself; \<open>cerco_format\<close> takes its variadic arguments as a list, and the result
  \<open>None\<close> stands for reading an argument that was not passed or has the wrong type.
\<close>

type_synonym mem = "u32 \<Rightarrow> byte"

subsection \<open>Moving bytes\<close>

fun copy_up :: "nat \<Rightarrow> u32 \<Rightarrow> u32 \<Rightarrow> mem \<Rightarrow> mem" where
  "copy_up 0 dst src m = m"
| "copy_up (Suc n) dst src m = copy_up n (dst + 1) (src + 1) (m(dst := m src))"

fun copy_down :: "nat \<Rightarrow> u32 \<Rightarrow> u32 \<Rightarrow> mem \<Rightarrow> mem" where
  "copy_down 0 dst src m = m"
| "copy_down (Suc n) dst src m = copy_down n (dst - 1) (src - 1) (m(dst - 1 := m (src - 1)))"

definition c_memcpy :: "u32 \<Rightarrow> u32 \<Rightarrow> u32 \<Rightarrow> mem \<Rightarrow> mem" where
  "c_memcpy d s n m = copy_up (unat n) d s m"

definition c_memmove :: "u32 \<Rightarrow> u32 \<Rightarrow> u32 \<Rightarrow> mem \<Rightarrow> mem" where
  "c_memmove d s n m =
     (if d < s then copy_up (unat n) d s m else copy_down (unat n) (d + n) (s + n) m)"

fun set_up :: "nat \<Rightarrow> u32 \<Rightarrow> byte \<Rightarrow> mem \<Rightarrow> mem" where
  "set_up 0 dst c m = m"
| "set_up (Suc n) dst c m = set_up n (dst + 1) c (m(dst := c))"

definition c_memset :: "u32 \<Rightarrow> u32 \<Rightarrow> u32 \<Rightarrow> mem \<Rightarrow> mem" where
  "c_memset d c n m = set_up (unat n) d (ucast c) m"

text \<open>Storing the bytes of a C value, one after the other, and reading a range.\<close>

fun store :: "u32 \<Rightarrow> byte list \<Rightarrow> mem \<Rightarrow> mem" where
  "store p [] m = m"
| "store p (b # bs) m = store (p + 1) bs (m(p := b))"

definition bytes_at :: "mem \<Rightarrow> u32 \<Rightarrow> nat \<Rightarrow> byte list" where
  "bytes_at m p n = map (\<lambda>i. m (p + of_nat i)) [0..<n]"

text \<open>\<open>strcpy\<close> stores the string and its terminator.\<close>

definition c_strcpy :: "u32 \<Rightarrow> string \<Rightarrow> mem \<Rightarrow> mem" where
  "c_strcpy d s m = store d (to_bytes (s @ [NUL])) m"

subsection \<open>C strings\<close>

text \<open>The C string at an address; it ends at the latest after the whole address space.\<close>

fun c_string :: "nat \<Rightarrow> mem \<Rightarrow> u32 \<Rightarrow> string" where
  "c_string n m p =
     (if n = 0 \<or> m p = 0 then [] else char_of (unat (m p)) # c_string (n - 1) m (p + 1))"

declare c_string.simps [simp del]

definition c_string_at :: "mem \<Rightarrow> u32 \<Rightarrow> string" where
  "c_string_at m p = c_string (2 ^ 32) m p"

definition c_strlen :: "mem \<Rightarrow> u32 \<Rightarrow> nat" where
  "c_strlen m p = length (c_string_at m p)"

fun c_strcmp :: "string \<Rightarrow> string \<Rightarrow> int" where
  "c_strcmp [] b = 0 - int (ccode (char_at b 0))"
| "c_strcmp (x # a) b =
     (if x \<noteq> NUL \<and> x = char_at b 0 then c_strcmp a (drop 1 b)
      else int (ccode x) - int (ccode (char_at b 0)))"

fun c_strncmp :: "string \<Rightarrow> string \<Rightarrow> nat \<Rightarrow> int" where
  "c_strncmp a b 0 = 0"
| "c_strncmp a b (Suc n) =
     (let x = char_at a 0; y = char_at b 0 in
      if x \<noteq> y then int (ccode x) - int (ccode y)
      else if x = NUL then 0
      else c_strncmp (drop 1 a) (drop 1 b) n)"

fun c_memcmp :: "byte list \<Rightarrow> byte list \<Rightarrow> int" where
  "c_memcmp (x # a) (y # b) = (if x \<noteq> y then int (unat x) - int (unat y) else c_memcmp a b)"
| "c_memcmp _ _ = 0"

text \<open>\<open>strstr\<close>: at every position the inner loop runs while both strings agree; the needle is
  found when the loop stopped at its end.\<close>

fun strstr_rest :: "string \<Rightarrow> string \<Rightarrow> string" where
  "strstr_rest (h # hs) (n # ns) = (if h = n then strstr_rest hs ns else n # ns)"
| "strstr_rest _ ns = ns"

fun strstr_scan :: "string \<Rightarrow> string \<Rightarrow> nat option" where
  "strstr_scan [] needle = None"
| "strstr_scan (h # hs) needle =
     (if strstr_rest (h # hs) needle = [] then Some 0 else map_option Suc (strstr_scan hs needle))"

definition c_strstr :: "string \<Rightarrow> string \<Rightarrow> nat option" where
  "c_strstr haystack needle = (if needle = [] then Some 0 else strstr_scan haystack needle)"

subsection \<open>Numbers and formatting\<close>

text \<open>The digits come out lowest first into \<open>tmp\<close>, then are read back from its end.\<close>

fun rev_digits :: "nat \<Rightarrow> string" where
  "rev_digits u = (if u = 0 then [] else digit_char (u mod 10) # rev_digits (u div 10))"

declare rev_digits.simps [simp del]

definition u32_digits :: "u32 \<Rightarrow> string" where
  "u32_digits u = rev (if u = 0 then [CHR ''0''] else rev_digits (unat u))"

definition cerco_i32_to_str :: "u32 \<Rightarrow> string" where
  "cerco_i32_to_str v =
     (let u = (if sint v < 0 then word_of_int (- sint v) else v :: u32) in
      (if sint v < 0 then ''-'' else []) @ u32_digits u)"

datatype fmt_arg = F_str "string option" | F_int u32

text \<open>\<open>fmt_put cap o s\<close> appends bytes of \<open>s\<close> while the output stays below \<open>cap - 1\<close> bytes.\<close>

definition fmt_put :: "nat \<Rightarrow> string \<Rightarrow> string \<Rightarrow> string" where
  "fmt_put cap out s = out @ take (cap - 1 - length out) s"

function format_loop :: "nat \<Rightarrow> string \<Rightarrow> fmt_arg list \<Rightarrow> string \<Rightarrow> string option" where
  "format_loop cap fmt args out =
     (if fmt = [] \<or> \<not> length out + 1 < cap then Some out
      else if hd fmt \<noteq> CHR ''%'' then format_loop cap (tl fmt) args (out @ [hd fmt])
      else
        let p = tl fmt; v = char_at p 0 in
        if v = CHR ''s'' then
          (case args of
             F_str s # rest \<Rightarrow>
               format_loop cap (tl p) rest
                 (fmt_put cap out (case s of None \<Rightarrow> ''(null)'' | Some t \<Rightarrow> t))
           | _ \<Rightarrow> None)
        else if v = CHR ''d'' \<or> v = CHR ''i'' then
          (case args of
             F_int i # rest \<Rightarrow> format_loop cap (tl p) rest (fmt_put cap out (cerco_i32_to_str i))
           | _ \<Rightarrow> None)
        else if v = CHR ''%'' then format_loop cap (tl p) args (out @ ''%'')
        else if v = NUL then Some out
        else format_loop cap (tl p) args (fmt_put cap (out @ ''%'') [v]))"
  by pat_completeness auto
termination
  by (relation "measure (\<lambda>(cap, fmt, args, out). length fmt)")
     (auto simp: neq_Nil_conv char_at_def split: if_splits)

declare format_loop.simps [simp del]

text \<open>The characters stored before the NUL; \<open>cap\<close> is the signed parameter.\<close>

definition cerco_format :: "int \<Rightarrow> string \<Rightarrow> fmt_arg list \<Rightarrow> string option" where
  "cerco_format cap fmt args = (if cap \<le> 0 then Some [] else format_loop (nat cap) fmt args [])"

subsection \<open>Copies\<close>

text \<open>Both directions copy correctly as long as the destination does not begin inside the part
  of the source still to be read; offsets are taken modulo the address space.\<close>

lemma pred_offset:
  "unat (y - 1 :: u32) = (if y = 0 then 2 ^ 32 - 1 else unat y - 1)"
  using unat_minus_one [of y] by (auto simp: unsigned_minus_1_eq_mask mask_eq_exp_minus_1)

lemma unat_minus_one32 [simp]: "unat (- 1 :: u32) = 4294967295"
  by (simp add: unsigned_minus_1_eq_mask mask_eq_exp_minus_1)

lemma word_diff_eq0: "unat (x - y :: u32) = 0 \<longleftrightarrow> x = y"
  by (simp add: unat_eq_0)

lemma copy_up_eq:
  "n \<le> 2 ^ 32 \<Longrightarrow> d = s \<or> n \<le> unat (d - s) \<Longrightarrow>
   copy_up n d s m = (\<lambda>x. if unat (x - d) < n then m (s + (x - d)) else m x)"
proof (induction n d s m rule: copy_up.induct)
  case (1 dst src m)
  then show ?case by simp
next
  case (2 n d s m)
  from 2 have IH: "copy_up n (d + 1) (s + 1) (m(d := m s)) =
      (\<lambda>x. if unat (x - (d + 1)) < n then (m(d := m s)) (s + 1 + (x - (d + 1))) else (m(d := m s)) x)"
    by (intro 2(1)) auto
  show ?case
  proof
    fix x
    have e: "x - (d + 1) = x - d - 1" "s + 1 + (x - (d + 1)) = s + (x - d)" by simp_all
    have z: "x - d = 0 \<longleftrightarrow> x = d" by simp
    have q: "s + (x - d) = d \<longleftrightarrow> x - d = d - s" by (auto simp: algebra_simps)
    show "copy_up (Suc n) d s m x = (if unat (x - d) < Suc n then m (s + (x - d)) else m x)"
    proof (cases "x = d")
      case True
      with 2 show ?thesis by (simp add: IH pred_offset)
    next
      case False
      then have "unat (x - d) \<noteq> 0" by (simp add: word_diff_eq0)
      moreover have "unat (x - d) < Suc n \<Longrightarrow> x - d \<noteq> d - s"
        using 2 False by auto
      ultimately show ?thesis
        using False by (auto simp: IH e pred_offset q)
    qed
  qed
qed

lemma copy_down_eq:
  "n \<le> 2 ^ 32 \<Longrightarrow> d = s \<or> n \<le> unat (s - d) \<Longrightarrow>
   copy_down n (d + of_nat n) (s + of_nat n) m = (\<lambda>x. if unat (x - d) < n then m (s + (x - d)) else m x)"
proof (induction n arbitrary: m)
  case 0
  then show ?case by simp
next
  case (Suc n)
  let ?m = "m(d + of_nat n := m (s + of_nat n))"
  have e: "d + of_nat (Suc n) - 1 = d + of_nat n" "s + of_nat (Suc n) - 1 = s + of_nat n"
    by (simp_all add: algebra_simps)
  from Suc have IH: "copy_down n (d + of_nat n) (s + of_nat n) ?m =
      (\<lambda>x. if unat (x - d) < n then ?m (s + (x - d)) else ?m x)" by auto
  have un: "unat (of_nat n :: u32) = n" using Suc.prems by (simp add: unat_of_nat)
  show ?case
  proof
    fix x
    have q: "s + (x - d) = d + of_nat n \<Longrightarrow> s - d = of_nat n - (x - d)" by (auto simp: algebra_simps)
    have r: "x = d + of_nat n \<longleftrightarrow> unat (x - d) = n"
      by (metis un add_diff_cancel_left' diff_add_cancel unsigned_word_eqI add.commute)
    show "copy_down (Suc n) (d + of_nat (Suc n)) (s + of_nat (Suc n)) m x =
        (if unat (x - d) < Suc n then m (s + (x - d)) else m x)"
    proof (cases "unat (x - d) < n")
      case True
      have "s + (x - d) \<noteq> d + of_nat n"
      proof
        assume "s + (x - d) = d + of_nat n"
        then have "s - d = of_nat n - (x - d)" by (rule q)
        moreover have "unat (of_nat n - (x - d)) = n - unat (x - d)"
          using True un unat_sub [of "x - d" "of_nat n"] by (simp add: word_le_nat_alt)
        ultimately have "unat (s - d) = n - unat (x - d)" by (simp only:)
        then show False using Suc.prems True by (auto simp: unat_eq_0)
      qed
      with True r show ?thesis by (simp add: e IH)
    next
      case False
      then show ?thesis using r by (auto simp: e IH)
    qed
  qed
qed
lemma nowrap_diff: "a < b \<Longrightarrow> unat b + n \<le> 2 ^ 32 \<Longrightarrow> n \<le> unat (a - b :: u32)"
  by (simp add: unat_sub_if' word_less_nat_alt)

lemma store_eq:
  "length bs \<le> 2 ^ 32 \<Longrightarrow>
   store p bs m = (\<lambda>x. if unat (x - p) < length bs then bs ! unat (x - p) else m x)"
proof (induction p bs m rule: store.induct)
  case (1 p m)
  then show ?case by simp
next
  case (2 p b bs m)
  then have IH: "store (p + 1) bs (m(p := b)) =
      (\<lambda>x. if unat (x - (p + 1)) < length bs then bs ! unat (x - (p + 1)) else (m(p := b)) x)"
    by (intro 2(1)) simp
  show ?case
  proof
    fix x
    have e: "x - (p + 1) = x - p - 1" by simp
    show "store p (b # bs) m x = (if unat (x - p) < length (b # bs) then (b # bs) ! unat (x - p) else m x)"
    proof (cases "x = p")
      case True
      with 2 show ?thesis by (simp add: IH e pred_offset)
    next
      case False
      then obtain k where "unat (x - p) = Suc k"
        by (metis word_diff_eq0 not0_implies_Suc)
      with False show ?thesis by (simp add: IH e pred_offset word_diff_eq0 [symmetric])
    qed
  qed
qed

lemma length_bytes_at [simp]: "length (bytes_at m p n) = n"
  by (simp add: bytes_at_def)

lemma bytes_at_Suc: "bytes_at m p (Suc n) = m p # bytes_at m (p + 1) n"
  by (simp add: bytes_at_def upt_conv_Cons map_Suc_upt [symmetric] comp_def add.assoc del: upt_Suc)

lemma bytes_at_0 [simp]: "bytes_at m p 0 = []"
  by (simp add: bytes_at_def)

lemma to_bytes_Cons: "to_bytes (c # s) = of_nat (ccode c) # to_bytes s"
  by (simp add: to_bytes_def)

lemma byte_of_char: "char_of (unat (of_nat (ccode c) :: byte)) = c"
  using of_to_bytes [of "[c]"] by (simp add: to_bytes_def of_bytes_def)

lemma byte_zero: "of_nat (ccode c) = (0 :: byte) \<longleftrightarrow> c = NUL"
proof -
  have "char_of (unat (0 :: byte)) = NUL" by (simp add: char_eval)
  then show ?thesis using byte_of_char [of c] by auto
qed

lemma unat32_bound: "unat (n :: u32) < 2 ^ 32"
  using unsigned_less [of n, where ?'a = nat] by simp

lemma c_string_cstr:
  "length s < n \<Longrightarrow> bytes_at m p (Suc (length s)) = to_bytes s @ [0] \<Longrightarrow> c_string n m p = cstr s"
proof (induction s arbitrary: n p)
  case Nil
  then show ?case by (subst c_string.simps) (simp add: bytes_at_Suc)
next
  case (Cons c s)
  from Cons(3) have b: "m p = of_nat (ccode c)" "bytes_at m (p + 1) (Suc (length s)) = to_bytes s @ [0]"
    by (simp_all add: bytes_at_Suc [of m p] to_bytes_Cons)
  with Cons have "c_string (n - 1) m (p + 1) = cstr s" by simp
  with Cons b show ?case by (subst c_string.simps) (simp add: byte_zero byte_of_char)
qed

lemma memmove_at:
  assumes "unat d + unat n \<le> 2 ^ 32" "unat s + unat n \<le> 2 ^ 32"
  shows "c_memmove d s n m = (\<lambda>x. if unat (x - d) < unat n then m (s + (x - d)) else m x)"
proof (cases "d < s")
  case True
  with assms nowrap_diff [of d s "unat n"] show ?thesis
    by (simp add: c_memmove_def copy_up_eq)
next
  case False
  then have "d = s \<or> unat n \<le> unat (s - d)" using assms nowrap_diff [of s d "unat n"] by (meson linorder_cases)
  with False assms copy_down_eq [of "unat n" d s m] show ?thesis
    by (simp add: c_memmove_def)
qed

subsection \<open>Searching and numbers\<close>

lemma strstr_rest_Nil: "strstr_rest h n = [] \<longleftrightarrow> take (length n) h = n"
  by (induction h n rule: strstr_rest.induct) auto

lemma strstr_scan_find: "n \<noteq> [] \<Longrightarrow> strstr_scan h n = find_sub n h"
  by (induction h n rule: strstr_scan.induct) (auto simp: strstr_rest_Nil simp del: strstr_rest.simps)

lemma strstr_find: "c_strstr h n = find_sub n h"
proof (cases "n = []")
  case True
  then show ?thesis by (cases h) (auto simp: c_strstr_def)
qed (simp add: c_strstr_def strstr_scan_find)

lemma rev_digits_dec: "0 < u \<Longrightarrow> rev (rev_digits u) = dec u"
proof (induction u rule: rev_digits.induct)
  case (1 u)
  then show ?case
    by (cases "u < 10") (simp_all add: rev_digits.simps [of u] dec.simps [of u] rev_digits.simps [of 0])
qed

lemma u32_digits_dec: "u32_digits u = dec (unat u)"
  by (auto simp: u32_digits_def rev_digits_dec dec.simps [of 0] unat_gt_0)

lemma unat_word_of_int32: "0 \<le> k \<Longrightarrow> k < 2 ^ 32 \<Longrightarrow> unat (word_of_int k :: u32) = nat k"
proof -
  assume k: "0 \<le> k" "k < 2 ^ 32"
  have "uint (word_of_int k :: u32) = take_bit 32 k" by (simp add: uint_word_of_int_eq)
  also have "\<dots> = k" using k by (simp add: take_bit_eq_mod)
  finally show ?thesis by (simp add: unat_eq_nat_uint)
qed

lemma unat_neg_word: "sint (v :: u32) < 0 \<Longrightarrow> unat (- v) = nat (- sint v)"
proof -
  assume a: "sint v < 0"
  have "- (2 ^ 31) \<le> sint v" using sint_greater_eq [of v] by simp
  then have "unat (word_of_int (- sint v) :: u32) = nat (- sint v)" using a by (intro unat_word_of_int32) auto
  then show ?thesis by simp
qed

lemma sint_nonneg_unat: "0 \<le> sint (v :: u32) \<Longrightarrow> unat v = nat (sint v)"
proof -
  assume a: "0 \<le> sint v"
  have "unat (word_of_int (sint v) :: u32) = nat (sint v)"
    using a sint_less [of v] by (intro unat_word_of_int32) auto
  then show ?thesis by simp
qed

lemma i32_to_str_dec: "cerco_i32_to_str v = dec_int (sint v)"
  by (auto simp add: cerco_i32_to_str_def Let_def dec_int_def u32_digits_dec unat_neg_word sint_nonneg_unat)

lemma ccode_pos [simp]: "0 < ccode c \<longleftrightarrow> c \<noteq> NUL"
proof -
  have "ccode NUL = 0" by simp
  then have "ccode c = 0 \<longleftrightarrow> c = NUL" by (metis of_char_eq_iff)
  then show ?thesis by (metis neq0_conv)
qed

lemma strcmp_eq_0: "no_nul a \<Longrightarrow> no_nul b \<Longrightarrow> c_strcmp a b = 0 \<longleftrightarrow> a = b"
proof (induction a b rule: c_strcmp.induct)
  case (1 b)
  then show ?case by (cases b) (auto simp: char_at_def)
next
  case (2 x a b)
  then show ?case by (cases b) (auto simp: char_at_def)
qed

lemma memcmp_eq_0: "length a = length b \<Longrightarrow> c_memcmp a b = 0 \<longleftrightarrow> a = b"
  by (induction a b rule: c_memcmp.induct) (auto simp: word_uint_eq_iff)

lemma strncmp_eq_0: "no_nul a \<Longrightarrow> no_nul b \<Longrightarrow> c_strncmp a b n = 0 \<longleftrightarrow> take n a = take n b"
proof (induction a b n rule: c_strncmp.induct)
  case (1 a b)
  then show ?case by simp
next
  case (2 a b n)
  then show ?case by (cases a; cases b) (auto simp: char_at_def Let_def)
qed

subsection \<open>What the formatter writes\<close>

text \<open>The expansion of a format when the buffer is unlimited; \<open>None\<close> is an argument list that
  does not match the format.\<close>

fun fmt_full :: "string \<Rightarrow> fmt_arg list \<Rightarrow> string option" where
  "fmt_full fmt args =
     (case fmt of
        [] \<Rightarrow> Some []
      | c # p \<Rightarrow>
          if c \<noteq> CHR ''%'' then map_option (Cons c) (fmt_full p args)
          else case p of
            [] \<Rightarrow> Some []
          | v # q \<Rightarrow>
              if v = CHR ''s'' then
                (case args of
                   F_str s # rest \<Rightarrow>
                     map_option (append (case s of None \<Rightarrow> ''(null)'' | Some t \<Rightarrow> t)) (fmt_full q rest)
                 | _ \<Rightarrow> None)
              else if v = CHR ''d'' \<or> v = CHR ''i'' then
                (case args of
                   F_int i # rest \<Rightarrow> map_option (append (dec_int (sint i))) (fmt_full q rest)
                 | _ \<Rightarrow> None)
              else if v = CHR ''%'' then map_option (Cons CHR ''%'') (fmt_full q args)
              else map_option (append [CHR ''%'', v]) (fmt_full q args))"

declare fmt_full.simps [simp del]

lemma fmt_put_put: "length out < cap \<Longrightarrow> fmt_put cap (fmt_put cap out a) b = fmt_put cap out (a @ b)"
  by (auto simp: fmt_put_def min_def)

lemma fmt_put_length: "length out < cap \<Longrightarrow> length (fmt_put cap out a) < cap"
  by (auto simp: fmt_put_def min_def)

lemma fmt_put_one:
  "length out + 1 < cap \<Longrightarrow> fmt_put cap out [c] = out @ [c]"
  "length out + 1 < cap \<Longrightarrow> fmt_put cap out [c, d] = fmt_put cap (out @ [c]) [d]"
  by (simp_all add: fmt_put_def take_Cons')

lemma format_loop_step:
  "length out + 1 < cap \<Longrightarrow> c \<noteq> CHR ''%'' \<Longrightarrow> format_loop cap (c # p) args out = format_loop cap p args (fmt_put cap out [c])"
  "length out + 1 < cap \<Longrightarrow> format_loop cap ''%'' args out = Some out"
  "length out + 1 < cap \<Longrightarrow> v \<noteq> NUL \<Longrightarrow> format_loop cap (CHR ''%'' # v # q) args out =
    (if v = CHR ''s'' then
       (case args of
          F_str s # rest \<Rightarrow>
            format_loop cap q rest (fmt_put cap out (case s of None \<Rightarrow> ''(null)'' | Some t \<Rightarrow> t))
        | _ \<Rightarrow> None)
     else if v = CHR ''d'' \<or> v = CHR ''i'' then
       (case args of
          F_int i # rest \<Rightarrow> format_loop cap q rest (fmt_put cap out (dec_int (sint i)))
        | _ \<Rightarrow> None)
     else format_loop cap q args (fmt_put cap out (if v = CHR ''%'' then ''%'' else [CHR ''%'', v])))"
  subgoal by (subst format_loop.simps) (simp add: fmt_put_one)
  subgoal by (subst format_loop.simps) (simp add: fmt_put_one char_at_def)
  subgoal by (subst format_loop.simps)
    (simp add: fmt_put_one char_at_def i32_to_str_dec Let_def split: list.split fmt_arg.split)
  done

lemma format_loop_full:
  "no_nul fmt \<Longrightarrow> length out < cap \<Longrightarrow> fmt_full fmt args = Some t \<Longrightarrow>
   format_loop cap fmt args out = Some (fmt_put cap out t)"
proof (induction "length fmt" arbitrary: fmt args out t rule: less_induct)
  case less
  have IH: "format_loop cap q as (fmt_put cap out x) = Some (fmt_put cap out (x @ u))"
    if "fmt_full q as = Some u" "length q < length fmt" "no_nul q" for q as u x
    using less(1) [OF that(2,3) fmt_put_length [OF less(3)] that(1)] by (simp add: fmt_put_put less(3))
  show ?case
  proof (cases "fmt = [] \<or> \<not> length out + 1 < cap")
    case True
    with less show ?thesis by (subst format_loop.simps) (auto simp: fmt_put_def fmt_full.simps [of "[]"])
  next
    case False
    then obtain c p where f: "fmt = c # p" by (auto simp: neq_Nil_conv)
    from False have lo: "length out + 1 < cap" by simp
    show ?thesis
    proof (cases "c = CHR ''%''")
      case pct: False
      with less f obtain t' where t': "fmt_full p args = Some t'" "t = c # t'"
        by (auto simp: fmt_full.simps [of "c # p"])
      with IH [of p args t' "[c]"] less(2) f pct lo show ?thesis
        by (simp add: format_loop_step)
    next
      case pct: True
      show ?thesis
      proof (cases p)
        case Nil
        with less(4) f pct lo show ?thesis
          by (simp add: format_loop_step fmt_put_def fmt_full.simps [of "''%''"])
      next
        case (Cons v q)
        with less(2) f have nn: "no_nul q" "v \<noteq> NUL" "length q < length fmt" by auto
        from less(4) show ?thesis
          using IH [OF _ nn(3,1)]
          unfolding f pct Cons format_loop_step(3) [OF lo nn(2)]
          by (subst (asm) fmt_full.simps) (auto split: if_splits list.splits fmt_arg.splits)
      qed
    qed
  qed
qed

subsection \<open>Properties\<close>

text \<open>\<open>memmove\<close> copies a block of memory to any destination, overlapping or not, and changes no
  byte outside the destination.\<close>

theorem memmove_correct:
  assumes "unat d + unat n \<le> 2 ^ 32" "unat s + unat n \<le> 2 ^ 32"
  shows "c_memmove d s n m = (\<lambda>x. if unat (x - d) < unat n then m (s + (x - d)) else m x)"
  by (rule memmove_at [OF assms])

theorem memmove_correct_witness:
  "c_memmove 12 10 5 (\<lambda>a. ucast a) 16 = 14 \<and> c_memmove 10 12 5 (\<lambda>a. ucast a) 14 = 16"
  by (simp add: memmove_correct)

text \<open>\<open>cerco_format\<close> writes the expansion of its format cut to one byte less than the buffer:
  it never overflows, and what it writes is always a prefix of the full text.\<close>

theorem format_truncates:
  assumes "no_nul fmt" "0 < cap" "fmt_full fmt args = Some t"
  shows "cerco_format cap fmt args = Some (take (nat cap - 1) t)"
  using assms format_loop_full [of fmt "[]" "nat cap" args t]
  by (simp add: cerco_format_def fmt_put_def)

theorem format_truncates_witness:
  "cerco_format 8 ''id=%d, %s'' [F_int (- 42), F_str (Some ''x'')] = Some ''id=-42,''"
  by (subst format_truncates [where t = "''id=-42, x''"])
    (simp_all add: fmt_full.simps dec_int_def dec.simps)

end
