(* ===== verification/Client_Heap.thy ===== *)
theory Client_Heap
  imports Client_Libc Arena
begin

text \<open>
  The allocator of \<open>runtime/client/env.c\<close>: a bump allocator above \<open>__heap_base\<close> that is
  rewound on every navigation to the end of the last sticky block, and the 64 KiB scratch
  region inside it. Pointers and sizes are 32-bit words, 0 is the null pointer. The
  address of \<open>__heap_base\<close> is the parameter \<open>base\<close>; whether the engine grants one more page
  is the parameter \<open>grow\<close> (of the number of pages mapped). The page count \<open>mem_pages\<close> is the
  engine's state.
\<close>

record client_heap =
  heap_ptr :: u32
  heap_end :: u32
  heap_sticky_floor :: u32
  scratch_base :: u32
  scratch_off :: u32
  mem_pages :: nat
  lmem :: mem

definition CERCO_MAX_HEAP_PAGES :: u32 where "CERCO_MAX_HEAP_PAGES = 64"
definition PAGE :: u32 where "PAGE = 65536"
definition SCRATCH_SIZE :: u32 where "SCRATCH_SIZE = 65536"

definition round16 :: "u32 \<Rightarrow> u32" where
  "round16 n = (n + 15) AND NOT 15"

definition round8 :: "u32 \<Rightarrow> u32" where
  "round8 n = (n + 7) AND NOT 7"

definition cerco_heap_init :: "u32 \<Rightarrow> 'a client_heap_scheme \<Rightarrow> 'a client_heap_scheme" where
  "cerco_heap_init base h =
     h\<lparr>heap_ptr := (base + 15) AND NOT 15, heap_end := of_nat (mem_pages h) * PAGE\<rparr>"

text \<open>The loop runs only below a target of at most 4 MiB (tested before it), so \<open>pages_end\<close>
  does not wrap and is a number here.\<close>

function grow_loop :: "(nat \<Rightarrow> bool) \<Rightarrow> nat \<Rightarrow> nat \<Rightarrow> nat \<Rightarrow> nat option \<times> nat" where
  "grow_loop grow target pages_end pages =
     (if pages_end < target then
        if grow pages then grow_loop grow target (pages_end + 65536) (pages + 1)
        else (None, pages)
      else (Some pages_end, pages))"
  by pat_completeness auto
termination
  by (relation "measure (\<lambda>(grow, target, pages_end, pages). target - pages_end)") auto

declare grow_loop.simps [simp del]

definition heap_grow :: "(nat \<Rightarrow> bool) \<Rightarrow> u32 \<Rightarrow> 'a client_heap_scheme \<Rightarrow> bool \<times> 'a client_heap_scheme" where
  "heap_grow grow need h =
     (let target = heap_ptr h + need in
      if target > CERCO_MAX_HEAP_PAGES * PAGE then (False, h)
      else
        let pages_end = (heap_end h + PAGE - 1) AND NOT (PAGE - 1)
        in case grow_loop grow (unat target) (unat pages_end) (mem_pages h) of
             (None, k) \<Rightarrow> (False, h\<lparr>mem_pages := k\<rparr>)
           | (Some e, k) \<Rightarrow> (True, h\<lparr>mem_pages := k, heap_end := of_nat e\<rparr>))"

definition cerco_alloc :: "(nat \<Rightarrow> bool) \<Rightarrow> u32 \<Rightarrow> 'a client_heap_scheme \<Rightarrow> u32 \<times> 'a client_heap_scheme" where
  "cerco_alloc grow n h =
     (let n1 = round16 n;
          n2 = (if n1 = 0 then 16 else n1);
          (ok, h1) = (if heap_ptr h + n2 > heap_end h then heap_grow grow n2 h else (True, h))
      in if ok then (heap_ptr h1, h1\<lparr>heap_ptr := heap_ptr h1 + n2\<rparr>) else (0, h1))"

definition cerco_strdup :: "(nat \<Rightarrow> bool) \<Rightarrow> string \<Rightarrow> 'a client_heap_scheme \<Rightarrow> u32 \<times> 'a client_heap_scheme" where
  "cerco_strdup grow s h =
     (let (d, h1) = cerco_alloc grow (of_nat (length s + 1)) h
      in (d, if d \<noteq> 0 then h1\<lparr>lmem := store d (to_bytes (s @ [NUL])) (lmem h1)\<rparr> else h1))"

subsection \<open>Scratch region and sticky blocks\<close>

definition cerco_scratch_reset :: "'a client_heap_scheme \<Rightarrow> 'a client_heap_scheme" where
  "cerco_scratch_reset h = h\<lparr>scratch_off := 0\<rparr>"

definition cerco_scratch_alloc :: "(nat \<Rightarrow> bool) \<Rightarrow> u32 \<Rightarrow> 'a client_heap_scheme \<Rightarrow> u32 \<times> 'a client_heap_scheme" where
  "cerco_scratch_alloc grow n h =
     (let h1 = (if scratch_base h = 0
                then (let (p, h') = cerco_alloc grow SCRATCH_SIZE h in h'\<lparr>scratch_base := p\<rparr>) else h);
          n1 = round8 n
      in if scratch_base h1 = 0 then (0, h1)
         else if scratch_off h1 + n1 > SCRATCH_SIZE then (0, h1)
         else (scratch_base h1 + scratch_off h1, h1\<lparr>scratch_off := scratch_off h1 + n1\<rparr>))"

definition cerco_scratch_strdup :: "(nat \<Rightarrow> bool) \<Rightarrow> string \<Rightarrow> 'a client_heap_scheme \<Rightarrow> u32 \<times> 'a client_heap_scheme" where
  "cerco_scratch_strdup grow s h =
     (let (d, h1) = cerco_scratch_alloc grow (of_nat (length s + 1)) h
      in (d, if d \<noteq> 0 then h1\<lparr>lmem := store d (to_bytes (s @ [NUL])) (lmem h1)\<rparr> else h1))"

definition cerco_alloc_sticky :: "(nat \<Rightarrow> bool) \<Rightarrow> u32 \<Rightarrow> 'a client_heap_scheme \<Rightarrow> u32 \<times> 'a client_heap_scheme" where
  "cerco_alloc_sticky grow n h =
     (let before = heap_ptr h; (p, h1) = cerco_alloc grow n h
      in (p, if p \<noteq> 0 then h1\<lparr>heap_sticky_floor := before + round16 n\<rparr> else h1))"

definition cerco_heap_rewind :: "u32 \<Rightarrow> 'a client_heap_scheme \<Rightarrow> 'a client_heap_scheme" where
  "cerco_heap_rewind base h =
     h\<lparr>heap_ptr := (if heap_sticky_floor h \<noteq> 0 then heap_sticky_floor h else base)\<rparr>"

text \<open>\<open>cerco_scratch\<close> and \<open>cerco_scratch_base\<close> have the same body.\<close>

definition cerco_scratch_base :: "(nat \<Rightarrow> bool) \<Rightarrow> 'a client_heap_scheme \<Rightarrow> u32 \<times> 'a client_heap_scheme" where
  "cerco_scratch_base grow h =
     (let h1 = (if scratch_base h = 0
                then (let (p, h') = cerco_alloc_sticky grow SCRATCH_SIZE h in h'\<lparr>scratch_base := p\<rparr>) else h)
      in (scratch_base h1, h1))"

definition cerco_scratch_advance :: "u32 \<Rightarrow> 'a client_heap_scheme \<Rightarrow> 'a client_heap_scheme" where
  "cerco_scratch_advance n h =
     (let n1 = round8 n
      in if scratch_off h + n1 \<le> SCRATCH_SIZE then h\<lparr>scratch_off := scratch_off h + n1\<rparr> else h)"

subsection \<open>Rounding\<close>

lemma unat_and_not_mask32: "unat (x AND NOT (mask k) :: u32) = unat x div 2 ^ k * 2 ^ k"
proof -
  have "x AND NOT (mask k) = push_bit k (drop_bit k x)"
    by (rule bit_word_eqI) (auto simp: bit_simps)
  also have "\<dots> = x - take_bit k x"
    using bits_ident [of k x] by (simp add: algebra_simps)
  finally have e: "x AND NOT (mask k) = x - take_bit k x" .
  have "unat (take_bit k x) = unat x mod 2 ^ k"
    by (simp only: unsigned_take_bit_eq) (simp only: take_bit_eq_mod)
  with e have "unat (x AND NOT (mask k)) = unat x - unat x mod 2 ^ k"
    by (simp add: unat_sub word_le_nat_alt)
  then show ?thesis by (simp add: minus_mod_eq_div_mult)
qed

lemma unat_round16: "unat n + 15 < 2 ^ 32 \<Longrightarrow> unat (round16 n) = (unat n + 15) div 16 * 16"
proof -
  assume n: "unat n + 15 < 2 ^ 32"
  have "round16 n = (n + 15) AND NOT (mask 4)" by (simp add: round16_def mask_eq_exp_minus_1)
  moreover have "unat (n + 15) = unat n + 15" using n by (subst unat_add_lem [THEN iffD1]) simp_all
  ultimately show ?thesis by (simp only: unat_and_not_mask32) simp
qed

lemma unat_round8: "unat n + 7 < 2 ^ 32 \<Longrightarrow> unat (round8 n) = (unat n + 7) div 8 * 8"
proof -
  assume n: "unat n + 7 < 2 ^ 32"
  have "round8 n = (n + 7) AND NOT (mask 3)" by (simp add: round8_def mask_eq_exp_minus_1)
  moreover have "unat (n + 7) = unat n + 7" using n by (subst unat_add_lem [THEN iffD1]) simp_all
  ultimately show ?thesis by (simp only: unat_and_not_mask32) simp
qed

lemma round_page: "65536 dvd unat e \<Longrightarrow> unat e < 2 ^ 31 \<Longrightarrow> unat ((e + PAGE - 1) AND NOT (PAGE - 1)) = unat e"
proof -
  assume e: "65536 dvd unat e" "unat e < 2 ^ 31"
  have "unat (e + 65535) = unat e + 65535" using e(2) by (subst unat_add_lem [THEN iffD1]) simp_all
  moreover have "(e + PAGE - 1) AND NOT (PAGE - 1) = (e + 65535) AND NOT (mask 16)"
    by (simp add: PAGE_def mask_eq_exp_minus_1 add.commute)
  moreover have "(unat e + 65535) div 65536 * 65536 = unat e" using e(1) by (auto elim!: dvdE)
  ultimately show ?thesis by (simp only: unat_and_not_mask32) simp
qed

subsection \<open>Blocks\<close>

lemma grow_loop_post:
  "grow_loop grow target pe k = (r, k') \<Longrightarrow> 65536 dvd pe \<Longrightarrow> pe \<le> 2 ^ 22 \<Longrightarrow> target \<le> 2 ^ 22 \<Longrightarrow> pe \<le> k * 65536 \<Longrightarrow>
   k \<le> k' \<and> (\<forall>e. r = Some e \<longrightarrow> target \<le> e \<and> pe \<le> e \<and> e \<le> 2 ^ 22 \<and> 65536 dvd e \<and> e \<le> k' * 65536)"
proof (induction grow target pe k rule: grow_loop.induct)
  case (1 grow target pe k)
  show ?case
  proof (cases "pe < target \<and> grow k")
    case True
    with 1(2) have "grow_loop grow target (pe + 65536) (k + 1) = (r, k')"
      by (subst (asm) grow_loop.simps) simp
    moreover have "65536 dvd pe + 65536" using 1(3) by simp
    moreover from 1(3) obtain q where q: "pe = 65536 * q" by (auto elim: dvdE)
    with True 1(5) have "pe + 65536 \<le> 2 ^ 22" by simp
    moreover have "pe + 65536 \<le> (k + 1) * 65536" using 1(6) by simp
    ultimately have "k + 1 \<le> k' \<and> (\<forall>e. r = Some e \<longrightarrow> target \<le> e \<and> pe + 65536 \<le> e \<and> e \<le> 2 ^ 22 \<and> 65536 dvd e \<and> e \<le> k' * 65536)"
      using True 1(5) by (intro 1(1)) simp_all
    then show ?thesis by auto
  next
    case False
    with 1(2) have "k' = k \<and> (r = None \<or> r = Some pe \<and> target \<le> pe)"
      by (subst (asm) grow_loop.simps) (auto split: if_splits)
    with 1(3-6) show ?thesis by auto
  qed
qed

text \<open>A heap inside the configured limit whose mapped part really is mapped.\<close>

definition heap_wf :: "u32 \<Rightarrow> 'a client_heap_scheme \<Rightarrow> bool" where
  "heap_wf base h =
     (0 < unat base \<and> unat base \<le> unat (heap_ptr h) \<and> unat (heap_ptr h) \<le> 2 ^ 22 \<and>
      unat (heap_end h) \<le> 2 ^ 22 \<and> 65536 dvd unat (heap_end h) \<and> unat (heap_end h) \<le> mem_pages h * 65536)"

text \<open>The bytes a request takes from the heap.\<close>

definition alloc_size :: "u32 \<Rightarrow> nat" where
  "alloc_size n = (if n = 0 then 16 else (unat n + 15) div 16 * 16)"

lemma alloc_size_ge: "unat n \<le> alloc_size n" "16 dvd alloc_size n" "0 < alloc_size n"
  by (auto simp: alloc_size_def unat_gt_0 [symmetric] div_greater_zero_iff simp del: unat_gt_0) 

text \<open>Allocation touches only the bump pointer and the bounds of the mapped memory.\<close>

definition same_regs :: "'a client_heap_scheme \<Rightarrow> 'a client_heap_scheme \<Rightarrow> bool" where
  "same_regs h h' = (\<exists>p e k. h' = h\<lparr>heap_ptr := p, heap_end := e, mem_pages := k\<rparr>)"

lemma same_regsI: "h' = h\<lparr>heap_ptr := p, heap_end := e, mem_pages := k\<rparr> \<Longrightarrow> same_regs h h'"
  by (auto simp: same_regs_def)

lemma same_regs_refl: "same_regs h h"
  by (rule same_regsI [where p = "heap_ptr h" and e = "heap_end h" and k = "mem_pages h"]) simp

lemma same_regs_trans: "same_regs a b \<Longrightarrow> same_regs b c \<Longrightarrow> same_regs a c"
  by (auto simp: same_regs_def) (rule exI, rule exI, rule exI, rule refl)

lemma same_regs_upd:
  assumes "same_regs h h'"
  shows "same_regs h (h'\<lparr>heap_ptr := p\<rparr>)" "same_regs h (h'\<lparr>mem_pages := k\<rparr>)" "same_regs h (h'\<lparr>heap_end := e\<rparr>)"
proof -
  from assms obtain p' e' k' where h': "h' = h\<lparr>heap_ptr := p', heap_end := e', mem_pages := k'\<rparr>"
    by (auto simp: same_regs_def)
  show "same_regs h (h'\<lparr>heap_ptr := p\<rparr>)" by (rule same_regsI [where p = p and e = e' and k = k']) (simp add: h')
  show "same_regs h (h'\<lparr>mem_pages := k\<rparr>)" by (rule same_regsI [where p = p' and e = e' and k = k]) (simp add: h')
  show "same_regs h (h'\<lparr>heap_end := e\<rparr>)" by (rule same_regsI [where p = p' and e = e and k = k']) (simp add: h')
qed

lemma heap_grow_post:
  assumes wf: "heap_wf base h" and t: "unat (heap_ptr h + need) = unat (heap_ptr h) + unat need"
    and r: "heap_grow grow need h = (ok, h')"
  shows "heap_wf base h'" "same_regs h h'" "heap_ptr h' = heap_ptr h" "unat (heap_end h) \<le> unat (heap_end h')"
    "ok \<Longrightarrow> unat (heap_ptr h) + unat need \<le> unat (heap_end h')"
proof -
  have lim: "unat (CERCO_MAX_HEAP_PAGES * PAGE) = 2 ^ 22" by (simp add: CERCO_MAX_HEAP_PAGES_def PAGE_def)
  have "heap_wf base h' \<and> same_regs h h' \<and> heap_ptr h' = heap_ptr h \<and> unat (heap_end h) \<le> unat (heap_end h') \<and>
     (ok \<longrightarrow> unat (heap_ptr h) + unat need \<le> unat (heap_end h'))"
  proof (cases "heap_ptr h + need > CERCO_MAX_HEAP_PAGES * PAGE")
    case True
    with r wf show ?thesis by (auto simp: heap_grow_def same_regs_refl)
  next
    case False
    let ?tg = "unat (heap_ptr h + need)" and ?pe = "unat (heap_end h)"
    from False have tg: "?tg \<le> 2 ^ 22" by (simp only: lim not_less word_le_nat_alt)
    have pe: "unat ((heap_end h + PAGE - 1) AND NOT (PAGE - 1)) = ?pe"
      using wf by (intro round_page) (auto simp: heap_wf_def)
    obtain ro k where g: "grow_loop grow ?tg ?pe (mem_pages h) = (ro, k)" by fastforce
    have post: "mem_pages h \<le> k \<and> (\<forall>e. ro = Some e \<longrightarrow> ?tg \<le> e \<and> ?pe \<le> e \<and> e \<le> 2 ^ 22 \<and> 65536 dvd e \<and> e \<le> k * 65536)"
      using wf tg by (intro grow_loop_post [OF g]) (auto simp: heap_wf_def)
    show ?thesis
    proof (cases ro)
      case None
      with r False g pe have "ok = False" "h' = h\<lparr>mem_pages := k\<rparr>" by (auto simp: heap_grow_def Let_def)
      moreover have "unat (heap_end h) \<le> k * 65536"
        using wf post by (auto simp: heap_wf_def intro: le_trans mult_le_mono1)
      ultimately show ?thesis using wf
        by (auto simp: heap_wf_def intro: same_regs_upd same_regs_refl)
    next
      case (Some e)
      with r False g pe have "ok" "h' = h\<lparr>mem_pages := k, heap_end := of_nat e\<rparr>" by (auto simp: heap_grow_def Let_def)
      moreover from post Some have e: "?tg \<le> e" "?pe \<le> e" "e \<le> 2 ^ 22" "65536 dvd e" "e \<le> k * 65536" by auto
      moreover from e(3) have "unat (of_nat e :: u32) = e" by (intro unat_of_nat32) simp
      ultimately show ?thesis using wf t
        by (auto simp: heap_wf_def intro: same_regs_upd same_regs_refl)
    qed
  qed
  then show "heap_wf base h'" "same_regs h h'" "heap_ptr h' = heap_ptr h" "unat (heap_end h) \<le> unat (heap_end h')"
    "ok \<Longrightarrow> unat (heap_ptr h) + unat need \<le> unat (heap_end h')" by auto
qed

lemma client_alloc_post:
  assumes wf: "heap_wf base h" and n: "unat n \<le> 2 ^ 31" and r: "cerco_alloc grow n h = (p, h')"
  shows "heap_wf base h'" "same_regs h h'" "unat (heap_end h) \<le> unat (heap_end h')"
    "p = 0 \<and> heap_ptr h' = heap_ptr h \<or>
     p = heap_ptr h \<and> p \<noteq> 0 \<and> unat (heap_ptr h') = unat p + alloc_size n \<and> unat (heap_ptr h') \<le> unat (heap_end h')"
proof -
  define n2 where "n2 = (if round16 n = 0 then 16 else round16 n)"
  have r16: "unat (round16 n) = (unat n + 15) div 16 * 16" using n by (intro unat_round16) simp
  have s: "unat n2 = alloc_size n"
  proof (cases "n = 0")
    case True
    with r16 have "round16 n = 0" by (simp add: unat_eq_0)
    with True show ?thesis by (simp add: n2_def alloc_size_def)
  next
    case False
    then have "0 < unat n" by (simp add: unat_gt_0)
    then have "0 < (unat n + 15) div 16" by (simp add: div_greater_zero_iff)
    with r16 have "round16 n \<noteq> 0" by (metis mult_is_0 neq0_conv numeral_eq_iff unat_eq_0 zero_neq_numeral)
    with False r16 show ?thesis by (simp add: n2_def alloc_size_def)
  qed
  have "alloc_size n \<le> 2 ^ 31 + 16" using n by (auto simp: alloc_size_def)
  with s wf have t: "unat (heap_ptr h + n2) = unat (heap_ptr h) + unat n2"
    by (subst unat_add_lem [THEN iffD1]) (auto simp: heap_wf_def)
  have nz: "heap_ptr h \<noteq> 0" using wf by (auto simp: heap_wf_def)
  obtain ok h1 where g: "(if heap_ptr h + n2 > heap_end h then heap_grow grow n2 h else (True, h)) = (ok, h1)" by fastforce
  have w1: "heap_wf base h1 \<and> same_regs h h1 \<and> heap_ptr h1 = heap_ptr h \<and> unat (heap_end h) \<le> unat (heap_end h1) \<and>
     (ok \<longrightarrow> unat (heap_ptr h) + unat n2 \<le> unat (heap_end h1))"
  proof (cases "heap_ptr h + n2 > heap_end h")
    case True
    with g heap_grow_post [OF wf t, of grow ok h1] show ?thesis by simp
  next
    case False
    with g t wf show ?thesis
      by (auto simp: word_less_nat_alt same_regs_refl)
  qed
  have r': "(p, h') = (if ok then (heap_ptr h1, h1\<lparr>heap_ptr := heap_ptr h1 + n2\<rparr>) else (0, h1))"
    using r [unfolded cerco_alloc_def Let_def, folded n2_def] unfolding g by simp
  show "same_regs h h'" using r' w1 by (auto intro: same_regs_upd split: if_splits)
  show "unat (heap_end h) \<le> unat (heap_end h')" using r' w1 by (auto split: if_splits)
  show "heap_wf base h'" using r' w1 t by (auto simp: heap_wf_def split: if_splits)
  show "p = 0 \<and> heap_ptr h' = heap_ptr h \<or>
     p = heap_ptr h \<and> p \<noteq> 0 \<and> unat (heap_ptr h') = unat p + alloc_size n \<and> unat (heap_ptr h') \<le> unat (heap_end h')"
    using r' w1 t s nz by (auto split: if_splits)
qed

subsection \<open>The heap as a transition system\<close>

text \<open>A run of the allocator together with the blocks it handed out and that are still in use:
  address, requested size, and whether the block is sticky. A rewind ends the life of the
  blocks that are not.\<close>

type_synonym heap_run = "client_heap \<times> (nat \<times> nat \<times> bool) list"

inductive heap_step :: "u32 \<Rightarrow> (nat \<Rightarrow> bool) \<Rightarrow> heap_run \<Rightarrow> heap_run \<Rightarrow> bool" for base grow where
  step_alloc: "unat n \<le> 2 ^ 31 \<Longrightarrow> cerco_alloc grow n h = (p, h') \<Longrightarrow>
     heap_step base grow (h, bs) (h', if p \<noteq> 0 then (unat p, unat n, False) # bs else bs)"
| step_sticky: "unat n \<le> 2 ^ 31 \<Longrightarrow> cerco_alloc_sticky grow n h = (p, h') \<Longrightarrow>
     heap_step base grow (h, bs) (h', if p \<noteq> 0 then (unat p, unat n, True) # bs else bs)"
| step_rewind: "heap_step base grow (h, bs) (cerco_heap_rewind base h, filter (\<lambda>(p, n, st). st) bs)"

definition heap_start :: "u32 \<Rightarrow> heap_run \<Rightarrow> bool" where
  "heap_start base r =
     (0 < unat base \<and> unat base \<le> 2 ^ 21 \<and> snd r = [] \<and>
      (\<exists>h. fst r = cerco_heap_init base h \<and> mem_pages h \<le> 64 \<and> heap_sticky_floor h = 0))"

definition block_ok :: "u32 \<Rightarrow> client_heap \<Rightarrow> nat \<times> nat \<times> bool \<Rightarrow> bool" where
  "block_ok base h b =
     (case b of (p, n, st) \<Rightarrow>
        unat base \<le> p \<and> p + n \<le> unat (heap_ptr h) \<and> p + n \<le> unat (heap_end h) \<and>
        (st \<longrightarrow> p + n \<le> unat (heap_sticky_floor h)) \<and> (16 dvd unat base \<longrightarrow> 16 dvd p))"

definition blocks_apart :: "nat \<times> nat \<times> bool \<Rightarrow> nat \<times> nat \<times> bool \<Rightarrow> bool" where
  "blocks_apart b c = disjoint (fst b, fst (snd b)) (fst c, fst (snd c))"

definition heap_inv :: "u32 \<Rightarrow> heap_run \<Rightarrow> bool" where
  "heap_inv base r =
     (let h = fst r in
      heap_wf base h \<and> (heap_sticky_floor h = 0 \<or> unat base \<le> unat (heap_sticky_floor h)) \<and>
      unat (heap_sticky_floor h) \<le> unat (heap_ptr h) \<and>
      (16 dvd unat base \<longrightarrow> 16 dvd unat (heap_ptr h) \<and> 16 dvd unat (heap_sticky_floor h)) \<and>
      list_all (block_ok base h) (snd r) \<and> sorted_wrt blocks_apart (snd r))"

lemma heap_start_inv: "heap_start base r \<Longrightarrow> heap_inv base r"
proof -
  assume "heap_start base r"
  then obtain h where h: "r = (cerco_heap_init base h, [])" "mem_pages h \<le> 64" "heap_sticky_floor h = 0"
    and b: "0 < unat base" "unat base \<le> 2 ^ 21" by (cases r) (auto simp: heap_start_def)
  have r: "unat (round16 base) = (unat base + 15) div 16 * 16" using b by (intro unat_round16) simp
  have e: "unat (of_nat (mem_pages h) * PAGE) = mem_pages h * 65536"
  proof -
    have "of_nat (mem_pages h) * PAGE = (of_nat (mem_pages h * 65536) :: u32)" by (simp add: PAGE_def)
    then show ?thesis using h(2) by (simp only:) (intro unat_of_nat32, simp)
  qed
  have "(unat base + 15) div 16 * 16 \<le> 2 ^ 21 + 16" "unat base \<le> (unat base + 15) div 16 * 16"
    using b(2) by linarith+
  with h b r [unfolded round16_def] e show ?thesis
    by (simp add: heap_inv_def heap_wf_def cerco_heap_init_def)
qed

lemma block_ok_mono:
  "block_ok base h b \<Longrightarrow> unat (heap_ptr h) \<le> unat (heap_ptr h') \<Longrightarrow> unat (heap_end h) \<le> unat (heap_end h') \<Longrightarrow>
   unat (heap_sticky_floor h) \<le> unat (heap_sticky_floor h') \<Longrightarrow> block_ok base h' b"
  by (auto simp: block_ok_def)

lemma alloc_sticky_eq:
  assumes "unat n \<le> 2 ^ 31" "heap_wf base h" "cerco_alloc_sticky grow n h = (p, h')"
  shows "\<exists>h1. cerco_alloc grow n h = (p, h1) \<and> h' = (if p \<noteq> 0 then h1\<lparr>heap_sticky_floor := heap_ptr h + round16 n\<rparr> else h1)"
  using assms(3) by (auto simp: cerco_alloc_sticky_def Let_def split: prod.splits)

lemma same_regs_views:
  "same_regs h h' \<Longrightarrow> heap_sticky_floor h' = heap_sticky_floor h \<and> scratch_base h' = scratch_base h \<and>
     scratch_off h' = scratch_off h \<and> lmem h' = lmem h \<and> client_heap.more h' = client_heap.more h"
  by (auto simp: same_regs_def)

lemma alloc_inv:
  assumes inv: "heap_inv base (h, bs)" and n: "unat n \<le> 2 ^ 31" and r: "cerco_alloc grow n h = (p, h')"
  shows "heap_inv base (h', if p \<noteq> 0 then (unat p, unat n, False) # bs else bs)"
    "p \<noteq> 0 \<Longrightarrow> unat (heap_ptr h + round16 n) \<le> unat (heap_ptr h') \<and> unat p + unat n \<le> unat (heap_ptr h + round16 n) \<and>
       (16 dvd unat p \<longrightarrow> 16 dvd unat (heap_ptr h + round16 n)) \<and> unat (heap_ptr h) \<le> unat (heap_ptr h + round16 n)"
proof -
  from inv have wf: "heap_wf base h" by (simp add: heap_inv_def Let_def)
  note post = client_alloc_post [OF wf n r]
  note v = same_regs_views [OF post(2)]
  have up: "unat (heap_ptr h) \<le> unat (heap_ptr h')" using post(4) by auto
  have mono: "list_all (block_ok base h') bs"
    using inv block_ok_mono [OF _ up post(3)] v by (auto simp: heap_inv_def Let_def list_all_iff)
  show "heap_inv base (h', if p \<noteq> 0 then (unat p, unat n, False) # bs else bs)"
  proof (cases "p = 0")
    case True
    with inv post mono v show ?thesis by (simp add: heap_inv_def Let_def)
  next
    case False
    with post have p: "p = heap_ptr h" "unat (heap_ptr h') = unat p + alloc_size n" "unat (heap_ptr h') \<le> unat (heap_end h')" by auto
    have "block_ok base h' (unat p, unat n, False)"
      using inv p alloc_size_ge [of n] by (auto simp: heap_inv_def heap_wf_def Let_def block_ok_def)
    moreover have "\<forall>b \<in> set bs. blocks_apart (unat p, unat n, False) b"
      using inv p(1) by (auto simp: heap_inv_def Let_def list_all_iff block_ok_def blocks_apart_def)
    moreover have "16 dvd unat (heap_ptr h) \<Longrightarrow> 16 dvd unat (heap_ptr h')"
      using p alloc_size_ge(2) [of n] by simp
    ultimately show ?thesis
      using inv post(1) up mono v False by (auto simp: heap_inv_def Let_def)
  qed
  assume "p \<noteq> 0"
  with post have p: "p = heap_ptr h" "unat (heap_ptr h') = unat p + alloc_size n" by auto
  have r16: "unat (round16 n) = (unat n + 15) div 16 * 16" using n by (intro unat_round16) simp
  have "(unat n + 15) div 16 * 16 \<le> 2 ^ 31 + 16" using n by linarith
  then have "unat (heap_ptr h + round16 n) = unat (heap_ptr h) + unat (round16 n)"
    using wf r16 by (subst unat_add_lem [THEN iffD1]) (auto simp: heap_wf_def)
  with r16 p show "unat (heap_ptr h + round16 n) \<le> unat (heap_ptr h') \<and> unat p + unat n \<le> unat (heap_ptr h + round16 n) \<and>
       (16 dvd unat p \<longrightarrow> 16 dvd unat (heap_ptr h + round16 n)) \<and> unat (heap_ptr h) \<le> unat (heap_ptr h + round16 n)"
    by (auto simp: alloc_size_def)
qed

lemma heap_inv_sticky:
  assumes inv: "heap_inv base (h1, (p, n, False) # bs)" and f: "unat (heap_sticky_floor h1) \<le> unat f"
    and "p + n \<le> unat f" "unat f \<le> unat (heap_ptr h1)" "16 dvd unat base \<Longrightarrow> 16 dvd unat f" "unat base \<le> unat f"
  shows "heap_inv base (h1\<lparr>heap_sticky_floor := f\<rparr>, (p, n, True) # bs)"
proof -
  from f have "list_all (block_ok base (h1\<lparr>heap_sticky_floor := f\<rparr>)) bs"
    using inv block_ok_mono [of base h1 _ "h1\<lparr>heap_sticky_floor := f\<rparr>"]
    by (auto simp: heap_inv_def Let_def list_all_iff)
  with assms show ?thesis
    by (auto simp: heap_inv_def Let_def heap_wf_def block_ok_def blocks_apart_def)
qed

lemma sorted_wrt_filter: "sorted_wrt P xs \<Longrightarrow> sorted_wrt P (filter Q xs)"
  by (induction xs) auto

lemma heap_step_inv: "heap_step base grow r r' \<Longrightarrow> heap_inv base r \<Longrightarrow> heap_inv base r'"
proof (induction rule: heap_step.induct)
  case (step_alloc n h p h' bs)
  from alloc_inv(1) [OF step_alloc(3,1,2)] show ?case .
next
  case (step_sticky n h p h' bs)
  from step_sticky(3) have wf: "heap_wf base h" by (simp add: heap_inv_def Let_def)
  from alloc_sticky_eq [OF step_sticky(1) wf step_sticky(2)] obtain h1
    where a: "cerco_alloc grow n h = (p, h1)" and h': "h' = (if p \<noteq> 0 then h1\<lparr>heap_sticky_floor := heap_ptr h + round16 n\<rparr> else h1)"
    by auto
  note inv1 = alloc_inv(1) [OF step_sticky(3,1) a] and fl = alloc_inv(2) [OF step_sticky(3,1) a]
  show ?case
  proof (cases "p = 0")
    case True
    with inv1 h' show ?thesis by simp
  next
    case False
    from client_alloc_post(2) [OF wf step_sticky(1) a] have v: "heap_sticky_floor h1 = heap_sticky_floor h"
      by (simp add: same_regs_views)
    have "heap_inv base (h1\<lparr>heap_sticky_floor := heap_ptr h + round16 n\<rparr>, (unat p, unat n, True) # bs)"
    proof (rule heap_inv_sticky)
      show "16 dvd unat base \<Longrightarrow> 16 dvd unat (heap_ptr h + round16 n)"
        using fl [OF False] inv1 False by (simp add: heap_inv_def Let_def block_ok_def)
    qed (use inv1 fl [OF False] v False step_sticky(3) wf in \<open>auto simp: heap_inv_def heap_wf_def Let_def\<close>)
    with False h' show ?thesis by simp
  qed
next
  case (step_rewind h bs)
  let ?h = "cerco_heap_rewind base h"
  have keep: "block_ok base ?h b" if "b \<in> set bs" "snd (snd b)" for b
    using that step_rewind by (auto simp: heap_inv_def Let_def list_all_iff block_ok_def cerco_heap_rewind_def heap_wf_def)
  show ?case
    using step_rewind keep
    by (auto simp: heap_inv_def Let_def heap_wf_def cerco_heap_rewind_def list_all_iff sorted_wrt_filter)
qed

interpretation heap_sys: transition_system "heap_start base" "heap_step base grow" "heap_inv base" for base grow
  by unfold_locales (auto intro: heap_start_inv heap_step_inv)

subsection \<open>Properties\<close>

text \<open>C7: Whatever sequence of allocations, sticky allocations and rewinds the client performs, with
  requests of up to 2 GiB, the blocks in use are pairwise disjoint, lie in mapped memory
  above \<open>__heap_base\<close> and below the configured 4 MiB, and are 16-aligned when \<open>__heap_base\<close>
  is; a sticky block is never handed out again after a rewind.\<close>

theorem client_heap_blocks:
  assumes "heap_start base r" "(heap_step base grow)\<^sup>*\<^sup>* r (h, bs)"
  shows "sorted_wrt blocks_apart bs \<and>
    (\<forall>(p, n, st) \<in> set bs. unat base \<le> p \<and> p + n \<le> mem_pages h * 65536 \<and> p + n \<le> 2 ^ 22 \<and>
       (16 dvd unat base \<longrightarrow> 16 dvd p))"
  using heap_sys.reachable_inv [OF assms(2,1)]
  by (auto simp: heap_inv_def heap_wf_def Let_def list_all_iff block_ok_def)

definition heap0 :: client_heap where
  "heap0 = \<lparr>heap_ptr = 0, heap_end = 0, heap_sticky_floor = 0, scratch_base = 0, scratch_off = 0,
     mem_pages = 1, lmem = (\<lambda>_. 0)\<rparr>"

theorem client_heap_blocks_witness:
  "sorted_wrt blocks_apart [(1200, 8, False), (1136, 50, True)]"
proof -
  let ?h = "cerco_heap_init 1024 heap0"
  let ?a = "\<lambda>h n. snd (cerco_alloc (\<lambda>_. False) n h)"
  let ?h1 = "?a ?h 100" and ?h2 = "snd (cerco_alloc_sticky (\<lambda>_. False) 50 (?a ?h 100))"
  let ?h3 = "cerco_heap_rewind 1024 ?h2"
  note ev = heap0_def cerco_heap_init_def PAGE_def cerco_alloc_def round16_def Let_def cerco_alloc_sticky_def cerco_heap_rewind_def
  have s1: "cerco_alloc (\<lambda>_. False) 100 ?h = (1024, ?h1)" by (simp add: ev)
  have s2: "cerco_alloc_sticky (\<lambda>_. False) 50 ?h1 = (1136, ?h2)" by (simp add: ev)
  have s3: "cerco_alloc (\<lambda>_. False) 8 ?h3 = (1200, ?a ?h3 8)" by (simp add: ev)
  have "heap_step 1024 (\<lambda>_. False) (?h, []) (?h1, [(1024, 100, False)])"
    using step_alloc [OF _ s1, of 1024 "[]"] by simp
  moreover have "heap_step 1024 (\<lambda>_. False) (?h1, [(1024, 100, False)]) (?h2, [(1136, 50, True), (1024, 100, False)])"
    using step_sticky [OF _ s2, of 1024 "[(1024, 100, False)]"] by simp
  moreover have "heap_step 1024 (\<lambda>_. False) (?h2, [(1136, 50, True), (1024, 100, False)]) (?h3, [(1136, 50, True)])"
    using step_rewind [of 1024 "\<lambda>_. False" ?h2 "[(1136, 50, True), (1024, 100, False)]"] by simp
  moreover have "heap_step 1024 (\<lambda>_. False) (?h3, [(1136, 50, True)]) (?a ?h3 8, [(1200, 8, False), (1136, 50, True)])"
    using step_alloc [OF _ s3, of 1024 "[(1136, 50, True)]"] by simp
  ultimately have "(heap_step 1024 (\<lambda>_. False))\<^sup>*\<^sup>* (?h, []) (?a ?h3 8, [(1200, 8, False), (1136, 50, True)])"
    by (meson rtranclp.rtrancl_refl rtranclp.rtrancl_into_rtrancl)
  moreover have "heap_start 1024 (?h, [])"
    unfolding heap_start_def fst_conv snd_conv by (intro conjI exI [of _ heap0]) (simp_all add: heap0_def)
  ultimately show ?thesis using client_heap_blocks [of 1024 "(?h, [])" "\<lambda>_. False" "?a ?h3 8"] by blast
qed

end
