(* ===== verification/Client_Dom.thy ===== *)
theory Client_Dom
  imports Client_Heap
begin

text \<open>
  \<open>runtime/client/dom.c\<close>: the command buffer through which all DOM work reaches the browser
  host, signals and their bindings, event slots, pending HTTP requests and the JSON helpers.
  The command buffer lives in linear memory at \<open>cmd_buf\<close>. What the client does to the host
  is the list \<open>host_trace\<close>; what the host answers is a parameter. Function pointers are table
  indices, so a callback is a 32-bit word, and the code behind it is a parameter that maps
  the state to the state. Signals are kept by address, each with its list of bindings (the
  newest first, as the code links them).
\<close>

datatype host_call =
    Dom_flush "byte list"
  | Host_query u32 string
  | Host_fetch nat string "byte list" "byte list"
  | Host_set_title "byte list"
  | Host_swap_page "byte list"
  | Host_nav_reload
  | Host_hydrate_roots
  | Host_log string

datatype cerco_sub =
    Sub_text u32
  | Sub_class u32 "string option"

record cerco_sig =
  sig_value :: u32
  sig_subs :: "cerco_sub list"

record event_slot =
  es_fn :: u32
  es_user :: u32

record pending_fetch =
  pf_used :: bool
  pf_cb :: u32
  pf_user :: u32
  pf_resp :: u32

definition CMD_BUF_SIZE :: u32 where "CMD_BUF_SIZE = 32768"
definition MAX_EVENT_SLOTS :: u32 where "MAX_EVENT_SLOTS = 512"
definition MAX_PENDING_FETCHES :: nat where "MAX_PENDING_FETCHES = 32"
definition FETCH_SLOTS :: nat where "FETCH_SLOTS = 4"
definition CERCO_FETCH_MAX :: int where "CERCO_FETCH_MAX = 512 * 1024"

record client = client_heap +
  cmd_buf :: u32
  cmd_len :: u32
  next_dynamic_id :: u32
  sigs :: "u32 \<Rightarrow> cerco_sig option"
  g_slots :: "event_slot list"
  g_slot_count :: u32
  g_fetches :: "pending_fetch list"
  g_fetch_bufs :: "u32 list"
  g_fetch_caps :: "u32 list"
  host_trace :: "host_call list"

subsection \<open>Command buffer\<close>

definition OP_CREATE :: byte where "OP_CREATE = 1"
definition OP_SET_TEXT :: byte where "OP_SET_TEXT = 2"
definition OP_SET_ATTR :: byte where "OP_SET_ATTR = 3"
definition OP_REMOVE_ATTR :: byte where "OP_REMOVE_ATTR = 4"
definition OP_REMOVE_NODE :: byte where "OP_REMOVE_NODE = 6"
definition OP_SET_CLASS :: byte where "OP_SET_CLASS = 7"
definition OP_ADD_CLASS :: byte where "OP_ADD_CLASS = 8"
definition OP_REMOVE_CLASS :: byte where "OP_REMOVE_CLASS = 9"
definition OP_ADD_EVENT :: byte where "OP_ADD_EVENT = 10"
definition OP_SET_VALUE :: byte where "OP_SET_VALUE = 11"
definition OP_SET_INNER_HTML :: byte where "OP_SET_INNER_HTML = 12"

lemmas OP_defs = OP_CREATE_def OP_SET_TEXT_def OP_SET_ATTR_def OP_REMOVE_ATTR_def OP_REMOVE_NODE_def
  OP_SET_CLASS_def OP_ADD_CLASS_def OP_REMOVE_CLASS_def OP_ADD_EVENT_def OP_SET_VALUE_def OP_SET_INNER_HTML_def

definition cmd_put_u8 :: "byte \<Rightarrow> 'a client_scheme \<Rightarrow> 'a client_scheme" where
  "cmd_put_u8 v c = c\<lparr>lmem := (lmem c)(cmd_buf c + cmd_len c := v), cmd_len := cmd_len c + 1\<rparr>"

definition cmd_put_u32 :: "u32 \<Rightarrow> 'a client_scheme \<Rightarrow> 'a client_scheme" where
  "cmd_put_u32 v c =
     cmd_put_u8 (ucast (drop_bit 24 v)) (cmd_put_u8 (ucast (drop_bit 16 v))
       (cmd_put_u8 (ucast (drop_bit 8 v)) (cmd_put_u8 (ucast v) c)))"

definition cmd_put_str :: "string option \<Rightarrow> 'a client_scheme \<Rightarrow> 'a client_scheme" where
  "cmd_put_str s c =
     (let t = (case s of None \<Rightarrow> [] | Some t \<Rightarrow> t);
          n = of_nat (length t);
          c1 = cmd_put_u32 n c
      in if n \<noteq> 0
         then c1\<lparr>lmem := store (cmd_buf c1 + cmd_len c1) (to_bytes t) (lmem c1), cmd_len := cmd_len c1 + n\<rparr>
         else c1)"

definition cmd_begin :: "(nat \<Rightarrow> bool) \<Rightarrow> byte \<Rightarrow> 'a client_scheme \<Rightarrow> 'a client_scheme" where
  "cmd_begin grow opc c =
     (let c1 = (if cmd_buf c = 0
                then (let (p, c') = cerco_alloc grow CMD_BUF_SIZE c in c'\<lparr>cmd_buf := p\<rparr>) else c)
      in if cmd_buf c1 = 0 then c1 else cmd_put_u8 opc c1)"

definition host_dom_flush :: "u32 \<Rightarrow> u32 \<Rightarrow> 'a client_scheme \<Rightarrow> 'a client_scheme" where
  "host_dom_flush p n c = c\<lparr>host_trace := host_trace c @ [Dom_flush (bytes_at (lmem c) p (unat n))]\<rparr>"

definition cmd_end :: "'a client_scheme \<Rightarrow> 'a client_scheme" where
  "cmd_end c =
     (if cmd_len c > CMD_BUF_SIZE - CMD_BUF_SIZE div 4
      then (host_dom_flush (cmd_buf c) (cmd_len c) c)\<lparr>cmd_len := 0\<rparr> else c)"

definition cerco_dom_flush :: "'a client_scheme \<Rightarrow> 'a client_scheme" where
  "cerco_dom_flush c =
     (if cmd_len c \<noteq> 0 then (host_dom_flush (cmd_buf c) (cmd_len c) c)\<lparr>cmd_len := 0\<rparr> else c)"

subsection \<open>DOM operations\<close>

definition cerco_set_text :: "(nat \<Rightarrow> bool) \<Rightarrow> u32 \<Rightarrow> string option \<Rightarrow> 'a client_scheme \<Rightarrow> 'a client_scheme" where
  "cerco_set_text grow node s c =
     cmd_end (cmd_put_str s (cmd_put_u32 node (cmd_begin grow OP_SET_TEXT c)))"

definition cerco_set_attr :: "(nat \<Rightarrow> bool) \<Rightarrow> u32 \<Rightarrow> string option \<Rightarrow> string option \<Rightarrow> 'a client_scheme \<Rightarrow> 'a client_scheme" where
  "cerco_set_attr grow node k v c =
     cmd_end (cmd_put_str v (cmd_put_str k (cmd_put_u32 node (cmd_begin grow OP_SET_ATTR c))))"

definition cerco_remove_attr :: "(nat \<Rightarrow> bool) \<Rightarrow> u32 \<Rightarrow> string option \<Rightarrow> 'a client_scheme \<Rightarrow> 'a client_scheme" where
  "cerco_remove_attr grow node k c =
     cmd_end (cmd_put_str k (cmd_put_u32 node (cmd_begin grow OP_REMOVE_ATTR c)))"

definition cerco_set_class :: "(nat \<Rightarrow> bool) \<Rightarrow> u32 \<Rightarrow> string option \<Rightarrow> 'a client_scheme \<Rightarrow> 'a client_scheme" where
  "cerco_set_class grow node cls c =
     cmd_end (cmd_put_str cls (cmd_put_u32 node (cmd_begin grow OP_SET_CLASS c)))"

definition cerco_add_class :: "(nat \<Rightarrow> bool) \<Rightarrow> u32 \<Rightarrow> string option \<Rightarrow> 'a client_scheme \<Rightarrow> 'a client_scheme" where
  "cerco_add_class grow node cls c =
     cmd_end (cmd_put_str cls (cmd_put_u32 node (cmd_begin grow OP_ADD_CLASS c)))"

definition cerco_remove_class :: "(nat \<Rightarrow> bool) \<Rightarrow> u32 \<Rightarrow> string option \<Rightarrow> 'a client_scheme \<Rightarrow> 'a client_scheme" where
  "cerco_remove_class grow node cls c =
     cmd_end (cmd_put_str cls (cmd_put_u32 node (cmd_begin grow OP_REMOVE_CLASS c)))"

definition cerco_create :: "(nat \<Rightarrow> bool) \<Rightarrow> string option \<Rightarrow> u32 \<Rightarrow> 'a client_scheme \<Rightarrow> u32 \<times> 'a client_scheme" where
  "cerco_create grow tag parent c =
     (let id = next_dynamic_id c; c1 = c\<lparr>next_dynamic_id := id + 1\<rparr>
      in (id, cmd_end (cmd_put_u32 parent (cmd_put_str tag (cmd_put_u32 id (cmd_begin grow OP_CREATE c1))))))"

definition cerco_remove :: "(nat \<Rightarrow> bool) \<Rightarrow> u32 \<Rightarrow> 'a client_scheme \<Rightarrow> 'a client_scheme" where
  "cerco_remove grow node c = cmd_end (cmd_put_u32 node (cmd_begin grow OP_REMOVE_NODE c))"

definition cerco_set_value :: "(nat \<Rightarrow> bool) \<Rightarrow> u32 \<Rightarrow> string option \<Rightarrow> 'a client_scheme \<Rightarrow> 'a client_scheme" where
  "cerco_set_value grow node v c =
     cmd_end (cmd_put_str v (cmd_put_u32 node (cmd_begin grow OP_SET_VALUE c)))"

definition cerco_set_inner_html :: "(nat \<Rightarrow> bool) \<Rightarrow> u32 \<Rightarrow> string option \<Rightarrow> 'a client_scheme \<Rightarrow> 'a client_scheme" where
  "cerco_set_inner_html grow node html c =
     cmd_end (cmd_put_str html (cmd_put_u32 node (cmd_begin grow OP_SET_INNER_HTML c)))"

text \<open>Questions to the host. \<open>found\<close>, \<open>value_of\<close> and \<open>attr_of\<close> are the document's answers after
  the calls made so far; the host writes a value only when it fits and answers -1 otherwise.\<close>

definition cerco_query_node ::
  "(nat \<Rightarrow> bool) \<Rightarrow> (host_call list \<Rightarrow> u32 \<Rightarrow> string \<Rightarrow> u32) \<Rightarrow> u32 \<Rightarrow> string \<Rightarrow> 'a client_scheme \<Rightarrow> u32 \<times> 'a client_scheme" where
  "cerco_query_node grow found scope selector c =
     (let (sel, c1) = cerco_scratch_strdup grow selector c
      in if sel = 0 then (0, c1)
         else (found (host_trace c1) scope selector,
               c1\<lparr>host_trace := host_trace c1 @ [Host_query scope selector]\<rparr>))"

definition host_write :: "byte list option \<Rightarrow> u32 \<Rightarrow> int \<Rightarrow> 'a client_scheme \<Rightarrow> int \<times> 'a client_scheme" where
  "host_write v out_ptr cap c =
     (case v of
        None \<Rightarrow> (-1, c)
      | Some bs \<Rightarrow>
          if int (length bs) > cap then (-1, c)
          else (int (length bs), c\<lparr>lmem := store out_ptr bs (lmem c)\<rparr>))"

definition cerco_value ::
  "(host_call list \<Rightarrow> u32 \<Rightarrow> byte list option) \<Rightarrow> u32 \<Rightarrow> u32 \<Rightarrow> int \<Rightarrow> 'a client_scheme \<Rightarrow> int \<times> 'a client_scheme" where
  "cerco_value value_of node buf cap c = host_write (value_of (host_trace c) node) buf cap c"

definition cerco_attr ::
  "(host_call list \<Rightarrow> u32 \<Rightarrow> string \<Rightarrow> byte list option) \<Rightarrow> u32 \<Rightarrow> string option \<Rightarrow> u32 \<Rightarrow> int \<Rightarrow>
   'a client_scheme \<Rightarrow> int \<times> 'a client_scheme" where
  "cerco_attr attr_of node name buf cap c =
     (case name of
        None \<Rightarrow> (-1, c)
      | Some k \<Rightarrow>
          if node = 0 \<or> buf = 0 \<or> cap \<le> 0 then (-1, c)
          else
            let c1 = cerco_dom_flush c;
                (n, c2) = host_write (attr_of (host_trace c1) node k) buf (cap - 1) c1
            in (n, c2\<lparr>lmem := (lmem c2)(buf + (if n > 0 then word_of_int n else 0) := 0)\<rparr>))"

subsection \<open>Signals and bindings\<close>

definition cerco_signal_new :: "(nat \<Rightarrow> bool) \<Rightarrow> u32 \<Rightarrow> 'a client_scheme \<Rightarrow> u32 \<times> 'a client_scheme" where
  "cerco_signal_new grow initial c =
     (let (s, c1) = cerco_alloc grow 8 c
      in (s, if s = 0 then c1 else c1\<lparr>sigs := (sigs c1)(s \<mapsto> \<lparr>sig_value = initial, sig_subs = []\<rparr>)\<rparr>))"

definition sig_at :: "'a client_scheme \<Rightarrow> u32 \<Rightarrow> cerco_sig" where
  "sig_at c s = (case sigs c s of Some x \<Rightarrow> x | None \<Rightarrow> \<lparr>sig_value = 0, sig_subs = []\<rparr>)"

definition cerco_signal_get :: "u32 \<Rightarrow> 'a client_scheme \<Rightarrow> u32" where
  "cerco_signal_get s c = (if s \<noteq> 0 then sig_value (sig_at c s) else 0)"

definition bind_text_run :: "(nat \<Rightarrow> bool) \<Rightarrow> u32 \<Rightarrow> u32 \<Rightarrow> 'a client_scheme \<Rightarrow> 'a client_scheme" where
  "bind_text_run grow v node c = cerco_set_text grow node (Some (cerco_i32_to_str v)) c"

definition bind_class_run :: "(nat \<Rightarrow> bool) \<Rightarrow> u32 \<Rightarrow> u32 \<Rightarrow> string option \<Rightarrow> 'a client_scheme \<Rightarrow> 'a client_scheme" where
  "bind_class_run grow v node cls c =
     (if v \<noteq> 0 then cerco_add_class grow node cls c else cerco_remove_class grow node cls c)"

definition sub_run :: "(nat \<Rightarrow> bool) \<Rightarrow> u32 \<Rightarrow> cerco_sub \<Rightarrow> 'a client_scheme \<Rightarrow> 'a client_scheme" where
  "sub_run grow s b c =
     (let v = sig_value (sig_at c s) in
      case b of
        Sub_text node \<Rightarrow> bind_text_run grow v node c
      | Sub_class node cls \<Rightarrow> bind_class_run grow v node cls c)"

definition cerco_signal_set :: "(nat \<Rightarrow> bool) \<Rightarrow> u32 \<Rightarrow> u32 \<Rightarrow> 'a client_scheme \<Rightarrow> 'a client_scheme" where
  "cerco_signal_set grow s v c =
     (if s = 0 \<or> sig_value (sig_at c s) = v then c
      else
        let c1 = c\<lparr>sigs := (sigs c)(s \<mapsto> (sig_at c s)\<lparr>sig_value := v\<rparr>)\<rparr>
        in cerco_dom_flush (fold (sub_run grow s) (sig_subs (sig_at c1 s)) c1))"

definition sub_link :: "u32 \<Rightarrow> cerco_sub \<Rightarrow> 'a client_scheme \<Rightarrow> 'a client_scheme" where
  "sub_link s b c = c\<lparr>sigs := (sigs c)(s \<mapsto> (sig_at c s)\<lparr>sig_subs := b # sig_subs (sig_at c s)\<rparr>)\<rparr>"

definition cerco_bind_text :: "(nat \<Rightarrow> bool) \<Rightarrow> u32 \<Rightarrow> u32 \<Rightarrow> 'a client_scheme \<Rightarrow> 'a client_scheme" where
  "cerco_bind_text grow node s c =
     (if s = 0 then c
      else
        let (sub, c1) = cerco_alloc grow 12 c
        in if sub = 0 then c1
           else
             let c2 = sub_link s (Sub_text node) c1
             in cerco_dom_flush (cerco_set_text grow node (Some (cerco_i32_to_str (sig_value (sig_at c2 s)))) c2))"

definition cerco_bind_class :: "(nat \<Rightarrow> bool) \<Rightarrow> u32 \<Rightarrow> u32 \<Rightarrow> string \<Rightarrow> 'a client_scheme \<Rightarrow> 'a client_scheme" where
  "cerco_bind_class grow node s cls c =
     (if s = 0 then c
      else
        let (b, c1) = cerco_alloc grow 8 c
        in if b = 0 then c1
           else
             let (d, c2) = cerco_strdup grow cls c1;
                 (sub, c3) = cerco_alloc grow 12 c2
             in if sub = 0 then c3
                else
                  let c4 = sub_link s (Sub_class node (if d = 0 then None else Some cls)) c3
                  in cerco_dom_flush
                       (if sig_value (sig_at c4 s) \<noteq> 0 then cerco_add_class grow node (Some cls) c4
                        else cerco_remove_class grow node (Some cls) c4))"

subsection \<open>Events\<close>

definition cerco_on :: "(nat \<Rightarrow> bool) \<Rightarrow> u32 \<Rightarrow> string option \<Rightarrow> u32 \<Rightarrow> u32 \<Rightarrow> 'a client_scheme \<Rightarrow> 'a client_scheme" where
  "cerco_on grow node event fn user c =
     (if g_slot_count c \<ge> MAX_EVENT_SLOTS then c
      else
        let slot = g_slot_count c;
            c1 = c\<lparr>g_slot_count := slot + 1,
                   g_slots := (g_slots c)[unat slot := \<lparr>es_fn = fn, es_user = user\<rparr>]\<rparr>
        in cmd_end (cmd_put_u32 slot (cmd_put_str event (cmd_put_u32 node (cmd_begin grow OP_ADD_EVENT c1)))))"

text \<open>\<open>run fn node user\<close> is the component's handler behind a function pointer.\<close>

definition cerco_event_dispatch ::
  "(u32 \<Rightarrow> u32 \<Rightarrow> u32 \<Rightarrow> 'a client_scheme \<Rightarrow> 'a client_scheme) \<Rightarrow> u32 \<Rightarrow> int \<Rightarrow> 'a client_scheme \<Rightarrow> 'a client_scheme" where
  "cerco_event_dispatch run node slot c =
     (if slot < 0 \<or> slot \<ge> int (unat (g_slot_count c)) then c
      else
        let c1 = cerco_scratch_reset c; e = g_slots c1 ! nat slot
        in cerco_dom_flush (run (es_fn e) node (es_user e) c1))"

definition cerco_events_reset :: "'a client_scheme \<Rightarrow> 'a client_scheme" where
  "cerco_events_reset c = c\<lparr>g_slot_count := 0\<rparr>"

subsection \<open>HTTP requests\<close>

definition fetch_reserve :: "'a client_scheme \<Rightarrow> nat option \<times> 'a client_scheme" where
  "fetch_reserve c =
     (case find (\<lambda>i. \<not> pf_used (g_fetches c ! i)) [0..<MAX_PENDING_FETCHES] of
        None \<Rightarrow> (None, c)
      | Some i \<Rightarrow> (Some i, c\<lparr>g_fetches := (g_fetches c)[i := (g_fetches c ! i)\<lparr>pf_used := True\<rparr>]\<rparr>))"

definition fetch_start :: "nat \<Rightarrow> u32 \<Rightarrow> u32 \<Rightarrow> 'a client_scheme \<Rightarrow> 'a client_scheme" where
  "fetch_start i cb user c =
     c\<lparr>g_fetches := (g_fetches c)[i := (g_fetches c ! i)\<lparr>pf_cb := cb, pf_user := user, pf_resp := 0\<rparr>]\<rparr>"

text \<open>The host copies the URL and the body out of linear memory during the call.\<close>

definition host_fetch :: "nat \<Rightarrow> string \<Rightarrow> u32 \<Rightarrow> nat \<Rightarrow> u32 \<Rightarrow> nat \<Rightarrow> 'a client_scheme \<Rightarrow> 'a client_scheme" where
  "host_fetch i method u ulen b blen c =
     c\<lparr>host_trace := host_trace c @ [Host_fetch i method (bytes_at (lmem c) u ulen) (bytes_at (lmem c) b blen)]\<rparr>"

text \<open>\<open>cerco_scratch_strdup\<close> of a string in linear memory, copied byte by byte from there.\<close>

definition scratch_strdup_at :: "(nat \<Rightarrow> bool) \<Rightarrow> u32 \<Rightarrow> 'a client_scheme \<Rightarrow> u32 \<times> 'a client_scheme" where
  "scratch_strdup_at grow s c =
     (let n = of_nat (c_strlen (lmem c) s + 1);
          (d, c1) = cerco_scratch_alloc grow n c
      in (d, if d \<noteq> 0 then c1\<lparr>lmem := c_memcpy d s n (lmem c1)\<rparr> else c1))"

text \<open>\<open>url\<close> is an address here: its length is taken again after the copies.\<close>

definition cerco_http_post ::
  "(nat \<Rightarrow> bool) \<Rightarrow> u32 \<Rightarrow> u32 \<Rightarrow> int \<Rightarrow> u32 \<Rightarrow> u32 \<Rightarrow> 'a client_scheme \<Rightarrow> 'a client_scheme" where
  "cerco_http_post grow url body len cb user c =
     (case fetch_reserve c of
        (None, c1) \<Rightarrow> c1
      | (Some i, c1) \<Rightarrow>
          let c2 = fetch_start i cb user c1;
              (u, c3) = scratch_strdup_at grow url c2;
              (bbuf, c4) = (if body \<noteq> 0 \<and> len > 0
                            then (let (b, c') = cerco_scratch_alloc grow (word_of_int len) c3
                                  in (b, if b \<noteq> 0 then c'\<lparr>lmem := c_memcpy b body (word_of_int len) (lmem c')\<rparr> else c'))
                            else (0, c3))
          in host_fetch i ''POST'' u (c_strlen (lmem c4) url) bbuf (if bbuf \<noteq> 0 then nat len else 0) c4)"

definition cerco_http_get :: "(nat \<Rightarrow> bool) \<Rightarrow> string \<Rightarrow> u32 \<Rightarrow> u32 \<Rightarrow> 'a client_scheme \<Rightarrow> 'a client_scheme" where
  "cerco_http_get grow url cb user c =
     (case fetch_reserve c of
        (None, c1) \<Rightarrow> c1
      | (Some i, c1) \<Rightarrow>
          let c2 = fetch_start i cb user c1;
              (u, c3) = cerco_scratch_strdup grow url c2
          in host_fetch i ''GET'' u (length url) 0 0 c3)"

definition fetch_live :: "int \<Rightarrow> 'a client_scheme \<Rightarrow> bool" where
  "fetch_live fid c = (0 \<le> fid \<and> fid < int MAX_PENDING_FETCHES \<and> pf_used (g_fetches c ! nat fid))"

definition cerco_fetch_reserve :: "(nat \<Rightarrow> bool) \<Rightarrow> int \<Rightarrow> int \<Rightarrow> 'a client_scheme \<Rightarrow> u32 \<times> 'a client_scheme" where
  "cerco_fetch_reserve grow fid len c =
     (if \<not> fetch_live fid c then (0, c)
      else if len < 0 \<or> len > CERCO_FETCH_MAX then (0, c)
      else
        let slot = nat fid mod FETCH_SLOTS; need = word_of_int (len + 1) :: u32;
            (ok, c1) = (if sint (g_fetch_caps c ! slot) < len + 1
                        then (let (buf, c') = cerco_alloc_sticky grow need c
                              in if buf = 0 then (False, c')
                                 else (True, c'\<lparr>g_fetch_bufs := (g_fetch_bufs c')[slot := buf],
                                                g_fetch_caps := (g_fetch_caps c')[slot := need]\<rparr>))
                        else (True, c))
        in if \<not> ok then (0, c1)
           else
             let buf = g_fetch_bufs c1 ! slot
             in (buf, c1\<lparr>g_fetches := (g_fetches c1)[nat fid := (g_fetches c1 ! nat fid)\<lparr>pf_resp := buf\<rparr>],
                        lmem := (lmem c1)(buf + word_of_int len := 0)\<rparr>))"

text \<open>\<open>call cb status data len user\<close> is the code behind a callback pointer.\<close>

definition cerco_fetch_done ::
  "(u32 \<Rightarrow> int \<Rightarrow> u32 \<Rightarrow> int \<Rightarrow> u32 \<Rightarrow> 'a client_scheme \<Rightarrow> 'a client_scheme) \<Rightarrow> int \<Rightarrow> int \<Rightarrow> int \<Rightarrow>
   'a client_scheme \<Rightarrow> 'a client_scheme" where
  "cerco_fetch_done call fid status len c =
     (if \<not> fetch_live fid c then c
      else
        let f = g_fetches c ! nat fid; data = pf_resp f;
            c1 = c\<lparr>g_fetches := (g_fetches c)[nat fid := f\<lparr>pf_used := False, pf_resp := 0\<rparr>]\<rparr>;
            c2 = cerco_scratch_reset c1;
            c3 = (if pf_cb f \<noteq> 0 then call (pf_cb f) status (if len > 0 then data else 0) len (pf_user f) c2 else c2)
        in cerco_dom_flush c3)"

definition cerco_root_node :: "(int \<Rightarrow> u32) \<Rightarrow> int \<Rightarrow> u32" where
  "cerco_root_node root_id index = (if index < 0 \<or> index \<ge> 64 then 0 else root_id index)"

definition cerco_debug_log :: "string \<Rightarrow> 'a client_scheme \<Rightarrow> 'a client_scheme" where
  "cerco_debug_log s c = c\<lparr>host_trace := host_trace c @ [Host_log s]\<rparr>"

subsection \<open>JSON helpers\<close>

definition json_pat :: "string \<Rightarrow> string" where
  "json_pat key = CHR 0x22 # key @ [CHR 0x22, CHR '':'']"

text \<open>\<open>None\<close>: a signed 32-bit computation of the digit loop overflows, which C leaves undefined.\<close>

fun json_digits :: "int \<Rightarrow> string \<Rightarrow> int option" where
  "json_digits v [] = Some v"
| "json_digits v (c # s) =
     (if is_digit c then
        let v' = v * 10 + int (digit_val c)
        in if v' > 2147483647 then None else json_digits v' s
      else Some v)"

definition cerco_json_int :: "string option \<Rightarrow> string option \<Rightarrow> int \<Rightarrow> int option" where
  "cerco_json_int json key dflt =
     (case (json, key) of
        (Some j, Some k) \<Rightarrow>
          if length k + 4 \<ge> 128 then Some dflt
          else (case c_strstr j (json_pat k) of
                  None \<Rightarrow> Some dflt
                | Some i \<Rightarrow>
                    let p = dropWhile (\<lambda>c. c = CHR '' '') (drop (i + length k + 3) j);
                        neg = (char_at p 0 = CHR ''-'');
                        q = (if neg then drop 1 p else p)
                    in if \<not> is_digit (char_at q 0) then Some dflt
                       else map_option (\<lambda>v. if neg then - v else v) (json_digits 0 q))
      | _ \<Rightarrow> Some dflt)"

text \<open>The string result is what the buffer holds when the code returns 1.\<close>

fun json_copy :: "int \<Rightarrow> string \<Rightarrow> string \<Rightarrow> string option" where
  "json_copy cap out [] = None"
| "json_copy cap out (c # s) =
     (if c = CHR 0x22 then Some out
      else if int (length out) + 1 \<ge> cap then None
      else json_copy cap (out @ [c]) s)"

definition cerco_json_str :: "string option \<Rightarrow> string option \<Rightarrow> int \<Rightarrow> string option" where
  "cerco_json_str json key cap =
     (case (json, key) of
        (Some j, Some k) \<Rightarrow>
          if cap < 1 \<or> length k + 4 \<ge> 128 then None
          else (case c_strstr j (json_pat k) of
                  None \<Rightarrow> None
                | Some i \<Rightarrow>
                    let p = dropWhile (\<lambda>c. c = CHR '' '') (drop (i + length k + 3) j)
                    in if char_at p 0 \<noteq> CHR 0x22 then None else json_copy cap [] (drop 1 p))
      | _ \<Rightarrow> None)"

end
