(* ===== verification/Client_Cmds.thy ===== *)
theory Client_Cmds
  imports Client_Dom
begin

text \<open>
  What the command buffer of \<open>runtime/client/dom.c\<close> promises: the browser host
  (\<open>runtime/browser/host.js\<close>, \<open>processCommand\<close> and \<open>domFlush\<close>) decodes exactly the
  commands the client issued, in their order, whatever flushes happen in between. The
  abstract state is the list of commands; the concrete one is a byte buffer in memory and
  the batches already handed over.
\<close>

datatype dom_cmd =
    Cmd_create u32 string u32
  | Cmd_set_text u32 string
  | Cmd_set_attr u32 string string
  | Cmd_remove_attr u32 string
  | Cmd_append_child u32 u32
  | Cmd_remove u32
  | Cmd_set_class u32 string
  | Cmd_add_class u32 string
  | Cmd_remove_class u32 string
  | Cmd_add_event u32 string u32
  | Cmd_set_value u32 string
  | Cmd_set_inner_html u32 string
  | Cmd_unknown byte

subsection \<open>The host's decoder\<close>

text \<open>\<open>None\<close> is the exception of reading a number past the end of the batch. A string that
  runs past the end is cut by \<open>subarray\<close>.\<close>

definition host_u32 :: "byte list \<Rightarrow> (u32 \<times> byte list) option" where
  "host_u32 bs = (if length bs < 4 then None else Some (le32 bs, drop 4 bs))"

definition host_str :: "byte list \<Rightarrow> (string \<times> byte list) option" where
  "host_str bs =
     do { (n, r) \<leftarrow> host_u32 bs; Some (of_bytes (take (unat n) r), drop (unat n) r) }"

definition host_node_str :: "(u32 \<Rightarrow> string \<Rightarrow> dom_cmd) \<Rightarrow> byte list \<Rightarrow> (dom_cmd \<times> byte list) option" where
  "host_node_str k bs = do { (i, r) \<leftarrow> host_u32 bs; (s, r') \<leftarrow> host_str r; Some (k i s, r') }"

definition processCommand :: "byte \<Rightarrow> byte list \<Rightarrow> (dom_cmd \<times> byte list) option" where
  "processCommand opc bs =
     (if opc = 1 then
        do { (i, r) \<leftarrow> host_u32 bs; (t, r') \<leftarrow> host_str r; (p, r'') \<leftarrow> host_u32 r'; Some (Cmd_create i t p, r'') }
      else if opc = 2 then host_node_str Cmd_set_text bs
      else if opc = 3 then
        do { (i, r) \<leftarrow> host_u32 bs; (k, r') \<leftarrow> host_str r; (v, r'') \<leftarrow> host_str r'; Some (Cmd_set_attr i k v, r'') }
      else if opc = 4 then host_node_str Cmd_remove_attr bs
      else if opc = 5 then
        do { (p, r) \<leftarrow> host_u32 bs; (c, r') \<leftarrow> host_u32 r; Some (Cmd_append_child p c, r') }
      else if opc = 6 then do { (i, r) \<leftarrow> host_u32 bs; Some (Cmd_remove i, r) }
      else if opc = 7 then host_node_str Cmd_set_class bs
      else if opc = 8 then host_node_str Cmd_add_class bs
      else if opc = 9 then host_node_str Cmd_remove_class bs
      else if opc = 10 then
        do { (i, r) \<leftarrow> host_u32 bs; (t, r') \<leftarrow> host_str r; (s, r'') \<leftarrow> host_u32 r'; Some (Cmd_add_event i t s, r'') }
      else if opc = 11 then host_node_str Cmd_set_value bs
      else if opc = 12 then host_node_str Cmd_set_inner_html bs
      else Some (Cmd_unknown opc, bs))"

lemma host_u32_shorter: "host_u32 bs = Some (n, r) \<Longrightarrow> length r \<le> length bs"
  by (auto simp: host_u32_def split: if_splits)

lemma host_str_shorter: "host_str bs = Some (n, r) \<Longrightarrow> length r \<le> length bs"
  by (auto simp: host_str_def dest!: host_u32_shorter split: bind_splits)

lemma host_node_str_shorter: "host_node_str k bs = Some (c, r) \<Longrightarrow> length r \<le> length bs"
  by (auto simp: host_node_str_def dest!: host_u32_shorter host_str_shorter split: bind_splits)

lemma processCommand_shorter: "processCommand b bs = Some (c, r) \<Longrightarrow> length r \<le> length bs"
  by (auto simp: processCommand_def dest!: host_u32_shorter host_str_shorter host_node_str_shorter
      split: bind_splits if_splits)

function domFlush :: "byte list \<Rightarrow> dom_cmd list option" where
  "domFlush [] = Some []"
| "domFlush (b # bs) =
     (case processCommand b bs of None \<Rightarrow> None | Some (c, r) \<Rightarrow> map_option (Cons c) (domFlush r))"
  by pat_completeness auto
termination
  by (relation "measure length") (auto dest: processCommand_shorter)

text \<open>Everything the host decoded so far.\<close>

fun dom_seen :: "host_call list \<Rightarrow> dom_cmd list option" where
  "dom_seen [] = Some []"
| "dom_seen (Dom_flush bs # t) = do { a \<leftarrow> domFlush bs; b \<leftarrow> dom_seen t; Some (a @ b) }"
| "dom_seen (_ # t) = dom_seen t"

subsection \<open>Encoding\<close>

definition enc_str :: "string \<Rightarrow> byte list" where
  "enc_str s = bytes32 (of_nat (length s)) @ to_bytes s"

fun enc_cmd :: "dom_cmd \<Rightarrow> byte list" where
  "enc_cmd (Cmd_create i t p) = OP_CREATE # bytes32 i @ enc_str t @ bytes32 p"
| "enc_cmd (Cmd_set_text i s) = OP_SET_TEXT # bytes32 i @ enc_str s"
| "enc_cmd (Cmd_set_attr i k v) = OP_SET_ATTR # bytes32 i @ enc_str k @ enc_str v"
| "enc_cmd (Cmd_remove_attr i k) = OP_REMOVE_ATTR # bytes32 i @ enc_str k"
| "enc_cmd (Cmd_append_child p c) = 5 # bytes32 p @ bytes32 c"
| "enc_cmd (Cmd_remove i) = OP_REMOVE_NODE # bytes32 i"
| "enc_cmd (Cmd_set_class i s) = OP_SET_CLASS # bytes32 i @ enc_str s"
| "enc_cmd (Cmd_add_class i s) = OP_ADD_CLASS # bytes32 i @ enc_str s"
| "enc_cmd (Cmd_remove_class i s) = OP_REMOVE_CLASS # bytes32 i @ enc_str s"
| "enc_cmd (Cmd_add_event i t s) = OP_ADD_EVENT # bytes32 i @ enc_str t @ bytes32 s"
| "enc_cmd (Cmd_set_value i s) = OP_SET_VALUE # bytes32 i @ enc_str s"
| "enc_cmd (Cmd_set_inner_html i s) = OP_SET_INNER_HTML # bytes32 i @ enc_str s"
| "enc_cmd (Cmd_unknown b) = [b]"

fun cmd_ok :: "dom_cmd \<Rightarrow> bool" where
  "cmd_ok (Cmd_unknown b) = False"
| "cmd_ok c = (length (enc_cmd c) < 2 ^ 32)"

lemma host_u32_enc [simp]: "host_u32 (bytes32 v @ r) = Some (v, r)"
proof -
  have "le32 (bytes32 v @ r) = le32 (bytes32 v)" by (simp add: le32_def nth_append)
  then show ?thesis by (simp add: host_u32_def le32_bytes32)
qed

lemma host_u32_enc0 [simp]: "host_u32 (bytes32 v) = Some (v, [])"
  using host_u32_enc [of v "[]"] by simp

lemma host_str_enc [simp]: "length s < 2 ^ 32 \<Longrightarrow> host_str (enc_str s @ r) = Some (s, r)"
  by (simp add: host_str_def enc_str_def unat_of_nat32)

lemma host_str_enc0 [simp]: "length s < 2 ^ 32 \<Longrightarrow> host_str (enc_str s) = Some (s, [])"
  using host_str_enc [of s "[]"] by simp

lemma length_enc_str [simp]: "length (enc_str s) = length s + 4"
  by (simp add: enc_str_def)

lemma processCommand_enc:
  "cmd_ok c \<Longrightarrow> \<exists>b bs. enc_cmd c = b # bs \<and> processCommand b (bs @ r) = Some (c, r)"
  by (cases c) (simp_all add: processCommand_def OP_defs host_node_str_def)

lemma domFlush_enc:
  "list_all cmd_ok cs \<Longrightarrow> domFlush (concat (map enc_cmd cs)) = Some cs"
proof (induction cs)
  case Nil
  then show ?case by simp
next
  case (Cons c cs)
  then obtain b bs where "enc_cmd c = b # bs"
    "processCommand b (bs @ concat (map enc_cmd cs)) = Some (c, concat (map enc_cmd cs))"
    using processCommand_enc [of c "concat (map enc_cmd cs)"] by auto
  with Cons show ?case by simp
qed

lemma dom_seen_append:
  "dom_seen (s @ t) = do { a \<leftarrow> dom_seen s; b \<leftarrow> dom_seen t; Some (a @ b) }"
  by (induction s rule: dom_seen.induct) (auto split: bind_splits)

subsection \<open>Appending to the buffer\<close>

definition pending :: "'a client_scheme \<Rightarrow> byte list" where
  "pending c = bytes_at (lmem c) (cmd_buf c) (unat (cmd_len c))"

definition cmd_append :: "byte list \<Rightarrow> 'a client_scheme \<Rightarrow> 'a client_scheme" where
  "cmd_append bs c =
     c\<lparr>lmem := store (cmd_buf c + cmd_len c) bs (lmem c), cmd_len := cmd_len c + of_nat (length bs)\<rparr>"

lemma store_append: "store p (a @ b) m = store (p + of_nat (length a)) b (store p a m)"
proof (induction a arbitrary: p m)
  case Nil
  then show ?case by simp
next
  case (Cons x a)
  have "store (p + 1) (a @ b) (m(p := x)) = store (p + 1 + of_nat (length a)) b (store (p + 1) a (m(p := x)))"
    by (rule Cons)
  then show ?case by (simp only: append_Cons store.simps length_Cons of_nat_Suc add.assoc)
qed

lemma cmd_append_append: "cmd_append b (cmd_append a c) = cmd_append (a @ b) c"
  by (simp add: cmd_append_def store_append algebra_simps)

lemma put_u8_append: "cmd_put_u8 v c = cmd_append [v] c"
  by (simp add: cmd_put_u8_def cmd_append_def)

lemma put_u32_append: "cmd_put_u32 v c = cmd_append (bytes32 v) c"
  by (simp add: cmd_put_u32_def put_u8_append cmd_append_append bytes32_def)

lemma put_str_append:
  "length s < 2 ^ 32 \<Longrightarrow> cmd_put_str (Some s) c = cmd_append (enc_str s) c"
proof -
  assume l: "length s < 2 ^ 32"
  then have "of_nat (length s) = (0 :: u32) \<longleftrightarrow> s = []"
    using unat_of_nat32 [of "length s"] by (cases "s = []") auto
  then show ?thesis
    by (simp add: cmd_put_str_def enc_str_def put_u32_append Let_def cmd_append_append [symmetric])
      (simp add: cmd_append_def)
qed

lemma put_none_append: "cmd_put_str None c = cmd_append (enc_str []) c"
  by (simp add: cmd_put_str_def enc_str_def put_u32_append)

lemma bytes_at_append: "bytes_at m p (a + b) = bytes_at m p a @ bytes_at m (p + of_nat a) b"
  by (rule nth_equalityI) (auto simp: bytes_at_def nth_append algebra_simps of_nat_diff)

lemma bytes_at_store: "length bs \<le> 2 ^ 32 \<Longrightarrow> bytes_at (store p bs m) p (length bs) = bs"
  by (rule nth_equalityI) (auto simp: bytes_at_def store_eq unat_of_nat32)

lemma bytes_at_store_before:
  assumes "n + length bs \<le> 2 ^ 32"
  shows "bytes_at (store (p + of_nat n) bs m) p n = bytes_at m p n"
proof (rule nth_equalityI)
  fix i assume "i < length (bytes_at (store (p + of_nat n) bs m) p n)"
  then have i: "i < n" by simp
  have "p + of_nat i - (p + of_nat n) = (of_nat i - of_nat n :: u32)" by simp
  moreover have "bs \<noteq> [] \<Longrightarrow> unat (of_nat n :: u32) = n" "unat (of_nat i :: u32) = i"
    using i assms by (auto intro!: unat_of_nat32 simp: neq_Nil_conv)
  then have "length bs \<le> unat (of_nat i - of_nat n :: u32)"
    using nowrap_diff [of "of_nat i" "of_nat n" "length bs"] i assms
    by (cases "bs = []") (simp_all add: word_less_nat_alt unat_of_nat32 less_trans)
  ultimately show "bytes_at (store (p + of_nat n) bs m) p n ! i = bytes_at m p n ! i"
    using i assms by (simp add: bytes_at_def store_eq)
qed simp

lemma pending_append:
  assumes "unat (cmd_len c) + length bs < 2 ^ 32"
  shows "pending (cmd_append bs c) = pending c @ bs" "unat (cmd_len (cmd_append bs c)) = unat (cmd_len c) + length bs"
proof -
  from assms have "unat (of_nat (length bs) :: u32) = length bs" by (intro unat_of_nat32) simp
  with assms have l: "unat (cmd_len c + of_nat (length bs)) = unat (cmd_len c) + length bs"
    by (subst unat_add_lem [THEN iffD1]) simp_all
  then show "unat (cmd_len (cmd_append bs c)) = unat (cmd_len c) + length bs" by (simp add: cmd_append_def)
  have e: "of_nat (unat (cmd_len c)) = cmd_len c" by simp
  show "pending (cmd_append bs c) = pending c @ bs"
    using l assms bytes_at_store_before [of "unat (cmd_len c)" bs "cmd_buf c" "lmem c", unfolded e]
      bytes_at_store [of bs "cmd_buf c + cmd_len c"]
    by (simp add: pending_def cmd_append_def bytes_at_append)
qed

lemma append_outside:
  assumes "unat (cmd_len c) + length bs \<le> n" "n < 2 ^ 32" "n \<le> unat (x - cmd_buf c)"
  shows "lmem (cmd_append bs c) x = lmem c x"
proof -
  have "unat (x - cmd_buf c - cmd_len c) = unat (x - cmd_buf c) - unat (cmd_len c)"
    using assms by (intro unat_sub) (simp add: word_le_nat_alt)
  then have "\<not> unat (x - (cmd_buf c + cmd_len c)) < length bs"
    using assms by (simp add: diff_diff_eq)
  with assms show ?thesis by (simp add: cmd_append_def store_eq)
qed

subsection \<open>Calls and their specification\<close>

text \<open>A call of the API: a plain command, the creation of a node, or the registration of an event
  handler. \<open>api\<close> is the code's function, \<open>spec_call\<close> what it means for the sequence of
  commands the host will see, the next node id and the number of slots in use.\<close>

datatype api_call =
    A_cmd dom_cmd
  | A_create string u32
  | A_on u32 string u32 u32

fun api_cmd :: "(nat \<Rightarrow> bool) \<Rightarrow> dom_cmd \<Rightarrow> 'a client_scheme \<Rightarrow> 'a client_scheme" where
  "api_cmd grow (Cmd_set_text i s) c = cerco_set_text grow i (Some s) c"
| "api_cmd grow (Cmd_set_attr i k v) c = cerco_set_attr grow i (Some k) (Some v) c"
| "api_cmd grow (Cmd_remove_attr i k) c = cerco_remove_attr grow i (Some k) c"
| "api_cmd grow (Cmd_remove i) c = cerco_remove grow i c"
| "api_cmd grow (Cmd_set_class i s) c = cerco_set_class grow i (Some s) c"
| "api_cmd grow (Cmd_add_class i s) c = cerco_add_class grow i (Some s) c"
| "api_cmd grow (Cmd_remove_class i s) c = cerco_remove_class grow i (Some s) c"
| "api_cmd grow (Cmd_set_value i s) c = cerco_set_value grow i (Some s) c"
| "api_cmd grow (Cmd_set_inner_html i s) c = cerco_set_inner_html grow i (Some s) c"
| "api_cmd grow _ c = c"

fun has_api :: "dom_cmd \<Rightarrow> bool" where
  "has_api (Cmd_append_child _ _) = False"
| "has_api (Cmd_add_event _ _ _) = False"
| "has_api (Cmd_create _ _ _) = False"
| "has_api (Cmd_unknown _) = False"
| "has_api _ = True"

fun api :: "(nat \<Rightarrow> bool) \<Rightarrow> api_call \<Rightarrow> 'a client_scheme \<Rightarrow> 'a client_scheme" where
  "api grow (A_cmd x) c = api_cmd grow x c"
| "api grow (A_create tag parent) c = snd (cerco_create grow (Some tag) parent c)"
| "api grow (A_on node event fn user) c = cerco_on grow node (Some event) fn user c"

record dom_spec =
  sp_cmds :: "dom_cmd list"
  sp_next :: u32
  sp_slots :: nat

fun call_cmd :: "api_call \<Rightarrow> dom_spec \<Rightarrow> dom_cmd option" where
  "call_cmd (A_cmd x) s = Some x"
| "call_cmd (A_create tag parent) s = Some (Cmd_create (sp_next s) tag parent)"
| "call_cmd (A_on node event fn user) s =
     (if sp_slots s \<ge> 512 then None else Some (Cmd_add_event node event (of_nat (sp_slots s))))"

fun spec_call :: "api_call \<Rightarrow> dom_spec \<Rightarrow> dom_spec" where
  "spec_call (A_cmd x) s = s\<lparr>sp_cmds := sp_cmds s @ [x]\<rparr>"
| "spec_call (A_create tag parent) s =
     s\<lparr>sp_cmds := sp_cmds s @ [Cmd_create (sp_next s) tag parent], sp_next := sp_next s + 1\<rparr>"
| "spec_call (A_on node event fn user) s =
     (if sp_slots s \<ge> 512 then s
      else s\<lparr>sp_cmds := sp_cmds s @ [Cmd_add_event node event (of_nat (sp_slots s))], sp_slots := sp_slots s + 1\<rparr>)"

text \<open>A command that fits the quarter of the buffer a flush leaves free.\<close>

definition fits :: "dom_cmd \<Rightarrow> bool" where
  "fits x = (cmd_ok x \<and> length (enc_cmd x) \<le> 8192)"

fun call_ok :: "api_call \<Rightarrow> bool" where
  "call_ok (A_cmd x) = (has_api x \<and> fits x)"
| "call_ok (A_create tag parent) = fits (Cmd_create 0 tag parent)"
| "call_ok (A_on node event fn user) = fits (Cmd_add_event node event 0)"

definition cmd_ready :: "(nat \<Rightarrow> bool) \<Rightarrow> 'a client_scheme \<Rightarrow> 'a client_scheme" where
  "cmd_ready grow c =
     (if cmd_buf c = 0 then (let (p, c') = cerco_alloc grow CMD_BUF_SIZE c in c'\<lparr>cmd_buf := p\<rparr>) else c)"

lemma cmd_begin_ready: "cmd_buf (cmd_ready grow c) \<noteq> 0 \<Longrightarrow> cmd_begin grow b c = cmd_append [b] (cmd_ready grow c)"
  by (simp add: cmd_begin_def cmd_ready_def Let_def put_u8_append split: prod.splits)

definition emit :: "(nat \<Rightarrow> bool) \<Rightarrow> dom_cmd \<Rightarrow> 'a client_scheme \<Rightarrow> 'a client_scheme" where
  "emit grow x c = cmd_end (cmd_append (enc_cmd x) (cmd_ready grow c))"

lemma api_cmd_emit:
  "cmd_buf (cmd_ready grow c) \<noteq> 0 \<Longrightarrow> cmd_ok x \<Longrightarrow> has_api x \<Longrightarrow> api_cmd grow x c = emit grow x c"
  by (cases x) (simp_all add: cerco_set_text_def cerco_set_attr_def cerco_remove_attr_def cerco_remove_def
      cerco_set_class_def cerco_add_class_def cerco_remove_class_def cerco_set_value_def
      cerco_set_inner_html_def cmd_begin_ready put_u32_append put_str_append cmd_append_append emit_def)

lemma alloc_regs:
  "cerco_alloc grow n (c\<lparr>next_dynamic_id := k\<rparr>) = (let (p, c') = cerco_alloc grow n c in (p, c'\<lparr>next_dynamic_id := k\<rparr>))"
  "cerco_alloc grow n (c\<lparr>g_slot_count := j, g_slots := g\<rparr>) =
     (let (p, c') = cerco_alloc grow n c in (p, c'\<lparr>g_slot_count := j, g_slots := g\<rparr>))"
  "cerco_alloc grow n (c\<lparr>sigs := f\<rparr>) = (let (p, c') = cerco_alloc grow n c in (p, c'\<lparr>sigs := f\<rparr>))"
  by (simp_all add: cerco_alloc_def heap_grow_def Let_def split: prod.splits option.splits)

lemma ready_regs:
  "cmd_ready grow (c\<lparr>next_dynamic_id := k\<rparr>) = (cmd_ready grow c)\<lparr>next_dynamic_id := k\<rparr>"
  "cmd_ready grow (c\<lparr>g_slot_count := j, g_slots := g\<rparr>) = (cmd_ready grow c)\<lparr>g_slot_count := j, g_slots := g\<rparr>"
  "cmd_ready grow (c\<lparr>sigs := f\<rparr>) = (cmd_ready grow c)\<lparr>sigs := f\<rparr>"
  by (simp_all add: cmd_ready_def alloc_regs Let_def split: prod.splits)

lemma alloc_views:
  "cerco_alloc grow n c = (p, c') \<Longrightarrow> lmem c' = lmem c \<and> cmd_buf c' = cmd_buf c \<and> cmd_len c' = cmd_len c \<and>
     next_dynamic_id c' = next_dynamic_id c \<and> g_slot_count c' = g_slot_count c \<and> host_trace c' = host_trace c \<and> sigs c' = sigs c"
  by (auto simp: cerco_alloc_def heap_grow_def Let_def split: prod.splits option.splits if_splits)

lemma ready_views:
  "lmem (cmd_ready grow c) = lmem c \<and> cmd_len (cmd_ready grow c) = cmd_len c \<and>
   next_dynamic_id (cmd_ready grow c) = next_dynamic_id c \<and> g_slot_count (cmd_ready grow c) = g_slot_count c \<and>
   host_trace (cmd_ready grow c) = host_trace c \<and> sigs (cmd_ready grow c) = sigs c"
proof -
  obtain p c' where r: "cerco_alloc grow CMD_BUF_SIZE c = (p, c')" by fastforce
  from alloc_views [OF r] r show ?thesis by (simp add: cmd_ready_def)
qed

lemma spec_swap:
  "(s\<lparr>sp_next := n, sp_cmds := l\<rparr>) = s\<lparr>sp_cmds := l, sp_next := n\<rparr>"
  "(s\<lparr>sp_slots := k, sp_cmds := l\<rparr>) = s\<lparr>sp_cmds := l, sp_slots := k\<rparr>"
  by simp_all

definition dom_rel :: "'a client_scheme \<Rightarrow> dom_spec \<Rightarrow> bool" where
  "dom_rel c s =
     (\<exists>handed held. dom_seen (host_trace c) = Some handed \<and> pending c = concat (map enc_cmd held) \<and>
        list_all cmd_ok held \<and> sp_cmds s = handed @ held \<and> sp_next s = next_dynamic_id c \<and>
        sp_slots s = unat (g_slot_count c) \<and> unat (cmd_len c) \<le> 24576 \<and> (cmd_buf c = 0 \<longrightarrow> cmd_len c = 0))"

lemma flush_rel: "dom_rel c s \<Longrightarrow> dom_rel (cerco_dom_flush c) s \<and> dom_seen (host_trace (cerco_dom_flush c)) = Some (sp_cmds s)"
proof -
  assume "dom_rel c s"
  then obtain handed held where r: "dom_seen (host_trace c) = Some handed" "pending c = concat (map enc_cmd held)"
    "list_all cmd_ok held" "sp_cmds s = handed @ held" "sp_next s = next_dynamic_id c"
    "sp_slots s = unat (g_slot_count c)" "unat (cmd_len c) \<le> 24576" "cmd_buf c = 0 \<longrightarrow> cmd_len c = 0"
    by (auto simp: dom_rel_def)
  show ?thesis
  proof (cases "cmd_len c = 0")
    case True
    have "held = []"
    proof (cases held)
      case (Cons x xs)
      with r(3) processCommand_enc [of x "[]"] have "enc_cmd x \<noteq> []" by auto
      with Cons r(2) True show ?thesis by (simp add: pending_def bytes_at_def)
    qed
    with r True show ?thesis by (auto simp: cerco_dom_flush_def dom_rel_def)
  next
    case False
    from r(3) have "domFlush (pending c) = Some held" by (simp add: r(2) domFlush_enc)
    with False r have "dom_seen (host_trace (cerco_dom_flush c)) = Some (handed @ held)"
      by (simp add: cerco_dom_flush_def host_dom_flush_def pending_def dom_seen_append)
    with False r show ?thesis
      by (auto simp: dom_rel_def cerco_dom_flush_def host_dom_flush_def pending_def bytes_at_def intro: exI [of _ "[]"])
  qed
qed

lemma emit_sim:
  assumes b: "cmd_buf (cmd_ready grow c) \<noteq> 0" and f: "fits x" and r: "dom_rel c s"
  shows "dom_rel (emit grow x c) (s\<lparr>sp_cmds := sp_cmds s @ [x]\<rparr>)" "cmd_buf (emit grow x c) = cmd_buf (cmd_ready grow c)"
    "32768 \<le> unat (y - cmd_buf (cmd_ready grow c)) \<Longrightarrow> lmem (emit grow x c) y = lmem c y"
proof -
  let ?r = "cmd_ready grow c" and ?a = "cmd_append (enc_cmd x) (cmd_ready grow c)"
  from r obtain handed held where r: "dom_seen (host_trace c) = Some handed" "pending c = concat (map enc_cmd held)"
    "list_all cmd_ok held" "sp_cmds s = handed @ held" "sp_next s = next_dynamic_id c"
    "sp_slots s = unat (g_slot_count c)" "unat (cmd_len c) \<le> 24576" "cmd_buf c = 0 \<longrightarrow> cmd_len c = 0"
    by (auto simp: dom_rel_def)
  note v = ready_views [of grow c]
  have pr: "pending ?r = pending c"
  proof (cases "cmd_buf c = 0")
    case True
    with r(8) v show ?thesis by (simp add: pending_def bytes_at_def)
  qed (simp add: cmd_ready_def)
  have len: "unat (cmd_len ?r) + length (enc_cmd x) \<le> 32768" using r(7) v f by (simp add: fits_def)
  then have pa: "pending ?a = concat (map enc_cmd (held @ [x]))" "unat (cmd_len ?a) = unat (cmd_len ?r) + length (enc_cmd x)"
    using pending_append [of ?r "enc_cmd x"] pr r(2) by simp_all
  have ok: "list_all cmd_ok (held @ [x])" using r(3) f by (simp add: fits_def)
  have va: "cmd_buf ?a = cmd_buf ?r" "host_trace ?a = host_trace c" "next_dynamic_id ?a = next_dynamic_id c"
    "g_slot_count ?a = g_slot_count c" using v by (simp_all add: cmd_append_def)
  show "cmd_buf (emit grow x c) = cmd_buf ?r"
    by (simp add: emit_def cmd_end_def host_dom_flush_def va)
  show "lmem (emit grow x c) y = lmem c y" if "32768 \<le> unat (y - cmd_buf ?r)"
    using append_outside [OF len _ that] v by (simp add: emit_def cmd_end_def host_dom_flush_def)
  have lim: "unat (CMD_BUF_SIZE - CMD_BUF_SIZE div 4) = 24576" by (simp add: CMD_BUF_SIZE_def)
  show "dom_rel (emit grow x c) (s\<lparr>sp_cmds := sp_cmds s @ [x]\<rparr>)"
  proof (cases "cmd_len ?a > CMD_BUF_SIZE - CMD_BUF_SIZE div 4")
    case True
    have "domFlush (pending ?a) = Some (held @ [x])" using ok unfolding pa by (rule domFlush_enc)
    then have "dom_seen (host_trace (emit grow x c)) = Some (handed @ held @ [x])"
      using True r(1) va by (simp add: emit_def cmd_end_def host_dom_flush_def pending_def dom_seen_append)
    with True r va show ?thesis
      by (auto simp: dom_rel_def emit_def cmd_end_def host_dom_flush_def pending_def bytes_at_def intro: exI [of _ "[]"])
  next
    case False
    then have "unat (cmd_len ?a) \<le> 24576" by (metis lim not_less word_le_nat_alt)
    with False r va b pa ok show ?thesis
      by (auto simp: dom_rel_def emit_def cmd_end_def intro!: exI [of _ "held @ [x]"])
  qed
qed

lemma api_sim:
  assumes b: "cmd_buf (cmd_ready grow c) \<noteq> 0" and f: "call_ok call" and r: "dom_rel c s"
  shows "dom_rel (api grow call c) (spec_call call s) \<and> cmd_buf (cmd_ready grow (api grow call c)) = cmd_buf (cmd_ready grow c) \<and>
    (\<forall>y. 32768 \<le> unat (y - cmd_buf (cmd_ready grow c)) \<longrightarrow> lmem (api grow call c) y = lmem c y)"
proof -
  have again: "cmd_buf (cmd_ready grow (emit grow x c1)) = cmd_buf (cmd_ready grow c)"
    if "cmd_buf (cmd_ready grow c1) = cmd_buf (cmd_ready grow c)" "fits x" "dom_rel c1 s1" for x c1 s1
    using emit_sim(2) [OF _ that(2,3), of grow] that b by (simp add: cmd_ready_def)
  show ?thesis
  proof (cases call)
    case (A_cmd x)
    with b f emit_sim [OF b _ r, of x] again [of c x s] r show ?thesis
      by (simp add: api_cmd_emit fits_def)
  next
    case (A_create tag parent)
    let ?id = "next_dynamic_id c" and ?c = "c\<lparr>next_dynamic_id := next_dynamic_id c + 1\<rparr>"
    let ?x = "Cmd_create ?id tag parent"
    have x: "fits ?x" using f A_create by (simp add: fits_def)
    have e: "api grow call c = emit grow ?x ?c"
      using A_create b x by (simp add: cerco_create_def Let_def cmd_begin_ready ready_regs put_u32_append
          put_str_append cmd_append_append emit_def fits_def)
    have "sp_next s = ?id" using r by (auto simp: dom_rel_def)
    moreover have "dom_rel ?c (s\<lparr>sp_next := ?id + 1\<rparr>)" using r by (auto simp: dom_rel_def pending_def)
    moreover have "cmd_buf (cmd_ready grow ?c) = cmd_buf (cmd_ready grow c)" by (simp add: ready_regs)
    ultimately show ?thesis
      using emit_sim [of grow ?c ?x "s\<lparr>sp_next := ?id + 1\<rparr>"] again [of ?c ?x] b x A_create e
      by (simp add: spec_swap)
  next
    case (A_on node event fn user)
    have sl: "sp_slots s = unat (g_slot_count c)" using r by (auto simp: dom_rel_def)
    have full: "g_slot_count c \<ge> MAX_EVENT_SLOTS \<longleftrightarrow> sp_slots s \<ge> 512"
      by (simp add: sl MAX_EVENT_SLOTS_def word_le_nat_alt)
    show ?thesis
    proof (cases "sp_slots s \<ge> 512")
      case True
      with full r A_on show ?thesis by (simp add: cerco_on_def)
    next
      case False
      let ?k = "g_slot_count c"
      let ?c = "c\<lparr>g_slot_count := ?k + 1, g_slots := (g_slots c)[unat ?k := \<lparr>es_fn = fn, es_user = user\<rparr>]\<rparr>"
      let ?x = "Cmd_add_event node event ?k"
      have x: "fits ?x" using f A_on by (simp add: fits_def)
      have e: "api grow call c = emit grow ?x ?c"
        using A_on b x False full by (simp add: cerco_on_def Let_def cmd_begin_ready ready_regs put_u32_append
            put_str_append cmd_append_append emit_def fits_def)
      have "unat (?k + 1) = unat ?k + 1" using False sl by (subst unat_add_lem [THEN iffD1]) simp_all
      then have "dom_rel ?c (s\<lparr>sp_slots := sp_slots s + 1\<rparr>)" using r sl by (auto simp: dom_rel_def pending_def)
      moreover have "cmd_buf (cmd_ready grow ?c) = cmd_buf (cmd_ready grow c)" by (simp add: ready_regs)
      moreover have "of_nat (sp_slots s) = ?k" using sl by simp
      ultimately show ?thesis
        using emit_sim [of grow ?c ?x "s\<lparr>sp_slots := sp_slots s + 1\<rparr>"] again [of ?c ?x] b x A_on e False
        by (simp add: spec_swap)
    qed
  qed
qed

lemma api_fold_sim:
  assumes "cmd_buf (cmd_ready grow c) \<noteq> 0" "list_all call_ok calls" "dom_rel c s"
  shows "dom_rel (fold (api grow) calls c) (fold spec_call calls s) \<and>
    (\<forall>y. 32768 \<le> unat (y - cmd_buf (cmd_ready grow c)) \<longrightarrow> lmem (fold (api grow) calls c) y = lmem c y)"
  using assms
proof (induction calls arbitrary: c s)
  case Nil
  then show ?case by simp
next
  case (Cons call calls)
  then have "call_ok call" by simp
  from api_sim [OF Cons(2) this Cons(4)] Cons.IH [of "api grow call c" "spec_call call s"] Cons(2,3)
  show ?case by simp
qed

subsection \<open>Signals\<close>

definition sub_cmd :: "u32 \<Rightarrow> cerco_sub \<Rightarrow> dom_cmd" where
  "sub_cmd v b =
     (case b of
        Sub_text node \<Rightarrow> Cmd_set_text node (dec_int (sint v))
      | Sub_class node cls \<Rightarrow>
          (if v \<noteq> 0 then Cmd_add_class else Cmd_remove_class) node (case cls of None \<Rightarrow> [] | Some t \<Rightarrow> t))"

lemma class_none:
  "cerco_add_class grow node None c = cerco_add_class grow node (Some []) c"
  "cerco_remove_class grow node None c = cerco_remove_class grow node (Some []) c"
  by (simp_all add: cerco_add_class_def cerco_remove_class_def put_none_append put_str_append)

lemma sub_run_api: "sub_run grow sg b c = api grow (A_cmd (sub_cmd (sig_value (sig_at c sg)) b)) c"
  by (cases b) (auto simp: sub_run_def sub_cmd_def bind_text_run_def bind_class_run_def i32_to_str_dec
      class_none split: option.splits)

lemma emit_sigs: "sigs (emit grow x c) = sigs c"
  by (simp add: emit_def cmd_end_def host_dom_flush_def cmd_append_def ready_views)

lemma flush_sigs: "sigs (cerco_dom_flush c) = sigs c"
  by (simp add: cerco_dom_flush_def host_dom_flush_def)

lemma sub_cmd_has_api: "has_api (sub_cmd v b)"
  by (auto simp: sub_cmd_def split: cerco_sub.split)

lemma sub_fold:
  assumes "cmd_buf (cmd_ready grow c) \<noteq> 0" "list_all (\<lambda>b. fits (sub_cmd v b)) bs" "dom_rel c s" "sig_value (sig_at c sg) = v"
  shows "fold (sub_run grow sg) bs c = fold (api grow) (map (\<lambda>b. A_cmd (sub_cmd v b)) bs) c \<and>
    sigs (fold (sub_run grow sg) bs c) = sigs c"
  using assms
proof (induction bs arbitrary: c s)
  case Nil
  then show ?case by simp
next
  case (Cons b bs)
  let ?x = "sub_cmd v b"
  have x: "call_ok (A_cmd ?x)" using Cons(3) by (simp add: sub_cmd_has_api)
  have e: "sub_run grow sg b c = emit grow ?x c"
    using x Cons(2,5) by (simp add: sub_run_api api_cmd_emit fits_def)
  have a: "api grow (A_cmd ?x) c = emit grow ?x c" using e Cons(5) by (simp add: sub_run_api)
  from api_sim [OF Cons(2) x Cons(4)] have "dom_rel (emit grow ?x c) (spec_call (A_cmd ?x) s)"
    "cmd_buf (cmd_ready grow (emit grow ?x c)) \<noteq> 0"
    unfolding a using Cons(2) by simp_all
  moreover have "sig_value (sig_at (emit grow ?x c) sg) = v"
    using Cons(5) by (simp add: sig_at_def emit_sigs)
  moreover have "list_all (\<lambda>b. fits (sub_cmd v b)) bs" using Cons(3) by simp
  ultimately have "fold (sub_run grow sg) bs (emit grow ?x c) =
      fold (api grow) (map (\<lambda>b. A_cmd (sub_cmd v b)) bs) (emit grow ?x c) \<and>
      sigs (fold (sub_run grow sg) bs (emit grow ?x c)) = sigs (emit grow ?x c)"
    by (intro Cons.IH)
  then show ?case unfolding fold_simps list.map e a emit_sigs .
qed

lemma fold_spec_cmds: "sp_cmds (fold spec_call (map (\<lambda>b. A_cmd (f b)) bs) s) = sp_cmds s @ map f bs"
  by (induction bs arbitrary: s) auto

subsection \<open>Properties\<close>

text \<open>C2: The command buffer refines the sequence of commands: after any series of API calls whose
  commands are at most 8 KiB, the batches the host received decode to exactly the commands
  issued, in order, with consecutive node ids and event slots; and no byte outside the 32 KiB
  block of the buffer is written.\<close>

theorem commands_delivered:
  assumes "dom_rel c s" "cmd_buf (cmd_ready grow c) \<noteq> 0" "list_all call_ok calls"
  shows "dom_seen (host_trace (cerco_dom_flush (fold (api grow) calls c))) = Some (sp_cmds (fold spec_call calls s)) \<and>
    (\<forall>y. 32768 \<le> unat (y - cmd_buf (cmd_ready grow c)) \<longrightarrow> lmem (fold (api grow) calls c) y = lmem c y)"
  using api_fold_sim [OF assms(2,3,1)] flush_rel by blast

definition client0 :: client where
  "client0 = \<lparr>heap_ptr = 1024, heap_end = 65536, heap_sticky_floor = 0, scratch_base = 0, scratch_off = 0,
     mem_pages = 1, lmem = (\<lambda>_. 0), cmd_buf = 0, cmd_len = 0, next_dynamic_id = 1048576, sigs = (\<lambda>_. None),
     g_slots = replicate 512 \<lparr>es_fn = 0, es_user = 0\<rparr>, g_slot_count = 0,
     g_fetches = replicate 32 \<lparr>pf_used = False, pf_cb = 0, pf_user = 0, pf_resp = 0\<rparr>,
     g_fetch_bufs = replicate 4 0, g_fetch_caps = replicate 4 0, host_trace = []\<rparr>"

lemma client0_rel: "dom_rel client0 \<lparr>sp_cmds = [], sp_next = 1048576, sp_slots = 0\<rparr>"
  by (auto simp: dom_rel_def client0_def pending_def bytes_at_def intro: exI [of _ "[]"])

lemma client0_ready: "cmd_buf (cmd_ready (\<lambda>_. False) client0) = 1024"
  by (simp add: cmd_ready_def client0_def cerco_alloc_def round16_def CMD_BUF_SIZE_def)

theorem commands_delivered_witness:
  "dom_seen (host_trace (cerco_dom_flush
     (cerco_set_text (\<lambda>_. False) 1048576 (Some ''hi'') (snd (cerco_create (\<lambda>_. False) (Some ''p'') 1 client0))))) =
   Some [Cmd_create 1048576 ''p'' 1, Cmd_set_text 1048576 ''hi'']"
  using commands_delivered [OF client0_rel, of "\<lambda>_. False" "[A_create ''p'' 1, A_cmd (Cmd_set_text 1048576 ''hi'')]"]
  by (simp add: client0_ready fits_def)

text \<open>Nothing stops a longer string: setting a text of 32 KiB or more on an empty buffer writes
  behind the end of the buffer's block.\<close>

theorem set_text_overruns:
  assumes "cmd_buf c \<noteq> 0" "cmd_len c = 0" "32760 \<le> length s" "length s < 2 ^ 31"
  shows "lmem (cerco_set_text grow node (Some s) c) (cmd_buf c + 32768) = of_nat (ccode (s ! 32759))"
proof -
  have x: "enc_cmd (Cmd_set_text node s) = (OP_SET_TEXT # bytes32 node @ bytes32 (of_nat (length s))) @ to_bytes s"
    by (simp add: enc_str_def)
  have l: "length (enc_cmd (Cmd_set_text node s)) = length s + 9" by simp
  have "cmd_ready grow c = c" using assms(1) by (simp add: cmd_ready_def)
  then have "cerco_set_text grow node (Some s) c = emit grow (Cmd_set_text node s) c"
    using api_cmd_emit [of grow c "Cmd_set_text node s"] assms by simp
  moreover have "enc_cmd (Cmd_set_text node s) ! 32768 = of_nat (ccode (s ! 32759))"
    using assms(3) unfolding x by (simp add: nth_append to_bytes_def)
  ultimately show ?thesis
    using assms l \<open>cmd_ready grow c = c\<close>
    by (simp add: emit_def cmd_end_def host_dom_flush_def cmd_append_def store_eq del: enc_cmd.simps)
qed

theorem set_text_overruns_witness:
  "lmem (cerco_set_text (\<lambda>_. False) 7 (Some (replicate 40000 CHR ''x'')) (client0\<lparr>cmd_buf := 1024\<rparr>)) 33792 = 120"
  using set_text_overruns [of "client0\<lparr>cmd_buf := 1024\<rparr>" "replicate 40000 CHR ''x''" "\<lambda>_. False" 7]
  by (simp add: client0_def)

text \<open>Writing a new value to a signal sends the host one command per binding, the newest binding
  first, each computed from the new value, and the signal then has that value.\<close>

theorem signal_set_notifies:
  assumes "dom_rel c s" "cmd_buf (cmd_ready grow c) \<noteq> 0" "sg \<noteq> 0" "sig_value (sig_at c sg) \<noteq> v"
    and "list_all (\<lambda>b. fits (sub_cmd v b)) (sig_subs (sig_at c sg))"
  shows "dom_seen (host_trace (cerco_signal_set grow sg v c)) =
      Some (sp_cmds s @ map (sub_cmd v) (sig_subs (sig_at c sg))) \<and>
    cerco_signal_get sg (cerco_signal_set grow sg v c) = v"
proof -
  let ?c = "c\<lparr>sigs := (sigs c)(sg \<mapsto> (sig_at c sg)\<lparr>sig_value := v\<rparr>)\<rparr>"
  let ?bs = "sig_subs (sig_at c sg)"
  have at: "sig_at ?c sg = (sig_at c sg)\<lparr>sig_value := v\<rparr>" by (simp add: sig_at_def)
  have rel: "dom_rel ?c s" using assms(1) by (auto simp: dom_rel_def pending_def)
  have rdy: "cmd_buf (cmd_ready grow ?c) \<noteq> 0"
    using assms(2) by (simp add: ready_regs)
  have set: "cerco_signal_set grow sg v c = cerco_dom_flush (fold (sub_run grow sg) ?bs ?c)"
    using assms(3,4) at by (simp add: cerco_signal_set_def Let_def)
  have f: "fold (sub_run grow sg) ?bs ?c = fold (api grow) (map (\<lambda>b. A_cmd (sub_cmd v b)) ?bs) ?c"
    "sigs (fold (sub_run grow sg) ?bs ?c) = sigs ?c"
    using sub_fold [OF rdy assms(5) rel, of sg] unfolding at by auto
  have "list_all call_ok (map (\<lambda>b. A_cmd (sub_cmd v b)) ?bs)"
    using assms(5) by (simp add: list_all_iff sub_cmd_has_api)
  from api_fold_sim [OF rdy this rel]
  have "dom_rel (fold (sub_run grow sg) ?bs ?c) (fold spec_call (map (\<lambda>b. A_cmd (sub_cmd v b)) ?bs) s)"
    by (simp add: f(1))
  from flush_rel [OF this] set
  have "dom_seen (host_trace (cerco_signal_set grow sg v c)) = Some (sp_cmds s @ map (sub_cmd v) ?bs)"
    by (simp add: fold_spec_cmds)
  moreover have "cerco_signal_get sg (cerco_signal_set grow sg v c) = v"
    using set f(2) assms(3) by (simp add: cerco_signal_get_def flush_sigs sig_at_def)
  ultimately show ?thesis by simp
qed

theorem signal_set_notifies_witness:
  "dom_seen (host_trace (cerco_signal_set (\<lambda>_. False) 500 0
     (client0\<lparr>sigs := [500 \<mapsto> \<lparr>sig_value = 3, sig_subs = [Sub_text 7, Sub_class 8 (Some ''on'')]\<rparr>]\<rparr>))) =
   Some [Cmd_set_text 7 ''0'', Cmd_remove_class 8 ''on'']"
proof -
  let ?c = "client0\<lparr>sigs := [500 \<mapsto> \<lparr>sig_value = 3, sig_subs = [Sub_text 7, Sub_class 8 (Some ''on'')]\<rparr>]\<rparr>"
  have "dom_rel ?c \<lparr>sp_cmds = [], sp_next = 1048576, sp_slots = 0\<rparr>"
    using client0_rel by (auto simp: dom_rel_def pending_def)
  from signal_set_notifies [OF this, of "\<lambda>_. False" 500 0] show ?thesis
    by (simp add: ready_regs client0_ready sig_at_def sub_cmd_def fits_def dec_int_def dec.simps)
qed

end
