(* ===== verification/Client_Http.thy ===== *)
theory Client_Http
  imports Client_Cmds
begin

text \<open>
  Two contracts of \<open>runtime/client/dom.c\<close>: the delivery of a response body (the host asks
  for a buffer with \<open>cerco_fetch_reserve\<close>, writes the body, then calls
  \<open>cerco_fetch_done\<close>), and the JSON field readers components use on their props.
\<close>

subsection \<open>Responses\<close>

lemma alloc_fetches:
  "cerco_alloc grow n c = (p, c') \<Longrightarrow>
     g_fetches c' = g_fetches c \<and> g_fetch_bufs c' = g_fetch_bufs c \<and> g_fetch_caps c' = g_fetch_caps c"
  by (auto simp: cerco_alloc_def heap_grow_def Let_def split: prod.splits option.splits if_splits)

lemma alloc_sticky_fetches:
  "cerco_alloc_sticky grow n c = (p, c') \<Longrightarrow>
     g_fetches c' = g_fetches c \<and> g_fetch_bufs c' = g_fetch_bufs c \<and> g_fetch_caps c' = g_fetch_caps c"
  by (auto simp: cerco_alloc_sticky_def Let_def dest: alloc_fetches split: prod.splits if_splits)

lemma reserve_post:
  assumes "cerco_fetch_reserve grow fid len c = (p, c1)" "p \<noteq> 0"
  shows "fetch_live fid c" "0 \<le> len \<and> len \<le> CERCO_FETCH_MAX"
    "g_fetches c1 = (g_fetches c)[nat fid := (g_fetches c ! nat fid)\<lparr>pf_resp := p\<rparr>]"
    "lmem c1 (p + word_of_int len) = 0"
proof -
  show "fetch_live fid c" "0 \<le> len \<and> len \<le> CERCO_FETCH_MAX"
    using assms by (auto simp: cerco_fetch_reserve_def split: if_splits)
  then show "g_fetches c1 = (g_fetches c)[nat fid := (g_fetches c ! nat fid)\<lparr>pf_resp := p\<rparr>]"
    "lmem c1 (p + word_of_int len) = 0"
    using assms by (auto simp: cerco_fetch_reserve_def Let_def dest!: alloc_sticky_fetches split: if_splits prod.splits)
qed

lemma store_bytes: "length bs < 2 ^ 32 \<Longrightarrow> store p bs m (p + of_nat (length bs)) = m (p + of_nat (length bs))"
  by (simp add: store_eq unat_of_nat32)

text \<open>A response reaches its callback whole or not at all: when the client granted a buffer, the
  callback sees exactly the bytes the host wrote, followed by a NUL, with the request's slot
  already free; a body over the limit is refused and nothing changes.\<close>

theorem fetch_delivers:
  assumes "length (g_fetches c) = 32" "cerco_fetch_reserve grow fid (int (length body)) c = (p, c1)"
    and "f = g_fetches c ! nat fid"
  shows "(p \<noteq> 0 \<longrightarrow>
      (\<exists>c2. cerco_fetch_done call fid status (int (length body)) (c1\<lparr>lmem := store p body (lmem c1)\<rparr>) =
          cerco_dom_flush (if pf_cb f \<noteq> 0
            then call (pf_cb f) status (if body = [] then 0 else p) (int (length body)) (pf_user f) c2 else c2) \<and>
        bytes_at (lmem c2) p (length body) = body \<and> lmem c2 (p + of_nat (length body)) = 0 \<and>
        \<not> pf_used (g_fetches c2 ! nat fid))) \<and>
    (int (length body) > CERCO_FETCH_MAX \<longrightarrow> p = 0 \<and> c1 = c)"
proof (intro conjI impI)
    assume "p \<noteq> 0"
    note r = reserve_post [OF assms(2) this]
    have i: "nat fid < 32" using r(1) by (auto simp: fetch_live_def MAX_PENDING_FETCHES_def)
    have l: "length body < 2 ^ 32" using r(2) by (simp add: CERCO_FETCH_MAX_def)
    let ?c = "c1\<lparr>lmem := store p body (lmem c1)\<rparr>"
    have f: "g_fetches ?c ! nat fid = f\<lparr>pf_resp := p\<rparr>" using i assms(1,3) by (simp add: r(3))
    have live: "fetch_live fid ?c" using r(1) f assms(3) by (simp add: fetch_live_def)
    let ?c2 = "cerco_scratch_reset (?c\<lparr>g_fetches := (g_fetches ?c)[nat fid := f\<lparr>pf_used := False, pf_resp := 0\<rparr>]\<rparr>)"
    have "cerco_fetch_done call fid status (int (length body)) ?c =
        cerco_dom_flush (if pf_cb f \<noteq> 0
          then call (pf_cb f) status (if body = [] then 0 else p) (int (length body)) (pf_user f) ?c2 else ?c2)"
      using live f by (simp add: cerco_fetch_done_def Let_def)
    moreover have "bytes_at (lmem ?c2) p (length body) = body"
      using l bytes_at_store [of body p] by (simp add: cerco_scratch_reset_def)
    moreover have "lmem ?c2 (p + of_nat (length body)) = 0"
      using r(4) l store_bytes [of body p "lmem c1"] by (simp add: cerco_scratch_reset_def)
    moreover have "\<not> pf_used (g_fetches ?c2 ! nat fid)"
      using i assms(1) by (simp add: cerco_scratch_reset_def r(3))
    ultimately show "\<exists>c2. cerco_fetch_done call fid status (int (length body)) ?c =
          cerco_dom_flush (if pf_cb f \<noteq> 0
            then call (pf_cb f) status (if body = [] then 0 else p) (int (length body)) (pf_user f) c2 else c2) \<and>
        bytes_at (lmem c2) p (length body) = body \<and> lmem c2 (p + of_nat (length body)) = 0 \<and>
        \<not> pf_used (g_fetches c2 ! nat fid)" by blast
next
  assume "int (length body) > CERCO_FETCH_MAX"
  then show "p = 0" "c1 = c"
    using assms(2) by (auto simp: cerco_fetch_reserve_def split: if_splits)
qed

theorem fetch_delivers_witness:
  "\<exists>c2 :: client. cerco_fetch_done (\<lambda>cb st d n u c. c\<lparr>next_dynamic_id := d\<rparr>) 0 200 2
      ((snd (cerco_fetch_reserve (\<lambda>_. False) 0 2
          (client0\<lparr>g_fetches := (g_fetches client0)[0 := \<lparr>pf_used = True, pf_cb = 5, pf_user = 6, pf_resp = 0\<rparr>]\<rparr>)))
        \<lparr>lmem := store 1024 [65, 66] (\<lambda>_. 0)\<rparr>) =
    cerco_dom_flush (c2\<lparr>next_dynamic_id := 1024\<rparr>) \<and> bytes_at (lmem c2) 1024 2 = [65, 66] \<and> lmem c2 1026 = 0"
proof -
  let ?c = "client0\<lparr>g_fetches := (g_fetches client0)[0 := \<lparr>pf_used = True, pf_cb = 5, pf_user = 6, pf_resp = 0\<rparr>]\<rparr>"
  let ?c1 = "snd (cerco_fetch_reserve (\<lambda>_. False) 0 2 ?c)"
  let ?call = "\<lambda>(cb :: u32) (st :: int) d (n :: int) (u :: u32) (c :: client). c\<lparr>next_dynamic_id := d\<rparr>"
  have r: "cerco_fetch_reserve (\<lambda>_. False) 0 (int (length [65 :: byte, 66])) ?c = (1024, ?c1)" and m: "lmem ?c1 = (\<lambda>_. 0)"
    by (simp_all add: cerco_fetch_reserve_def fetch_live_def client0_def MAX_PENDING_FETCHES_def CERCO_FETCH_MAX_def
        FETCH_SLOTS_def cerco_alloc_sticky_def cerco_alloc_def round16_def Let_def fun_eq_iff)
  have this': "length (g_fetches ?c) = 32" by (simp add: client0_def)
  have two: "length [65 :: byte, 66] = 2" by simp
  have f: "(g_fetches client0)[0 := \<lparr>pf_used = True, pf_cb = 5, pf_user = 6, pf_resp = 0\<rparr>] ! 0 = \<lparr>pf_used = True, pf_cb = 5, pf_user = 6, pf_resp = 0\<rparr>" by (simp add: client0_def)
  from fetch_delivers [OF this' r refl, of ?call 200, THEN conjunct1]
  have "\<exists>c2. cerco_fetch_done ?call 0 200 2 (?c1\<lparr>lmem := store 1024 [65, 66] (\<lambda>_. 0)\<rparr>) =
      cerco_dom_flush (c2\<lparr>next_dynamic_id := 1024\<rparr>) \<and> bytes_at (lmem c2) 1024 2 = [65, 66] \<and> lmem c2 1026 = 0"
    unfolding m two by (simp add: f del: store.simps) blast
  then show ?thesis .
qed

subsection \<open>JSON\<close>

lemma json_digits_text:
  "list_all is_digit d \<Longrightarrow> 0 \<le> v \<Longrightarrow> int (dec_value (nat v) d) \<le> 2147483647 \<Longrightarrow> \<not> is_digit (char_at r 0) \<Longrightarrow>
   json_digits v (d @ r) = Some (int (dec_value (nat v) d))"
proof (induction d arbitrary: v)
  case Nil
  then show ?case by (cases r) (simp_all add: char_at_def)
next
  case (Cons x d)
  have mono: "k \<le> dec_value k s" for k s
  proof (induction s arbitrary: k)
    case (Cons y s)
    from Cons [of "k * 10 + digit_val y"] show ?case by simp
  qed simp
  let ?v = "v * 10 + int (digit_val x)"
  have n: "nat ?v = nat v * 10 + digit_val x" using Cons(3) by (simp add: nat_add_distrib nat_mult_distrib)
  have "?v \<le> int (dec_value (nat ?v) d)" using mono [of "nat ?v" d] Cons(3) by linarith
  with Cons n show ?case by simp
qed

lemma json_copy_text:
  "CHR 0x22 \<notin> set s \<Longrightarrow> int (length out + length s) < cap \<Longrightarrow> json_copy cap out (s @ CHR 0x22 # r) = Some (out @ s)"
  by (induction s arbitrary: out) auto

lemma dropWhile_blanks:
  "list_all (\<lambda>c. c = CHR '' '') sp \<Longrightarrow> char_at r 0 \<noteq> CHR '' '' \<Longrightarrow> dropWhile (\<lambda>c. c = CHR '' '') (sp @ r) = r"
  by (induction sp) (auto simp: char_at_def dropWhile_eq_self_iff hd_conv_nth)

lemma json_pat_length: "length (json_pat k) = length k + 3"
  by (simp add: json_pat_def)

lemma json_at:
  assumes "j = pre @ json_pat k @ sp @ r" "list_all (\<lambda>c. c = CHR '' '') sp" "char_at r 0 \<noteq> CHR '' ''"
  shows "dropWhile (\<lambda>c. c = CHR '' '') (drop (length pre + length k + 3) j) = r"
proof -
  have "drop (length pre + length k + 3) j = sp @ r"
    by (simp add: assms(1) json_pat_length)
  then show ?thesis using assms(2,3) by (simp add: dropWhile_blanks)
qed

lemma dec_first: "is_digit (char_at (dec n @ r) 0)"
proof -
  obtain c cs where "dec n = c # cs" by (cases "dec n") auto
  with dec_digits [of n] show ?thesis by (simp add: char_at_def)
qed

lemma blank_not_digit: "\<not> is_digit CHR '' ''" "\<not> is_digit CHR ''-''"
  by code_simp+

lemma json_int_text:
  assumes j: "j = pre @ json_pat k @ sp @ dec_int v @ r" and sp: "list_all (\<lambda>c. c = CHR '' '') sp"
    and first: "find_sub (json_pat k) j = Some (length pre)" and k: "length k < 124"
    and v: "\<bar>v\<bar> \<le> 2147483647" and r: "\<not> is_digit (char_at r 0)"
  shows "cerco_json_int (Some j) (Some k) dflt = Some v"
proof -
  have nb: "char_at (dec_int v @ r) 0 \<noteq> CHR '' ''"
    using dec_first [of "nat v" r] blank_not_digit by (auto simp: dec_int_def char_at_def split: if_splits)
  note p = json_at [OF j [unfolded append_assoc] sp nb]
  have dig: "json_digits 0 (dec n @ r) = Some (int n)" if "int n \<le> 2147483647" for n
    using json_digits_text [OF dec_digits _ _ r, of 0 n] that by (simp add: dec_value_dec)
  show ?thesis
  proof (cases "v < 0")
    case True
    with v dig [of "nat (- v)"] dec_first [of "nat (- v)" r] p first k show ?thesis
      by (simp add: cerco_json_int_def strstr_find dec_int_def char_at_def split: if_splits)
  next
    case False
    then have "char_at (dec (nat v) @ r) 0 \<noteq> CHR ''-''" using dec_first [of "nat v" r] blank_not_digit by auto
    with False v dig [of "nat v"] dec_first [of "nat v" r] p first k show ?thesis
      by (simp add: cerco_json_int_def strstr_find dec_int_def)
  qed
qed

lemma json_str_text:
  assumes j: "j = pre @ json_pat k @ sp @ CHR 0x22 # s @ CHR 0x22 # r" and sp: "list_all (\<lambda>c. c = CHR '' '') sp"
    and first: "find_sub (json_pat k) j = Some (length pre)" and k: "length k < 124"
    and s: "CHR 0x22 \<notin> set s" "int (length s) < cap"
  shows "cerco_json_str (Some j) (Some k) cap = Some s"
proof -
  have "dropWhile (\<lambda>c. c = CHR '' '') (drop (length pre + length k + 3) j) = CHR 0x22 # s @ CHR 0x22 # r"
    by (rule json_at [OF j sp]) (simp add: char_at_def)
  with first k s json_copy_text [of s "[]" cap r] show ?thesis
    by (simp add: cerco_json_str_def strstr_find char_at_def)
qed

text \<open>The first member named \<open>k\<close> of a component's props is read back: an integer of at most 31
  bits plus sign, and a string without quotes that fits the buffer.\<close>

theorem json_member_read:
  assumes "j = pre @ json_pat k @ sp @ val @ r" "list_all (\<lambda>c. c = CHR '' '') sp"
    and "find_sub (json_pat k) j = Some (length pre)" "length k < 124"
  shows "val = dec_int v \<Longrightarrow> \<bar>v\<bar> \<le> 2147483647 \<Longrightarrow> \<not> is_digit (char_at r 0) \<Longrightarrow>
      cerco_json_int (Some j) (Some k) dflt = Some v"
    and "val = CHR 0x22 # s @ [CHR 0x22] \<Longrightarrow> CHR 0x22 \<notin> set s \<Longrightarrow> int (length s) < cap \<Longrightarrow>
      cerco_json_str (Some j) (Some k) cap = Some s"
  using assms json_int_text [of j pre k sp v r dflt] json_str_text [of j pre k sp s r cap] by simp_all

theorem json_member_read_witness:
  "cerco_json_int (Some (CHR ''{'' # json_pat ''n'' @ ''-7}'')) (Some ''n'') 0 = Some (- 7)"
  by (rule json_member_read(1) [of _ "''{''" "''n''" "[]" "''-7''" "''}''"])
    (simp_all add: json_pat_def dec_int_def dec.simps char_at_def is_digit_def in_range_def)

end
