(* ===== verification/Client_Sf.thy ===== *)
theory Client_Sf
  imports Client_Http
begin

text \<open>
  \<open>runtime/client/sf.c\<close>: calling a server function from the browser. The arguments are encoded
  into the sticky block \<open>sf_body\<close>, the frame is posted, and the reply is decoded into one
  call of the component's callback. The callback pointers of the five result types have
  different C types; which of them the code calls through is the constructor of \<open>sf_call\<close>.
  The code behind a callback is the parameter \<open>app\<close>; \<open>sf_done_fn\<close> is the table index of
  \<open>sf_done_common\<close>.
\<close>

record sf_pending =
  sp_cb :: u32
  sp_user :: u32
  sp_want_type :: byte

record sf_client = client +
  sf_body :: u32
  sf_body_len :: u32
  sf_id :: u32
  sf_nargs :: u32
  g_sf_pending :: "sf_pending list"

definition SF_BODY_MAX :: u32 where "SF_BODY_MAX = 32768"
definition SF_PENDING_MAX :: nat where "SF_PENDING_MAX = 32"

text \<open>A callback with its arguments; an absent error is \<open>None\<close>. Strings and bytes are passed as
  addresses, as in the code.\<close>

datatype sf_call =
    Call_i32 u32 "string option"
  | Call_i64 u64 "string option"
  | Call_f64 u64 "string option"
  | Call_str u32 "string option"
  | Call_bytes u32 u32 "string option"

subsection \<open>Arguments\<close>

definition cerco_sf_begin :: "(nat \<Rightarrow> bool) \<Rightarrow> u32 \<Rightarrow> u32 \<Rightarrow> 'a sf_client_scheme \<Rightarrow> 'a sf_client_scheme" where
  "cerco_sf_begin grow i nargs c =
     (let c1 = (if sf_body c = 0
                then (let (p, c') = cerco_alloc_sticky grow SF_BODY_MAX c in c'\<lparr>sf_body := p\<rparr>) else c)
      in c1\<lparr>sf_body_len := 0, sf_id := i, sf_nargs := nargs\<rparr>)"

text \<open>The check has no effect: both branches return to the caller.\<close>

definition sf_reserve :: "u32 \<Rightarrow> 'a sf_client_scheme \<Rightarrow> 'a sf_client_scheme" where
  "sf_reserve n c = (if sf_body_len c + n > SF_BODY_MAX then c else c)"

definition sf_put :: "byte list \<Rightarrow> 'a sf_client_scheme \<Rightarrow> 'a sf_client_scheme" where
  "sf_put bs c =
     c\<lparr>lmem := store (sf_body c + sf_body_len c) bs (lmem c), sf_body_len := sf_body_len c + of_nat (length bs)\<rparr>"

definition cerco_sf_arg_i32 :: "u32 \<Rightarrow> 'a sf_client_scheme \<Rightarrow> 'a sf_client_scheme" where
  "cerco_sf_arg_i32 v c = sf_put (bytes32 v) (sf_put [WT_I32] (sf_reserve 5 c))"

definition cerco_sf_arg_bool :: "u32 \<Rightarrow> 'a sf_client_scheme \<Rightarrow> 'a sf_client_scheme" where
  "cerco_sf_arg_bool v c = sf_put (bytes32 (if v \<noteq> 0 then 1 else 0)) (sf_put [WT_BOOL] (sf_reserve 5 c))"

definition cerco_sf_arg_i64 :: "u64 \<Rightarrow> 'a sf_client_scheme \<Rightarrow> 'a sf_client_scheme" where
  "cerco_sf_arg_i64 v c = sf_put (w_u64_raw v) (sf_put [WT_I64] (sf_reserve 9 c))"

definition cerco_sf_arg_f64 :: "u64 \<Rightarrow> 'a sf_client_scheme \<Rightarrow> 'a sf_client_scheme" where
  "cerco_sf_arg_f64 bits c = sf_put (w_u64_raw bits) (sf_put [WT_F64] (sf_reserve 9 c))"

text \<open>The common body of the string and byte arguments: the two functions differ in the type tag
  and in how the length is found.\<close>

definition sf_arg_blob :: "byte \<Rightarrow> byte list \<Rightarrow> 'a sf_client_scheme \<Rightarrow> 'a sf_client_scheme" where
  "sf_arg_blob t d c =
     (let n = of_nat (length d) :: u32 in
      if sf_body_len c + 5 + n > SF_BODY_MAX then c\<lparr>sf_body_len := SF_BODY_MAX + 1\<rparr>
      else
        let c1 = sf_put (bytes32 n) (sf_put [t] c)
        in if n \<noteq> 0 then sf_put d c1 else c1)"

definition cerco_sf_arg_str :: "string option \<Rightarrow> 'a sf_client_scheme \<Rightarrow> 'a sf_client_scheme" where
  "cerco_sf_arg_str s c = sf_arg_blob WT_STR (case s of None \<Rightarrow> [] | Some t \<Rightarrow> to_bytes t) c"

text \<open>\<open>d\<close> are the \<open>len\<close> bytes the caller's pointer shows; a length that is not positive is 0.\<close>

definition cerco_sf_arg_bytes :: "byte list \<Rightarrow> int \<Rightarrow> 'a sf_client_scheme \<Rightarrow> 'a sf_client_scheme" where
  "cerco_sf_arg_bytes d len c = sf_arg_blob WT_BYTES (if len > 0 then take (nat len) d else []) c"

subsection \<open>Submission\<close>

definition sf_url_for :: "(nat \<Rightarrow> bool) \<Rightarrow> u32 \<Rightarrow> 'a sf_client_scheme \<Rightarrow> u32 \<times> 'a sf_client_scheme" where
  "sf_url_for grow i c =
     (let (url, c1) = cerco_scratch_strdup grow ''/__cerco/sf/'' c
      in if url = 0 then (0, c1)
         else (url, c1\<lparr>lmem := store (url + 12) (to_bytes (u32_digits i @ [NUL])) (lmem c1)\<rparr>))"

definition cerco_sf_submit_raw ::
  "(nat \<Rightarrow> bool) \<Rightarrow> u32 \<Rightarrow> u32 \<Rightarrow> u32 \<Rightarrow> byte \<Rightarrow> 'a sf_client_scheme \<Rightarrow> 'a sf_client_scheme" where
  "cerco_sf_submit_raw grow sf_done_fn cb user want_type c =
     (case find (\<lambda>i. sp_cb (g_sf_pending c ! i) = 0) [0..<SF_PENDING_MAX] of
        None \<Rightarrow> c
      | Some slot \<Rightarrow>
          if sf_body_len c + 4 > SF_BODY_MAX then c
          else
            let c1 = c\<lparr>lmem := c_memmove (sf_body c + 4) (sf_body c) (sf_body_len c) (lmem c)\<rparr>;
                c2 = c1\<lparr>lmem := store (sf_body c1) (bytes32 (sf_nargs c1)) (lmem c1), sf_body_len := sf_body_len c1 + 4\<rparr>;
                c3 = c2\<lparr>g_sf_pending := (g_sf_pending c2)
                         [slot := \<lparr>sp_cb = cb, sp_user = user, sp_want_type = want_type\<rparr>]\<rparr>;
                (url, c4) = sf_url_for grow (sf_id c3) c3
            in cerco_http_post grow url (sf_body c4) (sint (sf_body_len c4)) sf_done_fn (of_nat slot) c4)"

subsection \<open>Reply\<close>

definition get_u32 :: "mem \<Rightarrow> u32 \<Rightarrow> u32" where
  "get_u32 m p = le32 (bytes_at m p 4)"

definition get_u64 :: "mem \<Rightarrow> u32 \<Rightarrow> u64" where
  "get_u64 m p = le64 (bytes_at m p 8)"

text \<open>The value at \<open>v\<close> (just after its type byte) and the callback that receives it.\<close>

definition sf_value_call :: "mem \<Rightarrow> byte \<Rightarrow> u32 \<Rightarrow> sf_call" where
  "sf_value_call m vtype v =
     (if vtype = WT_I32 \<or> vtype = WT_BOOL then Call_i32 (get_u32 m v) None
      else if vtype = WT_I64 then Call_i64 (get_u64 m v) None
      else if vtype = WT_F64 then Call_f64 (get_u64 m v) None
      else if vtype = WT_STR then Call_str (v + 4) None
      else if vtype = WT_BYTES then Call_bytes (v + 4) (get_u32 m v) None
      else Call_i32 0 (Some ''type mismatch''))"

definition type_accepted :: "byte \<Rightarrow> byte \<Rightarrow> bool" where
  "type_accepted want got =
     (got = want \<or> (want = WT_BOOL \<and> got = WT_I32) \<or> (want = WT_I32 \<and> got = WT_BOOL))"

definition sf_done_common ::
  "(nat \<Rightarrow> bool) \<Rightarrow> (u32 \<Rightarrow> sf_call \<Rightarrow> u32 \<Rightarrow> 'a sf_client_scheme \<Rightarrow> 'a sf_client_scheme) \<Rightarrow>
   int \<Rightarrow> u32 \<Rightarrow> int \<Rightarrow> u32 \<Rightarrow> 'a sf_client_scheme \<Rightarrow> 'a sf_client_scheme" where
  "sf_done_common grow app status data len user c =
     (let slot = unat user; p = g_sf_pending c ! slot;
          c1 = c\<lparr>g_sf_pending := (g_sf_pending c)[slot := p\<lparr>sp_cb := 0\<rparr>]\<rparr>;
          call = (\<lambda>k c. app (sp_cb p) k (sp_user p) c);
          fail = (\<lambda>msg. Call_i32 0 (Some msg));
          m = lmem c1; end = data + word_of_int len in
      if sp_cb p = 0 then c1
      else if status \<noteq> 200 \<or> data = 0 \<or> len < 9 then call (fail ''network error'') c1
      else
        let st = m data; err_len = get_u32 m (data + 1) in
        if err_len > word_of_int len then call (fail ''bad response'') c1
        else if st \<noteq> 0 then
          (let (msg, c2) = cerco_scratch_alloc grow (err_len + 1) c1 in
           if msg \<noteq> 0 then
             let c3 = c2\<lparr>lmem := (c_memcpy msg (data + 5) err_len (lmem c2))(msg + err_len := 0)\<rparr>
             in call (fail (c_string_at (lmem c3) msg)) c3
           else call (fail ''error'') c2)
        else
          let vals = data + 5 + err_len in
          if vals + 4 > end then call (fail ''bad response'') c1
          else
            let vcount = get_u32 m vals; v = vals + 4 in
            if vcount < 1 \<or> v \<ge> end then call (fail ''bad response'') c1
            else if \<not> type_accepted (sp_want_type p) (m v) then call (fail ''type mismatch'') c1
            else call (sf_value_call m (m v) (v + 1)) c1)"

subsection \<open>Stores that do not meet\<close>

definition apart :: "u32 \<Rightarrow> nat \<Rightarrow> u32 \<Rightarrow> nat \<Rightarrow> bool" where
  "apart p n q k = (\<forall>i < n. k \<le> unat (p + of_nat i - q))"

lemma apartI:
  assumes "unat p + n \<le> 2 ^ 32" "unat q + k \<le> 2 ^ 32" "unat p + n \<le> unat q \<or> unat q + k \<le> unat p"
  shows "apart p n q k"
  unfolding apart_def
proof (intro allI impI)
  fix i assume i: "i < n"
  with assms(1) have "unat (of_nat i :: u32) = i" by (intro unat_of_nat32) simp
  with i assms(1) have u: "unat (p + of_nat i) = unat p + i"
    by (subst unat_add_lem [THEN iffD1]) simp_all
  show "k \<le> unat (p + of_nat i - q)"
  proof (cases "unat p + n \<le> unat q")
    case True
    with u i have "p + of_nat i < q" by (simp add: word_less_nat_alt)
    then show ?thesis using assms(2) by (rule nowrap_diff)
  next
    case False
    with assms(3) have ge: "unat q + k \<le> unat p" by simp
    with u have "unat (p + of_nat i - q) = unat p + i - unat q"
      by (subst unat_sub) (simp_all add: word_le_nat_alt)
    with ge show ?thesis by simp
  qed
qed

lemma bytes_at_apart:
  "apart p n q (length bs) \<Longrightarrow> length bs \<le> 2 ^ 32 \<Longrightarrow> bytes_at (store q bs m) p n = bytes_at m p n"
  by (rule nth_equalityI) (auto simp: bytes_at_def store_eq apart_def not_less)

lemma bytes_at_nth: "i < n \<Longrightarrow> bytes_at m p n ! i = m (p + of_nat i)"
  by (simp add: bytes_at_def)

lemma copy_up_store:
  assumes "n < 2 ^ 32" "d = s \<or> n \<le> unat (d - s)"
  shows "copy_up n d s m = store d (bytes_at m s n) m"
proof
  fix x
  have "m (s + (x - d)) = bytes_at m s n ! unat (x - d)" if "unat (x - d) < n"
    using that bytes_at_nth [of "unat (x - d)" n m s] by simp
  with assms show "copy_up n d s m x = store d (bytes_at m s n) m x"
    by (simp add: copy_up_eq store_eq)
qed

lemma memcpy_store:
  assumes "d = s \<or> unat n \<le> unat (d - s)"
  shows "c_memcpy d s n m = store d (bytes_at m s (unat n)) m"
  unfolding c_memcpy_def using assms unat32_bound [of n] by (intro copy_up_store) simp_all

lemma memmove_store:
  assumes "unat d + unat n \<le> 2 ^ 32" "unat s + unat n \<le> 2 ^ 32"
  shows "c_memmove d s n m = store d (bytes_at m s (unat n)) m"
proof
  fix x
  have "m (s + (x - d)) = bytes_at m s (unat n) ! unat (x - d)" if "unat (x - d) < unat n"
    using that bytes_at_nth [of "unat (x - d)" "unat n" m s] by simp
  with assms unat32_bound [of n] show "c_memmove d s n m x = store d (bytes_at m s (unat n)) m x"
    by (simp add: memmove_at store_eq)
qed

lemma get_u32_bytes: "bytes_at m p (4 + k) = bytes32 v @ r \<Longrightarrow> get_u32 m p = v"
  by (simp add: get_u32_def bytes_at_append le32_bytes32)

lemma get_u64_bytes: "bytes_at m p (8 + k) = w_u64_raw v @ r \<Longrightarrow> get_u64 m p = v"
  by (simp add: get_u64_def bytes_at_append le64_raw)

lemma bytes_at_split:
  "bytes_at m p (length xs + n) = xs @ ys \<longleftrightarrow> bytes_at m p (length xs) = xs \<and> bytes_at m (p + of_nat (length xs)) n = ys"
  by (auto simp: bytes_at_append append_eq_append_conv)

subsection \<open>Decoding a reply\<close>

text \<open>What a callback invocation tells the component: the value \<open>r\<close>, read in memory \<open>m\<close>. A string
  reaches the component up to its first NUL.\<close>

fun call_means :: "mem \<Rightarrow> sf_call \<Rightarrow> cerco_wval \<Rightarrow> bool" where
  "call_means m (Call_i32 x None) r =
     (wv_type r = WT_I32 \<and> x = as_i32 r \<or> wv_type r = WT_BOOL \<and> x = (if as_b r \<noteq> 0 then 1 else 0))"
| "call_means m (Call_i64 x None) r = (wv_type r = WT_I64 \<and> x = wv_as r)"
| "call_means m (Call_f64 x None) r = (wv_type r = WT_F64 \<and> x = wv_as r)"
| "call_means m (Call_str p None) r = (wv_type r = WT_STR \<and> c_string_at m p = cstr (of_bytes (wv_bytes r)))"
| "call_means m (Call_bytes p n None) r = (wv_type r = WT_BYTES \<and> bytes_at m p (unat n) = wv_bytes r)"
| "call_means m _ r = False"

lemma value_call_means:
  assumes ok: "wval_ok r" and len: "length (enc_val r) < 2 ^ 32"
    and b: "bytes_at m v (Suc (length (enc_val r))) = enc_val r @ [0]"
  shows "m v = wv_type r" "call_means m (sf_value_call m (m v) (v + 1)) r"
proof -
  define body where "body = tl (enc_val r)"
  have e: "enc_val r = wv_type r # body" by (simp add: enc_val_def body_def)
  with b have t: "m v = wv_type r" and bb: "bytes_at m (v + 1) (Suc (length body)) = body @ [0]"
    by (simp_all add: bytes_at_Suc [of m v])
  show "m v = wv_type r" by (rule t)
  consider "wv_type r = WT_I32" | "wv_type r = WT_BOOL" | "wv_type r = WT_I64 \<or> wv_type r = WT_F64"
    | "wv_type r = WT_STR \<or> wv_type r = WT_BYTES" "length (wv_bytes r) < 2 ^ 32"
    using ok by (auto simp: wval_ok_def)
  then show "call_means m (sf_value_call m (m v) (v + 1)) r"
  proof cases
    case 1
    then have "body = bytes32 (as_i32 r)" by (simp add: body_def enc_val_def)
    then have "get_u32 m (v + 1) = as_i32 r" using bb get_u32_bytes [of m "v + 1" 1] by simp
    with 1 t show ?thesis by (simp add: sf_value_call_def WT_defs)
  next
    case 2
    then have "body = bytes32 (if as_b r \<noteq> 0 then 1 else 0)" by (simp add: body_def enc_val_def WT_defs)
    then have "get_u32 m (v + 1) = (if as_b r \<noteq> 0 then 1 else 0)" using bb get_u32_bytes [of m "v + 1" 1] by simp
    with 2 t show ?thesis by (simp add: sf_value_call_def WT_defs)
  next
    case 3
    then have "body = w_u64_raw (wv_as r)" by (auto simp: body_def enc_val_def WT_defs)
    then have "get_u64 m (v + 1) = wv_as r" using bb get_u64_bytes [of m "v + 1" 1] by simp
    with 3 t show ?thesis by (auto simp add: sf_value_call_def WT_defs)
  next
    case 4
    then have bd: "body = bytes32 (of_nat (length (wv_bytes r))) @ wv_bytes r" by (auto simp: body_def enc_val_def WT_defs)
    have "bytes_at m (v + 1) (length (bytes32 (of_nat (length (wv_bytes r)))) + Suc (length (wv_bytes r))) =
        bytes32 (of_nat (length (wv_bytes r))) @ (wv_bytes r @ [0])"
      using bb by (simp add: bd)
    then have p: "bytes_at m (v + 1) 4 = bytes32 (of_nat (length (wv_bytes r)))"
      "bytes_at m (v + 5) (Suc (length (wv_bytes r))) = wv_bytes r @ [0]"
      unfolding bytes_at_split by (simp_all add: algebra_simps)
    have g: "get_u32 m (v + 1) = of_nat (length (wv_bytes r))"
      using get_u32_bytes [of m "v + 1" 0 _ "[]"] p(1) by simp
    have v5: "5 + v = v + 5" by (rule add.commute)
    have "bytes_at m (v + 5) (length (wv_bytes r)) = wv_bytes r"
      using p(2) by (simp add: bytes_at_def)
    moreover have "c_string_at m (v + 5) = cstr (of_bytes (wv_bytes r))"
      unfolding c_string_at_def using p(2) 4(2) by (intro c_string_cstr) simp_all
    ultimately show ?thesis
      using 4 t g by (elim disjE) (simp_all add: v5 sf_value_call_def WT_defs unat_of_nat32)
  qed
qed

lemma sf_reply_value:
  assumes r: "\<not> sx_failed ctx" "wval_ok (sf_result ctx)" "length (frame_spec ctx) < 2 ^ 31"
    and mem: "bytes_at (lmem c) data (Suc (length (frame_spec ctx))) = frame_spec ctx @ [0]"
    and ptr: "data \<noteq> 0" "unat data + length (frame_spec ctx) < 2 ^ 32"
    and p: "sp_cb (g_sf_pending c ! unat user) \<noteq> 0"
      "sp_want_type (g_sf_pending c ! unat user) = sx_ret_type ctx"
  shows "\<exists>k c1. sf_done_common grow app 200 data (int (length (frame_spec ctx))) user c =
      app (sp_cb (g_sf_pending c ! unat user)) k (sp_user (g_sf_pending c ! unat user)) c1 \<and>
    call_means (lmem c1) k (sf_result ctx) \<and>
    c1 = c\<lparr>g_sf_pending := (g_sf_pending c)[unat user := (g_sf_pending c ! unat user)\<lparr>sp_cb := 0\<rparr>]\<rparr>"
proof -
  let ?r = "sf_result ctx" and ?m = "lmem c"
  let ?hd = "0 # bytes32 0 @ bytes32 1 :: byte list"
  have f: "frame_spec ctx = ?hd @ enc_val ?r" using r(1) by (simp add: frame_spec_def)
  have n: "length (frame_spec ctx) = 9 + length (enc_val ?r)" by (simp add: f)
  have ev: "0 < length (enc_val ?r)" by (simp add: enc_val_def)
  have "bytes_at ?m data (length ?hd + Suc (length (enc_val ?r))) = ?hd @ (enc_val ?r @ [0])"
    using mem by (simp add: f)
  then have hd: "bytes_at ?m data 9 = ?hd" and tl: "bytes_at ?m (data + 9) (Suc (length (enc_val ?r))) = enc_val ?r @ [0]"
    unfolding bytes_at_split by simp_all
  have "bytes_at ?m data (Suc 8) = ?hd" using hd by simp
  then have b0: "?m data = 0" and b1: "bytes_at ?m (data + 1) 8 = bytes32 0 @ bytes32 1"
    by (simp_all only: bytes_at_Suc) simp_all
  have e: "get_u32 ?m (data + 1) = 0" using get_u32_bytes [of ?m "data + 1" 4] b1 by simp
  have "bytes_at ?m (data + 1) (length (bytes32 0) + 4) = bytes32 0 @ bytes32 1" using b1 by simp
  then have "bytes_at ?m (data + 5) 4 = bytes32 1" unfolding bytes_at_split by (simp add: algebra_simps)
  then have vc: "get_u32 ?m (data + 5) = 1" using get_u32_bytes [of ?m "data + 5" 0 1 "[]"] by simp
  have len: "length (enc_val ?r) < 2 ^ 32" using r(3) n by simp
  note v = value_call_means [OF r(2) len tl]
  have rt: "wv_type ?r = sx_ret_type ctx" by (simp add: sf_result_def Let_def)
  have wl: "word_of_int (int (length (frame_spec ctx))) = (of_nat (length (frame_spec ctx)) :: u32)" by simp
  have un: "unat (data + of_nat (length (frame_spec ctx))) = unat data + length (frame_spec ctx)"
    using ptr(2) by (subst unat_add_lem [THEN iffD1]) (simp_all add: unat_of_nat32)
  have u9: "unat (data + 9) = unat data + 9" using ptr(2) n by (subst unat_add_lem [THEN iffD1]) simp_all
  have c: "\<not> data + 9 > data + of_nat (length (frame_spec ctx))" "\<not> data + 9 \<ge> data + of_nat (length (frame_spec ctx))"
    using un u9 n ev by (simp_all add: word_less_nat_alt word_le_nat_alt)
  have "sf_done_common grow app 200 data (int (length (frame_spec ctx))) user c =
      app (sp_cb (g_sf_pending c ! unat user)) (sf_value_call ?m (?m (data + 9)) (data + 9 + 1)) (sp_user (g_sf_pending c ! unat user))
        (c\<lparr>g_sf_pending := (g_sf_pending c)[unat user := (g_sf_pending c ! unat user)\<lparr>sp_cb := 0\<rparr>]\<rparr>)"
    using p ptr(1) n b0 e vc c v(1) rt
    by (simp add: sf_done_common_def Let_def wl type_accepted_def algebra_simps)
  with v(2) show ?thesis by auto
qed

subsection \<open>Scratch blocks\<close>

text \<open>The scratch region exists, does not wrap, and has \<open>n\<close> bytes left.\<close>

definition scratch_room :: "nat \<Rightarrow> 'a client_heap_scheme \<Rightarrow> bool" where
  "scratch_room n h =
     (scratch_base h \<noteq> 0 \<and> unat (scratch_base h) + 65536 < 2 ^ 32 \<and> unat (scratch_off h) + n \<le> 65536)"

definition scratch_ptr :: "'a client_heap_scheme \<Rightarrow> u32" where
  "scratch_ptr h = scratch_base h + scratch_off h"

lemma scratch_alloc_room:
  assumes "scratch_room k h" "(unat n + 7) div 8 * 8 \<le> k"
  shows "cerco_scratch_alloc grow n h = (scratch_ptr h, h\<lparr>scratch_off := scratch_off h + round8 n\<rparr>)"
    "unat (scratch_ptr h) = unat (scratch_base h) + unat (scratch_off h)" "scratch_ptr h \<noteq> 0"
    "unat (scratch_off h + round8 n) = unat (scratch_off h) + (unat n + 7) div 8 * 8"
proof -
  have b: "unat n + 7 < 2 ^ 32" using assms by (simp add: scratch_room_def) linarith
  note r = unat_round8 [OF b]
  have u: "unat (scratch_off h + round8 n) = unat (scratch_off h) + unat (round8 n)"
    using assms r by (subst unat_add_lem [THEN iffD1]) (simp_all add: scratch_room_def)
  with r show "unat (scratch_off h + round8 n) = unat (scratch_off h) + (unat n + 7) div 8 * 8" by simp
  have "k \<le> 65536" using assms by (simp add: scratch_room_def)
  show p: "unat (scratch_ptr h) = unat (scratch_base h) + unat (scratch_off h)"
    unfolding scratch_ptr_def using assms b by (subst unat_add_lem [THEN iffD1]) (simp_all add: scratch_room_def)
  have "0 < unat (scratch_base h)" using assms by (simp add: scratch_room_def unat_gt_0)
  with p show "scratch_ptr h \<noteq> 0" by (metis add_is_0 less_numeral_extra(3) unat_0)
  show "cerco_scratch_alloc grow n h = (scratch_ptr h, h\<lparr>scratch_off := scratch_off h + round8 n\<rparr>)"
    using assms u r by (auto simp: cerco_scratch_alloc_def Let_def scratch_room_def scratch_ptr_def SCRATCH_SIZE_def word_less_nat_alt)
qed

lemma c_string_at_text: "no_nul s \<Longrightarrow> length s < 2 ^ 32 \<Longrightarrow> bytes_at m p (Suc (length s)) = to_bytes s @ [0] \<Longrightarrow> c_string_at m p = s"
  unfolding c_string_at_def using c_string_cstr [of s "2 ^ 32" m p] cstr_id [of s] by (simp only:)

lemma http_post_trace:
  assumes s: "no_nul s" "length s < 60000" "bytes_at (lmem c) url (Suc (length s)) = to_bytes s @ [0]"
    and free: "find (\<lambda>i. \<not> pf_used (g_fetches c ! i)) [0..<MAX_PENDING_FETCHES] = Some i"
    and len: "0 < len" "len < 60000" "body \<noteq> 0"
    and room: "scratch_room (length s + nat len + 20) c"
    and url: "unat url + Suc (length s) \<le> unat (scratch_ptr c)"
    and body: "unat body + nat len \<le> unat (scratch_base c) \<or> unat (scratch_base c) + 65536 \<le> unat body" "unat body + nat len \<le> 2 ^ 32"
  shows "host_trace (cerco_http_post grow url body len cb user c) =
      host_trace c @ [Host_fetch i ''POST'' (to_bytes s) (bytes_at (lmem c) body (nat len))]"
proof -
  define n where "n = (of_nat (length s + 1) :: u32)"
  have un: "unat n = length s + 1" using s(2) by (simp add: n_def unat_of_nat32 del: of_nat_add of_nat_Suc)
  have ul: "unat (word_of_int len :: u32) = nat len" using len by (intro unat_word_of_int32) simp_all
  let ?c2 = "fetch_start i cb user (c\<lparr>g_fetches := (g_fetches c)[i := (g_fetches c ! i)\<lparr>pf_used := True\<rparr>]\<rparr>)"
  let ?d = "scratch_ptr c"
  let ?m1 = "c_memcpy ?d url n (lmem c)"
  let ?c3 = "?c2\<lparr>scratch_off := scratch_off c + round8 n, lmem := ?m1\<rparr>"
  let ?q = "scratch_base c + (scratch_off c + round8 n)"
  let ?m2 = "c_memcpy ?q body (word_of_int len) ?m1"
  have fr: "fetch_reserve c = (Some i, c\<lparr>g_fetches := (g_fetches c)[i := (g_fetches c ! i)\<lparr>pf_used := True\<rparr>]\<rparr>)"
    using free by (simp add: fetch_reserve_def)
  have sl: "c_strlen (lmem c) url = length s"
    using s by (simp add: c_strlen_def c_string_at_text)
  have le1: "(unat n + 7) div 8 * 8 \<le> length s + nat len + 20" using un by linarith
  have v: "scratch_base ?c2 = scratch_base c" "scratch_off ?c2 = scratch_off c" "lmem ?c2 = lmem c" "scratch_ptr ?c2 = ?d"
    by (simp_all add: fetch_start_def scratch_ptr_def)
  have room2: "scratch_room (length s + nat len + 20) ?c2" using room v by (simp add: scratch_room_def)
  note a1 = scratch_alloc_room [OF room2 le1, unfolded v]
  have c3: "scratch_strdup_at grow url ?c2 = (?d, ?c3)"
    unfolding scratch_strdup_at_def v sl n_def [symmetric] Let_def a1(1) using a1(3) by (simp add: v(3))
  have "(unat n + 7) div 8 * 8 \<le> length s + 8" "Suc (length s) \<le> (unat n + 7) div 8 * 8" using un by linarith+
  then have off: "unat (scratch_off c + round8 n) \<le> unat (scratch_off c) + (length s + 8)"
    "unat (scratch_off c) + Suc (length s) \<le> unat (scratch_off c + round8 n)" using a1(4) by linarith+
  have room3: "scratch_room (nat len + 7) ?c3" using room off by (simp add: scratch_room_def fetch_start_def)
  have le2: "(unat (word_of_int len :: u32) + 7) div 8 * 8 \<le> nat len + 7" using ul by linarith
  note a2 = scratch_alloc_room [OF room3 le2]
  have v3: "scratch_base ?c3 = scratch_base c" "scratch_off ?c3 = scratch_off c + round8 n" "scratch_ptr ?c3 = ?q"
    by (simp_all add: scratch_ptr_def v)
  have uq: "unat ?q = unat (scratch_base c) + unat (scratch_off c + round8 n)" using a2(2) unfolding v3 .
  have ud: "unat ?d = unat (scratch_base c) + unat (scratch_off c)" using a1(2) v by simp
  have dq: "unat ?d + Suc (length s) \<le> unat ?q" using ud uq off(2) by linarith
  have lim: "unat ?q + nat len < 2 ^ 32" using room uq off(1) by (simp add: scratch_room_def)
  have m1: "?m1 = store ?d (to_bytes s @ [0]) (lmem c)"
  proof -
    have "unat n \<le> unat (?d - url)" using url un by (subst unat_sub) (simp_all add: word_le_nat_alt)
    then show ?thesis using s(3) un by (subst memcpy_store) simp_all
  qed
  have body1: "bytes_at ?m1 body (nat len) = bytes_at (lmem c) body (nat len)"
    unfolding m1 using body room ud lim dq s(2) by (intro bytes_at_apart apartI) (auto simp: scratch_room_def)
  have m2: "?m2 = store ?q (bytes_at (lmem c) body (nat len)) ?m1"
  proof -
    have "nat len \<le> unat (?q - body)"
    proof (cases "unat body + nat len \<le> unat (scratch_base c)")
      case True
      then show ?thesis using uq by (subst unat_sub) (simp_all add: word_le_nat_alt)
    next
      case False
      with body uq room off have "?q < body" by (simp add: word_less_nat_alt scratch_room_def)
      then show ?thesis using body(2) by (rule nowrap_diff)
    qed
    then show ?thesis using body1 ul by (subst memcpy_store) simp_all
  qed
  have w: "length (bytes_at (lmem c) body (nat len)) \<le> 2 ^ 32" using len by simp
  have "bytes_at ?m2 url (Suc (length s)) = bytes_at ?m1 url (Suc (length s))"
    unfolding m2 using url dq lim by (intro bytes_at_apart apartI) simp_all
  also have "\<dots> = to_bytes s @ [0]"
    unfolding m1 s(3) [symmetric] using url dq lim s(2) by (intro bytes_at_apart apartI) simp_all
  finally have sl2: "c_strlen ?m2 url = length s" using s by (simp add: c_strlen_def c_string_at_text)
  have "bytes_at ?m1 ?d (Suc (length s)) = to_bytes s @ [0]"
    unfolding m1 using bytes_at_store [of "to_bytes s @ [0]" ?d] s(2) by simp
  then have "bytes_at ?m1 ?d (length s) = to_bytes s" by (simp add: bytes_at_def)
  moreover have "bytes_at ?m2 ?d (length s) = bytes_at ?m1 ?d (length s)"
    unfolding m2 using dq lim by (intro bytes_at_apart apartI) simp_all
  ultimately have u2: "bytes_at ?m2 ?d (length s) = to_bytes s" by simp
  have b2: "bytes_at ?m2 ?q (nat len) = bytes_at (lmem c) body (nat len)"
    unfolding m2 using bytes_at_store [OF w, of ?q] by simp
  let ?c4 = "?c3\<lparr>scratch_off := scratch_off ?c3 + round8 (word_of_int len), lmem := ?m2\<rparr>"
  have q0: "?q \<noteq> 0" using a2(3) unfolding v3 .
  have al2: "cerco_scratch_alloc grow (word_of_int len) ?c3 =
      (?q, ?c3\<lparr>scratch_off := scratch_off ?c3 + round8 (word_of_int len)\<rparr>)" using a2(1) unfolding v3(3) .
  have cond: "(body \<noteq> 0 \<and> 0 < len) = True" "(?q \<noteq> 0) = True" using len q0 by simp_all
  have "cerco_http_post grow url body len cb user c =
      host_fetch i ''POST'' ?d (c_strlen (lmem ?c4) url) ?q (nat len) ?c4"
    unfolding cerco_http_post_def fr prod.case option.case Let_def c3 al2 cond if_True by simp
  then have "host_trace (cerco_http_post grow url body len cb user c) =
      host_trace c @ [Host_fetch i ''POST'' (bytes_at ?m2 ?d (c_strlen ?m2 url)) (bytes_at ?m2 ?q (nat len))]"
    by (simp add: host_fetch_def fetch_start_def)
  then show ?thesis by (simp add: sl2 u2 b2)
qed

subsection \<open>Encoding a call\<close>

text \<open>One argument, by the function the generated stub calls for its type.\<close>

definition sf_arg :: "cerco_wval \<Rightarrow> 'a sf_client_scheme \<Rightarrow> 'a sf_client_scheme" where
  "sf_arg v c =
     (let t = wv_type v in
      if t = WT_I32 then cerco_sf_arg_i32 (as_i32 v) c
      else if t = WT_BOOL then cerco_sf_arg_bool (if as_b v \<noteq> 0 then 1 else 0) c
      else if t = WT_I64 then cerco_sf_arg_i64 (wv_as v) c
      else if t = WT_F64 then cerco_sf_arg_f64 (wv_as v) c
      else if t = WT_STR then cerco_sf_arg_str (Some (of_bytes (wv_bytes v))) c
      else cerco_sf_arg_bytes (wv_bytes v) (int (length (wv_bytes v))) c)"

lemma sf_put_put: "sf_put b (sf_put a c) = sf_put (a @ b) c"
  by (simp add: sf_put_def store_append algebra_simps)

lemma sf_reserve_id [simp]: "sf_reserve n c = c"
  by (simp add: sf_reserve_def)

lemma sf_blob_put:
  assumes "unat (sf_body_len c) + 5 + length d \<le> 32768"
  shows "sf_arg_blob t d c = sf_put (t # bytes32 (of_nat (length d)) @ d) c"
proof -
  have n: "unat (of_nat (length d) :: u32) = length d" using assms by (intro unat_of_nat32) simp
  have "unat (sf_body_len c + 5) = unat (sf_body_len c) + 5" using assms by (subst unat_add_lem [THEN iffD1]) simp_all
  then have "unat (sf_body_len c + 5 + of_nat (length d)) = unat (sf_body_len c) + 5 + length d"
    using assms n by (subst unat_add_lem [THEN iffD1]) simp_all
  then have le: "\<not> sf_body_len c + 5 + of_nat (length d) > SF_BODY_MAX"
    using assms by (simp add: SF_BODY_MAX_def word_less_nat_alt)
  show ?thesis
  proof (cases "d = []")
    case True
    with le show ?thesis by (simp add: sf_arg_blob_def sf_put_put)
  next
    case False
    with n have "of_nat (length d) \<noteq> (0 :: u32)" by (metis length_0_conv unat_0)
    with le show ?thesis by (simp add: sf_arg_blob_def Let_def sf_put_put)
  qed
qed

lemma sf_arg_put:
  assumes "wval_ok v" "unat (sf_body_len c) + length (enc_val v) \<le> 32768"
  shows "sf_arg v c = sf_put (enc_val v) c"
proof -
  consider "wv_type v = WT_I32" | "wv_type v = WT_BOOL" | "wv_type v = WT_I64" | "wv_type v = WT_F64"
    | "wv_type v = WT_STR" | "wv_type v = WT_BYTES"
    using assms(1) by (auto simp: wval_ok_def)
  then show ?thesis
  proof cases
    case 5
    then have "sf_arg v c = sf_arg_blob WT_STR (wv_bytes v) c" by (simp add: sf_arg_def WT_defs cerco_sf_arg_str_def)
    with 5 assms(2) show ?thesis by (simp add: enc_val_def WT_defs sf_blob_put)
  next
    case 6
    then have "sf_arg v c = sf_arg_blob WT_BYTES (wv_bytes v) c" by (simp add: sf_arg_def WT_defs cerco_sf_arg_bytes_def)
    with 6 assms(2) show ?thesis by (simp add: enc_val_def WT_defs sf_blob_put)
  qed (simp_all add: sf_arg_def enc_val_def WT_defs sf_put_put cerco_sf_arg_i32_def cerco_sf_arg_bool_def
      cerco_sf_arg_i64_def cerco_sf_arg_f64_def)
qed

lemma sf_put_len: "unat (sf_body_len c) + length bs < 2 ^ 32 \<Longrightarrow> unat (sf_body_len (sf_put bs c)) = unat (sf_body_len c) + length bs"
proof -
  assume a: "unat (sf_body_len c) + length bs < 2 ^ 32"
  then have "unat (of_nat (length bs) :: u32) = length bs" by (intro unat_of_nat32) simp
  with a show ?thesis unfolding sf_put_def by simp (subst unat_add_lem [THEN iffD1], simp_all)
qed

lemma sf_args_put:
  "list_all wval_ok vs \<Longrightarrow> unat (sf_body_len c) + length (concat (map enc_val vs)) \<le> 32768 \<Longrightarrow>
   fold sf_arg vs c = sf_put (concat (map enc_val vs)) c"
proof (induction vs arbitrary: c)
  case Nil
  then show ?case by (simp add: sf_put_def)
next
  case (Cons v vs)
  then have "sf_arg v c = sf_put (enc_val v) c" by (intro sf_arg_put) simp_all
  moreover have "unat (sf_body_len (sf_put (enc_val v) c)) = unat (sf_body_len c) + length (enc_val v)"
    using Cons(3) by (intro sf_put_len) simp
  ultimately show ?case using Cons by (simp add: sf_put_put)
qed

lemma sint_small: "unat (w :: u32) < 2 ^ 31 \<Longrightarrow> sint w = int (unat w)"
proof -
  assume a: "unat w < 2 ^ 31"
  have "sint w = signed_take_bit 31 (uint w)" using sint_uint [of w] by simp
  moreover have "uint w < 2147483648"
  proof -
    have "unat w < 2147483648" using a by simp
    then show ?thesis unfolding uint_nat by linarith
  qed
  moreover have "- (2 ^ 31) \<le> uint w" by (rule order_trans [of _ 0]) simp_all
  ultimately have "signed_take_bit 31 (uint w) = uint w" by (intro signed_take_bit_int_eq_self) simp_all
  moreover have "sint w = signed_take_bit 31 (uint w)" using sint_uint [of w] by simp
  ultimately show ?thesis by simp
qed

lemma dec_no_nul: "no_nul (dec n)"
proof -
  have "\<not> is_digit NUL" by code_simp
  with dec_digits [of n] show ?thesis by (auto simp: no_nul_def list_all_iff)
qed

lemma submit_trace:
  assumes args: "bytes_at (lmem c) (sf_body c) (unat (sf_body_len c)) = encs" "unat (sf_body_len c) \<le> 32764"
    and slot: "find (\<lambda>i. sp_cb (g_sf_pending c ! i) = 0) [0..<SF_PENDING_MAX] = Some k"
    and free: "find (\<lambda>i. \<not> pf_used (g_fetches c ! i)) [0..<MAX_PENDING_FETCHES] = Some i"
    and body: "sf_body c \<noteq> 0" "unat (sf_body c) + 32768 \<le> 2 ^ 32"
      "unat (sf_body c) + 32768 \<le> unat (scratch_base c) \<or> unat (scratch_base c) + 65536 \<le> unat (sf_body c)"
    and room: "scratch_room (unat (sf_body_len c) + 60) c" and ident: "unat (sf_id c) < 1000"
  shows "host_trace (cerco_sf_submit_raw grow fn cb user want c) = host_trace c @
      [Host_fetch i ''POST'' (to_bytes (''/__cerco/sf/'' @ dec (unat (sf_id c)))) (bytes32 (sf_nargs c) @ encs)]"
proof -
  let ?B = "sf_body c" and ?L = "sf_body_len c" and ?P = "scratch_ptr c"
  let ?dg = "dec (unat (sf_id c))"
  have dg: "length ?dg \<le> 3" using ident by (intro length_dec_le) simp_all
  have u4: "unat (?B + 4) = unat ?B + 4" using body(2) by (subst unat_add_lem [THEN iffD1]) simp_all
  let ?m1 = "store (?B + 4) encs (lmem c)"
  have le: "length encs = unat ?L" using args(1) by (metis length_bytes_at)
  have mm: "c_memmove (?B + 4) ?B ?L (lmem c) = ?m1"
    using args u4 body(2) by (subst memmove_store) simp_all
  let ?m2 = "store ?B (bytes32 (sf_nargs c)) ?m1"
  have L4: "unat (?L + 4) = unat ?L + 4" using args(2) by (subst unat_add_lem [THEN iffD1]) simp_all
  have "bytes_at ?m2 (?B + 4) (unat ?L) = bytes_at ?m1 (?B + 4) (unat ?L)"
    using u4 body(2) args(2) by (intro bytes_at_apart apartI) simp_all
  moreover have "bytes_at ?m1 (?B + 4) (unat ?L) = encs"
    using bytes_at_store [of encs "?B + 4" "lmem c"] le args(2) by simp
  moreover have "bytes_at ?m2 ?B 4 = bytes32 (sf_nargs c)"
    using bytes_at_store [of "bytes32 (sf_nargs c)" ?B ?m1] by simp
  ultimately have b2: "bytes_at ?m2 ?B (4 + unat ?L) = bytes32 (sf_nargs c) @ encs"
    by (simp add: bytes_at_append)
  let ?c2 = "c\<lparr>lmem := ?m2, sf_body_len := ?L + 4\<rparr>"
  let ?c3 = "?c2\<lparr>g_sf_pending := (g_sf_pending c)[k := \<lparr>sp_cb = cb, sp_user = user, sp_want_type = want\<rparr>]\<rparr>"
  have room3: "scratch_room (unat ?L + 60) ?c3" using room by (simp add: scratch_room_def)
  have n13: "(unat (of_nat (length ''/__cerco/sf/'' + 1) :: u32) + 7) div 8 * 8 \<le> unat ?L + 60" by simp
  note al = scratch_alloc_room [OF room3 n13]
  have P: "scratch_ptr ?c3 = ?P" by (simp add: scratch_ptr_def)
  have uP: "unat ?P = unat (scratch_base c) + unat (scratch_off c)" using al(2) by (simp add: P)
  have off: "unat (scratch_off c + round8 13) = unat (scratch_off c) + 16" using al(4) by simp
  let ?m3 = "store ?P (to_bytes (''/__cerco/sf/'' @ [NUL])) ?m2"
  let ?m4 = "store (?P + 12) (to_bytes (?dg @ [NUL])) ?m3"
  let ?c4 = "?c3\<lparr>scratch_off := scratch_off c + round8 13, lmem := ?m4\<rparr>"
  have url: "sf_url_for grow (sf_id c) ?c3 = (?P, ?c4)"
    using al(1,3) by (simp add: sf_url_for_def cerco_scratch_strdup_def P u32_digits_dec)
  have lim: "unat ?P + 60 + unat ?L < 2 ^ 32" using room uP by (simp add: scratch_room_def)
  have u12: "unat (?P + 12) = unat ?P + 12" using lim by (subst unat_add_lem [THEN iffD1]) simp_all
  have z: "to_bytes [NUL] = [0]" by (simp add: to_bytes_def)
  have s3: "bytes_at ?m3 ?P 12 = to_bytes ''/__cerco/sf/''"
  proof -
    have hx: "to_bytes (''/__cerco/sf/'' @ [NUL]) = to_bytes ''/__cerco/sf/'' @ [0]" by (simp only: to_bytes_simps z)
    have lx: "length (to_bytes ''/__cerco/sf/'' @ [0]) = length (to_bytes ''/__cerco/sf/'') + 1" by simp
    have "bytes_at ?m3 ?P (length (to_bytes ''/__cerco/sf/'') + 1) = to_bytes ''/__cerco/sf/'' @ [0]"
      unfolding hx lx [symmetric] by (rule bytes_at_store) simp
    then have "bytes_at ?m3 ?P (length (to_bytes ''/__cerco/sf/'')) = to_bytes ''/__cerco/sf/''"
      unfolding bytes_at_split by blast
    moreover have "length (to_bytes ''/__cerco/sf/'') = 12" by simp
    ultimately show ?thesis by (simp only:)
  qed
  have "bytes_at ?m4 ?P 12 = bytes_at ?m3 ?P 12"
    using lim u12 dg by (intro bytes_at_apart apartI) simp_all
  then have h4: "bytes_at ?m4 ?P 12 = to_bytes ''/__cerco/sf/''" using s3 by (simp only:)
  have t4: "bytes_at ?m4 (?P + 12) (Suc (length ?dg)) = to_bytes ?dg @ [0]"
    using bytes_at_store [of "to_bytes (?dg @ [NUL])" "?P + 12" ?m3] dg by (simp add: z)
  have hl: "Suc (length (''/__cerco/sf/'' @ ?dg)) = 12 + Suc (length ?dg)" by simp
  have ht: "to_bytes (''/__cerco/sf/'' @ ?dg) @ [0] = to_bytes ''/__cerco/sf/'' @ (to_bytes ?dg @ [0])"
    by (simp only: to_bytes_simps append_assoc)
  have s4: "bytes_at ?m4 ?P (Suc (length (''/__cerco/sf/'' @ ?dg))) = to_bytes (''/__cerco/sf/'' @ ?dg) @ [0]"
    unfolding hl ht bytes_at_append of_nat_numeral h4 t4 by (rule refl)
  have B: "unat ?B + (4 + unat ?L) \<le> unat ?P \<or> unat ?P + 60 \<le> unat ?B"
    using body(3) args(2) uP room by (auto simp: scratch_room_def)
  have "bytes_at ?m4 ?B (4 + unat ?L) = bytes_at ?m3 ?B (4 + unat ?L)"
    using B u12 dg lim body(2) args(2) by (intro bytes_at_apart apartI) auto
  also have "\<dots> = bytes_at ?m2 ?B (4 + unat ?L)"
    using B lim body(2) args(2) by (intro bytes_at_apart apartI) auto
  finally have b4: "bytes_at ?m4 ?B (4 + unat ?L) = bytes32 (sf_nargs c) @ encs" using b2 by simp
  have tr: "cerco_sf_submit_raw grow fn cb user want c = cerco_http_post grow ?P ?B (sint (?L + 4)) fn (of_nat k) ?c4"
  proof -
    have "\<not> ?L + 4 > SF_BODY_MAX" using L4 args(2) by (simp add: SF_BODY_MAX_def word_less_nat_alt)
    then show ?thesis using slot url by (simp add: cerco_sf_submit_raw_def Let_def mm)
  qed
  have si: "sint (?L + 4) = int (unat ?L + 4)"
    using L4 args(2) sint_small [of "?L + 4"] by simp
  have nl: "nat (sint (?L + 4)) = unat ?L + 4" by (simp only: si nat_int)
  have "host_trace (cerco_http_post grow ?P ?B (sint (?L + 4)) fn (of_nat k) ?c4) =
      host_trace ?c4 @ [Host_fetch i ''POST'' (to_bytes (''/__cerco/sf/'' @ ?dg)) (bytes_at (lmem ?c4) ?B (nat (sint (?L + 4))))]"
  proof (rule http_post_trace)
    show "no_nul (''/__cerco/sf/'' @ ?dg)" by (simp add: dec_no_nul)
    show "length (''/__cerco/sf/'' @ ?dg) < 60000" using dg by simp
    show "bytes_at (lmem ?c4) ?P (Suc (length (''/__cerco/sf/'' @ ?dg))) = to_bytes (''/__cerco/sf/'' @ ?dg) @ [0]"
      using s4 by simp
    show "find (\<lambda>i. \<not> pf_used (g_fetches ?c4 ! i)) [0..<MAX_PENDING_FETCHES] = Some i" using free by simp
    show "0 < sint (?L + 4)" "sint (?L + 4) < 60000" using si args(2) by linarith+
    show "?B \<noteq> 0" by (rule body(1))
    show "scratch_room (length (''/__cerco/sf/'' @ ?dg) + nat (sint (?L + 4)) + 20) ?c4"
      using room off dg by (simp add: scratch_room_def nl)
    have "unat (scratch_ptr ?c4) = unat (scratch_base c) + unat (scratch_off c + round8 13)"
      unfolding scratch_ptr_def using off room by simp (subst unat_add_lem [THEN iffD1], simp_all add: scratch_room_def)
    then have "unat (scratch_ptr ?c4) = unat ?P + 16" using off uP by simp
    then show "unat ?P + Suc (length (''/__cerco/sf/'' @ ?dg)) \<le> unat (scratch_ptr ?c4)" using dg by simp
    show "unat ?B + nat (sint (?L + 4)) \<le> unat (scratch_base ?c4) \<or> unat (scratch_base ?c4) + 65536 \<le> unat ?B"
      using body(3) args(2) by (auto simp: nl)
    show "unat ?B + nat (sint (?L + 4)) \<le> 2 ^ 32" using body(2) args(2) by (simp add: nl)
  qed
  then show ?thesis unfolding tr nl using b4 by (simp add: add.commute)
qed

lemma sf_error_text:
  assumes f: "sx_failed ctx" "sx_error ctx = Some msg" "length msg < 60000"
    and mem: "bytes_at (lmem c) data (length (frame_spec ctx)) = frame_spec ctx"
    and ptr: "data \<noteq> 0" "unat data + 60005 < 2 ^ 32"
      "unat data + 60005 \<le> unat (scratch_base c) \<or> unat (scratch_base c) + 65536 \<le> unat data"
    and p: "sp_cb (g_sf_pending c ! unat user) \<noteq> 0" and room: "scratch_room (length msg + 8) c"
  shows "\<exists>c1. sf_done_common grow app 200 data (int (length (frame_spec ctx))) user c =
      app (sp_cb (g_sf_pending c ! unat user))
        (Call_i32 0 (Some (if length msg < 4 then ''network error'' else cstr msg)))
        (sp_user (g_sf_pending c ! unat user)) c1"
proof -
  have fr: "frame_spec ctx = (1 # bytes32 (of_nat (length msg))) @ to_bytes msg" using f by (simp add: frame_spec_def)
  have n: "length (frame_spec ctx) = 5 + length msg" by (simp add: fr)
  show ?thesis
  proof (cases "length msg < 4")
    case True
    with n p show ?thesis by (auto simp: sf_done_common_def Let_def)
  next
    case False
    let ?q = "scratch_ptr c" and ?m = "lmem c"
    let ?c1 = "c\<lparr>g_sf_pending := (g_sf_pending c)[unat user := (g_sf_pending c ! unat user)\<lparr>sp_cb := 0\<rparr>]\<rparr>"
    have ul: "unat (of_nat (length msg) :: u32) = length msg" using f(3) by (intro unat_of_nat32) simp
    have ul1: "unat (of_nat (length msg) + 1 :: u32) = length msg + 1"
      using ul f(3) by (subst unat_add_lem [THEN iffD1]) simp_all
    have "bytes_at ?m data (length (1 # bytes32 (of_nat (length msg))) + length msg) = (1 # bytes32 (of_nat (length msg))) @ to_bytes msg"
      using mem n fr by simp
    then have hd: "bytes_at ?m data 5 = 1 # bytes32 (of_nat (length msg))" and tl: "bytes_at ?m (data + 5) (length msg) = to_bytes msg"
      unfolding bytes_at_split by simp_all
    have "bytes_at ?m data (Suc 4) = 1 # bytes32 (of_nat (length msg))" using hd by simp
    then have b0: "?m data = 1" and b1: "bytes_at ?m (data + 1) 4 = bytes32 (of_nat (length msg))"
      by (simp_all only: bytes_at_Suc) simp_all
    have e: "get_u32 ?m (data + 1) = of_nat (length msg)"
      using get_u32_bytes [of ?m "data + 1" 0 _ "[]"] b1 by simp
    have wl: "word_of_int (int (length (frame_spec ctx))) = (of_nat (5 + length msg) :: u32)" by (simp add: n)
    have "unat (of_nat (5 + length msg) :: u32) = 5 + length msg" using f(3) by (intro unat_of_nat32) simp
    then have c1: "\<not> of_nat (length msg) > (of_nat (5 + length msg) :: u32)"
      using ul by (simp add: word_less_nat_alt)
    then have c1': "\<not> of_nat (length msg) > (of_nat (length (frame_spec ctx)) :: u32)" unfolding n .
    have room1: "scratch_room (length msg + 8) ?c1" using room by (simp add: scratch_room_def)
    have k: "(unat (of_nat (length msg) + 1 :: u32) + 7) div 8 * 8 \<le> length msg + 8" using ul1 by linarith
    note al = scratch_alloc_room [OF room1 k]
    have q: "scratch_ptr ?c1 = ?q" by (simp add: scratch_ptr_def)
    have uq: "unat ?q = unat (scratch_base c) + unat (scratch_off c)" using al(2) q by simp
    have u5: "unat (data + 5) = unat data + 5" using ptr(2) by (subst unat_add_lem [THEN iffD1]) simp_all
    let ?m2 = "c_memcpy ?q (data + 5) (of_nat (length msg)) ?m"
    have "length msg \<le> unat (?q - (data + 5))"
    proof (cases "unat data + 60005 \<le> unat (scratch_base c)")
      case True
      then show ?thesis using uq u5 f(3) by (subst unat_sub) (simp_all add: word_le_nat_alt)
    next
      case False
      with ptr(3) uq u5 room have "?q < data + 5" by (simp add: word_less_nat_alt scratch_room_def)
      then show ?thesis using u5 ptr(2) f(3) by (intro nowrap_diff) simp_all
    qed
    then have m2: "?m2 = store ?q (to_bytes msg) ?m" using tl ul by (subst memcpy_store) simp_all
    have m3: "?m2(?q + of_nat (length msg) := 0) = store ?q (to_bytes msg @ [0]) ?m"
      unfolding m2 by (simp add: store_append)
    have "bytes_at (store ?q (to_bytes msg @ [0]) ?m) ?q (Suc (length msg)) = to_bytes msg @ [0]"
      using bytes_at_store [of "to_bytes msg @ [0]" ?q ?m] f(3) by simp
    then have str: "c_string_at (store ?q (to_bytes msg @ [0]) ?m) ?q = cstr msg"
      unfolding c_string_at_def using f(3) by (intro c_string_cstr) simp_all
    have n9: "\<not> int (length (frame_spec ctx)) < 9" using n False by simp
    have nz: "?m data \<noteq> 0" using b0 by simp
    have al1: "cerco_scratch_alloc grow (of_nat (length msg) + 1) ?c1 =
        (?q, ?c1\<lparr>scratch_off := scratch_off c + round8 (of_nat (length msg) + 1)\<rparr>)" "?q \<noteq> 0"
      using al(1,3) q by simp_all
    show ?thesis
      unfolding sf_done_common_def Let_def using p ptr(1) n9 nz c1' al1
      by (simp add: e wl al1 m3 str b0 del: fun_upd_apply) (auto simp: False)
  qed
qed

text \<open>The request a stub's call becomes: the frame is the number of arguments and their encodings.\<close>

lemma call_trace:
  assumes vs: "list_all wval_ok vs" "length (concat (map enc_val vs)) \<le> 32764"
    and c: "sf_body_len c = 0" "sf_nargs c = of_nat (length vs)" "unat (sf_id c) < 1000"
    and slots: "find (\<lambda>i. sp_cb (g_sf_pending c ! i) = 0) [0..<SF_PENDING_MAX] = Some k"
      "find (\<lambda>i. \<not> pf_used (g_fetches c ! i)) [0..<MAX_PENDING_FETCHES] = Some i"
    and body: "sf_body c \<noteq> 0" "unat (sf_body c) + 32768 \<le> 2 ^ 32"
      "unat (sf_body c) + 32768 \<le> unat (scratch_base c) \<or> unat (scratch_base c) + 65536 \<le> unat (sf_body c)"
    and room: "scratch_room (length (concat (map enc_val vs)) + 60) c"
  shows "host_trace (cerco_sf_submit_raw grow fn cb user want (fold sf_arg vs c)) =
      host_trace c @ [Host_fetch i ''POST'' (to_bytes (''/__cerco/sf/'' @ dec (unat (sf_id c))))
        (bytes32 (of_nat (length vs)) @ concat (map enc_val vs))]"
proof -
  let ?e = "concat (map enc_val vs)"
  have args: "fold sf_arg vs c = sf_put ?e c" using vs c(1) by (intro sf_args_put) simp_all
  have len: "unat (sf_body_len (sf_put ?e c)) = length ?e" using sf_put_len [of c ?e] vs(2) c(1) by simp
  have e: "bytes_at (lmem (sf_put ?e c)) (sf_body (sf_put ?e c)) (unat (sf_body_len (sf_put ?e c))) = ?e"
    unfolding len using bytes_at_store [of ?e "sf_body c" "lmem c"] vs(2) c(1) by (simp add: sf_put_def)
  have v: "sf_body (sf_put ?e c) = sf_body c" "sf_nargs (sf_put ?e c) = sf_nargs c" "sf_id (sf_put ?e c) = sf_id c"
    "g_sf_pending (sf_put ?e c) = g_sf_pending c" "g_fetches (sf_put ?e c) = g_fetches c"
    "scratch_base (sf_put ?e c) = scratch_base c" "host_trace (sf_put ?e c) = host_trace c"
    "scratch_room n (sf_put ?e c) = scratch_room n c" for n by (simp_all add: sf_put_def scratch_room_def)
  have "host_trace (cerco_sf_submit_raw grow fn cb user want (sf_put ?e c)) = host_trace c @
      [Host_fetch i ''POST'' (to_bytes (''/__cerco/sf/'' @ dec (unat (sf_id c)))) (bytes32 (of_nat (length vs)) @ ?e)]"
    using submit_trace [OF e, of k i grow fn cb user want] vs(2) c slots body room unfolding v len by simp
  then show ?thesis unfolding args .
qed

subsection \<open>Properties\<close>

text \<open>C3: The server receives the call the component made: a stub's arguments, encoded by the client
  and posted, are read back by the server's decoder as the same values in canonical form, and
  the request goes to the URL of the function's id (ids below 1000, frames within the buffer).\<close>

theorem sf_call_on_wire:
  assumes vs: "list_all wval_ok vs" "length (concat (map enc_val vs)) \<le> 32764"
    and c: "sf_body_len c = 0" "sf_nargs c = of_nat (length vs)" "unat (sf_id c) < 1000"
    and slots: "find (\<lambda>i. sp_cb (g_sf_pending c ! i) = 0) [0..<SF_PENDING_MAX] = Some k"
      "find (\<lambda>i. \<not> pf_used (g_fetches c ! i)) [0..<MAX_PENDING_FETCHES] = Some i"
    and body: "sf_body c \<noteq> 0" "unat (sf_body c) + 32768 \<le> 2 ^ 32"
      "unat (sf_body c) + 32768 \<le> unat (scratch_base c) \<or> unat (scratch_base c) + 65536 \<le> unat (sf_body c)"
    and room: "scratch_room (length (concat (map enc_val vs)) + 60) c"
  shows "\<exists>b rd rd'. host_trace (cerco_sf_submit_raw grow fn cb user want (fold sf_arg vs c)) =
      host_trace c @ [Host_fetch i ''POST'' (to_bytes (''/__cerco/sf/'' @ dec (unat (sf_id c)))) b] \<and>
    cerco_r_u32 (cerco_wreader_init b) = (of_nat (length vs), rd) \<and>
    read_n cerco_r_val (length vs) rd = (Some (map norm_val vs), rd')"
proof -
  let ?e = "concat (map enc_val vs)"
  obtain rd where rd: "cerco_r_u32 (cerco_wreader_init (bytes32 (of_nat (length vs)) @ ?e)) = (of_nat (length vs), rd)" "rd_at rd ?e"
    using r_u32_at [OF rd_at_init] by blast
  moreover obtain rd' where "read_n cerco_r_val (length vs) rd = (Some (map norm_val vs), rd')"
    using wire.read_n_put [OF vs(1), of rd "[]"] rd(2) by auto
  ultimately show ?thesis using call_trace [OF assms] by blast
qed

text \<open>A client whose scratch region and body block are in place.\<close>

definition sfc0 :: sf_client where
  "sfc0 = \<lparr>heap_ptr = 196608, heap_end = 262144, heap_sticky_floor = 196608, scratch_base = 131072, scratch_off = 0,
     mem_pages = 4, lmem = (\<lambda>_. 0), cmd_buf = 0, cmd_len = 0, next_dynamic_id = 1048576, sigs = (\<lambda>_. None),
     g_slots = replicate 512 \<lparr>es_fn = 0, es_user = 0\<rparr>, g_slot_count = 0,
     g_fetches = replicate 32 \<lparr>pf_used = False, pf_cb = 0, pf_user = 0, pf_resp = 0\<rparr>,
     g_fetch_bufs = replicate 4 0, g_fetch_caps = replicate 4 0, host_trace = [],
     sf_body = 65536, sf_body_len = 0, sf_id = 7, sf_nargs = 1,
     g_sf_pending = replicate 32 \<lparr>sp_cb = 0, sp_user = 0, sp_want_type = 0\<rparr>\<rparr>"

lemma sfc0_slots:
  "find (\<lambda>i. sp_cb (g_sf_pending sfc0 ! i) = 0) [0..<SF_PENDING_MAX] = Some 0"
  "find (\<lambda>i. \<not> pf_used (g_fetches sfc0 ! i)) [0..<MAX_PENDING_FETCHES] = Some 0"
  by (simp_all add: sfc0_def SF_PENDING_MAX_def MAX_PENDING_FETCHES_def upt_conv_Cons)

theorem sf_call_on_wire_witness:
  "\<exists>b rd rd'. host_trace (cerco_sf_submit_raw (\<lambda>_. False) 9 5 6 WT_BOOL (sf_arg \<lparr>wv_type = WT_BOOL, wv_as = 7, wv_bytes = []\<rparr> sfc0)) =
      [Host_fetch 0 ''POST'' (to_bytes ''/__cerco/sf/7'') b] \<and>
    cerco_r_u32 (cerco_wreader_init b) = (1, rd) \<and>
    read_n cerco_r_val 1 rd = (Some [\<lparr>wv_type = WT_BOOL, wv_as = 1, wv_bytes = []\<rparr>], rd')"
proof -
  let ?v = "\<lparr>wv_type = WT_BOOL, wv_as = 7, wv_bytes = []\<rparr>"
  have n: "norm_val ?v = \<lparr>wv_type = WT_BOOL, wv_as = 1, wv_bytes = []\<rparr>" by (simp add: norm_val_def WT_defs as_b_def)
  have ok: "wval_ok ?v" and l: "length (enc_val ?v) = 5" by (simp_all add: wval_ok_def enc_val_def WT_defs as_b_def)
  have "\<exists>b rd rd'. host_trace (cerco_sf_submit_raw (\<lambda>_. False) 9 5 6 WT_BOOL (fold sf_arg [?v] sfc0)) =
      host_trace sfc0 @ [Host_fetch 0 ''POST'' (to_bytes (''/__cerco/sf/'' @ dec (unat (sf_id sfc0)))) b] \<and>
    cerco_r_u32 (cerco_wreader_init b) = (of_nat (length [?v]), rd) \<and>
    read_n cerco_r_val (length [?v]) rd = (Some (map norm_val [?v]), rd')"
    by (rule sf_call_on_wire [OF _ _ _ _ _ sfc0_slots]) (simp_all add: ok l sfc0_def scratch_room_def)
  then show ?thesis by (simp add: n) (simp add: sfc0_def dec.simps)
qed

text \<open>C5: The component receives the value the server's adapter returned: decoding the response frame of
  the server calls the component's callback once, with the server's result.\<close>

theorem sf_reply_decoded:
  assumes "\<not> sx_failed ctx" "wval_ok (sf_result ctx)" "length (frame_spec ctx) < 2 ^ 31"
    and "bytes_at (lmem c) data (Suc (length (frame_spec ctx))) = frame_spec ctx @ [0]"
    and "data \<noteq> 0" "unat data + length (frame_spec ctx) < 2 ^ 32"
    and "sp_cb (g_sf_pending c ! unat user) \<noteq> 0"
      "sp_want_type (g_sf_pending c ! unat user) = sx_ret_type ctx"
  shows "\<exists>k c1. sf_done_common grow app 200 data (int (length (frame_spec ctx))) user c =
      app (sp_cb (g_sf_pending c ! unat user)) k (sp_user (g_sf_pending c ! unat user)) c1 \<and>
    call_means (lmem c1) k (sf_result ctx)"
  using sf_reply_value [OF assms] by blast

definition note_result :: "u32 \<Rightarrow> sf_call \<Rightarrow> u32 \<Rightarrow> sf_client \<Rightarrow> sf_client" where
  "note_result cb k user c = c\<lparr>sf_nargs := (case k of Call_i32 x None \<Rightarrow> x + 100 | _ \<Rightarrow> 0)\<rparr>"

theorem sf_reply_decoded_witness:
  "sf_nargs (sf_done_common (\<lambda>_. False) note_result 200 1024 14 0
       (sfc0\<lparr>lmem := store 1024 [0, 0, 0, 0, 0, 1, 0, 0, 0, 3, 1, 0, 0, 0, 0] (\<lambda>_. 0),
             g_sf_pending := [\<lparr>sp_cb = 5, sp_user = 6, sp_want_type = WT_BOOL\<rparr>]\<rparr>)) = 101"
proof -
  define ctx where "ctx = (sf_ctx_init [])\<lparr>sx_ret_type := WT_BOOL, sx_ret_bool := 1\<rparr>"
  let ?c = "sfc0\<lparr>lmem := store 1024 [0, 0, 0, 0, 0, 1, 0, 0, 0, 3, 1, 0, 0, 0, 0] (\<lambda>_. 0),
             g_sf_pending := [\<lparr>sp_cb = 5, sp_user = 6, sp_want_type = WT_BOOL\<rparr>]\<rparr>"
  have f: "frame_spec ctx = [0, 0, 0, 0, 0, 1, 0, 0, 0, 3, 1, 0, 0, 0]"
    by (simp add: ctx_def frame_spec_def sf_result_def sf_ctx_init_def enc_val_def bytes32_def WT_defs as_b_def)
  have r: "sf_result ctx = \<lparr>wv_type = WT_BOOL, wv_as = 1, wv_bytes = []\<rparr>"
    by (simp add: ctx_def sf_result_def sf_ctx_init_def WT_defs)
  have x: "\<not> sx_failed ctx" "sx_ret_type ctx = WT_BOOL" by (simp_all add: ctx_def sf_ctx_init_def)
  have m: "bytes_at (lmem ?c) 1024 (Suc (length (frame_spec ctx))) = frame_spec ctx @ [0]"
    unfolding f using bytes_at_store [of "[0, 0, 0, 0, 0, 1, 0, 0, 0, 3, 1, 0, 0, 0, 0]" 1024] by simp
  have "\<exists>k c1. sf_done_common (\<lambda>_. False) note_result 200 1024 (int (length (frame_spec ctx))) 0 ?c =
      note_result (sp_cb (g_sf_pending ?c ! unat (0 :: u32))) k (sp_user (g_sf_pending ?c ! unat (0 :: u32))) c1 \<and>
    call_means (lmem c1) k (sf_result ctx)"
    by (rule sf_reply_decoded [OF _ _ _ m]) (simp_all add: f r x wval_ok_def)
  then obtain k c1 where k: "sf_done_common (\<lambda>_. False) note_result 200 1024 14 0 ?c = note_result 5 k 6 c1"
    "call_means (lmem c1) k (sf_result ctx)" by (auto simp: f)
  from k(2) have "k = Call_i32 1 None"
    by (cases "(lmem c1, k, sf_result ctx)" rule: call_means.cases) (simp_all add: r WT_defs as_b_def)
  then show ?thesis unfolding k(1) by (simp add: note_result_def)
qed

text \<open>C33: A failure reported by the server reaches the component as the server's message, but a message
  of fewer than four characters makes the frame shorter than the client expects and is
  reported as a network error; the error is always delivered through the integer callback.\<close>

theorem sf_error_reply:
  assumes "sx_failed ctx" "sx_error ctx = Some msg" "length msg < 60000"
    and "bytes_at (lmem c) data (length (frame_spec ctx)) = frame_spec ctx"
    and "data \<noteq> 0" "unat data + 60005 < 2 ^ 32"
      "unat data + 60005 \<le> unat (scratch_base c) \<or> unat (scratch_base c) + 65536 \<le> unat data"
    and "sp_cb (g_sf_pending c ! unat user) \<noteq> 0" "scratch_room (length msg + 8) c"
  shows "\<exists>c1. sf_done_common grow app 200 data (int (length (frame_spec ctx))) user c =
      app (sp_cb (g_sf_pending c ! unat user))
        (Call_i32 0 (Some (if length msg < 4 then ''network error'' else cstr msg)))
        (sp_user (g_sf_pending c ! unat user)) c1"
  by (rule sf_error_text [OF assms])

definition note_error :: "u32 \<Rightarrow> sf_call \<Rightarrow> u32 \<Rightarrow> sf_client \<Rightarrow> sf_client" where
  "note_error cb k user c = c\<lparr>sf_nargs := (case k of Call_i32 x (Some m) \<Rightarrow> of_nat (length m) | _ \<Rightarrow> 0)\<rparr>"

theorem sf_error_reply_witness:
  "sf_nargs (sf_done_common (\<lambda>_. False) note_error 200 1024 7 0
       (sfc0\<lparr>lmem := store 1024 [1, 2, 0, 0, 0, 110, 111] (\<lambda>_. 0),
             g_sf_pending := [\<lparr>sp_cb = 5, sp_user = 6, sp_want_type = WT_I64\<rparr>]\<rparr>)) = 13"
proof -
  define ctx where "ctx = (sf_ctx_init [])\<lparr>sx_failed := True, sx_error := Some ''no''\<rparr>"
  let ?c = "sfc0\<lparr>lmem := store 1024 [1, 2, 0, 0, 0, 110, 111] (\<lambda>_. 0),
             g_sf_pending := [\<lparr>sp_cb = 5, sp_user = 6, sp_want_type = WT_I64\<rparr>]\<rparr>"
  have x: "sx_failed ctx" "sx_error ctx = Some ''no''" by (simp_all add: ctx_def sf_ctx_init_def)
  then have f: "frame_spec ctx = [1, 2, 0, 0, 0, 110, 111]" by (simp add: frame_spec_def bytes32_def to_bytes_def)
  have m: "bytes_at (lmem ?c) 1024 (length (frame_spec ctx)) = frame_spec ctx"
    unfolding f using bytes_at_store [of "[1, 2, 0, 0, 0, 110, 111]" 1024] by simp
  have "\<exists>c1. sf_done_common (\<lambda>_. False) note_error 200 1024 (int (length (frame_spec ctx))) 0 ?c =
      note_error (sp_cb (g_sf_pending ?c ! unat (0 :: u32)))
        (Call_i32 0 (Some (if length ''no'' < 4 then ''network error'' else cstr ''no'')))
        (sp_user (g_sf_pending ?c ! unat (0 :: u32))) c1"
    by (rule sf_error_reply [OF x _ m]) (simp_all add: sfc0_def scratch_room_def)
  then show ?thesis by (auto simp: f note_error_def)
qed

text \<open>The URL of a function whose id has four digits does not fit the 16 bytes allocated for it: its
  terminator is overwritten by the copy made right behind it, and the request for id 1000 is
  sent to a URL that continues after the id.\<close>

theorem sf_url_overruns:
  "\<exists>u b. host_trace (cerco_sf_submit_raw (\<lambda>_. False) 9 5 6 WT_I32 (sfc0\<lparr>sf_id := 1000, sf_nargs := 0\<rparr>)) =
      [Host_fetch 0 ''POST'' u b] \<and> take 17 u = to_bytes ''/__cerco/sf/1000/''"
proof -
  let ?c = "sfc0\<lparr>sf_id := 1000, sf_nargs := 0\<rparr>"
  have d: "u32_digits 1000 = ''1000''" by (simp add: u32_digits_dec dec.simps)
  have z: "((\<lambda>_. 0) :: mem)(a := 0) = (\<lambda>_. 0)" for a by auto
  define m where "m = store 131072 (to_bytes ''/__cerco/sf/1000'' @ [0]) ((\<lambda>_. 0) :: mem)"
  define c4 where "c4 = ?c\<lparr>lmem := m, sf_body_len := 4, scratch_off := 16,
     g_sf_pending := (g_sf_pending sfc0)[0 := \<lparr>sp_cb = 5, sp_user = 6, sp_want_type = WT_I32\<rparr>]\<rparr>"
  have post: "cerco_sf_submit_raw (\<lambda>_. False) 9 5 6 WT_I32 ?c = cerco_http_post (\<lambda>_. False) 131072 65536 4 9 0 c4"
    using sfc0_slots(1)
    by (simp add: z cerco_sf_submit_raw_def Let_def c4_def m_def sfc0_def SF_BODY_MAX_def sf_url_for_def d
      cerco_scratch_strdup_def cerco_scratch_alloc_def round8_def SCRATCH_SIZE_def c_memmove_def bytes32_def to_bytes_def)
  have "bytes_at m 131072 (Suc (length ''/__cerco/sf/1000'')) = to_bytes ''/__cerco/sf/1000'' @ [0]"
    unfolding m_def using bytes_at_store [of "to_bytes ''/__cerco/sf/1000'' @ [0]" 131072 "(\<lambda>_. 0) :: mem"] by simp
  then have "c_string_at m 131072 = ''/__cerco/sf/1000''" by (intro c_string_at_text) simp_all
  then have len1: "c_strlen m 131072 = 16" by (simp add: c_strlen_def)
  have cn: "copy_up (numeral k) d s f = copy_up (pred_numeral k) (d + 1) (s + 1) (f(d := f s))" for k d s f
    by (simp add: numeral_eq_Suc)
  have bn: "bytes_at f p (numeral k) = f p # bytes_at f (p + 1) (pred_numeral k)" for f p k
    by (simp add: numeral_eq_Suc bytes_at_Suc)
  define m1 where "m1 = store 131088 (to_bytes ''/__cerco/sf/1000/'') m"
  have cp: "c_memcpy 131088 131072 17 m = m1"
    by (simp add: c_memcpy_def cn m1_def m_def to_bytes_def)
  have len2: "c_strlen (m1(131112 := a, 131113 := b, 131114 := c, 131115 := d)) 131072 = 33" for a b c d
  proof -
    let ?m = "m1(131112 := a, 131113 := b, 131114 := c, 131115 := d)"
    have "bytes_at ?m 131072 34 = to_bytes ''/__cerco/sf/1000/__cerco/sf/1000/'' @ [0]"
      by (simp add: m1_def m_def to_bytes_def bn bytes_at_Suc)
    moreover have "34 = Suc (length ''/__cerco/sf/1000/__cerco/sf/1000/'')" by simp
    ultimately have "bytes_at ?m 131072 (Suc (length ''/__cerco/sf/1000/__cerco/sf/1000/'')) =
        to_bytes ''/__cerco/sf/1000/__cerco/sf/1000/'' @ [0]" by (simp only:)
    then have "c_string_at ?m 131072 = ''/__cerco/sf/1000/__cerco/sf/1000/''" by (rule c_string_at_text [rotated 2]) simp_all
    then show ?thesis by (simp add: c_strlen_def)
  qed
  have fr: "fetch_reserve c4 = (Some 0, c4\<lparr>g_fetches := (g_fetches c4)[0 := (g_fetches c4 ! 0)\<lparr>pf_used := True\<rparr>]\<rparr>)"
    using sfc0_slots(2) by (simp add: fetch_reserve_def c4_def)
  have url: "take 17 (bytes_at (m1(131112 := a, 131113 := b, 131114 := c, 131115 := d)) 131088 33) = to_bytes ''/__cerco/sf/1000/''" for a b c d
      by (simp add: m1_def m_def to_bytes_def bn bytes_at_Suc)
  have c4: "lmem c4 = m" "scratch_base c4 = 131072" "scratch_off c4 = 16" "host_trace c4 = []"
    by (simp_all add: c4_def sfc0_def)
  show ?thesis
    unfolding post
    by (simp add: cerco_http_post_def fr Let_def fetch_start_def scratch_strdup_at_def c4 len1 cerco_scratch_alloc_def
      SCRATCH_SIZE_def round8_def cp host_fetch_def) (simp add: c_memcpy_def cn len2 url)
qed

end
