(* ===== verification/Client_Nav.thy ===== *)
theory Client_Nav
  imports Client_Sf
begin

text \<open>
  \<open>runtime/client/hydrate.c\<close>: mounting components on server-rendered roots and client-side
  navigation, with the part of \<open>runtime/browser/host.js\<close> that stages a root's name and
  props in the scratch region. The document is seen through parameters: \<open>scan\<close> gives the
  roots the host finds (name and props as UTF-8 bytes), \<open>swap\<close> says whether the page markers
  are there, \<open>mount\<close> is the code of a component's mount function, \<open>nav_fn\<close> the table index
  of \<open>nav_page_done\<close>.
\<close>

record cerco_component =
  cc_name :: string
  cc_mount :: u32

record nav_client = sf_client +
  g_current_path :: string

subsection \<open>Hydration\<close>

definition find_component :: "cerco_component list \<Rightarrow> byte list \<Rightarrow> cerco_component option" where
  "find_component table name =
     find (\<lambda>k. length (cc_name k) = length name \<and> c_memcmp (to_bytes (cc_name k)) name = 0) table"

definition cerco_hydrate_root ::
  "(nat \<Rightarrow> bool) \<Rightarrow> (u32 \<Rightarrow> u32 \<Rightarrow> u32 \<Rightarrow> 'a client_scheme \<Rightarrow> 'a client_scheme) \<Rightarrow> cerco_component list \<Rightarrow> u32 \<Rightarrow>
   'a client_scheme \<Rightarrow> 'a client_scheme" where
  "cerco_hydrate_root grow mount table index c =
     (let (base, c1) = cerco_scratch_base grow c; m = lmem c1; name_len = get_u32 m base in
      if name_len > 128 then c1
      else
        let props_len = get_u32 m (base + 4 + name_len); props = base + 4 + name_len + 4;
            total = 4 + name_len + 4 + props_len
        in if total > 65536 - 16 then c1
           else
             let k = find_component table (bytes_at m (base + 4) (unat name_len));
                 c2 = cerco_scratch_advance total c1
             in case k of
                  None \<Rightarrow> c2
                | Some k \<Rightarrow> cerco_dom_flush (mount (cc_mount k) index props c2))"

text \<open>The host's side: \<open>hydrateRoot\<close> stages one root and calls into the client; \<open>hydrate_roots\<close>
  does so for every root of the document, in order.\<close>

definition hydrateRoot ::
  "(nat \<Rightarrow> bool) \<Rightarrow> (u32 \<Rightarrow> u32 \<Rightarrow> u32 \<Rightarrow> 'a client_scheme \<Rightarrow> 'a client_scheme) \<Rightarrow> cerco_component list \<Rightarrow>
   nat \<times> byte list \<times> byte list \<Rightarrow> 'a client_scheme \<Rightarrow> 'a client_scheme" where
  "hydrateRoot grow mount table r c =
     (case r of (i, name, props) \<Rightarrow>
        let (scratch, c1) = cerco_scratch_base grow c in
        if 4 + length name + 4 + length props > 65536 then c1
        else
          cerco_hydrate_root grow mount table (of_nat i)
            (c1\<lparr>lmem := store scratch (bytes32 (of_nat (length name)) @ name @ bytes32 (of_nat (length props)) @ props) (lmem c1)\<rparr>))"

definition cerco_hydrate_all ::
  "(nat \<Rightarrow> bool) \<Rightarrow> (u32 \<Rightarrow> u32 \<Rightarrow> u32 \<Rightarrow> 'a client_scheme \<Rightarrow> 'a client_scheme) \<Rightarrow> cerco_component list \<Rightarrow>
   (host_call list \<Rightarrow> (byte list \<times> byte list) list) \<Rightarrow> 'a client_scheme \<Rightarrow> 'a client_scheme" where
  "cerco_hydrate_all grow mount table scan c =
     (let c1 = c\<lparr>host_trace := host_trace c @ [Host_hydrate_roots]\<rparr>
      in fold (hydrateRoot grow mount table) (enumerate 0 (scan (host_trace c1))) c1)"

subsection \<open>Navigation\<close>

definition cerco_navigate :: "(nat \<Rightarrow> bool) \<Rightarrow> u32 \<Rightarrow> u32 \<Rightarrow> string \<Rightarrow> 'a nav_client_scheme \<Rightarrow> 'a nav_client_scheme" where
  "cerco_navigate grow base nav_fn path c =
     (let n = (if length path \<ge> 512 then 511 else length path);
          c1 = c\<lparr>g_current_path := take n path\<rparr>;
          c2 = cerco_scratch_reset (cerco_heap_rewind base (cerco_events_reset c1))
      in cerco_http_get grow path nav_fn 0 c2)"

definition extract_between :: "string \<Rightarrow> string \<Rightarrow> string \<Rightarrow> nat \<times> nat" where
  "extract_between html start_marker end_marker =
     (case c_strstr html start_marker of
        None \<Rightarrow> (0, 0)
      | Some i \<Rightarrow>
          let s = i + length start_marker in
          (case c_strstr (drop s html) end_marker of None \<Rightarrow> (0, 0) | Some e \<Rightarrow> (s, e)))"

definition PAGE_OPEN :: string where "PAGE_OPEN = ''<!--cerco:page-->''"
definition PAGE_CLOSE :: string where "PAGE_CLOSE = ''<!--cerco:/page-->''"

definition title_span :: "string \<Rightarrow> nat \<times> nat" where
  "title_span html =
     (case c_strstr html ''<title>'' of
        None \<Rightarrow> (0, 0)
      | Some i \<Rightarrow>
          (case c_strstr (drop (i + 7) html) ''</title>'' of
             None \<Rightarrow> (0, 0)
           | Some e \<Rightarrow> if e < 512 then (i + 7, e) else (0, 0)))"

definition host_nav_reload :: "'a client_scheme \<Rightarrow> 'a client_scheme" where
  "host_nav_reload c = c\<lparr>host_trace := host_trace c @ [Host_nav_reload]\<rparr>"

definition nav_set_title :: "(nat \<Rightarrow> bool) \<Rightarrow> u32 \<Rightarrow> nat \<times> nat \<Rightarrow> 'a client_scheme \<Rightarrow> 'a client_scheme" where
  "nav_set_title grow data span c =
     (case span of (toff, tlen) \<Rightarrow>
        if tlen = 0 then c
        else
          let (title, c1) = cerco_scratch_alloc grow (of_nat (tlen + 1)) c
          in if title = 0 then c1
             else
               let c2 = c1\<lparr>lmem := (c_memcpy title (data + of_nat toff) (of_nat tlen) (lmem c1))(title + of_nat tlen := 0)\<rparr>
               in c2\<lparr>host_trace := host_trace c2 @ [Host_set_title (bytes_at (lmem c2) title tlen)]\<rparr>)"

text \<open>The page text is read from linear memory when the request completes; the copies of the
  region and the title go through the scratch region.\<close>

definition nav_page_done ::
  "(nat \<Rightarrow> bool) \<Rightarrow> (u32 \<Rightarrow> u32 \<Rightarrow> u32 \<Rightarrow> 'a client_scheme \<Rightarrow> 'a client_scheme) \<Rightarrow> cerco_component list \<Rightarrow>
   (host_call list \<Rightarrow> (byte list \<times> byte list) list) \<Rightarrow> (host_call list \<Rightarrow> byte list \<Rightarrow> bool) \<Rightarrow>
   int \<Rightarrow> u32 \<Rightarrow> int \<Rightarrow> 'a client_scheme \<Rightarrow> 'a client_scheme" where
  "nav_page_done grow mount table scan swap status data len c =
     (if status \<noteq> 200 \<or> data = 0 \<or> len \<le> 0 then host_nav_reload c
      else
        let html = c_string_at (lmem c) data;
            (off, plen) = extract_between html PAGE_OPEN PAGE_CLOSE
        in if plen = 0 \<or> plen > 60000 then host_nav_reload c
           else
             let (region, c1) = cerco_scratch_alloc grow (of_nat (plen + 1)) c in
             if region = 0 then host_nav_reload c1
             else
               let c2 = c1\<lparr>lmem := (c_memcpy region (data + of_nat off) (of_nat plen) (lmem c1))(region + of_nat plen := 0)\<rparr>;
                   bs = bytes_at (lmem c2) region plen;
                   c3 = c2\<lparr>host_trace := host_trace c2 @ [Host_swap_page bs]\<rparr>
               in if \<not> swap (host_trace c2) bs then host_nav_reload c3
                  else cerco_hydrate_all grow mount table scan
                         (nav_set_title grow data (title_span (c_string_at (lmem c3) data)) c3))"

definition cerco_navigate_export :: "(nat \<Rightarrow> bool) \<Rightarrow> u32 \<Rightarrow> u32 \<Rightarrow> int \<Rightarrow> 'a nav_client_scheme \<Rightarrow> 'a nav_client_scheme" where
  "cerco_navigate_export grow base nav_fn path_len c =
     (if path_len \<le> 0 \<or> path_len > 511 then c
      else
        let (s, c1) = cerco_scratch_base grow c;
            path = cstr (of_bytes (bytes_at (lmem c1) s (nat path_len)))
        in cerco_navigate grow base nav_fn path (cerco_scratch_reset c1))"

text \<open>\<open>loc\<close> is the location the host reports; it writes at most the capacity it is given.\<close>

definition cerco_boot ::
  "(nat \<Rightarrow> bool) \<Rightarrow> u32 \<Rightarrow> (u32 \<Rightarrow> u32 \<Rightarrow> u32 \<Rightarrow> 'a nav_client_scheme \<Rightarrow> 'a nav_client_scheme) \<Rightarrow> cerco_component list \<Rightarrow>
   (host_call list \<Rightarrow> (byte list \<times> byte list) list) \<Rightarrow> byte list \<Rightarrow> 'a nav_client_scheme \<Rightarrow> 'a nav_client_scheme" where
  "cerco_boot grow base mount table scan loc c =
     (let c1 = cerco_scratch_reset (cerco_heap_init base c);
          c2 = c1\<lparr>g_current_path := cstr (of_bytes (take 511 loc))\<rparr>
      in cerco_hydrate_all grow mount table scan c2)"

text \<open>The callbacks of the runtime itself and those of the components.\<close>

definition http_callbacks ::
  "(nat \<Rightarrow> bool) \<Rightarrow> u32 \<Rightarrow> u32 \<Rightarrow> (u32 \<Rightarrow> u32 \<Rightarrow> u32 \<Rightarrow> 'a sf_client_scheme \<Rightarrow> 'a sf_client_scheme) \<Rightarrow> cerco_component list \<Rightarrow>
   (host_call list \<Rightarrow> (byte list \<times> byte list) list) \<Rightarrow> (host_call list \<Rightarrow> byte list \<Rightarrow> bool) \<Rightarrow>
   (u32 \<Rightarrow> sf_call \<Rightarrow> u32 \<Rightarrow> 'a sf_client_scheme \<Rightarrow> 'a sf_client_scheme) \<Rightarrow>
   (u32 \<Rightarrow> int \<Rightarrow> u32 \<Rightarrow> int \<Rightarrow> u32 \<Rightarrow> 'a sf_client_scheme \<Rightarrow> 'a sf_client_scheme) \<Rightarrow>
   u32 \<Rightarrow> int \<Rightarrow> u32 \<Rightarrow> int \<Rightarrow> u32 \<Rightarrow> 'a sf_client_scheme \<Rightarrow> 'a sf_client_scheme" where
  "http_callbacks grow nav_fn sf_fn mount table scan swap app_sf app cb status data len user c =
     (if cb = nav_fn then nav_page_done grow mount table scan swap status data len c
      else if cb = sf_fn then sf_done_common grow app_sf status data len user c
      else app cb status data len user c)"

subsection \<open>Event slots across navigations\<close>

lemma put_slots:
  "g_slots (cmd_put_u32 v c) = g_slots c" "g_slots (cmd_put_str s c) = g_slots c" "g_slots (cmd_end c) = g_slots c"
  "g_slot_count (cmd_put_u32 v c) = g_slot_count c" "g_slot_count (cmd_put_str s c) = g_slot_count c"
  "g_slot_count (cmd_end c) = g_slot_count c"
  by (simp_all add: cmd_put_u32_def cmd_put_u8_def cmd_put_str_def cmd_end_def host_dom_flush_def Let_def)

lemma alloc_slots: "cerco_alloc grow n c = (p, c') \<Longrightarrow> g_slots c' = g_slots c \<and> g_slot_count c' = g_slot_count c"
  by (auto simp: cerco_alloc_def heap_grow_def Let_def split: prod.splits option.splits if_splits)

lemma begin_slots: "g_slots (cmd_begin grow b c) = g_slots c" "g_slot_count (cmd_begin grow b c) = g_slot_count c"
  using alloc_slots [of grow CMD_BUF_SIZE c]
  by (auto simp: cmd_begin_def cmd_put_u8_def Let_def split: prod.splits)

lemma on_slots:
  assumes "g_slot_count c < MAX_EVENT_SLOTS"
  shows "g_slots (cerco_on grow node ev fn user c) = (g_slots c)[unat (g_slot_count c) := \<lparr>es_fn = fn, es_user = user\<rparr>]"
    "g_slot_count (cerco_on grow node ev fn user c) = g_slot_count c + 1"
  using assms by (simp_all add: cerco_on_def Let_def put_slots begin_slots not_le [symmetric])

lemma scratch_alloc_slots: "cerco_scratch_alloc grow n c = (p, c') \<Longrightarrow> g_slots c' = g_slots c \<and> g_slot_count c' = g_slot_count c"
  using alloc_slots [of grow SCRATCH_SIZE c]
  by (auto simp: cerco_scratch_alloc_def Let_def split: prod.splits if_splits)

lemma http_get_slots: "g_slots (cerco_http_get grow url cb user c) = g_slots c \<and> g_slot_count (cerco_http_get grow url cb user c) = g_slot_count c"
proof -
  have f: "fetch_reserve c = (i, c') \<Longrightarrow> g_slots c' = g_slots c \<and> g_slot_count c' = g_slot_count c" for i c'
    by (auto simp: fetch_reserve_def split: option.splits)
  have s: "cerco_scratch_strdup grow url d = (p, d') \<Longrightarrow> g_slots d' = g_slots d \<and> g_slot_count d' = g_slot_count d" for p and d d' :: "'a client_scheme"
    by (auto simp: cerco_scratch_strdup_def dest: scratch_alloc_slots split: prod.splits)
  show ?thesis
    by (auto simp: cerco_http_get_def fetch_start_def host_fetch_def Let_def dest!: f s split: prod.splits option.splits)
qed

lemma navigate_slots:
  "g_slots (cerco_navigate grow base fn path c) = g_slots c" "g_slot_count (cerco_navigate grow base fn path c) = 0"
  by (simp_all add: cerco_navigate_def Let_def http_get_slots cerco_scratch_reset_def cerco_heap_rewind_def cerco_events_reset_def)

subsection \<open>The command buffer across navigations\<close>

lemma alloc_room:
  assumes "unat (heap_ptr h) + alloc_size n \<le> unat (heap_end h)" "unat n \<le> 2 ^ 31"
  shows "cerco_alloc grow n h = (heap_ptr h, h\<lparr>heap_ptr := heap_ptr h + of_nat (alloc_size n)\<rparr>)"
proof -
  have e: "(if round16 n = 0 then 16 else round16 n) = of_nat (alloc_size n)"
  proof (rule unsigned_word_eqI [where 'a = nat])
    have r16: "unat (round16 n) = (unat n + 15) div 16 * 16" using assms(2) by (intro unat_round16) simp
    have b: "alloc_size n < 2 ^ 32" using assms(1) unat32_bound [of "heap_end h"] by linarith
    show "unat (if round16 n = 0 then 16 else round16 n) = unat (of_nat (alloc_size n) :: u32)"
    proof (cases "n = 0")
      case True
      with r16 have "round16 n = 0" by (simp add: unat_eq_0)
      with True show ?thesis by (simp add: alloc_size_def)
    next
      case False
      then have "0 < unat n" by (simp add: unat_gt_0)
      then have "0 < (unat n + 15) div 16" by (simp add: div_greater_zero_iff)
      with r16 have "round16 n \<noteq> 0" by (metis mult_is_0 neq0_conv numeral_eq_iff unat_eq_0 zero_neq_numeral)
      with False r16 b show ?thesis by (simp only: unat_of_nat32) (simp add: alloc_size_def)
    qed
  qed
  have b: "alloc_size n < 2 ^ 32" using assms(1) unat32_bound [of "heap_end h"] by linarith
  have "unat (heap_ptr h + of_nat (alloc_size n)) = unat (heap_ptr h) + alloc_size n"
    using assms(1) unat32_bound [of "heap_end h"] unat_of_nat32 [OF b] by (subst unat_add_lem [THEN iffD1]) simp_all
  then have "\<not> heap_ptr h + of_nat (alloc_size n) > heap_end h" using assms(1) by (simp add: word_less_nat_alt)
  then show ?thesis unfolding cerco_alloc_def Let_def e by simp
qed

lemma emit_heap:
  "heap_ptr (emit grow x c) = heap_ptr (cmd_ready grow c)" "heap_end (emit grow x c) = heap_end (cmd_ready grow c)"
  "heap_sticky_floor (emit grow x c) = heap_sticky_floor (cmd_ready grow c)"
  "scratch_base (emit grow x c) = scratch_base (cmd_ready grow c)"
  by (simp_all add: emit_def cmd_end_def host_dom_flush_def cmd_append_def)

lemma flush_heap:
  "heap_ptr (cerco_dom_flush c) = heap_ptr c" "heap_end (cerco_dom_flush c) = heap_end c"
  "heap_sticky_floor (cerco_dom_flush c) = heap_sticky_floor c" "scratch_base (cerco_dom_flush c) = scratch_base c"
  "cmd_buf (cerco_dom_flush c) = cmd_buf c" "cmd_len (cerco_dom_flush c) = 0"
  by (simp_all add: cerco_dom_flush_def host_dom_flush_def)

lemma http_get_heap:
  assumes "scratch_base c \<noteq> 0"
  shows "heap_ptr (cerco_http_get grow url cb user c) = heap_ptr c \<and> heap_end (cerco_http_get grow url cb user c) = heap_end c \<and>
     cmd_buf (cerco_http_get grow url cb user c) = cmd_buf c \<and> cmd_len (cerco_http_get grow url cb user c) = cmd_len c"
proof -
  have f: "fetch_reserve c = (i, c') \<Longrightarrow> heap_ptr c' = heap_ptr c \<and> heap_end c' = heap_end c \<and> cmd_buf c' = cmd_buf c \<and>
      cmd_len c' = cmd_len c \<and> scratch_base c' = scratch_base c" for i c'
    by (auto simp: fetch_reserve_def split: option.splits)
  have s: "cerco_scratch_strdup grow url d = (p, d') \<Longrightarrow> scratch_base d = scratch_base c \<Longrightarrow>
      heap_ptr d' = heap_ptr d \<and> heap_end d' = heap_end d \<and> cmd_buf d' = cmd_buf d \<and> cmd_len d' = cmd_len d" for p and d d' :: "'a client_scheme"
    using assms by (auto simp: cerco_scratch_strdup_def cerco_scratch_alloc_def Let_def split: prod.splits if_splits)
  show ?thesis
    by (auto simp: cerco_http_get_def fetch_start_def host_fetch_def Let_def dest!: f s split: prod.splits option.splits)
qed

lemma navigate_heap:
  assumes "scratch_base c \<noteq> 0" "heap_sticky_floor c \<noteq> 0"
  shows "heap_ptr (cerco_navigate grow base fn path c) = heap_sticky_floor c"
    "heap_end (cerco_navigate grow base fn path c) = heap_end c"
    "cmd_buf (cerco_navigate grow base fn path c) = cmd_buf c" "cmd_len (cerco_navigate grow base fn path c) = cmd_len c"
  using assms
  by (simp_all add: cerco_navigate_def Let_def http_get_heap cerco_scratch_reset_def cerco_heap_rewind_def cerco_events_reset_def)

subsection \<open>Staged roots\<close>

definition staged :: "byte list \<Rightarrow> byte list \<Rightarrow> byte list" where
  "staged name props = bytes32 (of_nat (length name)) @ name @ bytes32 (of_nat (length props)) @ props"

lemma staged_fields:
  assumes "length name \<le> 128" "length props \<le> 65536" "bytes_at m p (length (staged name props)) = staged name props"
  shows "get_u32 m p = of_nat (length name)" "bytes_at m (p + 4) (length name) = name"
    "get_u32 m (p + 4 + of_nat (length name)) = of_nat (length props)"
    "bytes_at m (p + 4 + of_nat (length name) + 4) (length props) = props"
proof -
  have "bytes_at m p (length (bytes32 (of_nat (length name))) + (length name + (4 + length props))) =
      bytes32 (of_nat (length name)) @ (name @ bytes32 (of_nat (length props)) @ props)"
    using assms(3) by (simp add: staged_def)
  then have a: "bytes_at m p 4 = bytes32 (of_nat (length name))"
    "bytes_at m (p + 4) (length name + (4 + length props)) = name @ bytes32 (of_nat (length props)) @ props"
    unfolding bytes_at_split by simp_all
  from bytes_at_split [THEN iffD1, OF a(2)] have b: "bytes_at m (p + 4) (length name) = name"
    "bytes_at m (p + 4 + of_nat (length name)) (length (bytes32 (of_nat (length props))) + length props) = bytes32 (of_nat (length props)) @ props"
    by simp_all
  define q where "q = p + 4 + of_nat (length name)"
  from b(2) [folded q_def] have c: "bytes_at m q 4 = bytes32 (of_nat (length props))" "bytes_at m (q + 4) (length props) = props"
    unfolding bytes_at_split by simp_all
  show "get_u32 m p = of_nat (length name)" using get_u32_bytes [of m p 0 _ "[]"] a(1) by simp
  show "get_u32 m (p + 4 + of_nat (length name)) = of_nat (length props)"
    using get_u32_bytes [of m q 0 _ "[]"] c(1) by (simp add: q_def)
  show "bytes_at m (p + 4) (length name) = name" by (rule b(1))
  show "bytes_at m (p + 4 + of_nat (length name) + 4) (length props) = props" using c(2) unfolding q_def .
qed

lemma hydrateRoot_staged:
  assumes "scratch_base c \<noteq> 0" "length name \<le> 128" "8 + length name + length props \<le> 65520"
    and "find_component table name = Some k"
  shows "\<exists>c1. hydrateRoot grow mount table (i, name, props) c =
      cerco_dom_flush (mount (cc_mount k) (of_nat i) (scratch_base c + 4 + of_nat (length name) + 4) c1) \<and>
    lmem c1 = store (scratch_base c) (staged name props) (lmem c) \<and> host_trace c1 = host_trace c \<and>
    scratch_base c1 = scratch_base c"
proof -
  let ?S = "scratch_base c"
  let ?c1 = "c\<lparr>lmem := store ?S (staged name props) (lmem c)\<rparr>"
  have len: "length (staged name props) = 8 + length name + length props" by (simp add: staged_def)
  have "bytes_at (lmem ?c1) ?S (length (staged name props)) = staged name props"
    using bytes_at_store [of "staged name props" ?S "lmem c"] assms(3) len by simp
  note f = staged_fields [OF assms(2) _ this]
  have un: "unat (of_nat (length name) :: u32) = length name" using assms(2) by (intro unat_of_nat32) simp
  have tot: "4 + of_nat (length name) + 4 + of_nat (length props) = (of_nat (8 + length name + length props) :: u32)" by simp
  have "unat (of_nat (8 + length name + length props) :: u32) = 8 + length name + length props"
    using assms(3) by (intro unat_of_nat32) simp
  then have g2: "\<not> (4 + of_nat (length name) + 4 + of_nat (length props) :: u32) > 65536 - 16"
    using assms(3) unfolding tot by (simp add: word_less_nat_alt)
  have g1: "\<not> (of_nat (length name) :: u32) > 128" using un assms(2) by (simp add: word_less_nat_alt)
  have sb: "cerco_scratch_base grow c = (?S, c)" "cerco_scratch_base grow ?c1 = (?S, ?c1)"
    using assms(1) by (simp_all add: cerco_scratch_base_def)
  let ?c2 = "cerco_scratch_advance (4 + of_nat (length name) + 4 + of_nat (length props)) ?c1"
  have "hydrateRoot grow mount table (i, name, props) c = cerco_hydrate_root grow mount table (of_nat i) ?c1"
    using assms(3) sb(1) by (simp add: hydrateRoot_def staged_def)
  also have "\<dots> = cerco_dom_flush (mount (cc_mount k) (of_nat i) (?S + 4 + of_nat (length name) + 4) ?c2)"
    using f g1 g2 sb(2) un assms(3,4) unfolding cerco_hydrate_root_def Let_def by simp
  finally show ?thesis
    by (intro exI [of _ ?c2]) (simp add: cerco_scratch_advance_def Let_def)
qed

text \<open>Staging a shorter root over a longer one of the same name leaves the tail of the old props.\<close>

lemma staged_length: "length (staged name props) = 8 + length name + length props"
  by (simp add: staged_def)

lemma staged_over:
  assumes len: "8 + length name + length p1 + k < 2 ^ 32" "length p2 \<le> length p1"
  shows "bytes_at (store s (staged name p2) (store s (staged name p1) m)) (s + 4 + of_nat (length name) + 4) (length p1 + k) =
    p2 @ drop (length p2) p1 @ bytes_at m (s + of_nat (8 + length name + length p1)) k"
proof (rule nth_equalityI)
  fix i assume "i < length (bytes_at (store s (staged name p2) (store s (staged name p1) m)) (s + 4 + of_nat (length name) + 4) (length p1 + k))"
  then have i: "i < length p1 + k" by simp
  have at: "unat (s + 4 + of_nat (length name) + 4 + of_nat i - s) = 8 + length name + i"
  proof -
    have "s + 4 + of_nat (length name) + 4 + of_nat i - s = (of_nat (8 + length name + i) :: u32)" by simp
    also have "unat \<dots> = 8 + length name + i" using len(1) i by (intro unat_of_nat32) linarith
    finally show ?thesis .
  qed
  have sg: "staged name p ! (8 + length name + i) = p ! i" for p
  proof -
    have "staged name p = (bytes32 (of_nat (length name)) @ name @ bytes32 (of_nat (length p))) @ p" by (simp add: staged_def)
    then show ?thesis by (simp only: nth_append) simp
  qed
  have l: "length (staged name p2) \<le> 2 ^ 32" "length (staged name p1) \<le> 2 ^ 32" using len by (simp_all add: staged_length)
  have "bytes_at (store s (staged name p2) (store s (staged name p1) m)) (s + 4 + of_nat (length name) + 4) (length p1 + k) ! i =
      store s (staged name p2) (store s (staged name p1) m) (s + 4 + of_nat (length name) + 4 + of_nat i)"
    using i by (simp add: bytes_at_def)
  also have "\<dots> = (if i < length p2 then p2 ! i else if i < length p1 then p1 ! i else m (s + 4 + of_nat (length name) + 4 + of_nat i))"
    unfolding store_eq [OF l(1)] store_eq [OF l(2)] at staged_length sg by simp
  also have "\<dots> = (p2 @ drop (length p2) p1 @ bytes_at m (s + of_nat (8 + length name + length p1)) k) ! i"
    using len i by (auto simp: nth_append bytes_at_def of_nat_diff add.assoc)
  finally show "bytes_at (store s (staged name p2) (store s (staged name p1) m)) (s + 4 + of_nat (length name) + 4) (length p1 + k) ! i =
      (p2 @ drop (length p2) p1 @ bytes_at m (s + of_nat (8 + length name + length p1)) k) ! i" .
qed (use assms in simp)

lemma flush_lmem: "lmem (cerco_dom_flush c) = lmem c"
  by (simp add: cerco_dom_flush_def host_dom_flush_def)

lemma no_nul_of_bytes: "no_nul (of_bytes bs) \<longleftrightarrow> 0 \<notin> set bs"
proof -
  have "char_of (unat b) = NUL \<longleftrightarrow> b = 0" for b :: byte
    using byte_zero [of "char_of (unat b)"] to_of_bytes [of "[b]"] by (simp add: to_bytes_def of_bytes_def)
  then show ?thesis unfolding no_nul_def of_bytes_def set_map image_iff by metis
qed

text \<open>A concrete client, for the examples.\<close>

definition navc0 :: nav_client where
  "navc0 = \<lparr>heap_ptr = 196608, heap_end = 262144, heap_sticky_floor = 196608, scratch_base = 131072, scratch_off = 0,
     mem_pages = 4, lmem = (\<lambda>_. 0), cmd_buf = 0, cmd_len = 0, next_dynamic_id = 1048576, sigs = (\<lambda>_. None),
     g_slots = replicate 512 \<lparr>es_fn = 0, es_user = 0\<rparr>, g_slot_count = 0,
     g_fetches = replicate 32 \<lparr>pf_used = False, pf_cb = 0, pf_user = 0, pf_resp = 0\<rparr>,
     g_fetch_bufs = replicate 4 0, g_fetch_caps = replicate 4 0, host_trace = [],
     sf_body = 0, sf_body_len = 0, sf_id = 0, sf_nargs = 0,
     g_sf_pending = replicate 32 \<lparr>sp_cb = 0, sp_user = 0, sp_want_type = 0\<rparr>, g_current_path = ''/''\<rparr>"

subsection \<open>The page swap\<close>

lemma unat_off: "unat (p :: u32) + n < 2 ^ 32 \<Longrightarrow> unat (p + of_nat n) = unat p + n"
  by (subst unat_add_lem [THEN iffD1]) (simp_all add: unat_of_nat32)

lemma stage_text:
  assumes room: "scratch_room k c" "n + 8 \<le> k" and html: "bytes_at (lmem c) data (Suc (length html)) = to_bytes html @ [0]" "off + n \<le> length html"
    and len: "unat data + length html + 1 \<le> 2 ^ 32"
    and ap: "unat data + length html + 1 \<le> unat (scratch_base c) \<or> unat (scratch_base c) + 65536 \<le> unat data"
    and m2: "m2 = (c_memcpy (scratch_ptr c) (data + of_nat off) (of_nat n) (lmem c))(scratch_ptr c + of_nat n := 0)"
  shows "bytes_at m2 (scratch_ptr c) n = to_bytes (take n (drop off html))"
    "bytes_at m2 data (Suc (length html)) = to_bytes html @ [0]"
proof -
  let ?r = "scratch_ptr c" and ?t = "take n (drop off html)"
  have k: "k \<le> 65536" "unat (scratch_base c) + 65536 < 2 ^ 32" "unat (scratch_off c) + k \<le> 65536"
    using room(1) by (auto simp: scratch_room_def)
  have r: "unat ?r = unat (scratch_base c) + unat (scratch_off c)"
    using unat_off [of "scratch_base c" "unat (scratch_off c)"] k by (simp add: scratch_ptr_def)
  have s: "unat (data + of_nat off) = unat data + off" using len html(2) by (intro unat_off) linarith
  have u: "unat (of_nat n :: u32) = n" using room k by (intro unat_of_nat32) linarith
  have sp: "html = take off html @ ?t @ drop (off + n) html"
    by (metis append_take_drop_id drop_drop add.commute)
  have "bytes_at (lmem c) data (length (to_bytes (take off html)) + (length (to_bytes ?t) + Suc (length html - off - n))) =
      to_bytes (take off html) @ to_bytes ?t @ to_bytes (drop (off + n) html) @ [0]"
    using html by (subst (asm) (2) sp) (simp add: to_bytes_def)
  then have src: "bytes_at (lmem c) (data + of_nat off) n = to_bytes ?t"
    unfolding bytes_at_split using html(2) by simp
  have "n \<le> unat (?r + of_nat 0 - (data + of_nat off))"
    using apartI [of ?r 1 "data + of_nat off" n] r s k room(2) ap len html(2) unfolding apart_def by auto
  then have "c_memcpy ?r (data + of_nat off) (of_nat n) (lmem c) = store ?r (to_bytes ?t) (lmem c)"
    using src u by (subst memcpy_store) simp_all
  then have e: "m2 = store ?r (to_bytes ?t @ [0]) (lmem c)"
    using html(2) unfolding m2 store_append by simp
  have l: "length (to_bytes ?t @ [0 :: byte]) = n + 1" using html(2) by simp
  have "bytes_at m2 ?r (n + 1) = to_bytes ?t @ [0]"
    using bytes_at_store [of "to_bytes ?t @ [0]" ?r "lmem c"] k room(2) unfolding l e by simp
  then show "bytes_at m2 ?r n = to_bytes ?t" unfolding bytes_at_append using html(2) by simp
  have "apart data (Suc (length html)) ?r (n + 1)" using len ap r k room(2) by (intro apartI) auto
  then show "bytes_at m2 data (Suc (length html)) = to_bytes html @ [0]"
    unfolding e html(1) [symmetric] using k room(2) html(2) by (intro bytes_at_apart) simp_all
qed

lemma stage_room:
  assumes "scratch_room (k + j) c" "n + 8 \<le> k"
  shows "cerco_scratch_alloc grow (of_nat (n + 1)) c = (scratch_ptr c, c\<lparr>scratch_off := scratch_off c + round8 (of_nat (n + 1))\<rparr>)"
    "scratch_room j (c\<lparr>scratch_off := scratch_off c + round8 (of_nat (n + 1))\<rparr>)" "scratch_ptr c \<noteq> 0"
proof -
  have kj: "scratch_room k c" and b: "n + 1 < 2 ^ 32" using assms by (auto simp: scratch_room_def)
  have "(unat (of_nat (n + 1) :: u32) + 7) div 8 * 8 \<le> k"
    using assms(2) unat_of_nat32 [OF b] by simp
  note r = scratch_alloc_room [OF kj this]
  show "cerco_scratch_alloc grow (of_nat (n + 1)) c = (scratch_ptr c, c\<lparr>scratch_off := scratch_off c + round8 (of_nat (n + 1))\<rparr>)"
    "scratch_ptr c \<noteq> 0" by (rule r)+
  show "scratch_room j (c\<lparr>scratch_off := scratch_off c + round8 (of_nat (n + 1))\<rparr>)"
    using r(4) \<open>(unat (of_nat (n + 1) :: u32) + 7) div 8 * 8 \<le> k\<close> assms(1) by (simp add: scratch_room_def)
qed

definition page_at :: "u32 \<Rightarrow> string \<Rightarrow> 'a client_scheme \<Rightarrow> bool" where
  "page_at data html c =
     (no_nul html \<and> data \<noteq> 0 \<and> unat data + length html + 1 \<le> 2 ^ 32 \<and>
      (unat data + length html + 1 \<le> unat (scratch_base c) \<or> unat (scratch_base c) + 65536 \<le> unat data) \<and>
      bytes_at (lmem c) data (Suc (length html)) = to_bytes html @ [0])"

lemma page_text: "page_at data html c \<Longrightarrow> c_string_at (lmem c) data = html"
  by (rule c_string_at_text) (auto simp: page_at_def)

lemma title_span_inside: "title_span html = (o', n) \<Longrightarrow> o' + n \<le> length html \<and> n < 512"
  by (auto simp: title_span_def strstr_find dest!: find_sub_Some split: option.splits if_splits)

definition title_event :: "string \<Rightarrow> host_call list" where
  "title_event html = (case title_span html of (i, n) \<Rightarrow> if n = 0 then [] else [Host_set_title (to_bytes (take n (drop i html)))])"

lemma nav_title:
  assumes "scratch_room 520 c" "page_at data html c"
  shows "host_trace (nav_set_title grow data (title_span html) c) = host_trace c @ title_event html"
proof -
  obtain i n where sp: "title_span html = (i, n)" by fastforce
  note in_html = title_span_inside [OF sp]
  then have "n + 8 \<le> 520" by simp
  have "scratch_room (520 + 0) c" using assms(1) by simp
  note st = stage_room [OF this \<open>n + 8 \<le> 520\<close>]
  note tx = stage_text [OF assms(1) \<open>n + 8 \<le> 520\<close> _ _ _ _ refl, of data html i]
  show ?thesis
    using assms(2) in_html tx(1) st(1,3)
    by (simp add: nav_set_title_def sp title_event_def page_at_def)
qed

subsection \<open>Properties\<close>

text \<open>C17: Event slots are reused across navigations while handlers of the surviving layout keep theirs: an
  event on a node registered before a navigation runs the handler that the new page registered
  first.\<close>

theorem stale_slot_runs_new_handler:
  assumes "g_slot_count c = 0" "length (g_slots c) = 512"
    and "c' = cerco_on grow node' ev' fn' user' (cerco_navigate grow' base nav_fn path (cerco_on grow node ev fn user c))"
  shows "cerco_event_dispatch run node 0 c' = cerco_dom_flush (run fn' node user' (cerco_scratch_reset c'))"
proof -
  let ?d = "cerco_navigate grow' base nav_fn path (cerco_on grow node ev fn user c)"
  have "g_slot_count ?d < MAX_EVENT_SLOTS" by (simp add: navigate_slots MAX_EVENT_SLOTS_def)
  note s = on_slots [OF this, of grow node' ev' fn' user', folded assms(3)]
  have "g_slot_count c < MAX_EVENT_SLOTS" using assms(1) by (simp add: MAX_EVENT_SLOTS_def)
  note s0 = on_slots [OF this, of grow node ev fn user]
  have "g_slots c' ! 0 = \<lparr>es_fn = fn', es_user = user'\<rparr>" using s(1) assms(1,2) by (simp add: navigate_slots s0)
  moreover have "g_slot_count c' = 1" using s(2) by (simp add: navigate_slots)
  ultimately show ?thesis by (simp add: cerco_event_dispatch_def Let_def cerco_scratch_reset_def)
qed

theorem stale_slot_runs_new_handler_witness:
  "next_dynamic_id (cerco_event_dispatch (\<lambda>fn node user c. c\<lparr>next_dynamic_id := fn\<rparr>) 10 0
     (cerco_on (\<lambda>_. False) 20 (Some ''click'') 77 2 (cerco_navigate (\<lambda>_. False) 1024 7 ''/b''
        (cerco_on (\<lambda>_. False) 10 (Some ''click'') 66 1 navc0)))) = 77"
  by (subst stale_slot_runs_new_handler [OF _ _ refl])
    (simp_all add: navc0_def cerco_dom_flush_def host_dom_flush_def)

text \<open>C18: The command buffer does not survive a navigation, but its pointer does: the first block the new
  page allocates is the buffer's memory again, so a signal created there is overwritten by the
  next command.\<close>

theorem command_buffer_reused:
  assumes c: "cmd_buf c = 0" "cmd_len c = 0" "heap_ptr c \<noteq> 0" "heap_sticky_floor c = heap_ptr c" "scratch_base c \<noteq> 0"
    and room: "unat (heap_ptr c) + 32768 \<le> unat (heap_end c)"
    and fit: "fits (Cmd_set_text node t)" "fits (Cmd_set_text node' t')"
    and d: "d = cerco_navigate grow base nav_fn path (cerco_dom_flush (cerco_set_text grow node (Some t) c))"
    and s: "cerco_signal_new grow v d = (s, e)"
  shows "s = cmd_buf e \<and> sigs e s = Some \<lparr>sig_value = v, sig_subs = []\<rparr> \<and>
    lmem (cerco_set_text grow node' (Some t') e) s = OP_SET_TEXT"
proof -
  have a0: "alloc_size CMD_BUF_SIZE = 32768" by (simp add: alloc_size_def CMD_BUF_SIZE_def)
  have al: "cerco_alloc grow CMD_BUF_SIZE c = (heap_ptr c, c\<lparr>heap_ptr := heap_ptr c + 32768\<rparr>)"
    using room alloc_room [of c CMD_BUF_SIZE grow] a0 by (simp add: CMD_BUF_SIZE_def)
  have r: "cmd_ready grow c = c\<lparr>heap_ptr := heap_ptr c + 32768, cmd_buf := heap_ptr c\<rparr>"
    using c(1) al by (simp add: cmd_ready_def)
  have e1: "cerco_set_text grow node (Some t) c = emit grow (Cmd_set_text node t) c"
    using api_cmd_emit [of grow c "Cmd_set_text node t"] r c(3) fit(1) by (simp add: fits_def)
  have cb: "cmd_buf (emit grow (Cmd_set_text node t) c) = heap_ptr c"
    by (simp add: emit_def cmd_end_def host_dom_flush_def cmd_append_def r)
  let ?f = "cerco_dom_flush (emit grow (Cmd_set_text node t) c)"
  have f: "scratch_base ?f \<noteq> 0" "heap_sticky_floor ?f = heap_ptr c" "heap_end ?f = heap_end c" "cmd_buf ?f = heap_ptr c" "cmd_len ?f = 0"
    using c by (simp_all add: flush_heap emit_heap r cb)
  have f0: "heap_sticky_floor ?f \<noteq> 0" using f(2) c(3) by simp
  have d': "heap_ptr d = heap_ptr c" "heap_end d = heap_end c" "cmd_buf d = heap_ptr c" "cmd_len d = 0"
    unfolding d e1 navigate_heap [OF f(1) f0] f by simp_all
  have "cerco_alloc grow 8 d = (heap_ptr c, d\<lparr>heap_ptr := heap_ptr c + 16\<rparr>)"
    using room alloc_room [of d 8 grow] d' by (simp add: alloc_size_def)
  then have e: "s = heap_ptr c" "e = d\<lparr>heap_ptr := heap_ptr c + 16, sigs := (sigs d)(s \<mapsto> \<lparr>sig_value = v, sig_subs = []\<rparr>)\<rparr>"
    using s c(3) by (auto simp: cerco_signal_new_def)
  then have sb: "s = cmd_buf e" "sigs e s = Some \<lparr>sig_value = v, sig_subs = []\<rparr>" using d' by simp_all
  have ce: "cmd_buf e = heap_ptr c" "cmd_len e = 0" using e d' by simp_all
  then have re: "cmd_ready grow e = e" using c(3) by (simp add: cmd_ready_def)
  then have "cerco_set_text grow node' (Some t') e = emit grow (Cmd_set_text node' t') e"
    using api_cmd_emit [of grow e "Cmd_set_text node' t'"] fit(2) ce c(3) by (simp add: fits_def)
  moreover have "length (enc_cmd (Cmd_set_text node' t')) \<le> 2 ^ 32" using fit(2) by (simp add: fits_def)
  ultimately have "lmem (cerco_set_text grow node' (Some t') e) s = OP_SET_TEXT"
    using ce e(1) by (simp add: emit_def cmd_end_def host_dom_flush_def cmd_append_def re store_eq del: store.simps)
  with sb show ?thesis by blast
qed

theorem command_buffer_reused_witness:
  "(let (s, e) = cerco_signal_new (\<lambda>_. False) 5 (cerco_navigate (\<lambda>_. False) 1024 7 ''/b''
        (cerco_dom_flush (cerco_set_text (\<lambda>_. False) 10 (Some ''a'') navc0)))
    in s = cmd_buf e)"
proof -
  let ?d = "cerco_navigate (\<lambda>_. False) 1024 7 ''/b'' (cerco_dom_flush (cerco_set_text (\<lambda>_. False) 10 (Some ''a'') navc0))"
  obtain s e where s: "cerco_signal_new (\<lambda>_. False) 5 ?d = (s, e)" by fastforce
  have "s = cmd_buf e"
    by (rule command_buffer_reused [OF _ _ _ _ _ _ _ _ refl s, where node' = 11 and t' = "''b''", THEN conjunct1]) (simp_all add: navc0_def fits_def)
  with s show ?thesis by simp
qed

text \<open>The host stages a root's props without a terminator, and mount functions receive them as a C
  string: when a page has two roots of the same component and the second one's props are shorter,
  the second component reads its props followed by the tail of the first one's.\<close>

theorem hydrate_props_leak:
  assumes reads: "\<And>fn i p c. lmem (mount fn i p c) = lmem c \<and> scratch_base (mount fn i p c) = scratch_base c"
    and c: "scratch_base c \<noteq> 0" "length name \<le> 128" "8 + length name + length p1 \<le> 65520" "find_component table name = Some k"
    and p: "length p2 \<le> length p1" "0 \<notin> set p1" "0 \<notin> set p2"
    and nul: "lmem c (scratch_base c + of_nat (8 + length name + length p1)) = 0"
  shows "\<exists>c2. hydrateRoot grow mount table (j, name, p2) (hydrateRoot grow mount table (i, name, p1) c) =
      cerco_dom_flush (mount (cc_mount k) (of_nat j) (scratch_base c + 4 + of_nat (length name) + 4) c2) \<and>
    c_string_at (lmem c2) (scratch_base c + 4 + of_nat (length name) + 4) = of_bytes (p2 @ drop (length p2) p1)"
proof -
  let ?s = "scratch_base c" and ?c1 = "hydrateRoot grow mount table (i, name, p1) c"
  have c1: "lmem ?c1 = store ?s (staged name p1) (lmem c)" "scratch_base ?c1 = ?s"
    using hydrateRoot_staged [OF c, of grow mount i] by (auto simp: flush_lmem flush_heap reads)
  have "scratch_base ?c1 \<noteq> 0" "8 + length name + length p2 \<le> 65520" using c c1 p(1) by simp_all
  from hydrateRoot_staged [OF this(1) c(2) this(2) c(4), of grow mount j] obtain c2 where c2:
    "hydrateRoot grow mount table (j, name, p2) ?c1 = cerco_dom_flush (mount (cc_mount k) (of_nat j) (?s + 4 + of_nat (length name) + 4) c2)"
    "lmem c2 = store ?s (staged name p2) (lmem ?c1)"
    unfolding c1(2) by blast
  let ?t = "of_bytes (p2 @ drop (length p2) p1)"
  have nn: "no_nul ?t" "to_bytes ?t = p2 @ drop (length p2) p1" "length ?t = length p1" using p by (auto simp: no_nul_of_bytes dest: in_set_dropD)
  have "bytes_at (lmem c2) (?s + 4 + of_nat (length name) + 4) (length p1 + 1) = p2 @ drop (length p2) p1 @ [0]"
    using staged_over [of name p1 1 p2 ?s "lmem c"] c(3) p(1) nul unfolding c2(2) c1(1) by (simp add: bytes_at_Suc)
  then have "c_string_at (lmem c2) (?s + 4 + of_nat (length name) + 4) = ?t"
    using c(3) p(1) nn by (intro c_string_at_text) simp_all
  with c2(1) show ?thesis by blast
qed

theorem hydrate_props_leak_witness:
  "\<exists>c2. hydrateRoot (\<lambda>_. False) (\<lambda>fn i p c. cerco_debug_log (c_string_at (lmem c) p) c) [\<lparr>cc_name = ''c'', cc_mount = 1\<rparr>] (1, [99], [1, 2])
      (hydrateRoot (\<lambda>_. False) (\<lambda>fn i p c. cerco_debug_log (c_string_at (lmem c) p) c) [\<lparr>cc_name = ''c'', cc_mount = 1\<rparr>] (0, [99], [3, 4, 5, 6]) navc0) =
    cerco_dom_flush (cerco_debug_log (of_bytes [1, 2, 5, 6]) c2)"
proof -
  have "find_component [\<lparr>cc_name = ''c'', cc_mount = 1\<rparr>] [99] = Some \<lparr>cc_name = ''c'', cc_mount = 1\<rparr>"
    by (simp add: find_component_def memcmp_eq_0 to_bytes_def)
  from hydrate_props_leak [OF _ _ _ _ this, of "\<lambda>fn i p c. cerco_debug_log (c_string_at (lmem c) p) c" navc0 "[3, 4, 5, 6]" "[1, 2]" "\<lambda>_. False" 1 0]
  obtain c2 where "hydrateRoot (\<lambda>_. False) (\<lambda>fn i p c. cerco_debug_log (c_string_at (lmem c) p) c) [\<lparr>cc_name = ''c'', cc_mount = 1\<rparr>] (1, [99], [1, 2])
      (hydrateRoot (\<lambda>_. False) (\<lambda>fn i p c. cerco_debug_log (c_string_at (lmem c) p) c) [\<lparr>cc_name = ''c'', cc_mount = 1\<rparr>] (0, [99], [3, 4, 5, 6]) navc0) =
      cerco_dom_flush (cerco_debug_log (c_string_at (lmem c2) (scratch_base navc0 + 4 + of_nat (length [99 :: byte]) + 4)) c2)"
    "c_string_at (lmem c2) (scratch_base navc0 + 4 + of_nat (length [99 :: byte]) + 4) = of_bytes ([1, 2] @ drop (length [1, 2 :: byte]) [3, 4, 5, 6])"
    by (auto simp: navc0_def cerco_debug_log_def)
  then show ?thesis by (metis (no_types) append_Cons append_Nil drop_Suc_Cons drop0 length_Cons list.size(3))
qed

text \<open>When the fetched page carries the markers, navigation swaps in exactly the text between the first
  pair of them, sets the title the page declares, and hydrates the new roots; when the document
  has no markers, it loads the page from the server.\<close>

theorem nav_swaps_page:
  assumes room: "scratch_room 65536 c" and page: "page_at data html c" "len > 0"
    and mk: "find_sub PAGE_OPEN html = Some (length pre)" "html = pre @ PAGE_OPEN @ body @ PAGE_CLOSE @ post"
      "find_sub PAGE_CLOSE (body @ PAGE_CLOSE @ post) = Some (length body)" and b: "body \<noteq> []" "length body \<le> 60000"
  shows "\<exists>c1. host_trace c1 = host_trace c @ [Host_swap_page (to_bytes body)] @
       (if swap (host_trace c) (to_bytes body) then title_event html else [Host_nav_reload]) \<and>
    nav_page_done grow mount table scan swap 200 data len c =
       (if swap (host_trace c) (to_bytes body) then cerco_hydrate_all grow mount table scan c1 else c1)"
proof -
  let ?c1 = "c\<lparr>scratch_off := scratch_off c + round8 (of_nat (length body + 1))\<rparr>"
  let ?m2 = "(c_memcpy (scratch_ptr c) (data + of_nat (length pre + 17)) (of_nat (length body)) (lmem c))(scratch_ptr c + of_nat (length body) := 0)"
  let ?c3 = "?c1\<lparr>lmem := ?m2, host_trace := host_trace c @ [Host_swap_page (to_bytes body)]\<rparr>"
  have po: "length PAGE_OPEN = 17" by (simp add: PAGE_OPEN_def)
  have eb: "extract_between html PAGE_OPEN PAGE_CLOSE = (length pre + 17, length body)"
    using mk by (simp add: extract_between_def strstr_find po Let_def)
  have bd: "take (length body) (drop (length pre + 17) html) = body" "length pre + 17 + length body \<le> length html"
    using mk(2) po by simp_all
  have lb: "length body + 8 \<le> 60008" "scratch_room (60008 + 5528) c" using b(2) room by simp_all
  note st = stage_room [OF lb(2,1)]
  have "scratch_room 60008 c" using room by (simp add: scratch_room_def)
  note tx = stage_text [OF this lb(1) _ bd(2) _ _ refl, of data, unfolded bd(1)]
  have pg: "page_at data html ?c3" "scratch_room 520 ?c3"
    using page(1) tx(2) st(2) by (simp_all add: page_at_def scratch_room_def)
  have tx1: "bytes_at ?m2 (scratch_ptr c) (length body) = to_bytes body"
    using tx(1) page(1) by (simp add: page_at_def)
  have ne: "length body \<noteq> 0" "\<not> length body > 60000" "data \<noteq> 0" using b page(1) by (auto simp: page_at_def)
  have "nav_page_done grow mount table scan swap 200 data len c =
      (if \<not> swap (host_trace c) (to_bytes body) then host_nav_reload ?c3
       else cerco_hydrate_all grow mount table scan (nav_set_title grow data (title_span html) ?c3))"
    using ne page(2) st(1,3) tx1 page_text [OF pg(1)] 
    by (simp add: nav_page_done_def page_text [OF page(1)] eb Let_def)
  then show ?thesis using nav_title [OF pg(2,1), of grow]
    by (cases "swap (host_trace c) (to_bytes body)")
      (auto simp: host_nav_reload_def intro: exI [of _ "host_nav_reload ?c3"])
qed

theorem nav_swaps_page_witness:
  "\<exists>c1. host_trace c1 = [Host_swap_page (to_bytes ''hi''), Host_set_title (to_bytes ''T'')] \<and>
    nav_page_done (\<lambda>_. False) (\<lambda>_ _ _ c. c) [] (\<lambda>_. []) (\<lambda>_ _. True) 200 65536 1
      (navc0\<lparr>lmem := store 65536 (to_bytes (''<title>T</title><!--cerco:page-->hi<!--cerco:/page-->'') @ [0]) (\<lambda>_. 0)\<rparr>) =
    cerco_hydrate_all (\<lambda>_. False) (\<lambda>_ _ _ c. c) [] (\<lambda>_. []) c1"
proof -
  let ?html = "''<title>T</title><!--cerco:page-->hi<!--cerco:/page-->''"
  let ?c = "navc0\<lparr>lmem := store 65536 (to_bytes ?html @ [0]) (\<lambda>_. 0)\<rparr>"
  have "length (to_bytes ?html @ [0 :: byte]) = Suc (length ?html)" by (simp add: to_bytes_def)
  from bytes_at_store [of "to_bytes ?html @ [0]" 65536 "\<lambda>_. 0", unfolded this]
  have "bytes_at (lmem ?c) 65536 (Suc (length ?html)) = to_bytes ?html @ [0]" by simp
  then have "page_at 65536 ?html ?c" unfolding page_at_def by (simp add: navc0_def)
  moreover have "scratch_room 65536 ?c" by (simp add: scratch_room_def navc0_def)
  ultimately have "\<exists>c1. host_trace c1 = host_trace ?c @ [Host_swap_page (to_bytes ''hi'')] @
       (if True then title_event ?html else [Host_nav_reload]) \<and>
    nav_page_done (\<lambda>_. False) (\<lambda>_ _ _ c. c) [] (\<lambda>_. []) (\<lambda>_ _. True) 200 65536 1 ?c =
       (if True then cerco_hydrate_all (\<lambda>_. False) (\<lambda>_ _ _ c. c) [] (\<lambda>_. []) c1 else c1)"
    by (intro nav_swaps_page [where pre = "''<title>T</title>''" and post = "[]"]) (simp_all add: PAGE_OPEN_def PAGE_CLOSE_def)
  moreover have "title_event ?html = [Host_set_title (to_bytes ''T'')]"
    by (simp add: title_event_def title_span_def strstr_find)
  ultimately show ?thesis by (simp add: navc0_def)
qed

end
