(* ===== verification/Cli_Scan.thy ===== *)
theory Cli_Scan
  imports Router
begin

text \<open>
  The first half of \<open>cerco build\<close>: the directory walk of \<open>cli/util.c\<close> and what \<open>cli/build.c\<close>
  reads off the project: routes and layouts from the file names under \<open>src/routes\<close>, server
  functions from \<open>functions.x\<close>, components from the client sources.

  The file system is a parameter: what a directory lists, what \<open>stat\<close> says of a path, and the
  text of a file. \<open>snprintf\<close> into an array of \<open>n\<close> bytes keeps the first \<open>n - 1\<close> characters
  (\<open>fit n\<close>).
\<close>

definition fit :: "nat \<Rightarrow> string \<Rightarrow> string" where
  "fit n s = take (n - 1) s"

lemma fit_short [simp]: "length s < n \<Longrightarrow> fit n s = s"
  by (simp add: fit_def)

subsection \<open>Files\<close>

datatype file_kind = Is_dir | Is_reg | Is_other

record cli_fs =
  ft_list :: "string \<Rightarrow> string list option"     \<comment> \<open>\<open>opendir\<close>, \<open>readdir\<close>: in the order of the directory\<close>
  ft_kind :: "string \<Rightarrow> file_kind option"       \<comment> \<open>\<open>stat\<close>\<close>
  ft_read :: "string \<Rightarrow> string option"          \<comment> \<open>\<open>read_file\<close>\<close>

definition file_exists :: "cli_fs \<Rightarrow> string \<Rightarrow> bool" where
  "file_exists fs path = (ft_kind fs path = Some Is_reg)"

definition walk_pruned :: "string \<Rightarrow> bool" where
  "walk_pruned name = (name = ''.git'' \<or> name = ''.cerco'' \<or> name = ''node_modules'')"

definition is_blank :: "char \<Rightarrow> bool" where
  "is_blank c = (c = CHR '' '' \<or> c = CHR 0x09 \<or> c = CHR 0x0D)"

definition cli_trim :: "string \<Rightarrow> string" where
  "cli_trim s = rev (dropWhile (\<lambda>c. is_blank c \<or> c = CHR 0x0A) (rev (dropWhile is_blank s)))"

definition path_basename :: "string \<Rightarrow> string" where
  "path_basename p = (case last_index_of CHR ''/'' p of Some i \<Rightarrow> drop (Suc i) p | None \<Rightarrow> p)"

text \<open>
  The walk calls back with the path below the root, the full path and whether it is a directory.
  Here it returns these calls in their order; \<open>todo\<close> holds the entries still to be visited, with
  their names. It does not return when links form a cycle.
\<close>

definition dir_entries :: "cli_fs \<Rightarrow> string \<Rightarrow> string \<Rightarrow> (string \<times> string) list" where
  "dir_entries fs root rel =
     (let full = fit 1024 (if rel \<noteq> [] then root @ ''/'' @ rel else root) in
      case ft_list fs full of
        None \<Rightarrow> []
      | Some names \<Rightarrow>
          map (\<lambda>e. (e, fit 1024 (if rel \<noteq> [] then rel @ ''/'' @ e else e)))
            (filter (\<lambda>e. e \<noteq> ''.'' \<and> e \<noteq> ''..'') names))"

partial_function (option) walk_todo ::
  "cli_fs \<Rightarrow> string \<Rightarrow> (string \<times> string) list \<Rightarrow> (string \<times> string \<times> bool) list option" where
  "walk_todo fs root todo =
     (case todo of
        [] \<Rightarrow> Some []
      | (name, rel) # rest \<Rightarrow>
          (let full = fit 1024 (root @ ''/'' @ rel) in
           case ft_kind fs full of
             Some Is_dir \<Rightarrow>
               (if walk_pruned name then walk_todo fs root rest
                else do { es \<leftarrow> walk_todo fs root (dir_entries fs root rel @ rest); Some ((rel, full, True) # es) })
           | Some Is_reg \<Rightarrow> do { es \<leftarrow> walk_todo fs root rest; Some ((rel, full, False) # es) }
           | _ \<Rightarrow> walk_todo fs root rest))"

definition walk_dir :: "cli_fs \<Rightarrow> string \<Rightarrow> (string \<times> string \<times> bool) list option" where
  "walk_dir fs root = walk_todo fs root (dir_entries fs root [])"

definition is_c_file :: "string \<Rightarrow> bool" where
  "is_c_file rel = (length rel \<ge> 2 \<and> drop (length rel - 2) rel = ''.c'')"

subsection \<open>Names\<close>

definition alnum :: "char \<Rightarrow> bool" where
  "alnum c = (in_range CHR ''a'' CHR ''z'' c \<or> in_range CHR ''A'' CHR ''Z'' c \<or> in_range CHR ''0'' CHR ''9'' c)"

text \<open>\<open>out\<close> is what was written so far; the loop stops when only the terminator fits.\<close>

fun mangle_loop :: "string \<Rightarrow> string \<Rightarrow> bool \<Rightarrow> nat \<Rightarrow> string" where
  "mangle_loop [] out prev_us cap = out"
| "mangle_loop (c # p) out prev_us cap =
     (if length out + 1 \<ge> cap then out
      else if alnum c then mangle_loop p (out @ [c]) False cap
      else if \<not> prev_us then mangle_loop p (out @ ''_'') True cap
      else mangle_loop p out prev_us cap)"

definition mangle :: "string \<Rightarrow> nat \<Rightarrow> string" where
  "mangle s cap =
     (let out = mangle_loop s [] True cap
      in if out \<noteq> [] \<and> last out = CHR ''_'' then butlast out else out)"

subsection \<open>Routes and layouts\<close>

definition MAX_ROUTES :: nat where "MAX_ROUTES = 256"
definition MAX_LAYOUTS :: nat where "MAX_LAYOUTS = 64"

record route_info =
  ri_method :: string
  ri_path :: string
  ri_symbol :: string
  ri_rel :: string
  ri_dir :: string
  ri_layouts :: "string list"

record layout_info =
  li_dir :: string
  li_symbol :: string

record sf_info =
  si_id :: u32
  si_name :: string
  si_method :: string
  si_ret :: char
  si_args :: string

record build_scan =
  bs_routes :: "route_info list"
  bs_layouts :: "layout_info list"
  bs_sfs :: "sf_info list"
  bs_components :: "string list"

definition strip_c :: "string \<Rightarrow> string" where
  "strip_c s = (if length s > 2 \<and> drop (length s - 2) s = ''.c'' then take (length s - 2) s else s)"

definition upper :: "char \<Rightarrow> char" where
  "upper c = (if in_range CHR ''a'' CHR ''z'' c then char_of (ccode c - 32) else c)"

definition route_methods :: "string list" where
  "route_methods = [''get'', ''post'', ''put'', ''patch'', ''delete'', ''head'', ''options'']"

text \<open>The first method whose suffix the name has: the method and the name without it.\<close>

fun method_suffix :: "string list \<Rightarrow> string \<Rightarrow> string \<times> string" where
  "method_suffix [] base = (''GET'', base)"
| "method_suffix (m # ms) base =
     (let suffix = CHR ''.'' # m; bl = length base; sl = length suffix in
      if bl > sl \<and> drop (bl - sl) base = suffix then (map upper m, take (bl - sl) base)
      else method_suffix ms base)"

text \<open>A file name as a path segment: \<open>[id]\<close> becomes \<open>:id\<close>, \<open>[...slug]\<close> becomes \<open>*slug\<close>.\<close>

definition strip_bracket :: "string \<Rightarrow> string" where
  "strip_bracket nm = (if nm \<noteq> [] \<and> last nm = CHR '']'' then butlast nm else nm)"

definition route_seg :: "string \<Rightarrow> string" where
  "route_seg fb =
     (if fb = ''index'' \<or> fb = ''index.get'' \<or> fb = [] then []
      else
        let seg = (if length fb > 4 \<and> drop (length fb - 2) fb = ''.c'' then take (length fb - 2) fb else fb) in
        if char_at seg 0 = CHR ''['' then
          (if char_at seg 1 = CHR ''.'' \<and> char_at seg 2 = CHR ''.'' \<and> char_at seg 3 = CHR ''.''
           then strip_bracket (fit 256 (CHR ''*'' # drop 4 seg))
           else strip_bracket (fit 256 (CHR '':'' # drop 1 seg)))
        else seg)"

definition route_path :: "string \<Rightarrow> string \<Rightarrow> string \<Rightarrow> string" where
  "route_path basebuf dir seg =
     (if basebuf = ''404'' then ''/__cerco/404''
      else if seg = [] then
        (let p = fit 256 ((if dir \<noteq> [] then ''/'' else []) @ dir) in if p = [] then ''/'' else p)
      else fit 256 (''/'' @ dir @ (if dir \<noteq> [] then ''/'' else []) @ seg))"

text \<open>The symbol of a route: the loop tries suffixes until no earlier route has the name.\<close>

definition symbol_try :: "string \<Rightarrow> nat \<Rightarrow> string" where
  "symbol_try symbase k = fit 160 (if k = 0 then symbase else symbase @ ''_'' @ dec k)"

partial_function (option) unique_symbol :: "string list \<Rightarrow> string \<Rightarrow> nat \<Rightarrow> string option" where
  "unique_symbol taken symbase k =
     (let s = symbol_try symbase k in
      if s \<in> set taken then unique_symbol taken symbase (k + 1) else Some s)"

definition route_symbase :: "string \<Rightarrow> string \<Rightarrow> string" where
  "route_symbase dir fb =
     fit 160 (''cerco_route_'' @ mangle (fit 512 (dir @ (if dir \<noteq> [] then ''_'' else []) @ fb)) 512)"

definition is_layout_name :: "string \<Rightarrow> bool" where
  "is_layout_name base = (base = ''layout'' \<or> base = ''layout.c'')"

text \<open>A path below \<open>src/routes\<close> as its directory and file name.\<close>

definition split_rel :: "string \<Rightarrow> string \<times> string" where
  "split_rel rel =
     (let dirbuf = fit 512 rel in
      case last_index_of CHR ''/'' dirbuf of
        Some i \<Rightarrow> (take i dirbuf, drop (Suc i) dirbuf)
      | None \<Rightarrow> ([], rel))"

definition layout_symbol :: "string \<Rightarrow> string" where
  "layout_symbol dirbuf = fit 160 (''cerco_layout_'' @ mangle (if dirbuf \<noteq> [] then dirbuf else ''root'') 256)"

definition route_rel :: "string \<Rightarrow> string" where
  "route_rel rel = fit 512 (''src/routes/'' @ rel)"

definition scan_cb :: "string \<Rightarrow> bool \<Rightarrow> build_scan \<Rightarrow> build_scan option" where
  "scan_cb rel is_dir b =
     (if is_dir \<or> \<not> is_c_file rel then Some b
      else
        let (dirbuf, base) = split_rel rel; (method, basebuf) = method_suffix route_methods (strip_c (fit 256 base)) in
        if is_layout_name basebuf then
          Some (if length (bs_layouts b) \<ge> MAX_LAYOUTS then b
                else b\<lparr>bs_layouts := bs_layouts b @ [\<lparr>li_dir = fit 256 dirbuf, li_symbol = layout_symbol dirbuf\<rparr>]\<rparr>)
        else if length (bs_routes b) \<ge> MAX_ROUTES then Some b
        else
          let dir = fit 256 dirbuf; fb = strip_c basebuf; seg = route_seg fb
          in do {
            symbol \<leftarrow> unique_symbol (map ri_symbol (bs_routes b)) (route_symbase dir fb) 0;
            Some (b\<lparr>bs_routes := bs_routes b @ [\<lparr>ri_method = method, ri_path = route_path basebuf dir seg,
              ri_symbol = symbol, ri_rel = route_rel rel, ri_dir = dir, ri_layouts = []\<rparr>]\<rparr>)
          })"

fun scan_files :: "(string \<times> string \<times> bool) list \<Rightarrow> build_scan \<Rightarrow> build_scan option" where
  "scan_files [] b = Some b"
| "scan_files ((rel, full, is_dir) # es) b = do { b' \<leftarrow> scan_cb rel is_dir b; scan_files es b' }"

subsection \<open>Layout chains\<close>

definition find_layout :: "layout_info list \<Rightarrow> string \<Rightarrow> string option" where
  "find_layout ls dir = map_option li_symbol (find (\<lambda>l. li_dir l = dir) ls)"

text \<open>The directories from the route's own up to the root, at most \<open>n\<close> of them.\<close>

function ancestor_dirs :: "nat \<Rightarrow> string \<Rightarrow> string list" where
  "ancestor_dirs n work =
     (if n = 0 then []
      else case last_index_of CHR ''/'' work of
        None \<Rightarrow> work # (if work \<noteq> [] \<and> n > 1 then [[]] else [])
      | Some i \<Rightarrow> work # ancestor_dirs (n - 1) (take i work))"
  by pat_completeness auto
termination
  by (relation "measure fst") auto

declare ancestor_dirs.simps [simp del]

definition layout_chain :: "layout_info list \<Rightarrow> string \<Rightarrow> string list" where
  "layout_chain ls dir =
     take MAX_LAYOUTS (concat (map (\<lambda>d. case find_layout ls d of Some s \<Rightarrow> [fit 160 s] | None \<Rightarrow> [])
       (rev (ancestor_dirs MAX_LAYOUTS dir))))"

definition compute_layout_chains :: "build_scan \<Rightarrow> build_scan" where
  "compute_layout_chains b =
     b\<lparr>bs_routes := map (\<lambda>r. r\<lparr>ri_layouts := layout_chain (bs_layouts b) (ri_dir r)\<rparr>) (bs_routes b)\<rparr>"

subsection \<open>Server functions\<close>

lemma strtok_shorter:
  assumes "dropWhile (\<lambda>c. c = sep) s \<noteq> []"
  shows "length (dropWhile (\<lambda>c. c \<noteq> sep) (dropWhile (\<lambda>c. c = sep) s)) < length s"
proof -
  obtain x xs where t: "dropWhile (\<lambda>c. c = sep) s = x # xs" "x \<noteq> sep"
    using assms hd_dropWhile [of "\<lambda>c. c = sep" s] by (cases "dropWhile (\<lambda>c. c = sep) s") auto
  have "length (dropWhile (\<lambda>c. c \<noteq> sep) xs) \<le> length xs" by (rule length_dropWhile_le)
  moreover have "length (x # xs) \<le> length s" by (metis length_dropWhile_le t(1))
  ultimately show ?thesis using t by simp
qed

text \<open>\<open>strtok_r\<close> over a whole string: the maximal runs of characters other than the separator.\<close>

function strtok_all :: "char \<Rightarrow> string \<Rightarrow> string list" where
  "strtok_all sep s =
     (let t = dropWhile (\<lambda>c. c = sep) s in
      if t = [] then [] else takeWhile (\<lambda>c. c \<noteq> sep) t # strtok_all sep (dropWhile (\<lambda>c. c \<noteq> sep) t))"
  by pat_completeness auto
termination
  by (relation "measure (length \<circ> snd)") (simp, simp only: in_measure comp_apply snd_conv, rule strtok_shorter)

declare strtok_all.simps [simp del]

definition is_space :: "char \<Rightarrow> bool" where
  "is_space c = (c = CHR '' '' \<or> in_range CHR 0x09 CHR 0x0D c)"

definition strtoul10 :: "string \<Rightarrow> u64" where
  "strtoul10 s =
     (let t = dropWhile is_space s; neg = (char_at t 0 = CHR ''-'');
          ds = takeWhile is_digit (if neg \<or> char_at t 0 = CHR ''+'' then drop 1 t else t); v = dec_value 0 ds
      in if v \<ge> 2 ^ 64 then -1 else if neg then - of_nat v else of_nat v)"

definition sf_type_char :: "string \<Rightarrow> char" where
  "sf_type_char v =
     (if v = ''CERCO_I32'' then CHR ''i'' else if v = ''CERCO_I64'' then CHR ''l''
      else if v = ''CERCO_F64'' then CHR ''f'' else if v = ''CERCO_BOOL'' then CHR ''b''
      else if v = ''CERCO_STR'' then CHR ''s'' else if v = ''CERCO_BYTES'' then CHR ''y'' else CHR ''?'')"

definition sf_field :: "nat \<Rightarrow> string \<Rightarrow> sf_info \<Rightarrow> sf_info" where
  "sf_field field v sf =
     (if field = 1 then sf\<lparr>si_id := ucast (strtoul10 v)\<rparr>
      else if field = 2 then sf\<lparr>si_name := fit 128 v\<rparr>
      else if field = 3 then sf\<lparr>si_ret := sf_type_char v\<rparr>
      else if length (si_args sf) < 16 then sf\<lparr>si_args := si_args sf @ [sf_type_char v]\<rparr> else sf)"

definition sf_prefix :: string where "sf_prefix = ''CERCO_SF(''"

text \<open>One line: the text between the parentheses when the line is taken as a declaration.\<close>

definition sf_body :: "string \<Rightarrow> string option" where
  "sf_body line =
     (let t = cli_trim line in
      if t = [] \<or> char_at t 0 = CHR ''#'' \<or> char_at t 0 = CHR ''/'' \<or> char_at t 0 = CHR ''*'' then None
      else if take (length sf_prefix) t \<noteq> sf_prefix then None
      else
        let start = drop (length sf_prefix) t in
        case last_index_of CHR '')'' start of
          None \<Rightarrow> None
        | Some bl \<Rightarrow> if bl \<ge> 512 then None else Some (take bl start))"

definition sf_decl :: "string \<Rightarrow> sf_info option" where
  "sf_decl body =
     (let toks = strtok_all CHR '','' body;
          sf = fold (\<lambda>(i, tok). sf_field (Suc i) (cli_trim tok)) (enumerate 0 toks)
                 \<lparr>si_id = 0, si_name = [], si_method = ''POST'', si_ret = NUL, si_args = []\<rparr>
      in if length toks \<ge> 3 \<and> si_ret sf \<noteq> CHR ''?'' then Some sf else None)"

fun scan_sf_lines :: "string list \<Rightarrow> sf_info list \<Rightarrow> sf_info list" where
  "scan_sf_lines [] sfs = sfs"
| "scan_sf_lines (line # ls) sfs =
     (case sf_body line of
        None \<Rightarrow> scan_sf_lines ls sfs
      | Some body \<Rightarrow>
          if length sfs \<ge> MAX_ROUTES then sfs
          else scan_sf_lines ls (case sf_decl body of Some sf \<Rightarrow> sfs @ [sf] | None \<Rightarrow> sfs))"

definition functions_x :: "cli_fs \<Rightarrow> string \<Rightarrow> string option" where
  "functions_x fs root =
     (let p = fit 1400 (root @ ''/src/server/functions.x''); q = fit 1400 (root @ ''/src/shared/functions.x'') in
      if file_exists fs p then Some p else if file_exists fs q then Some q else None)"

text \<open>\<open>None\<close>: the return value -1.\<close>

definition scan_sf :: "cli_fs \<Rightarrow> string \<Rightarrow> build_scan \<Rightarrow> build_scan option" where
  "scan_sf fs root b =
     (case functions_x fs root of
        None \<Rightarrow> Some b
      | Some path \<Rightarrow>
          (case ft_read fs path of
             None \<Rightarrow> None
           | Some data \<Rightarrow> Some (b\<lparr>bs_sfs := scan_sf_lines (strtok_all CHR 0x0A (cstr data)) (bs_sfs b)\<rparr>)))"

subsection \<open>Components\<close>

definition comp_marker :: string where "comp_marker = ''CERCO_CLIENT_COMPONENT(''"

definition comp_name :: "string \<Rightarrow> string" where
  "comp_name p = take 127 (takeWhile (\<lambda>c. c \<noteq> CHR '')'' \<and> c \<noteq> CHR '','') p)"

function component_names :: "string \<Rightarrow> string list" where
  "component_names p =
     (case find_sub comp_marker p of
        None \<Rightarrow> []
      | Some i \<Rightarrow>
          let q = drop (i + length comp_marker) p; name = comp_name q; nm = cli_trim name
          in (if nm \<noteq> [] then [nm] else []) @ component_names (drop (length name) q))"
  by pat_completeness auto
termination
  by (relation "measure length") (auto simp: comp_marker_def dest!: find_sub_Some)

declare component_names.simps [simp del]

definition scan_components_cb :: "cli_fs \<Rightarrow> string \<Rightarrow> string \<Rightarrow> bool \<Rightarrow> build_scan \<Rightarrow> build_scan" where
  "scan_components_cb fs rel full is_dir b =
     (if is_dir \<or> take 15 rel \<noteq> ''src/components/'' \<or> \<not> is_c_file rel then b
      else case ft_read fs full of
        None \<Rightarrow> b
      | Some data \<Rightarrow> b\<lparr>bs_components := take MAX_ROUTES (bs_components b @ component_names (cstr data))\<rparr>)"

end
