(* ===== verification/Cli_Routes.thy ===== *)
theory Cli_Routes
  imports Cli_Scan
begin

text \<open>
  What the scan of \<open>cli/build.c\<close> produces: symbols that are distinct C identifiers, the routes a
  file name stands for and how the router of the server serves them, the layouts around a page, and
  the declarations of server functions. The loop that makes a symbol unique is the one place where
  the scan may not return; the lemmas give the length of a path up to which it does.
\<close>

subsection \<open>The symbol loop\<close>

lemma unique_symbol_new:
  assumes "unique_symbol taken symbase k = Some s"
  shows "s \<notin> set taken \<and> (\<exists>j \<ge> k. s = symbol_try symbase j)"
proof (rule unique_symbol.raw_induct [where P = "\<lambda>taken symbase k s. s \<notin> set taken \<and> (\<exists>j \<ge> k. s = symbol_try symbase j)", OF _ assms])
  fix f :: "string list \<Rightarrow> string \<Rightarrow> nat \<Rightarrow> string option" and taken symbase k s
  assume IH: "\<And>taken symbase k s. f taken symbase k = Some s \<Longrightarrow> s \<notin> set taken \<and> (\<exists>j \<ge> k. s = symbol_try symbase j)"
    and eq: "(let s = symbol_try symbase k in if s \<in> set taken then f taken symbase (k + 1) else Some s) = Some s"
  show "s \<notin> set taken \<and> (\<exists>j \<ge> k. s = symbol_try symbase j)"
    using eq IH [of taken symbase "k + 1" s] by (auto simp: Let_def split: if_splits intro: Suc_leD)
qed

lemma unique_symbol_stuck:
  assumes "\<And>j. symbol_try symbase j \<in> set taken"
  shows "unique_symbol taken symbase k = None"
proof (cases "unique_symbol taken symbase k")
  case (Some s)
  with unique_symbol_new [OF Some] assms show ?thesis by auto
qed

lemma unique_symbol_first:
  "(\<And>j. j < m \<Longrightarrow> symbol_try symbase (k + j) \<in> set taken) \<Longrightarrow> symbol_try symbase (k + m) \<notin> set taken \<Longrightarrow>
     unique_symbol taken symbase k = Some (symbol_try symbase (k + m))"
proof (induction m arbitrary: k)
  case 0
  then show ?case by (subst unique_symbol.simps) simp
next
  case (Suc m)
  have "symbol_try symbase k \<in> set taken" using Suc.prems(1) [of 0] by simp
  moreover have "unique_symbol taken symbase (Suc k) = Some (symbol_try symbase (Suc k + m))"
    using Suc.prems(1) [of "Suc j" for j] Suc.prems(2) by (intro Suc.IH) simp_all
  ultimately show ?case by (subst unique_symbol.simps) simp
qed

lemma dec_length: "n < 10 ^ k \<Longrightarrow> 0 < k \<Longrightarrow> length (dec n) \<le> k"
proof (induction n arbitrary: k rule: dec.induct)
  case (1 n)
  show ?case
  proof (cases "n < 10")
    case False
    obtain j where j: "k = Suc j" using 1(3) by (cases k) auto
    moreover have "0 < j" using 1(2) False j by (cases j) auto
    ultimately have j: "k = Suc j" "0 < j" by simp_all
    with 1(2) have "n div 10 < 10 ^ j" by (simp add: div_less_iff_less_mult mult.commute)
    with 1(1) [OF False _ j(2)] j False show ?thesis by (simp add: dec.simps [of n])
  qed (use 1 in \<open>simp add: dec.simps [of n]\<close>)
qed

lemma symbol_try_inj:
  assumes "length symbase \<le> 155" "symbol_try symbase i = symbol_try symbase j" "i < 1000" "j < 1000"
  shows "i = j"
proof -
  have l: "length (symbase @ ''_'' @ dec k) < 160" if "k < 1000" for k
    using assms(1) dec_length [of k 3] that by simp
  show ?thesis
  proof (cases "i = 0 \<or> j = 0")
    case True
    with assms l [of i] l [of j] show ?thesis by (auto simp: symbol_try_def split: if_splits)
  next
    case False
    with assms(2) l [OF assms(3)] l [OF assms(4)] have "dec i = dec j" by (simp add: symbol_try_def)
    then show ?thesis by (rule dec_inj)
  qed
qed

lemma unique_symbol_returns:
  assumes "length symbase \<le> 155" "length taken < 999"
  shows "\<exists>s. unique_symbol taken symbase 0 = Some s"
proof -
  let ?n = "length taken"
  have "\<exists>k \<le> ?n. symbol_try symbase k \<notin> set taken"
  proof (rule ccontr)
    assume "\<not> ?thesis"
    then have "symbol_try symbase ` {..?n} \<subseteq> set taken" by auto
    moreover have "inj_on (symbol_try symbase) {..?n}"
      using assms by (auto intro!: inj_onI dest: symbol_try_inj)
    ultimately have "card {..?n} \<le> card (set taken)" by (metis List.finite_set card_image card_mono)
    then show False using card_length [of taken] by simp
  qed
  then obtain m where "symbol_try symbase m \<notin> set taken" "\<forall>j < m. symbol_try symbase j \<in> set taken"
    using exists_least_iff [of "\<lambda>k. symbol_try symbase k \<notin> set taken"] by blast
  then show ?thesis using unique_symbol_first [of m symbase 0 taken] by auto
qed

subsection \<open>Shape of the scanned data\<close>

definition ident_char :: "char \<Rightarrow> bool" where
  "ident_char c = (alnum c \<or> c = CHR ''_'')"

definition route_verbs :: "string set" where
  "route_verbs = {''GET'', ''POST'', ''PUT'', ''PATCH'', ''DELETE'', ''HEAD'', ''OPTIONS''}"

definition route_ok :: "route_info \<Rightarrow> bool" where
  "route_ok r =
     (take 12 (ri_symbol r) = ''cerco_route_'' \<and> list_all ident_char (ri_symbol r) \<and> length (ri_symbol r) < 160 \<and>
      ri_method r \<in> route_verbs \<and>
      char_at (ri_path r) 0 = CHR ''/'' \<and> length (ri_path r) < 256)"

definition layout_ok :: "layout_info \<Rightarrow> bool" where
  "layout_ok l = (list_all ident_char (li_symbol l) \<and> length (li_symbol l) < 160 \<and> length (li_dir l) < 256)"

definition scan_ok :: "build_scan \<Rightarrow> bool" where
  "scan_ok b =
     (list_all route_ok (bs_routes b) \<and> distinct (map ri_symbol (bs_routes b)) \<and> length (bs_routes b) \<le> MAX_ROUTES \<and>
      list_all layout_ok (bs_layouts b) \<and> length (bs_layouts b) \<le> MAX_LAYOUTS)"

lemma mangle_loop_ident: "list_all ident_char out \<Longrightarrow> list_all ident_char (mangle_loop p out us cap)"
  by (induction p out us cap rule: mangle_loop.induct) (simp_all add: ident_char_def)

lemma mangle_ident: "list_all ident_char (mangle s cap)"
proof -
  have "list_all ident_char (mangle_loop s [] True cap)" by (rule mangle_loop_ident) simp
  then show ?thesis by (auto simp: mangle_def Let_def list_all_iff dest: in_set_butlastD)
qed

lemma ident_dec: "list_all ident_char (dec n)"
  using dec_digits [of n] by (auto simp: list_all_iff ident_char_def alnum_def is_digit_def)

lemma ident_fit: "list_all ident_char s \<Longrightarrow> list_all ident_char (fit n s)"
  by (auto simp: fit_def list_all_iff dest: in_set_takeD)

lemma fit_length: "0 < n \<Longrightarrow> length (fit n s) < n"
  by (simp add: fit_def)

lemma ident_prefix: "list_all ident_char ''cerco_route_''" "list_all ident_char ''cerco_layout_''" "list_all ident_char ''_''"
  by code_simp+

lemma symbol_try_ok:
  "list_all ident_char s \<Longrightarrow> take 12 s = ''cerco_route_'' \<Longrightarrow>
     list_all ident_char (symbol_try s k) \<and> take 12 (symbol_try s k) = ''cerco_route_'' \<and> length (symbol_try s k) < 160"
proof -
  assume s: "list_all ident_char s" "take 12 s = ''cerco_route_''"
  have f: "take 12 (fit 160 t) = take 12 t" for t by (simp add: fit_def)
  have "length (take 12 s) = 12" unfolding s(2) by simp
  then have "12 \<le> length s" by simp
  then show ?thesis using s ident_prefix(3) ident_dec [of k] fit_length [of 160 "symbol_try s k"] fit_length [of 160] f
    by (simp add: symbol_try_def ident_fit)
qed

lemma symbase_ok:
  "list_all ident_char (route_symbase dir fb)" "take 12 (route_symbase dir fb) = ''cerco_route_''"
  unfolding route_symbase_def
  by (rule ident_fit, simp only: list_all_append ident_prefix mangle_ident) (simp add: fit_def)

lemma method_suffix_in: "method_suffix ms base = (m, t) \<Longrightarrow> m = ''GET'' \<or> m \<in> map upper ` set ms"
  by (induction ms base rule: method_suffix.induct) (auto simp: Let_def split: if_splits)

lemma upper_small:
  "map upper ''get'' = ''GET''" "map upper ''post'' = ''POST''" "map upper ''put'' = ''PUT''"
  "map upper ''patch'' = ''PATCH''" "map upper ''delete'' = ''DELETE''" "map upper ''head'' = ''HEAD''"
  "map upper ''options'' = ''OPTIONS''"
  by (simp_all add: upper_def in_range_def char_eval)

lemma upper_methods: "map upper ` set route_methods = route_verbs"
  unfolding route_methods_def route_verbs_def list.set image_insert image_empty upper_small by (rule refl)

lemma method_ok_scan: "method_suffix route_methods base = (m, t) \<Longrightarrow> m \<in> route_verbs"
  using method_suffix_in [of route_methods base m t] unfolding upper_methods by (auto simp: route_verbs_def)

lemma route_path_ok: "char_at (route_path basebuf dir seg) 0 = CHR ''/'' \<and> length (route_path basebuf dir seg) < 256"
  by (auto simp: route_path_def Let_def fit_def char_at_def)

lemma layout_symbol_ok: "list_all ident_char (layout_symbol d)" "length (layout_symbol d) < 160"
proof -
  show "list_all ident_char (layout_symbol d)"
    unfolding layout_symbol_def by (rule ident_fit) (simp only: list_all_append ident_prefix mangle_ident)
  show "length (layout_symbol d) < 160" unfolding layout_symbol_def by (rule fit_length) simp
qed

text \<open>What one file adds.\<close>

lemma scan_cb_cases:
  assumes "scan_cb rel is_dir b = Some b'"
  obtains (same) "b' = b"
  | (layout) l where "layout_ok l" "length (bs_layouts b) < MAX_LAYOUTS" "b' = b\<lparr>bs_layouts := bs_layouts b @ [l]\<rparr>"
  | (route) r where "route_ok r" "ri_symbol r \<notin> set (map ri_symbol (bs_routes b))" "ri_rel r = route_rel rel"
      "length (bs_routes b) < MAX_ROUTES" "b' = b\<lparr>bs_routes := bs_routes b @ [r]\<rparr>"
proof -
  obtain dirbuf base where db: "split_rel rel = (dirbuf, base)" by fastforce
  obtain meth basebuf where mb: "method_suffix route_methods (strip_c (fit 256 base)) = (meth, basebuf)" by fastforce
  note m = method_ok_scan [OF mb]
  consider "is_dir \<or> \<not> is_c_file rel" | (l) "\<not> (is_dir \<or> \<not> is_c_file rel)" "is_layout_name basebuf"
    | (r) "\<not> (is_dir \<or> \<not> is_c_file rel)" "\<not> is_layout_name basebuf" by blast
  then show ?thesis
  proof cases
    case 1
    with assms same show ?thesis by (simp add: scan_cb_def)
  next
    case l
    have "layout_ok \<lparr>li_dir = fit 256 dirbuf, li_symbol = layout_symbol dirbuf\<rparr>"
      by (simp add: layout_ok_def layout_symbol_ok fit_length)
    moreover have "b' = (if length (bs_layouts b) \<ge> MAX_LAYOUTS then b
       else b\<lparr>bs_layouts := bs_layouts b @ [\<lparr>li_dir = fit 256 dirbuf, li_symbol = layout_symbol dirbuf\<rparr>]\<rparr>)"
      using l assms by (simp add: scan_cb_def db mb)
    ultimately show ?thesis using same layout by (cases "length (bs_layouts b) \<ge> MAX_LAYOUTS") simp_all
  next
    case r
    let ?sb = "route_symbase (fit 256 dirbuf) (strip_c basebuf)"
    show ?thesis
    proof (cases "length (bs_routes b) \<ge> MAX_ROUTES")
      case True
      with r assms same show ?thesis by (simp add: scan_cb_def db mb)
    next
      case False
      from assms r False obtain sym where
        sym: "unique_symbol (map ri_symbol (bs_routes b)) ?sb 0 = Some sym" and
        b': "b' = b\<lparr>bs_routes := bs_routes b @ [\<lparr>ri_method = meth,
          ri_path = route_path basebuf (fit 256 dirbuf) (route_seg (strip_c basebuf)), ri_symbol = sym,
          ri_rel = route_rel rel, ri_dir = fit 256 dirbuf, ri_layouts = []\<rparr>]\<rparr>"
        by (auto simp: scan_cb_def db mb Let_def split: Option.bind_splits)
      from unique_symbol_new [OF sym] obtain j where s: "sym \<notin> set (map ri_symbol (bs_routes b))" "sym = symbol_try ?sb j" by blast
      with symbol_try_ok [OF symbase_ok, of "fit 256 dirbuf" "strip_c basebuf" j] m route_path_ok b' False
      show ?thesis by (intro route [OF _ _ _ _ b']) (simp_all add: route_ok_def)
    qed
  qed
qed

lemma scan_cb_ok: "scan_cb rel is_dir b = Some b' \<Longrightarrow> scan_ok b \<Longrightarrow> scan_ok b'"
  by (erule scan_cb_cases) (auto simp: scan_ok_def)

lemma scan_files_ok: "scan_files es b = Some b' \<Longrightarrow> scan_ok b \<Longrightarrow> scan_ok b'"
  by (induction es b rule: scan_files.induct) (auto split: Option.bind_splits dest: scan_cb_ok)

subsection \<open>The scan returns\<close>

lemma mangle_loop_length: "length (mangle_loop p out us cap) \<le> length out + length p"
  by (induction p out us cap rule: mangle_loop.induct) (auto intro: le_trans)

lemma mangle_length: "length (mangle s cap) \<le> length s"
  using mangle_loop_length [of s "[]" True cap] by (auto simp: mangle_def Let_def)

lemma fit_le: "length (fit n s) \<le> length s"
  by (simp add: fit_def)

lemma strip_c_length: "length (strip_c s) \<le> length s"
  by (simp add: strip_c_def)

lemma method_suffix_length: "method_suffix ms base = (m, t) \<Longrightarrow> length t \<le> length base"
  by (induction ms base rule: method_suffix.induct) (auto simp: Let_def split: if_splits)

lemma split_rel_length:
  "split_rel rel = (d, base) \<Longrightarrow> length d + (if d \<noteq> [] then 1 else 0) + length base \<le> length rel"
  using fit_le [of 512 rel] by (auto simp: split_rel_def Let_def split: option.splits dest!: last_index_of_Some)

lemma route_symbase_length:
  "length (route_symbase dir fb) \<le> 12 + length dir + (if dir \<noteq> [] then 1 else 0) + length fb"
proof -
  let ?m = "fit 512 (dir @ (if dir \<noteq> [] then ''_'' else []) @ fb)"
  have "length (route_symbase dir fb) \<le> 12 + length (mangle ?m 512)"
    using fit_le [of 160] by (simp add: route_symbase_def order_trans [OF fit_le])
  also have "\<dots> \<le> 12 + length ?m" using mangle_length [of ?m 512] by simp
  also have "\<dots> \<le> 12 + length (dir @ (if dir \<noteq> [] then ''_'' else []) @ fb)" using fit_le [of 512] by (intro add_left_mono)
  finally show ?thesis by (simp split: if_splits)
qed

lemma scan_cb_returns:
  assumes "scan_ok b" "length rel \<le> 143"
  shows "\<exists>b'. scan_cb rel is_dir b = Some b'"
proof -
  obtain dirbuf base where db: "split_rel rel = (dirbuf, base)" by fastforce
  obtain meth basebuf where mb: "method_suffix route_methods (strip_c (fit 256 base)) = (meth, basebuf)" by fastforce
  let ?sb = "route_symbase (fit 256 dirbuf) (strip_c basebuf)"
  have d: "length (fit 256 dirbuf) \<le> length dirbuf" "fit 256 dirbuf \<noteq> [] \<longleftrightarrow> dirbuf \<noteq> []" by (simp_all add: fit_def)
  have "length (strip_c basebuf) \<le> length base"
    using strip_c_length [of basebuf] method_suffix_length [OF mb] strip_c_length [of "fit 256 base"] fit_le [of 256 base] by linarith
  with split_rel_length [OF db] assms(2) d route_symbase_length [of "fit 256 dirbuf" "strip_c basebuf"]
  have "length ?sb \<le> 155" by (auto split: if_splits)
  moreover have "length (map ri_symbol (bs_routes b)) < 999" using assms(1) by (simp add: scan_ok_def MAX_ROUTES_def)
  ultimately obtain sym where "unique_symbol (map ri_symbol (bs_routes b)) ?sb 0 = Some sym"
    using unique_symbol_returns by blast
  then show ?thesis by (simp add: scan_cb_def db mb Let_def)
qed

lemma scan_files_returns:
  "scan_ok b \<Longrightarrow> list_all (\<lambda>(rel, full, is_dir). length rel \<le> 143) es \<Longrightarrow> \<exists>b'. scan_files es b = Some b'"
proof (induction es arbitrary: b)
  case (Cons e es)
  obtain rel full is_dir where e: "e = (rel, full, is_dir)" by (cases e)
  with Cons obtain b1 where b1: "scan_cb rel is_dir b = Some b1" using scan_cb_returns [of b rel is_dir] by auto
  with Cons.prems e have "scan_ok b1" by (blast intro: scan_cb_ok)
  from Cons.IH [OF this] Cons.prems e b1 show ?case by simp
qed simp

lemma scan_cb_stuck:
  assumes "is_c_file rel" "split_rel rel = (dirbuf, base)" "method_suffix route_methods (strip_c (fit 256 base)) = (method, basebuf)"
    and "\<not> is_layout_name basebuf" "length (bs_routes b) < MAX_ROUTES"
    and "length (route_symbase (fit 256 dirbuf) (strip_c basebuf)) = 159"
    and "route_symbase (fit 256 dirbuf) (strip_c basebuf) \<in> set (map ri_symbol (bs_routes b))"
  shows "scan_cb rel False b = None"
proof -
  have "symbol_try s j = s" if "length s = 159" for s j using that by (simp add: symbol_try_def fit_def)
  with assms(6,7) have "unique_symbol (map ri_symbol (bs_routes b)) (route_symbase (fit 256 dirbuf) (strip_c basebuf)) 0 = None"
    by (intro unique_symbol_stuck) simp
  with assms show ?thesis by (simp add: scan_cb_def Let_def)
qed

lemma method_suffix_none: "CHR ''.'' \<notin> set base \<Longrightarrow> method_suffix ms base = (''GET'', base)"
proof (induction ms)
  case (Cons m ms)
  have "drop k base \<noteq> CHR ''.'' # m" for k using Cons.prems by (metis in_set_dropD list.set_intros(1))
  with Cons show ?case by (simp add: Let_def)
qed simp

lemma strip_c_none: "CHR ''.'' \<notin> set base \<Longrightarrow> strip_c base = base"
  unfolding strip_c_def by (metis in_set_dropD list.set_intros(1))

text \<open>File names of \<open>n\<close> letters a.\<close>

definition long_name :: "nat \<Rightarrow> string" where
  "long_name n = replicate n CHR ''a'' @ ''.c''"

lemma last_index_replicate: "x \<noteq> c \<Longrightarrow> last_index_of c (replicate n x @ t) = map_option ((+) n) (last_index_of c t)"
  by (cases "last_index_of c t"; induction n) (auto split: option.splits)

lemma mangle_loop_letters:
  "length out + n < cap \<Longrightarrow> mangle_loop (replicate n CHR ''a'') out us cap = out @ replicate n CHR ''a''"
proof (induction n arbitrary: out us)
  case (Suc n)
  have "alnum CHR ''a''" by code_simp
  with Suc show ?case by simp
qed simp

lemma long_name_scan:
  assumes "147 \<le> n" "n \<le> 250"
  shows "is_c_file (long_name n)" "split_rel (long_name n) = ([], long_name n)"
    "method_suffix route_methods (strip_c (fit 256 (long_name n))) = (''GET'', replicate n CHR ''a'')"
    "\<not> is_layout_name (replicate n CHR ''a'')"
    "route_symbase (fit 256 []) (strip_c (replicate n CHR ''a'')) = ''cerco_route_'' @ replicate 147 CHR ''a''"
proof -
  have f: "fit 512 (long_name n) = long_name n" "fit 256 (long_name n) = long_name n"
    using assms by (simp_all add: long_name_def)
  show "is_c_file (long_name n)" by (simp add: is_c_file_def long_name_def)
  show "split_rel (long_name n) = ([], long_name n)"
    by (simp add: split_rel_def f Let_def) (simp add: long_name_def last_index_replicate)
  have st: "strip_c (long_name n) = replicate n CHR ''a''" using assms by (simp add: strip_c_def long_name_def)
  show "method_suffix route_methods (strip_c (fit 256 (long_name n))) = (''GET'', replicate n CHR ''a'')"
    unfolding f st by (rule method_suffix_none) (simp add: in_set_replicate)
  have ln: "replicate n CHR ''a'' \<noteq> s" if "CHR ''l'' \<in> set s" for s using that by (auto simp: in_set_replicate)
  then show "\<not> is_layout_name (replicate n CHR ''a'')" by (simp add: is_layout_name_def)
  have "strip_c (replicate n CHR ''a'') = replicate n CHR ''a''" by (rule strip_c_none) (simp add: in_set_replicate)
  moreover have "mangle (replicate n CHR ''a'') 512 = replicate n CHR ''a''"
    using mangle_loop_letters [of "[]" n 512 True] assms by (simp add: mangle_def last_replicate)
  ultimately show "route_symbase (fit 256 []) (strip_c (replicate n CHR ''a'')) = ''cerco_route_'' @ replicate 147 CHR ''a''"
    using assms by (simp add: route_symbase_def) (simp add: fit_def min_def)
qed

subsection \<open>Layout chains\<close>

definition dir_names :: "string list \<Rightarrow> bool" where
  "dir_names ds = list_all (\<lambda>d. d \<noteq> [] \<and> CHR ''/'' \<notin> set d) ds"

lemma last_index_append_none: "c \<notin> set t \<Longrightarrow> last_index_of c (s @ c # t) = Some (length s)"
proof (induction s)
  case Nil
  then have "last_index_of c t = None" by (simp add: last_index_of_None)
  then show ?case by simp
qed simp

lemma join_slash_snoc: "ds \<noteq> [] \<Longrightarrow> join_slash (ds @ [d]) = join_slash ds @ CHR ''/'' # d"
  by (induction ds rule: join_slash.induct) simp_all

lemma ancestors_of:
  "dir_names ds \<Longrightarrow> length ds < n \<Longrightarrow>
     rev (ancestor_dirs n (join_slash ds)) = map (\<lambda>k. join_slash (take k ds)) [0..<length ds + 1]"
proof (induction ds arbitrary: n rule: rev_induct)
  case Nil
  then show ?case by (subst ancestor_dirs.simps) simp
next
  case (snoc d ds)
  show ?case
  proof (cases "ds = []")
    case True
    with snoc.prems have "last_index_of CHR ''/'' d = None" "d \<noteq> []" by (simp_all add: last_index_of_None dir_names_def)
    with True snoc.prems show ?thesis by (subst ancestor_dirs.simps) simp
  next
    case False
    then have j: "join_slash (ds @ [d]) = join_slash ds @ CHR ''/'' # d" by (rule join_slash_snoc)
    have ix: "last_index_of CHR ''/'' (join_slash (ds @ [d])) = Some (length (join_slash ds))"
      using snoc.prems unfolding j by (intro last_index_append_none) (simp add: dir_names_def)
    have "rev (ancestor_dirs n (join_slash (ds @ [d]))) = rev (ancestor_dirs (n - 1) (join_slash ds)) @ [join_slash (ds @ [d])]"
      using snoc.prems ix by (subst ancestor_dirs.simps) (simp add: j)
    also have "rev (ancestor_dirs (n - 1) (join_slash ds)) = map (\<lambda>k. join_slash (take k ds)) [0..<length ds + 1]"
      using snoc.prems by (intro snoc.IH) (simp_all add: dir_names_def)
    finally show ?thesis by (simp add: upt_Suc del: join_slash.simps)
  qed
qed

definition layouts_at :: "layout_info list \<Rightarrow> string \<Rightarrow> string list" where
  "layouts_at ls dir = (case find_layout ls dir of Some s \<Rightarrow> [s] | None \<Rightarrow> [])"

lemma layout_chain_of:
  assumes "dir_names ds" "length ds < 64" "list_all layout_ok ls"
  shows "layout_chain ls (join_slash ds) = concat (map (\<lambda>k. layouts_at ls (join_slash (take k ds))) [0..<length ds + 1])"
proof -
  have s: "fit 160 s = s" if "find_layout ls d = Some s" for d s
    using that assms(3) by (auto simp: find_layout_def layout_ok_def list_all_iff find_Some_iff)
  then have f: "(case find_layout ls d of Some s \<Rightarrow> [fit 160 s] | None \<Rightarrow> []) = layouts_at ls d" for d
    by (auto simp: layouts_at_def split: option.splits)
  have "length (concat (map (layouts_at ls) ds')) \<le> length ds'" for ds'
    by (induction ds') (auto simp: layouts_at_def split: option.splits)
  from this [of "map (\<lambda>k. join_slash (take k ds)) [0..<length ds + 1]"] assms(2)
  show ?thesis unfolding layout_chain_def f MAX_LAYOUTS_def using ancestors_of [OF assms(1,2)]
    by (simp add: comp_def del: upt_Suc)
qed

subsection \<open>From file names to routes\<close>

text \<open>The row that the generated table has for a route.\<close>

definition route_entry :: "route_info \<Rightarrow> nat \<Rightarrow> cerco_route_entry" where
  "route_entry r fn = \<lparr>re_method = ri_method r, re_path = ri_path r, re_fn = fn\<rparr>"

lemma parse_segs_join:
  "list_all seg_ok qs \<Longrightarrow> length qs \<le> n \<Longrightarrow> parse_segs (\<lambda>_. True) n (join_slash qs) = Some (map seg_parse qs)"
proof (induction qs arbitrary: n rule: join_slash.induct)
  case 1
  then show ?case by (cases n) simp_all
next
  case (2 q)
  then obtain m where "n = Suc m" by (cases n) simp_all
  moreover from 2 have "index_of CHR ''/'' q = None" "q \<noteq> []" by (simp_all add: seg_ok_def index_of_None)
  ultimately show ?case by simp
next
  case (3 q q' qs)
  then obtain m where m: "n = Suc m" by (cases n) simp_all
  from 3 have "index_of CHR ''/'' (q @ CHR ''/'' # join_slash (q' # qs)) = Some (length q)"
    by (intro index_of_slash) (simp add: seg_ok_def)
  with 3 m show ?case by simp
qed

lemma split_rel_join:
  assumes "CHR ''/'' \<notin> set base" "length (join_slash (ds @ [base])) < 512"
  shows "split_rel (join_slash (ds @ [base])) = (join_slash ds, base)"
proof (cases "ds = []")
  case True
  with assms show ?thesis by (simp add: split_rel_def last_index_of_None [THEN iffD2])
next
  case False
  have "last_index_of CHR ''/'' (join_slash ds @ CHR ''/'' # base) = Some (length (join_slash ds))"
    using assms(1) by (rule last_index_append_none)
  with assms(2) show ?thesis by (simp add: split_rel_def join_slash_snoc [OF False])
qed

text \<open>A file \<open>stem.c\<close> without a method suffix.\<close>

definition stem_ok :: "string \<Rightarrow> bool" where
  "stem_ok t = (t \<noteq> [] \<and> CHR ''/'' \<notin> set t \<and> method_suffix route_methods t = (''GET'', t) \<and> strip_c t = t \<and> \<not> is_layout_name t)"

lemma scan_cb_stem:
  assumes "stem_ok t" "length (join_slash (ds @ [t @ ''.c''])) \<le> 143" "scan_ok b" "length (bs_routes b) < MAX_ROUTES"
  shows "\<exists>sym. scan_cb (join_slash (ds @ [t @ ''.c''])) False b = Some (b\<lparr>bs_routes := bs_routes b @
    [\<lparr>ri_method = ''GET'', ri_path = route_path t (join_slash ds) (route_seg t), ri_symbol = sym,
      ri_rel = route_rel (join_slash (ds @ [t @ ''.c''])), ri_dir = join_slash ds, ri_layouts = []\<rparr>]\<rparr>)"
proof -
  let ?rel = "join_slash (ds @ [t @ ''.c''])"
  have sl: "split_rel ?rel = (join_slash ds, t @ ''.c'')" using assms(1,2) by (intro split_rel_join) (auto simp: stem_ok_def)
  have le: "length (join_slash ds) \<le> 143" "length (t @ ''.c'') \<le> 143"
    using split_rel_length [OF sl] assms(2) by (auto split: if_splits)
  have f: "fit 256 (join_slash ds) = join_slash ds" "fit 256 (t @ ''.c'') = t @ ''.c''" using le by simp_all
  have sc: "strip_c (t @ ''.c'') = t" using assms(1) by (simp add: strip_c_def stem_ok_def)
  have c: "is_c_file ?rel"
    by (cases "ds = []") (simp_all add: is_c_file_def join_slash_snoc)
  obtain b' where "scan_cb ?rel False b = Some b'" using scan_cb_returns [OF assms(3,2)] by blast
  then show ?thesis using assms(1,4) c
    by (auto simp: scan_cb_def sl f sc stem_ok_def Let_def split: Option.bind_splits)
qed

text \<open>The file name of the last segment of a pattern.\<close>

fun seg_file :: "cerco_rt_seg \<Rightarrow> string" where
  "seg_file (Seg_lit l) = l"
| "seg_file (Seg_param p) = CHR ''['' # p @ '']''"
| "seg_file (Seg_catchall p) = ''[...'' @ p @ '']''"

definition word_ok :: "string \<Rightarrow> bool" where
  "word_ok w = (w \<noteq> [] \<and> (\<forall>c \<in> set w. alnum c \<or> c = CHR ''-'' \<or> c = CHR ''_''))"

fun seg_name :: "cerco_rt_seg \<Rightarrow> string" where
  "seg_name (Seg_lit l) = l"
| "seg_name (Seg_param p) = p"
| "seg_name (Seg_catchall p) = p"

lemma word_chars: "word_ok w \<Longrightarrow> c \<in> {CHR ''.'', CHR ''/'', CHR ''['', CHR '']'', CHR '':'', CHR ''*'', NUL} \<Longrightarrow> c \<notin> set w"
  by (auto simp: word_ok_def alnum_def in_range_def)

fun seg_src :: "cerco_rt_seg \<Rightarrow> string" where
  "seg_src (Seg_lit l) = l"
| "seg_src (Seg_param p) = CHR '':'' # p"
| "seg_src (Seg_catchall p) = CHR ''*'' # p"

definition seg_plain :: "cerco_rt_seg \<Rightarrow> bool" where
  "seg_plain s = (word_ok (seg_name s) \<and> s \<noteq> Seg_lit ''index'' \<and> s \<noteq> Seg_lit ''layout'' \<and> s \<noteq> Seg_lit ''404'')"

lemma drop_last: "t \<noteq> [] \<Longrightarrow> drop k xs = t \<Longrightarrow> last xs = last t"
  by (metis last_drop length_drop length_greater_0_conv zero_less_diff)

lemma method_suffix_last:
  "base \<noteq> [] \<Longrightarrow> (\<forall>m \<in> set ms. m \<noteq> [] \<and> last m \<noteq> last base) \<Longrightarrow> method_suffix ms base = (''GET'', base)"
proof (induction ms)
  case (Cons m ms)
  have "drop k base \<noteq> CHR ''.'' # m" for k
  proof
    assume "drop k base = CHR ''.'' # m"
    then have "last base = last m" using Cons.prems by (metis last_ConsR last_drop length_drop length_greater_0_conv list.discI list.set_intros(1) zero_less_diff)
    with Cons.prems show False by auto
  qed
  with Cons show ?case by (simp add: Let_def)
qed simp

lemma strip_c_last: "base = [] \<or> last base \<noteq> CHR ''c'' \<Longrightarrow> strip_c base = base"
  unfolding strip_c_def by (metis append_take_drop_id last.simps last_appendR list.discI take_Nil)

lemma bracket_stem:
  assumes "CHR ''/'' \<notin> set t"
  shows "stem_ok (CHR ''['' # t @ '']'')"
proof -
  have "\<forall>m \<in> set route_methods. m \<noteq> [] \<and> last m \<noteq> CHR '']''" by (simp add: route_methods_def)
  then have "method_suffix route_methods (CHR ''['' # t @ '']'') = (''GET'', CHR ''['' # t @ '']'')"
    by (intro method_suffix_last) simp_all
  moreover have "strip_c (CHR ''['' # t @ '']'') = CHR ''['' # t @ '']''" by (intro strip_c_last) simp
  ultimately show ?thesis using assms by (simp add: stem_ok_def is_layout_name_def)
qed

lemma seg_stem:
  assumes "seg_plain s" "length (seg_name s) \<le> 200"
  shows "stem_ok (seg_file s)" "route_seg (seg_file s) = seg_src s" "seg_parse (seg_src s) = s" "seg_ok (seg_src s)"
    "seg_file s \<noteq> ''404''"
proof -
  have w: "word_ok (seg_name s)" and ne: "seg_name s \<noteq> []" using assms(1) by (simp_all add: seg_plain_def word_ok_def)
  note wc = word_chars [OF w]
  show "stem_ok (seg_file s)"
  proof (cases s)
    case (Seg_lit l)
    with wc have "CHR ''.'' \<notin> set l" "CHR ''/'' \<notin> set l" by simp_all
    with Seg_lit ne assms(1) show ?thesis
      by (auto simp: stem_ok_def method_suffix_none strip_c_none is_layout_name_def seg_plain_def)
  next
    case (Seg_param p)
    with wc bracket_stem [of p] show ?thesis by simp
  next
    case (Seg_catchall p)
    with wc bracket_stem [of "''...'' @ p"] show ?thesis by simp
  qed
  have len: "length (seg_name s) < 250" using assms(2) by simp
  have rs: "strip_c (CHR ''['' # t @ '']'') = CHR ''['' # t @ '']''" for t by (intro strip_c_last) simp
  show "route_seg (seg_file s) = seg_src s"
  proof (cases s)
    case (Seg_lit l)
    with ne obtain a as where l: "l = a # as" by (cases l) auto
    have "a \<noteq> CHR ''[''" "CHR ''.'' \<notin> set l" using wc [of "CHR ''[''"] wc [of "CHR ''.''"] Seg_lit l by auto
    moreover from this(2) have "drop k l \<noteq> ''.c''" for k by (metis in_set_dropD list.set_intros(1))
    moreover from calculation(2) have "l \<noteq> ''index.get''" by auto
    ultimately show ?thesis using Seg_lit l assms(1) by (auto simp: route_seg_def seg_plain_def char_at_def Let_def)
  next
    case (Seg_param p)
    have "drop k (p @ '']'') \<noteq> ''.c''" for k using drop_last [of "''.c''" k "p @ '']''"] by auto
    moreover have "char_at p 0 \<noteq> CHR ''.''" using Seg_param wc [of "CHR ''.''"] ne by (cases p) (auto simp: char_at_def)
    ultimately show ?thesis using Seg_param len ne
      by (cases p) (auto simp: route_seg_def char_at_def strip_bracket_def Let_def)
  next
    case (Seg_catchall p)
    moreover have "drop k (CHR ''.'' # p @ '']'') \<noteq> ''.c''" for k using drop_last [of "''.c''" k "CHR ''.'' # p @ '']''"] by auto
    ultimately show ?thesis using len by (simp add: route_seg_def char_at_def strip_bracket_def Let_def)
  qed
  show "seg_parse (seg_src s) = s"
    using ne wc [of "CHR '':''"] wc [of "CHR ''*''"] wc [of NUL]
    by (cases s; cases "seg_name s") (auto simp: seg_parse_def char_at_def)
  show "seg_ok (seg_src s)" using ne wc [of "CHR ''/''"] wc [of NUL] by (cases s) (auto simp: seg_ok_def)
  show "seg_file s \<noteq> ''404''" using assms(1) by (cases s) (auto simp: seg_plain_def)
qed

text \<open>The pattern of a file: directories with their own names and at most one segment for the file.\<close>

definition file_stem :: "cerco_rt_seg list \<Rightarrow> string" where
  "file_stem ss = (case ss of [] \<Rightarrow> ''index'' | s # _ \<Rightarrow> seg_file s)"

definition file_pattern :: "string list \<Rightarrow> cerco_rt_seg list \<Rightarrow> bool" where
  "file_pattern ds ss =
     (list_all word_ok ds \<and> length ss \<le> 1 \<and> list_all seg_plain ss \<and> length ds + length ss \<le> 24 \<and>
      length (join_slash (ds @ [file_stem ss @ ''.c''])) \<le> 143)"

lemma word_lit: "word_ok d \<Longrightarrow> seg_parse d = Seg_lit d \<and> seg_ok d"
  using word_chars [of d "CHR '':''"] word_chars [of d "CHR ''*''"] word_chars [of d "CHR ''/''"]
  by (cases d) (auto simp: seg_parse_def char_at_def seg_ok_def word_ok_def)

lemma route_entry_parse:
  assumes "file_pattern ds ss"
  shows "route_path (file_stem ss) (join_slash ds) (route_seg (file_stem ss)) = path_of (ds @ map seg_src ss)"
    "parse_segs (\<lambda>_. True) CERCO_RT_MAX_SEGS (skip_slash (path_of (ds @ map seg_src ss))) = Some (map Seg_lit ds @ ss)"
    "stem_ok (file_stem ss)"
proof -
  have lits: "map seg_parse ds = map Seg_lit ds" "list_all seg_ok ds"
    using assms word_lit by (auto simp: file_pattern_def list_all_iff)
  have len: "length (join_slash (ds @ [file_stem ss @ ''.c''])) \<le> 143" using assms by (simp add: file_pattern_def)
  have jl: "length (join_slash ds) + length (file_stem ss) \<le> 143"
    using len by (cases "ds = []") (simp_all add: join_slash_snoc)
  consider "ss = []" | s where "ss = [s]" "seg_plain s" using assms by (cases ss) (auto simp: file_pattern_def)
  then have "route_path (file_stem ss) (join_slash ds) (route_seg (file_stem ss)) = path_of (ds @ map seg_src ss) \<and>
    list_all seg_ok (map seg_src ss) \<and> map seg_parse (map seg_src ss) = ss \<and> stem_ok (file_stem ss)"
  proof cases
    case 1
    have "join_slash ds = [] \<longleftrightarrow> ds = []" using lits(2) by (cases ds rule: join_slash.cases) (auto simp: seg_ok_def)
    moreover have "stem_ok ''index''"
      by (simp add: stem_ok_def is_layout_name_def method_suffix_none strip_c_none)
    ultimately show ?thesis using 1 jl
      by (auto simp: file_stem_def route_path_def route_seg_def path_of_def)
  next
    case (2 s)
    have "length (seg_name s) \<le> 200" using jl 2 by (cases s) (simp_all add: file_stem_def)
    note st = seg_stem [OF 2(2) this]
    have ne: "seg_src s \<noteq> []" using st(4) by (simp add: seg_ok_def)
    have "length (seg_src s) \<le> length (seg_file s)" by (cases s) simp_all
    then have "fit 256 (''/'' @ join_slash ds @ (if join_slash ds \<noteq> [] then ''/'' else []) @ seg_src s) =
        ''/'' @ join_slash ds @ (if join_slash ds \<noteq> [] then ''/'' else []) @ seg_src s"
      using jl 2(1) by (intro fit_short) (simp add: file_stem_def)
    moreover have "join_slash ds = [] \<longleftrightarrow> ds = []" using lits(2) by (cases ds rule: join_slash.cases) (auto simp: seg_ok_def)
    ultimately have "route_path (seg_file s) (join_slash ds) (seg_src s) = path_of (ds @ [seg_src s])"
      using st(5) ne by (cases "ds = []") (simp_all add: route_path_def path_of_def join_slash_snoc)
    with 2 st show ?thesis by (simp add: file_stem_def)
  qed
  then show "route_path (file_stem ss) (join_slash ds) (route_seg (file_stem ss)) = path_of (ds @ map seg_src ss)"
    "parse_segs (\<lambda>_. True) CERCO_RT_MAX_SEGS (skip_slash (path_of (ds @ map seg_src ss))) = Some (map Seg_lit ds @ ss)"
    "stem_ok (file_stem ss)"
    using lits assms parse_segs_join [of "ds @ map seg_src ss" 24]
    by (simp_all add: CERCO_RT_MAX_SEGS_def path_of_def skip_slash_def char_at_def file_pattern_def)
qed

lemma file_route_found:
  assumes "file_pattern ds ss" "scan_ok b" "length (bs_routes b) < MAX_ROUTES"
  shows "\<exists>r. scan_cb (join_slash (ds @ [file_stem ss @ ''.c''])) False b = Some (b\<lparr>bs_routes := bs_routes b @ [r]\<rparr>) \<and>
    parse_route (\<lambda>_. True) (route_entry r fn) =
      Some \<lparr>rr_method = ''GET'', rr_orig_path = path_of (ds @ map seg_src ss), rr_segs = map Seg_lit ds @ ss, rr_fn = fn\<rparr>"
proof -
  note p = route_entry_parse [OF assms(1)]
  have len: "length (join_slash (ds @ [file_stem ss @ ''.c''])) \<le> 143" using assms(1) by (simp add: file_pattern_def)
  from scan_cb_stem [OF p(3) len assms(2,3)] show ?thesis
    using p(1,2) by (auto simp: parse_route_def route_entry_def)
qed

lemma inst_lits: "instantiate (map Seg_lit ds @ ss) vs = ds @ instantiate ss vs"
  "param_names (map Seg_lit ds @ ss) = param_names ss" "no_catchall (map Seg_lit ds @ ss) = no_catchall ss"
  by (induction ds) (simp_all add: no_catchall_def)

subsection \<open>Reading declarations back\<close>

fun join_with :: "char \<Rightarrow> string list \<Rightarrow> string" where
  "join_with sep [] = []"
| "join_with sep [t] = t"
| "join_with sep (t # ts) = t @ sep # join_with sep ts"

lemma strtok_join:
  "list_all (\<lambda>t. t \<noteq> [] \<and> sep \<notin> set t) ts \<Longrightarrow> strtok_all sep (join_with sep ts) = ts"
proof (induction sep ts rule: join_with.induct)
  case (1 sep)
  show ?case by (subst strtok_all.simps) simp
next
  case (2 sep t)
  then have "dropWhile (\<lambda>c. c = sep) t = t" "takeWhile (\<lambda>c. c \<noteq> sep) t = t" "dropWhile (\<lambda>c. c \<noteq> sep) t = []"
    by (cases t; auto)+
  moreover have "strtok_all sep [] = []" by (subst strtok_all.simps) simp
  ultimately show ?case using 2 by (subst strtok_all.simps) (simp add: Let_def del: dropWhile_eq_Nil_conv)
next
  case (3 sep t t' ts)
  let ?r = "sep # join_with sep (t' # ts)"
  have d: "dropWhile (\<lambda>c. c = sep) (t @ ?r) = t @ ?r" using 3(2) by (cases t) auto
  have e: "takeWhile (\<lambda>c. c \<noteq> sep) (t @ ?r) = t" "dropWhile (\<lambda>c. c \<noteq> sep) (t @ ?r) = ?r"
    using 3(2) by (auto simp: takeWhile_tail dropWhile_append3)
  have f: "strtok_all sep ?r = strtok_all sep (join_with sep (t' # ts))"
    by (subst (1 2) strtok_all.simps) simp
  show ?case using 3 d e f by (subst strtok_all.simps) (simp add: Let_def del: dropWhile_eq_Nil_conv)
qed

lemma trim_word: "word_ok t \<Longrightarrow> cli_trim t = t \<and> cli_trim (CHR '' '' # t) = t"
proof -
  assume w: "word_ok t"
  have nb: "\<not> is_blank c \<and> c \<noteq> CHR 0x0A" if "c \<in> set t" for c
    using that w by (auto simp: word_ok_def is_blank_def alnum_def in_range_def)
  have d: "dropWhile P s = s" if "\<And>c. c \<in> set s \<Longrightarrow> \<not> P c" for P and s :: string using that by (cases s) auto
  have "dropWhile is_blank t = t" using nb by (intro d) blast
  moreover have "dropWhile (\<lambda>c. is_blank c \<or> c = CHR 0x0A) (rev t) = rev t" using nb by (intro d) auto
  moreover have "is_blank CHR '' ''" by (simp add: is_blank_def)
  ultimately show ?thesis by (simp add: cli_trim_def)
qed

definition sf_type_name :: "char \<Rightarrow> string" where
  "sf_type_name c =
     (if c = CHR ''i'' then ''CERCO_I32'' else if c = CHR ''l'' then ''CERCO_I64'' else if c = CHR ''f'' then ''CERCO_F64''
      else if c = CHR ''b'' then ''CERCO_BOOL'' else if c = CHR ''s'' then ''CERCO_STR'' else ''CERCO_BYTES'')"

definition sf_types :: string where "sf_types = ''ilfbsy''"

text \<open>A declaration as the documentation writes it.\<close>

definition sf_tokens :: "nat \<Rightarrow> string \<Rightarrow> char \<Rightarrow> string \<Rightarrow> string list" where
  "sf_tokens i name ret args = dec i # map (Cons CHR '' '') (name # map sf_type_name (ret # args))"

definition sf_line :: "nat \<Rightarrow> string \<Rightarrow> char \<Rightarrow> string \<Rightarrow> string" where
  "sf_line i name ret args = ''CERCO_SF('' @ join_with CHR '','' (sf_tokens i name ret args) @ '')''"

lemma sf_type_name_ok: "c \<in> set sf_types \<Longrightarrow> sf_type_char (sf_type_name c) = c \<and> word_ok (sf_type_name c)"
proof -
  have "word_ok ''CERCO_I32''" "word_ok ''CERCO_I64''" "word_ok ''CERCO_F64''" "word_ok ''CERCO_BOOL''" "word_ok ''CERCO_STR''" "word_ok ''CERCO_BYTES''"
    by code_simp+
  moreover assume "c \<in> set sf_types"
  ultimately show ?thesis by (auto simp: sf_types_def sf_type_name_def sf_type_char_def)
qed

lemma word_dec: "word_ok (dec n)"
  using dec_digits [of n] by (auto simp: word_ok_def list_all_iff alnum_def is_digit_def)

lemma strtoul_dec: "i < 2 ^ 64 \<Longrightarrow> strtoul10 (dec i) = of_nat i"
proof -
  assume i: "i < 2 ^ 64"
  have d: "c \<in> set (dec i) \<Longrightarrow> is_digit c" for c using dec_digits [of i] by (simp add: list_all_iff)
  obtain a as where a: "dec i = a # as" by (cases "dec i") auto
  with d have "is_digit a" by simp
  then have "\<not> is_space a" "a \<noteq> CHR ''-''" "a \<noteq> CHR ''+''" by (auto simp: is_space_def is_digit_def in_range_def)
  moreover have "takeWhile is_digit (dec i) = dec i" using d by (simp add: takeWhile_eq_all_conv)
  ultimately show ?thesis using i dec_value_dec [of i] by (simp add: strtoul10_def a char_at_def Let_def)
qed

lemma sf_fields_args:
  "3 \<le> k \<Longrightarrow> list_all word_ok ts \<Longrightarrow> length (si_args sf) + length ts \<le> 16 \<Longrightarrow>
     fold (\<lambda>(i, tok). sf_field (Suc i) (cli_trim tok)) (enumerate k (map (Cons CHR '' '') ts)) sf =
     sf\<lparr>si_args := si_args sf @ map sf_type_char ts\<rparr>"
proof (induction ts arbitrary: k sf)
  case (Cons t ts)
  then have "sf_field (Suc k) (cli_trim (CHR '' '' # t)) sf = sf\<lparr>si_args := si_args sf @ [sf_type_char t]\<rparr>"
    by (simp add: sf_field_def trim_word)
  with Cons show ?case by simp
qed simp

lemma sf_decl_tokens:
  assumes "i < 2 ^ 32" "word_ok name" "length name < 128" "ret \<in> set sf_types" "set args \<subseteq> set sf_types" "length args \<le> 16"
  shows "sf_decl (join_with CHR '','' (sf_tokens i name ret args)) =
    Some \<lparr>si_id = of_nat i, si_name = name, si_method = ''POST'', si_ret = ret, si_args = args\<rparr>"
proof -
  have w: "list_all word_ok (map sf_type_name args)" "map (sf_type_char \<circ> sf_type_name) args = args"
    using assms(5) sf_type_name_ok by (auto simp: list_all_iff intro!: map_idI)
  have wc: "t \<noteq> [] \<and> CHR '','' \<notin> set t" if "word_ok t" for t
    using that by (auto simp: word_ok_def alnum_def in_range_def)
  have toks: "list_all (\<lambda>t. t \<noteq> [] \<and> CHR '','' \<notin> set t) (sf_tokens i name ret args)"
    using wc [OF word_dec] wc [OF assms(2)] wc sf_type_name_ok assms(4,5)
    by (auto simp: sf_tokens_def list_all_iff)
  have id: "ucast (strtoul10 (dec i)) = (of_nat i :: u32)"
    using assms(1) by (simp add: strtoul_dec unsigned_of_nat take_bit_nat_eq_self)
  have ret: "sf_type_char (sf_type_name ret) = ret" "ret \<noteq> CHR ''?''" "word_ok (sf_type_name ret)"
    using sf_type_name_ok [OF assms(4)] assms(4) by (auto simp: sf_types_def)
  show ?thesis
    using sf_fields_args [of 3 "map sf_type_name args" "\<lparr>si_id = of_nat i, si_name = name, si_method = ''POST'', si_ret = ret, si_args = []\<rparr>"]
      w assms(6) ret id trim_word [OF word_dec] trim_word [OF assms(2)] trim_word [OF ret(3)] assms(3)
    unfolding sf_decl_def strtok_join [OF toks]
    by (simp add: sf_tokens_def sf_field_def numeral_eq_Suc)
qed

lemma sf_body_line:
  assumes "length (join_with CHR '','' ts) < 512"
  shows "sf_body (''CERCO_SF('' @ join_with CHR '','' ts @ '')'') = Some (join_with CHR '','' ts)"
proof -
  have "\<not> is_blank CHR ''C''" "\<not> is_blank CHR '')''" by (simp_all add: is_blank_def)
  then have "cli_trim (''CERCO_SF('' @ join_with CHR '','' ts @ '')'') = ''CERCO_SF('' @ join_with CHR '','' ts @ '')''"
    by (simp add: cli_trim_def)
  moreover have "last_index_of CHR '')'' (join_with CHR '','' ts @ '')'') = Some (length (join_with CHR '','' ts))"
    by (rule last_index_append_none) simp
  ultimately show ?thesis using assms by (simp add: sf_body_def sf_prefix_def char_at_def)
qed

definition sf_wf :: "sf_info \<Rightarrow> bool" where
  "sf_wf sf =
     (word_ok (si_name sf) \<and> length (si_name sf) < 128 \<and> si_method sf = ''POST'' \<and> si_ret sf \<in> set sf_types \<and>
      set (si_args sf) \<subseteq> set sf_types \<and> length (si_args sf) \<le> 16)"

definition sf_text :: "sf_info \<Rightarrow> string" where
  "sf_text sf = sf_line (unat (si_id sf)) (si_name sf) (si_ret sf) (si_args sf)"

lemma sf_tokens_length:
  assumes "i < 2 ^ 32" "length name < 128" "length args \<le> 16"
  shows "length (join_with CHR '','' (sf_tokens i name ret args)) < 512"
proof -
  have tn: "length (sf_type_name c) \<le> 11" for c by (simp add: sf_type_name_def)
  have j: "length (join_with sep ts) \<le> sum_list (map (Suc \<circ> length) ts)" for sep and ts :: "string list"
    by (induction sep ts rule: join_with.induct) auto
  have "sum_list (map (Suc \<circ> length) (map (Cons CHR '' '') (map sf_type_name cs))) \<le> 13 * length cs" for cs
    using tn by (induction cs) (auto intro: add_mono le_trans)
  from this [of "ret # args"] j [of "CHR '',''" "sf_tokens i name ret args"] assms dec_length [of i 10]
  show ?thesis by (simp add: sf_tokens_def)
qed

lemma sf_text_line:
  assumes "sf_wf sf"
  shows "\<exists>body. sf_body (sf_text sf) = Some body \<and> sf_decl body = Some sf"
proof -
  have i: "unat (si_id sf) < 2 ^ 32" by (rule order_less_le_trans [OF unsigned_less]) simp
  with assms have "length (join_with CHR '','' (sf_tokens (unat (si_id sf)) (si_name sf) (si_ret sf) (si_args sf))) < 512"
    by (intro sf_tokens_length) (simp_all add: sf_wf_def)
  note sf_body_line [OF this]
  moreover have "sf_decl (join_with CHR '','' (sf_tokens (unat (si_id sf)) (si_name sf) (si_ret sf) (si_args sf))) = Some sf"
    using assms i by (subst sf_decl_tokens) (simp_all add: sf_wf_def)
  ultimately show ?thesis by (auto simp: sf_text_def sf_line_def)
qed

lemma scan_sf_texts:
  "list_all sf_wf sfs \<Longrightarrow> length acc + length sfs \<le> MAX_ROUTES \<Longrightarrow>
     scan_sf_lines (map sf_text sfs) acc = acc @ sfs"
proof (induction sfs arbitrary: acc)
  case (Cons sf sfs)
  then obtain body where "sf_body (sf_text sf) = Some body" "sf_decl body = Some sf" using sf_text_line by auto
  with Cons show ?case by simp
qed simp

subsection \<open>The table\<close>

definition scan_empty :: build_scan where
  "scan_empty = \<lparr>bs_routes = [], bs_layouts = [], bs_sfs = [], bs_components = []\<rparr>"

lemma scan_ok_empty: "scan_ok scan_empty"
  by (simp add: scan_ok_def scan_empty_def)

interpretation scan_sys: transition_system "\<lambda>b. b = scan_empty" "\<lambda>b b'. \<exists>rel is_dir. scan_cb rel is_dir b = Some b'" scan_ok
  by unfold_locales (auto simp: scan_ok_empty dest: scan_cb_ok)

lemma scan_files_reach: "scan_files es b = Some b' \<Longrightarrow> (\<lambda>b b'. \<exists>rel is_dir. scan_cb rel is_dir b = Some b')\<^sup>*\<^sup>* b b'"
proof (induction es b rule: scan_files.induct)
  case (2 rel full is_dir es b)
  then obtain b1 where "scan_cb rel is_dir b = Some b1" "scan_files es b1 = Some b'" by (auto split: Option.bind_splits)
  with 2 show ?case by (blast intro: converse_rtranclp_into_rtranclp)
qed simp

definition route_rows :: "build_scan \<Rightarrow> cerco_route_entry list" where
  "route_rows b = map (\<lambda>(i, r). route_entry r i) (enumerate 0 (bs_routes b))"

definition route_table :: "cli_fs \<Rightarrow> string \<Rightarrow> cerco_rt_route list option" where
  "route_table fs root =
     do { es \<leftarrow> walk_dir fs root; b \<leftarrow> scan_files es scan_empty; router_init lasts (route_rows b) }"

text \<open>A directory \<open>r\<close> with some files.\<close>

definition flat_dir :: "string list \<Rightarrow> cli_fs" where
  "flat_dir names =
     \<lparr>ft_list = (\<lambda>p. if p = ''r'' then Some names else None),
      ft_kind = (\<lambda>p. if p \<in> (\<lambda>n. ''r/'' @ n) ` set names then Some Is_reg else None), ft_read = (\<lambda>p. None)\<rparr>"

lemma walk_flat_todo:
  "\<forall>n \<in> set ns. n \<in> set names \<and> length n < 1000 \<Longrightarrow>
     walk_todo (flat_dir names) ''r'' (map (\<lambda>e. (e, fit 1024 e)) ns) = Some (map (\<lambda>n. (n, ''r/'' @ n, False)) ns)"
proof (induction ns)
  case Nil
  show ?case by (subst walk_todo.simps) simp
next
  case (Cons n ns)
  then have "ft_kind (flat_dir names) (''r/'' @ n) = Some Is_reg" by (simp add: flat_dir_def)
  with Cons show ?case by (subst walk_todo.simps) (simp add: Let_def)
qed

lemma walk_flat:
  assumes "\<forall>n \<in> set ns. n \<noteq> ''.'' \<and> n \<noteq> ''..'' \<and> length n < 1000"
  shows "walk_dir (flat_dir ns) ''r'' = Some (map (\<lambda>n. (n, ''r/'' @ n, False)) ns)"
proof -
  have "filter (\<lambda>e. e \<noteq> ''.'' \<and> e \<noteq> ''..'') ns = ns" using assms by (simp add: filter_id_conv)
  then have "dir_entries (flat_dir ns) ''r'' [] = map (\<lambda>e. (e, fit 1024 e)) ns"
    by (simp add: dir_entries_def flat_dir_def)
  then show ?thesis using walk_flat_todo [of ns ns] assms by (simp add: walk_dir_def)
qed

lemma two_routes:
  assumes "file_pattern [] [s1]" "file_pattern [] [s2]"
  shows "route_table (flat_dir [seg_file s1 @ ''.c'', seg_file s2 @ ''.c'']) ''r'' =
    Some [\<lparr>rr_method = ''GET'', rr_orig_path = path_of [seg_src s1], rr_segs = [s1], rr_fn = 0\<rparr>,
          \<lparr>rr_method = ''GET'', rr_orig_path = path_of [seg_src s2], rr_segs = [s2], rr_fn = 1\<rparr>]"
proof -
  have f: "file_stem [s1] = seg_file s1" "file_stem [s2] = seg_file s2" by (simp_all add: file_stem_def)
  have l: "length (seg_file s @ ''.c'') < 1000" "seg_file s @ ''.c'' \<noteq> ''.''" "seg_file s @ ''.c'' \<noteq> ''..''"
    if "file_pattern [] [s]" for s
    using that by (auto simp: file_pattern_def file_stem_def append_eq_Cons_conv)
  obtain r1 where r1: "scan_cb (seg_file s1 @ ''.c'') False scan_empty = Some (scan_empty\<lparr>bs_routes := [r1]\<rparr>)"
    "parse_route lasts (route_entry r1 0) = Some \<lparr>rr_method = ''GET'', rr_orig_path = path_of [seg_src s1], rr_segs = [s1], rr_fn = 0\<rparr>"
    using file_route_found [OF assms(1) scan_ok_empty, of 0] f by (auto simp: MAX_ROUTES_def scan_empty_def)
  let ?b1 = "scan_empty\<lparr>bs_routes := [r1]\<rparr>"
  obtain r2 where r2: "scan_cb (seg_file s2 @ ''.c'') False ?b1 = Some (?b1\<lparr>bs_routes := [r1, r2]\<rparr>)"
    "parse_route lasts (route_entry r2 1) = Some \<lparr>rr_method = ''GET'', rr_orig_path = path_of [seg_src s2], rr_segs = [s2], rr_fn = 1\<rparr>"
    using file_route_found [OF assms(2) scan_cb_ok [OF r1(1) scan_ok_empty], of 1] f by (auto simp: MAX_ROUTES_def)
  have "walk_dir (flat_dir [seg_file s1 @ ''.c'', seg_file s2 @ ''.c'']) ''r'' =
      Some [(seg_file s1 @ ''.c'', ''r/'' @ seg_file s1 @ ''.c'', False), (seg_file s2 @ ''.c'', ''r/'' @ seg_file s2 @ ''.c'', False)]"
    using l assms by (subst walk_flat) auto
  then show ?thesis using r1 r2 by (simp add: route_table_def route_rows_def)
qed

subsection \<open>Properties\<close>

text \<open>C12: Whatever files a project has, the scan collects at most 256 routes and 64 layouts; the routes have
  pairwise different symbols that are C identifiers, a known method and an absolute path, all within
  the arrays that hold them.\<close>

theorem scan_well_formed:
  assumes "scan_files es scan_empty = Some b"
  shows "distinct (map ri_symbol (bs_routes b)) \<and> length (bs_routes b) \<le> 256 \<and> length (bs_layouts b) \<le> 64 \<and>
    list_all route_ok (bs_routes b) \<and> list_all layout_ok (bs_layouts b)"
  using scan_sys.reachable_inv [OF scan_files_reach [OF assms]]
  by (simp add: scan_ok_def MAX_ROUTES_def MAX_LAYOUTS_def)

theorem scan_well_formed_witness:
  "\<exists>b. scan_files [(''[id].c'', ''r/[id].c'', False)] scan_empty = Some b \<and> distinct (map ri_symbol (bs_routes b)) \<and>
     length (bs_routes b) \<le> 256"
proof -
  obtain b where "scan_files [(''[id].c'', ''r/[id].c'', False)] scan_empty = Some b"
    using scan_files_returns [OF scan_ok_empty, of "[(''[id].c'', ''r/[id].c'', False)]"] by auto
  with scan_well_formed [OF this] show ?thesis by blast
qed

text \<open>C32: The scan of a project returns when no path below \<open>src/routes\<close> is longer than 143 characters.\<close>

theorem scan_returns:
  assumes "list_all (\<lambda>(rel, full, is_dir). length rel \<le> 143) es"
  shows "\<exists>b. scan_files es scan_empty = Some b"
  by (rule scan_files_returns [OF scan_ok_empty assms])

theorem scan_returns_witness:
  "\<exists>b. scan_files [(''users'', ''r/users'', True), (''users/[id].c'', ''r/users/[id].c'', False)] scan_empty = Some b"
  by (rule scan_returns) simp

text \<open>Two route files whose symbols agree in the first 159 characters hang the build: the suffix that
  should tell them apart is cut off, and the loop tries the same name forever.\<close>

theorem scan_diverges:
  assumes "147 \<le> m" "m \<le> 250" "147 \<le> n" "n \<le> 250"
  shows "scan_files [(long_name m, f, False), (long_name n, g, False)] scan_empty = None"
proof -
  note m = long_name_scan [OF assms(1,2)] and n = long_name_scan [OF assms(3,4)]
  let ?s = "''cerco_route_'' @ replicate 147 CHR ''a''"
  show ?thesis
  proof (cases "scan_cb (long_name m) False scan_empty")
    case (Some b)
    have "unique_symbol [] ?s 0 = Some ?s" by (subst unique_symbol.simps) (simp add: symbol_try_def)
    with Some m have "map ri_symbol (bs_routes b) = [?s]"
      by (auto simp: scan_cb_def Let_def scan_empty_def MAX_ROUTES_def)
    moreover from this have "length (bs_routes b) = 1" by (metis length_map length_Cons list.size(3) One_nat_def)
    ultimately have "scan_cb (long_name n) False b = None"
      using n by (intro scan_cb_stuck [OF n(1-4)]) (simp_all add: MAX_ROUTES_def)
    with Some show ?thesis by simp
  qed simp
qed

theorem scan_diverges_witness:
  "scan_files [(long_name 150, ''r/a'', False), (long_name 151, ''r/b'', False)] scan_empty = None"
  by (rule scan_diverges) simp_all

text \<open>The layouts around a page are those of its directory and of all directories above it, outermost
  first.\<close>

theorem layout_chain_spec:
  assumes "dir_names ds" "length ds < 64" "list_all layout_ok ls"
  shows "layout_chain ls (join_slash ds) = concat (map (\<lambda>k. layouts_at ls (join_slash (take k ds))) [0..<length ds + 1])"
  by (rule layout_chain_of [OF assms])

theorem layout_chain_spec_witness:
  "layout_chain [\<lparr>li_dir = ''a/b'', li_symbol = ''lb''\<rparr>, \<lparr>li_dir = [], li_symbol = ''lroot''\<rparr>] ''a/b'' = [''lroot'', ''lb'']"
proof -
  let ?ls = "[\<lparr>li_dir = ''a/b'', li_symbol = ''lb''\<rparr>, \<lparr>li_dir = [], li_symbol = ''lroot''\<rparr>]"
  have "list_all layout_ok ?ls" by (simp add: layout_ok_def ident_char_def alnum_def in_range_def)
  from layout_chain_spec [OF _ _ this, of "[''a'', ''b'']"] show ?thesis
    by (simp add: dir_names_def upt_rec layouts_at_def find_layout_def)
qed



text \<open>Which of two matching routes wins is decided by the order in which the directory lists the files:
  with \<open>[id].c\<close> listed before \<open>new.c\<close>, a request for \<open>/new\<close> runs the parameter route.\<close>

theorem readdir_order_decides:
  "\<exists>rt1 rt2. route_table (flat_dir [''[id].c'', ''new.c'']) ''r'' = Some rt1 \<and> map rr_orig_path rt1 = [''/:id'', ''/new''] \<and>
    route_table (flat_dir [''new.c'', ''[id].c'']) ''r'' = Some rt2 \<and> map rr_orig_path rt2 = [''/new'', ''/:id''] \<and>
    fst (snd (router_find lasts rt1 (req_zero\<lparr>rq_method := Some ''GET'', rq_path := Some ''/new''\<rparr>))) = Some 0 \<and>
    fst (snd (router_find lasts rt2 (req_zero\<lparr>rq_method := Some ''GET'', rq_path := Some ''/new''\<rparr>))) = Some 0"
proof -
  have w: "word_ok ''new''" "word_ok ''id''" by code_simp+
  have f: "file_pattern [] [Seg_param ''id'']" "file_pattern [] [Seg_lit ''new'']"
    using w by (simp_all add: file_pattern_def seg_plain_def file_stem_def)
  show ?thesis
    using two_routes [OF f] two_routes [OF f(2,1)]
    by (simp add: path_of_def router_find_def cerco_path_def cerco_method_def split_path_def skip_slash_def char_at_def
        numeral_eq_Suc seg_eq_def method_ok_def)
qed

text \<open>The declarations of server functions are read back as they were written: up to 256 functions with
  at most 16 arguments each, in order, with their ids, names and types.\<close>

theorem sf_declarations_roundtrip:
  assumes "list_all sf_wf sfs" "length sfs \<le> 256"
  shows "scan_sf_lines (map sf_text sfs) [] = sfs"
  using scan_sf_texts [OF assms(1), of "[]"] assms(2) by (simp add: MAX_ROUTES_def)

theorem sf_declarations_roundtrip_witness:
  "scan_sf_lines [''CERCO_SF(1, add, CERCO_I32, CERCO_I32, CERCO_I32)''] [] =
     [\<lparr>si_id = 1, si_name = ''add'', si_method = ''POST'', si_ret = CHR ''i'', si_args = ''ii''\<rparr>]"
proof -
  let ?sf = "\<lparr>si_id = 1, si_name = ''add'', si_method = ''POST'', si_ret = CHR ''i'', si_args = ''ii''\<rparr>"
  have "word_ok ''add''" by code_simp
  then have "sf_wf ?sf" by (simp add: sf_wf_def sf_types_def)
  moreover have "sf_text ?sf = ''CERCO_SF(1, add, CERCO_I32, CERCO_I32, CERCO_I32)''"
    by (simp add: sf_text_def sf_line_def sf_tokens_def sf_type_name_def dec.simps)
  ultimately show ?thesis using sf_declarations_roundtrip [of "[?sf]"] by (simp del: scan_sf_lines.simps)
qed

end
