(* ===== verification/Cli_Gen.thy ===== *)
theory Cli_Gen
  imports Cli_Routes Staticfiles
begin

text \<open>
  The generated sources of \<open>cli/build.c\<close>: the route table with its layout wrappers, the program's
  \<open>main\<close>, the adapters of server functions on both sides, the component registry and the embedded
  assets. Each \<open>gen_\<close> function is the text the code writes to its memory stream.
\<close>

abbreviation nl :: string where "nl \<equiv> [CHR 0x0A]"
abbreviation qt :: string where "qt \<equiv> [CHR 0x22]"

definition quoted :: "string \<Rightarrow> string" where
  "quoted s = qt @ s @ qt"

definition gen_banner :: string where
  "gen_banner = ''/* generated by cerco '' @ [CHR 0xE2, CHR 0x80, CHR 0x94] @ '' do not edit */'' @ nl"

definition gen_include :: "string \<Rightarrow> string" where
  "gen_include h = ''#include '' @ quoted h @ nl"

subsection \<open>Routes\<close>

text \<open>The functions of the table: a page, or level \<open>k\<close> of the wrappers of route \<open>i\<close>.\<close>

datatype page_fn = Page_fn nat | Chain_fn nat nat

fun fn_name :: "page_fn \<Rightarrow> string" where
  "fn_name (Page_fn i) = ''page_'' @ dec i"
| "fn_name (Chain_fn i k) = ''chain_'' @ dec i @ ''_l'' @ dec k"

text \<open>The wrappers of a route in the order they are written: innermost layout first.\<close>

definition chain_wrappers :: "nat \<Rightarrow> string list \<Rightarrow> (page_fn \<times> string \<times> page_fn) list" where
  "chain_wrappers i lays =
     map (\<lambda>k. let level = length lays - k + 1
               in (Chain_fn i level, lays ! (k - 1), if level = 1 then Page_fn i else Chain_fn i (level - 1)))
         (rev [1..<length lays + 1])"

definition wrapper_text :: "page_fn \<times> string \<times> page_fn \<Rightarrow> string" where
  "wrapper_text w = (case w of (f, l, g) \<Rightarrow>
     ''static void '' @ fn_name f @ ''(cerco_req *r) { '' @ l @ ''(r, '' @ fn_name g @ ''); }'' @ nl)"

definition page_text :: "nat \<Rightarrow> route_info \<Rightarrow> string" where
  "page_text i r =
     ''static void '' @ fn_name (Page_fn i) @ ''(cerco_req *r) {'' @ nl @
     ''  cerco_raw(r, '' @ quoted ''<!--cerco:page-->'' @ '');'' @ nl @
     ''  '' @ ri_symbol r @ ''(r);'' @ nl @
     ''  cerco_raw(r, '' @ quoted ''<!--cerco:/page-->'' @ '');'' @ nl @
     ''}'' @ nl"

definition table_fn :: "nat \<Rightarrow> route_info \<Rightarrow> page_fn" where
  "table_fn i r = (if ri_layouts r \<noteq> [] then Chain_fn i (length (ri_layouts r)) else Page_fn i)"

definition gen_routes :: "build_scan \<Rightarrow> string" where
  "gen_routes b =
     gen_banner @ gen_include ''cerco.h'' @ nl @
     concat (map (\<lambda>r. ''extern void '' @ ri_symbol r @ ''(cerco_req *r);'' @ nl) (bs_routes b)) @
     concat (map (\<lambda>l. ''extern void '' @ li_symbol l @ ''(cerco_req *r, void (*children)(cerco_req *));'' @ nl) (bs_layouts b)) @
     nl @
     concat (map (\<lambda>(i, r). page_text i r @ concat (map wrapper_text (chain_wrappers i (ri_layouts r)))) (enumerate 0 (bs_routes b))) @
     nl @ ''const cerco_route_entry cerco_routes_table[] = {'' @ nl @
     concat (map (\<lambda>(i, r). ''  { '' @ quoted (ri_method r) @ '', '' @ quoted (ri_path r) @ '', '' @ fn_name (table_fn i r) @ '' },'' @ nl)
       (enumerate 0 (bs_routes b))) @
     ''};'' @ nl @
     ''const unsigned long cerco_routes_count = '' @ dec (length (bs_routes b)) @ '';'' @ nl @
     ''const cerco_layout_fn cerco_root_layout_sym = '' @
     (case find_layout (bs_layouts b) [] of Some s \<Rightarrow> if s \<noteq> [] then s else ''0'' | None \<Rightarrow> ''0'') @ '';'' @ nl"

subsection \<open>Main\<close>

definition gen_main :: "string \<Rightarrow> string" where
  "gen_main name =
     gen_banner @ gen_include ''cerco.h'' @ nl @
     ''extern const cerco_route_entry cerco_routes_table[];'' @ nl @
     ''extern const unsigned long cerco_routes_count;'' @ nl @
     ''extern const cerco_sf_entry cerco_sfs_table[];'' @ nl @
     ''extern const unsigned long cerco_sfs_count;'' @ nl @
     ''extern const cerco_asset_entry cerco_assets_table[];'' @ nl @
     ''extern const unsigned long cerco_assets_count;'' @ nl @
     ''extern const cerco_layout_fn cerco_root_layout_sym;'' @ nl @ nl @
     ''int main(int argc, char **argv) {'' @ nl @
     ''  cerco_app app;'' @ nl @
     ''  app.name = '' @ quoted name @ '';'' @ nl @
     ''  app.routes = cerco_routes_table;'' @ nl @
     ''  app.n_routes = cerco_routes_count;'' @ nl @
     ''  app.root_layout = cerco_root_layout_sym;'' @ nl @
     ''  app.sfs = cerco_sfs_table;'' @ nl @
     ''  app.n_sfs = cerco_sfs_count;'' @ nl @
     ''  app.assets = cerco_assets_table;'' @ nl @
     ''  app.n_assets = cerco_assets_count;'' @ nl @
     ''  return cerco_serve(&app, argc, argv);'' @ nl @
     ''}'' @ nl"

subsection \<open>Server functions\<close>

definition ctype_for :: "char \<Rightarrow> string" where
  "ctype_for t =
     (if t = CHR ''i'' then ''int32_t'' else if t = CHR ''l'' then ''int64_t'' else if t = CHR ''f'' then ''double''
      else if t = CHR ''b'' then ''uint8_t'' else if t = CHR ''s'' then ''const char *''
      else if t = CHR ''y'' then ''cerco_bytes'' else ''int32_t'')"

definition sf_extern :: "sf_info \<Rightarrow> string" where
  "sf_extern sf =
     ''extern '' @ ctype_for (si_ret sf) @ '' sf_'' @ si_name sf @ ''(cerco_sf_ctx *ctx'' @
     concat (map (\<lambda>(a, t). '', '' @ ctype_for t @ '' a'' @ dec a) (enumerate 0 (si_args sf))) @ '');'' @ nl"

definition ret_code :: "char \<Rightarrow> nat" where
  "ret_code t =
     (if t = CHR ''i'' then 0 else if t = CHR ''l'' then 1 else if t = CHR ''f'' then 2
      else if t = CHR ''b'' then 3 else if t = CHR ''s'' then 4 else 5)"

definition ret_field :: "char \<Rightarrow> string" where
  "ret_field t =
     (if t = CHR ''y'' then ''ctx->ret_bytes = ''
      else ''ctx->ret_'' @
        (if t = CHR ''i'' then ''i32'' else if t = CHR ''l'' then ''i64'' else if t = CHR ''f'' then ''f64''
         else if t = CHR ''b'' then ''bool'' else ''str'') @ '' = '')"

text \<open>The declaration and check of argument \<open>a\<close>, and the expression that passes it.\<close>

definition arg_check :: "nat \<Rightarrow> char \<Rightarrow> string" where
  "arg_check a t =
     ''  cerco_wval v'' @ dec a @ '';'' @ nl @
     ''  if (!sf_arg_of_type(ctx, '' @ [CHR 0x27, t, CHR 0x27] @ '', &v'' @ dec a @ '')) { ctx->reader.err = 1; return; }'' @ nl"

definition arg_expr :: "nat \<Rightarrow> char \<Rightarrow> string" where
  "arg_expr a t =
     (let v = ''v'' @ dec a in
      if t = CHR ''s'' then v @ ''.bytes.data ? (const char *)'' @ v @ ''.bytes.data : '' @ qt @ qt
      else if t = CHR ''y'' then ''*(cerco_bytes *)&'' @ v @ ''.bytes''
      else if t = CHR ''i'' then v @ ''.as.i32'' else if t = CHR ''l'' then v @ ''.as.i64''
      else if t = CHR ''f'' then v @ ''.as.f64'' else v @ ''.as.b'')"

definition sf_adapter_text :: "sf_info \<Rightarrow> string" where
  "sf_adapter_text sf =
     ''static void sf_call_'' @ dec (unat (si_id sf)) @ ''(cerco_req *req, cerco_sf_ctx *ctx) {'' @ nl @
     ''  (void)req;'' @ nl @
     concat (map (\<lambda>(a, t). arg_check a t) (enumerate 0 (si_args sf))) @
     ''  ctx->ret_type = '' @ dec (ret_code (si_ret sf)) @ '';'' @ nl @
     ''  '' @ ret_field (si_ret sf) @ ''sf_'' @ si_name sf @ ''(ctx'' @
     concat (map (\<lambda>(a, t). '', '' @ arg_expr a t) (enumerate 0 (si_args sf))) @ '');'' @ nl @ ''}'' @ nl"

definition gen_sf_server :: "build_scan \<Rightarrow> string" where
  "gen_sf_server b =
     gen_banner @ gen_include ''internal.h'' @ gen_include ''cerco.h'' @ nl @
     concat (map sf_extern (bs_sfs b)) @ nl @
     concat (map sf_adapter_text (bs_sfs b)) @
     nl @ ''const cerco_sf_entry cerco_sfs_table[] = {'' @ nl @
     concat (map (\<lambda>sf. ''  { '' @ dec (unat (si_id sf)) @ '', '' @ quoted (si_method sf) @ '', '' @ quoted (si_name sf) @
       '', sf_call_'' @ dec (unat (si_id sf)) @ '' },'' @ nl) (bs_sfs b)) @
     ''};'' @ nl @ ''const unsigned long cerco_sfs_count = '' @ dec (length (bs_sfs b)) @ '';'' @ nl"

definition gen_sf_proto :: "sf_info \<Rightarrow> string" where
  "gen_sf_proto sf =
     ''void cerco_sf_'' @ si_name sf @ ''('' @
     concat (map (\<lambda>(a, t). ctype_for t @ '' a'' @ dec a @ '', '') (enumerate 0 (si_args sf))) @
     (let t = si_ret sf in
      if t = CHR ''i'' \<or> t = CHR ''b'' then ''cerco_sf_cb_i32 cb, void *user)''
      else if t = CHR ''l'' then ''cerco_sf_cb_i64 cb, void *user)''
      else if t = CHR ''f'' then ''cerco_sf_cb_f64 cb, void *user)''
      else if t = CHR ''s'' then ''cerco_sf_cb_str cb, void *user)''
      else if t = CHR ''y'' then ''cerco_sf_cb_bytes cb, void *user)''
      else [])"

definition client_arg_text :: "nat \<Rightarrow> char \<Rightarrow> string" where
  "client_arg_text a t =
     (let call = (\<lambda>f. ''  cerco_sf_arg_'' @ f @ ''(a'' @ dec a @ '');'' @ nl) in
      if t = CHR ''i'' then call ''i32'' else if t = CHR ''l'' then call ''i64'' else if t = CHR ''f'' then call ''f64''
      else if t = CHR ''b'' then call ''bool'' else if t = CHR ''s'' then call ''str''
      else if t = CHR ''y'' then ''  cerco_sf_arg_bytes(a'' @ dec a @ ''.data, (int32_t)a'' @ dec a @ ''.len);'' @ nl
      else [])"

definition client_submit_text :: "char \<Rightarrow> string" where
  "client_submit_text t =
     (let call = (\<lambda>f. ''  cerco_sf_submit_'' @ f @ ''((void *)cb, user);'' @ nl @ ''}'' @ nl @ nl) in
      if t = CHR ''i'' then call ''i32'' else if t = CHR ''b'' then call ''bool'' else if t = CHR ''l'' then call ''i64''
      else if t = CHR ''f'' then call ''f64'' else if t = CHR ''s'' then call ''str''
      else if t = CHR ''y'' then call ''bytes'' else [])"

definition gen_sf_client_h :: "build_scan \<Rightarrow> string" where
  "gen_sf_client_h b =
     gen_banner @ gen_include ''cerco_client.h'' @ nl @ concat (map (\<lambda>sf. gen_sf_proto sf @ '';'' @ nl) (bs_sfs b))"

definition gen_sf_client_c :: "build_scan \<Rightarrow> string" where
  "gen_sf_client_c b =
     gen_banner @ gen_include ''cerco_client.h'' @ gen_include ''sf_client.h'' @ nl @
     concat (map (\<lambda>sf. gen_sf_proto sf @ '' {'' @ nl @
       ''  cerco_sf_begin('' @ dec (unat (si_id sf)) @ '', '' @ dec (length (si_args sf)) @ '');'' @ nl @
       concat (map (\<lambda>(a, t). client_arg_text a t) (enumerate 0 (si_args sf))) @
       client_submit_text (si_ret sf)) (bs_sfs b))"

subsection \<open>Components and assets\<close>

definition gen_components :: "build_scan \<Rightarrow> string" where
  "gen_components b =
     gen_banner @ gen_include ''cerco_client.h'' @ nl @
     concat (map (\<lambda>n. ''extern void cerco_component_'' @ n @ ''(int32_t root, const char *props);'' @ nl) (bs_components b)) @
     nl @ ''const cerco_component cerco_components_table[] = {'' @ nl @
     concat (map (\<lambda>n. ''  { '' @ quoted n @ '', cerco_component_'' @ n @ '' },'' @ nl) (bs_components b)) @
     ''};'' @ nl @ ''const uint32_t cerco_components_count = '' @ dec (length (bs_components b)) @ '';'' @ nl"

record asset_meta =
  am_rel :: string
  am_etag :: string
  am_len :: nat

text \<open>The bytes of a file as decimal numbers, 24 to a line.\<close>

definition asset_bytes_text :: "nat \<Rightarrow> string \<Rightarrow> string" where
  "asset_bytes_text n data =
     ''static const unsigned char asset_bytes_'' @ dec n @ ''[] = {'' @ nl @
     concat (map (\<lambda>(i, c). dec (ccode c) @ '','' @ (if (i + 1) mod 24 = 0 then nl else [])) (enumerate 0 data)) @
     nl @ ''};'' @ nl"

definition asset_etag :: "string \<Rightarrow> string" where
  "asset_etag data =
     (case cerco_sha256 (to_bytes data) of
        None \<Rightarrow> []
      | Some digest \<Rightarrow> concat (map (\<lambda>b. [hexd ! unat (drop_bit 4 b), hexd ! unat (b AND 0xf)]) (take 16 digest)))"

definition gen_assets_cb ::
  "cli_fs \<Rightarrow> string \<Rightarrow> string \<Rightarrow> string \<Rightarrow> bool \<Rightarrow> string \<times> asset_meta list \<Rightarrow> string \<times> asset_meta list" where
  "gen_assets_cb fs name rel full is_dir acc =
     (case acc of (out, metas) \<Rightarrow>
        if is_dir \<or> rel = name \<or> length metas \<ge> 128 then acc
        else case ft_read fs full of
          None \<Rightarrow> acc
        | Some data \<Rightarrow> (out @ asset_bytes_text (length metas) data,
            metas @ [\<lparr>am_rel = fit 512 rel, am_etag = fit 64 (asset_etag data), am_len = length data\<rparr>]))"

definition gen_assets_head :: string where
  "gen_assets_head = gen_banner @ gen_include ''cerco.h'' @ nl @ ''#include <stddef.h>'' @ nl @ nl"

definition gen_assets_table :: "asset_meta list \<Rightarrow> string" where
  "gen_assets_table metas =
     nl @ ''const cerco_asset_entry cerco_assets_table[] = {'' @ nl @
     concat (map (\<lambda>(i, m). ''  { '' @ quoted (CHR ''/'' # am_rel m) @ '', '' @ quoted (cerco_mime_from_ext (am_rel m)) @ '', '' @
       quoted (am_etag m) @ '', asset_bytes_'' @ dec i @ '', '' @ dec (am_len m) @ '' },'' @ nl) (enumerate 0 metas)) @
     ''};'' @ nl @ ''const unsigned long cerco_assets_count = '' @ dec (length metas) @ '';'' @ nl"

definition gen_assets :: "cli_fs \<Rightarrow> string \<Rightarrow> string \<Rightarrow> bool \<Rightarrow> string option" where
  "gen_assets fs name distdir dev_assets =
     (if \<not> dev_assets then
        do {
          es \<leftarrow> walk_dir fs distdir;
          let (out, metas) = fold (\<lambda>(rel, full, is_dir). gen_assets_cb fs name rel full is_dir) es ([], []);
          Some (gen_assets_head @ out @ gen_assets_table metas)
        }
      else Some (gen_assets_head @ ''const cerco_asset_entry cerco_assets_table[] = { {0,0,0,0,0} };'' @ nl @
        ''const unsigned long cerco_assets_count = 0;'' @ nl))"

text \<open>\<open>write_if_changed\<close>: whether the file is written.\<close>

definition write_if_changed :: "cli_fs \<Rightarrow> string \<Rightarrow> string \<Rightarrow> bool" where
  "write_if_changed fs path data = (ft_read fs path \<noteq> Some data)"

end
