(* ===== verification/Cli_Stubs.thy ===== *)
theory Cli_Stubs
  imports Cli_Gen Client_Sf
begin

text \<open>
  What the sources written by \<open>cli/build.c\<close> do when they run: the layout wrappers of the route
  table, the client stub of a server function and the adapter that calls the function on the
  server. The user's functions are parameters. Together with \<open>runtime/client/sf.c\<close> and
  \<open>runtime/server/sf.c\<close> they carry a call from a component to the function.
\<close>

subsection \<open>The wrappers of a route\<close>

text \<open>A page between its markers.\<close>

definition page_run :: "(nat \<Rightarrow> bool) \<Rightarrow> (string \<Rightarrow> cerco_req \<Rightarrow> cerco_req) \<Rightarrow> route_info \<Rightarrow> cerco_req \<Rightarrow> cerco_req" where
  "page_run al pages r = cerco_raw al ''<!--cerco:/page-->'' \<circ> pages (ri_symbol r) \<circ> cerco_raw al ''<!--cerco:page-->''"

text \<open>
  The static functions of the file in the order of their definitions; each wrapper hands the
  function it names to its layout. A name that is not defined yet does not compile (\<open>None\<close>).
\<close>

type_synonym layouts_run = "string \<Rightarrow> (cerco_req \<Rightarrow> cerco_req) \<Rightarrow> cerco_req \<Rightarrow> cerco_req"

fun declare_wrappers ::
  "layouts_run \<Rightarrow> (page_fn \<times> string \<times> page_fn) list \<Rightarrow> (page_fn \<rightharpoonup> (cerco_req \<Rightarrow> cerco_req)) \<Rightarrow>
     (page_fn \<rightharpoonup> (cerco_req \<Rightarrow> cerco_req)) option" where
  "declare_wrappers lay [] env = Some env"
| "declare_wrappers lay ((f, l, g) # ws) env =
     (case env g of None \<Rightarrow> None | Some h \<Rightarrow> declare_wrappers lay ws (env(f \<mapsto> lay l h)))"

fun declare_routes ::
  "(nat \<Rightarrow> bool) \<Rightarrow> (string \<Rightarrow> cerco_req \<Rightarrow> cerco_req) \<Rightarrow> layouts_run \<Rightarrow> (nat \<times> route_info) list \<Rightarrow>
     (page_fn \<rightharpoonup> (cerco_req \<Rightarrow> cerco_req)) \<Rightarrow> (page_fn \<rightharpoonup> (cerco_req \<Rightarrow> cerco_req)) option" where
  "declare_routes al pages lay [] env = Some env"
| "declare_routes al pages lay ((i, r) # rs) env =
     (case declare_wrappers lay (chain_wrappers i (ri_layouts r)) (env(Page_fn i \<mapsto> page_run al pages r)) of
        None \<Rightarrow> None
      | Some env' \<Rightarrow> declare_routes al pages lay rs env')"

text \<open>The function of entry \<open>i\<close> of \<open>cerco_routes_table\<close>.\<close>

definition routes_table_fn ::
  "(nat \<Rightarrow> bool) \<Rightarrow> (string \<Rightarrow> cerco_req \<Rightarrow> cerco_req) \<Rightarrow> layouts_run \<Rightarrow> build_scan \<Rightarrow> nat \<Rightarrow>
     (cerco_req \<Rightarrow> cerco_req) option" where
  "routes_table_fn al pages lay b i =
     (case declare_routes al pages lay (enumerate 0 (bs_routes b)) Map.empty of
        None \<Rightarrow> None
      | Some env \<Rightarrow> env (table_fn i (bs_routes b ! i)))"

subsection \<open>Client stubs\<close>

text \<open>A value of one of the C types of server functions; a string may be a null pointer.\<close>

datatype c_val =
    C_i32 u32
  | C_i64 u64
  | C_f64 u64
  | C_bool byte
  | C_str "string option"
  | C_bytes "byte list"

fun c_type :: "c_val \<Rightarrow> char" where
  "c_type (C_i32 v) = CHR ''i''"
| "c_type (C_i64 v) = CHR ''l''"
| "c_type (C_f64 v) = CHR ''f''"
| "c_type (C_bool v) = CHR ''b''"
| "c_type (C_str v) = CHR ''s''"
| "c_type (C_bytes v) = CHR ''y''"

text \<open>The statement of the stub for one argument.\<close>

fun client_arg :: "c_val \<Rightarrow> 'a sf_client_scheme \<Rightarrow> 'a sf_client_scheme" where
  "client_arg (C_i32 v) = cerco_sf_arg_i32 v"
| "client_arg (C_i64 v) = cerco_sf_arg_i64 v"
| "client_arg (C_f64 v) = cerco_sf_arg_f64 v"
| "client_arg (C_bool v) = cerco_sf_arg_bool (ucast v)"
| "client_arg (C_str s) = cerco_sf_arg_str s"
| "client_arg (C_bytes d) = cerco_sf_arg_bytes d (sint (of_nat (length d) :: u32))"

text \<open>The type \<open>cerco_sf_submit_<type>\<close> asks for.\<close>

definition submit_want :: "char \<Rightarrow> byte" where
  "submit_want t =
     (if t = CHR ''i'' then 0 else if t = CHR ''b'' then 3 else if t = CHR ''l'' then 1
      else if t = CHR ''f'' then 2 else if t = CHR ''s'' then 4 else 5)"

definition client_stub ::
  "(nat \<Rightarrow> bool) \<Rightarrow> u32 \<Rightarrow> sf_info \<Rightarrow> c_val list \<Rightarrow> u32 \<Rightarrow> u32 \<Rightarrow> 'a sf_client_scheme \<Rightarrow> 'a sf_client_scheme" where
  "client_stub grow fn sf args cb user c =
     cerco_sf_submit_raw grow fn cb user (submit_want (si_ret sf))
       (fold client_arg args (cerco_sf_begin grow (si_id sf) (of_nat (length (si_args sf))) c))"

subsection \<open>Server adapters\<close>

text \<open>
  The argument the adapter passes for a value read. A string is passed as a pointer into the
  request body; the function sees the bytes from there to the first zero, beyond the value and, at
  the end of the body, beyond the body: \<open>after\<close> is the memory behind it.
\<close>

definition arg_passed :: "char \<Rightarrow> byte list \<Rightarrow> cerco_wval \<Rightarrow> cerco_wreader \<Rightarrow> c_val" where
  "arg_passed t after v rd =
     (if t = CHR ''s'' then C_str (Some (cstr (of_bytes (drop (wr_pos rd - length (wv_bytes v)) (wr_p rd) @ after))))
      else if t = CHR ''y'' then C_bytes (wv_bytes v)
      else if t = CHR ''i'' then C_i32 (as_i32 v)
      else if t = CHR ''l'' then C_i64 (wv_as v)
      else if t = CHR ''f'' then C_f64 (wv_as v)
      else C_bool (as_b v))"

fun take_args :: "byte list \<Rightarrow> string \<Rightarrow> cerco_sf_ctx \<Rightarrow> c_val list option \<times> cerco_sf_ctx" where
  "take_args after [] ctx = (Some [], ctx)"
| "take_args after (t # ts) ctx =
     (case sf_arg_of_type t ctx of
        (None, ctx1) \<Rightarrow> (None, ctx1\<lparr>sx_reader := (sx_reader ctx1)\<lparr>wr_err := True\<rparr>\<rparr>)
      | (Some v, ctx1) \<Rightarrow>
          (case take_args after ts ctx1 of
             (None, ctx2) \<Rightarrow> (None, ctx2)
           | (Some args, ctx2) \<Rightarrow> (Some (arg_passed t after v (sx_reader ctx1) # args), ctx2)))"

fun store_ret :: "c_val \<Rightarrow> cerco_sf_ctx \<Rightarrow> cerco_sf_ctx" where
  "store_ret (C_i32 v) ctx = ctx\<lparr>sx_ret_i32 := v\<rparr>"
| "store_ret (C_i64 v) ctx = ctx\<lparr>sx_ret_i64 := v\<rparr>"
| "store_ret (C_f64 v) ctx = ctx\<lparr>sx_ret_f64 := v\<rparr>"
| "store_ret (C_bool v) ctx = ctx\<lparr>sx_ret_bool := v\<rparr>"
| "store_ret (C_str s) ctx = ctx\<lparr>sx_ret_str := s\<rparr>"
| "store_ret (C_bytes d) ctx = ctx\<lparr>sx_ret_bytes := d\<rparr>"

text \<open>\<open>f\<close> is the user's function: its result and, when it called \<open>cerco_sf_fail\<close>, the message.\<close>

definition sf_adapter ::
  "sf_info \<Rightarrow> (c_val list \<Rightarrow> c_val \<times> string option option) \<Rightarrow> byte list \<Rightarrow> cerco_req \<Rightarrow> cerco_sf_ctx \<Rightarrow>
     cerco_req \<times> cerco_sf_ctx" where
  "sf_adapter sf f after req ctx =
     (case take_args after (si_args sf) ctx of
        (None, ctx1) \<Rightarrow> (req, ctx1)
      | (Some args, ctx1) \<Rightarrow>
          (let ctx2 = ctx1\<lparr>sx_ret_type := of_nat (ret_code (si_ret sf))\<rparr>; (v, failed) = f args
           in (req, store_ret v (case failed of None \<Rightarrow> ctx2 | Some m \<Rightarrow> cerco_sf_fail m ctx2))))"

subsection \<open>The wrappers nest the layouts\<close>

lemma chain_wrappers_levels:
  "chain_wrappers i lays = map (\<lambda>lev. (Chain_fn i lev, lays ! (length lays - lev),
     if lev = 1 then Page_fn i else Chain_fn i (lev - 1))) [1..<length lays + 1]"
  by (rule nth_equalityI) (auto simp: chain_wrappers_def rev_nth Let_def simp del: upt_Suc)

lemma declare_wrappers_append:
  "declare_wrappers lay (xs @ ys) env = Option.bind (declare_wrappers lay xs env) (declare_wrappers lay ys)"
proof (induction xs arbitrary: env)
  case (Cons w ws)
  obtain f l g where "w = (f, l, g)" by (cases w)
  with Cons show ?case by (cases "env g") (simp_all del: fun_upd_apply)
qed simp

text \<open>After \<open>m\<close> wrappers the innermost \<open>m\<close> layouts are around the page.\<close>

lemma declare_chain:
  assumes "env (Page_fn i) = Some p" "m \<le> length lays"
  defines "w \<equiv> \<lambda>lev. (Chain_fn i lev, lays ! (length lays - lev), if lev = 1 then Page_fn i else Chain_fn i (lev - 1))"
  shows "\<exists>env'. declare_wrappers lay (map w [1..<m + 1]) env = Some env' \<and>
    env' (if m = 0 then Page_fn i else Chain_fn i m) = Some (foldr lay (drop (length lays - m) lays) p) \<and>
    (\<forall>f. (\<forall>k. f \<noteq> Chain_fn i k) \<longrightarrow> env' f = env f)"
  using assms(2)
proof (induction m)
  case 0
  with assms(1) show ?case by simp
next
  case (Suc m)
  then obtain env' where e: "declare_wrappers lay (map w [1..<m + 1]) env = Some env'"
    "env' (if m = 0 then Page_fn i else Chain_fn i m) = Some (foldr lay (drop (length lays - m) lays) p)"
    "\<forall>f. (\<forall>k. f \<noteq> Chain_fn i k) \<longrightarrow> env' f = env f" by auto
  have d: "drop (length lays - Suc m) lays = lays ! (length lays - Suc m) # drop (length lays - m) lays"
    using Suc.prems by (metis Cons_nth_drop_Suc Suc_diff_Suc Suc_le_lessD diff_less less_le_trans zero_less_Suc le_zero_eq not_less)
  have w: "[1..<Suc m + 1] = [1..<m + 1] @ [Suc m]" by simp
  have "env' (if Suc m = 1 then Page_fn i else Chain_fn i (Suc m - 1)) = Some (foldr lay (drop (length lays - m) lays) p)"
    using e(2) by (simp split: if_splits)
  with e(1,3) show ?case
    unfolding w map_append declare_wrappers_append by (simp add: w_def d del: upt_Suc)
qed

lemma declare_chain_all:
  assumes "env (Page_fn i) = Some p"
  shows "\<exists>env'. declare_wrappers lay (chain_wrappers i lays) env = Some env' \<and>
    env' (if lays \<noteq> [] then Chain_fn i (length lays) else Page_fn i) = Some (foldr lay lays p) \<and>
    (\<forall>f. (\<forall>k. f \<noteq> Chain_fn i k) \<longrightarrow> env' f = env f)"
  using declare_chain [of env i p "length lays" lays lay] assms
  unfolding chain_wrappers_levels by (cases lays) (simp_all del: upt_Suc)

fun fn_route :: "page_fn \<Rightarrow> nat" where
  "fn_route (Page_fn i) = i"
| "fn_route (Chain_fn i k) = i"

lemma declare_routes_ok:
  assumes "distinct (map fst rs)"
  shows "\<exists>env'. declare_routes al pages lay rs env = Some env' \<and>
    (\<forall>(i, r) \<in> set rs. env' (table_fn i r) = Some (foldr lay (ri_layouts r) (page_run al pages r))) \<and>
    (\<forall>f. fn_route f \<notin> fst ` set rs \<longrightarrow> env' f = env f)"
  using assms
proof (induction rs arbitrary: env)
  case Nil
  then show ?case by simp
next
  case (Cons x rs)
  obtain i r where x: "x = (i, r)" by (cases x)
  let ?p = "page_run al pages r" and ?e0 = "env(Page_fn i \<mapsto> page_run al pages r)"
  have "?e0 (Page_fn i) = Some ?p" by simp
  then obtain env1 where
    e1: "declare_wrappers lay (chain_wrappers i (ri_layouts r)) ?e0 = Some env1"
      "env1 (table_fn i r) = Some (foldr lay (ri_layouts r) ?p)" "\<forall>f. (\<forall>k. f \<noteq> Chain_fn i k) \<longrightarrow> env1 f = ?e0 f"
    using declare_chain_all [of ?e0 i ?p lay "ri_layouts r"] unfolding table_fn_def by blast
  from Cons obtain env2 where e2: "declare_routes al pages lay rs env1 = Some env2"
    "\<forall>(i, r) \<in> set rs. env2 (table_fn i r) = Some (foldr lay (ri_layouts r) (page_run al pages r))"
    "\<forall>f. fn_route f \<notin> fst ` set rs \<longrightarrow> env2 f = env1 f" by force
  have "env2 (table_fn i r) = env1 (table_fn i r)" using e2(3) Cons.prems x by (auto simp: table_fn_def)
  moreover have "env1 f = env f" if "fn_route f \<noteq> i" for f using e1(3) that by (cases f) auto
  ultimately show ?case using x e1 e2 by auto
qed

subsection \<open>Arguments on the wire\<close>

lemma char_of_0: "char_of (0 :: nat) = NUL"
  by code_simp

lemma cstr_append: "no_nul s \<Longrightarrow> cstr (s @ r) = s @ cstr r"
  by (induction s) simp_all

lemma bytes32_small: "n < 256 \<Longrightarrow> bytes32 (of_nat n) = [of_nat n, 0, 0, 0]"
proof -
  assume n: "n < 256"
  have "drop_bit k (of_nat n :: u32) = 0" if "k \<ge> 8" for k
  proof -
    have "(2 :: nat) ^ 8 \<le> 2 ^ k" using that by (rule power_increasing) simp
    then have "drop_bit k n = 0" using n by (simp add: drop_bit_eq_div)
    then show ?thesis using n by (simp add: word_unat_eq_iff unat_drop_bit_eq unat_of_nat32)
  qed
  moreover have "(ucast (of_nat n :: u32) :: byte) = of_nat n" by (transfer fixing: n) (simp add: take_bit_of_nat)
  ultimately show ?thesis by (simp add: bytes32_def)
qed


abbreviation str_text :: "string option \<Rightarrow> string" where
  "str_text s \<equiv> (case s of None \<Rightarrow> [] | Some t \<Rightarrow> t)"

fun wval_of :: "c_val \<Rightarrow> cerco_wval" where
  "wval_of (C_i32 v) = \<lparr>wv_type = WT_I32, wv_as = ucast v, wv_bytes = []\<rparr>"
| "wval_of (C_i64 v) = \<lparr>wv_type = WT_I64, wv_as = v, wv_bytes = []\<rparr>"
| "wval_of (C_f64 v) = \<lparr>wv_type = WT_F64, wv_as = v, wv_bytes = []\<rparr>"
| "wval_of (C_bool v) = \<lparr>wv_type = WT_BOOL, wv_as = ucast v, wv_bytes = []\<rparr>"
| "wval_of (C_str s) = \<lparr>wv_type = WT_STR, wv_as = 0, wv_bytes = to_bytes (str_text s)\<rparr>"
| "wval_of (C_bytes d) = \<lparr>wv_type = WT_BYTES, wv_as = 0, wv_bytes = d\<rparr>"

definition args_wire :: "c_val list \<Rightarrow> byte list" where
  "args_wire args = concat (map (\<lambda>a. enc_val (wval_of a)) args)"

lemma args_wire_simps [simp]: "args_wire [] = []" "args_wire (a # as) = enc_val (wval_of a) @ args_wire as"
  by (simp_all add: args_wire_def)

lemma ucast_bool_eq: "(ucast (v :: byte) :: u32) = 0 \<longleftrightarrow> v = 0"
  by transfer simp

lemma ucast_back [simp]:
  "(ucast (ucast (v :: byte) :: u64) :: byte) = v" "(ucast (ucast (w :: u32) :: u64) :: u32) = w"
  by (transfer, simp)+

lemma unat_small: "n < 2 ^ 31 \<Longrightarrow> sint (of_nat n :: u32) = int n"
  using sint_small [of "of_nat n"] by (simp add: unat_of_nat32)

lemma client_arg_sf_arg:
  assumes "length (wv_bytes (wval_of a)) < 2 ^ 31"
  shows "client_arg a c = sf_arg (wval_of a) c"
proof (cases a)
  case (C_bool v)
  then show ?thesis by (simp add: sf_arg_def WT_defs as_b_def cerco_sf_arg_bool_def ucast_bool_eq)
next
  case (C_str s)
  then show ?thesis by (cases s) (simp_all add: sf_arg_def WT_defs cerco_sf_arg_str_def)
next
  case (C_bytes d)
  with assms show ?thesis by (simp add: sf_arg_def WT_defs cerco_sf_arg_bytes_def unat_small)
qed (simp_all add: sf_arg_def WT_defs as_i32_def)

lemma client_args_sf_args:
  "\<forall>a \<in> set args. length (wv_bytes (wval_of a)) < 2 ^ 31 \<Longrightarrow>
   fold client_arg args c = fold sf_arg (map wval_of args) c"
  by (induction args arbitrary: c) (simp_all add: client_arg_sf_arg)

lemma wval_of_ok: "length (wv_bytes (wval_of a)) < 2 ^ 32 \<Longrightarrow> wval_ok (wval_of a)"
  by (cases a) (simp_all add: wval_ok_def WT_defs)

lemma args_wire_bytes: "a \<in> set args \<Longrightarrow> length (wv_bytes (wval_of a)) \<le> length (args_wire args)"
proof (induction args)
  case (Cons b args)
  have "length (wv_bytes (wval_of b)) \<le> length (enc_val (wval_of b))"
    by (cases b) (simp_all add: enc_val_def WT_defs)
  with Cons show ?case by force
qed simp

subsection \<open>Arguments as the function sees them\<close>

text \<open>
  Numbers and bytes arrive as they were sent, a boolean as 0 or 1; a string runs on through the
  encodings behind it to the first zero.
\<close>

fun seen_args :: "byte list \<Rightarrow> c_val list \<Rightarrow> c_val list" where
  "seen_args after [] = []"
| "seen_args after (C_bool v # as) = C_bool (if v \<noteq> 0 then 1 else 0) # seen_args after as"
| "seen_args after (C_str s # as) = C_str (Some (cstr (str_text s @ of_bytes (args_wire as @ after)))) # seen_args after as"
| "seen_args after (a # as) = a # seen_args after as"

lemma r_val_pos:
  assumes "wval_ok v" "rd_at r (enc_val v @ rest)"
  shows "\<exists>r'. cerco_r_val r = (Some (norm_val v), r') \<and> rd_at r' rest \<and> wr_p r' = wr_p r \<and>
    wr_pos r' = wr_pos r + length (enc_val v)"
proof -
  obtain r' where r': "cerco_r_val r = (Some (norm_val v), r')" "rd_at r' rest" using r_val_at [OF assms] by blast
  have p: "wr_pos r \<le> length (wr_p r)" using assms(2) by (simp add: rd_at_def)
  then have q: "wr_p r' = wr_p r" using r_val_post [OF p r'(1)] by (simp add: val_post_def rd_ext_def)
  have "length (wr_p r) - wr_pos r = length (enc_val v @ rest)" "length (wr_p r') - wr_pos r' = length rest"
    using assms(2) r'(2) by (metis length_drop rd_at_def)+
  moreover have "wr_pos r' \<le> length (wr_p r')" using r'(2) by (simp add: rd_at_def)
  ultimately have "wr_pos r' = wr_pos r + length (enc_val v)" using p q by simp
  with r' q show ?thesis by blast
qed

lemma arg_read:
  assumes "rd_at (sx_reader ctx) (enc_val (wval_of a) @ rest)" "length (wv_bytes (wval_of a)) < 2 ^ 32"
  shows "\<exists>v ctx1. sf_arg_of_type (c_type a) ctx = (Some v, ctx1) \<and> rd_at (sx_reader ctx1) rest \<and>
    ctx1 = ctx\<lparr>sx_reader := sx_reader ctx1\<rparr> \<and>
    arg_passed (c_type a) after v (sx_reader ctx1) =
      (case a of C_str s \<Rightarrow> C_str (Some (cstr (str_text s @ of_bytes (rest @ after)))) | _ \<Rightarrow> hd (seen_args [] [a]))"
proof -
  let ?r = "sx_reader ctx" and ?w = "wval_of a"
  from r_val_pos [OF wval_of_ok [OF assms(2)] assms(1)] obtain r' where
    r': "cerco_r_val ?r = (Some (norm_val ?w), r')" "rd_at r' rest" "wr_p r' = wr_p ?r" "wr_pos r' = wr_pos ?r + length (enc_val ?w)"
    by blast
  have t: "sf_type_code (wv_type (norm_val ?w)) = c_type a"
    by (cases a) (simp_all add: norm_val_def WT_defs sf_type_code_def)
  have got: "sf_arg_of_type (c_type a) ctx = (Some (norm_val ?w), ctx\<lparr>sx_reader := r'\<rparr>)"
    using r'(1) t by (simp add: sf_arg_of_type_def)
  have "arg_passed (c_type a) after (norm_val ?w) r' =
      (case a of C_str s \<Rightarrow> C_str (Some (cstr (str_text s @ of_bytes (rest @ after)))) | _ \<Rightarrow> hd (seen_args [] [a]))"
  proof (cases a)
    case (C_str s)
    let ?b = "wv_bytes ?w"
    have e: "enc_val ?w = (WT_STR # bytes32 (of_nat (length ?b))) @ ?b" using C_str by (simp add: enc_val_def WT_defs)
    have "drop (wr_pos r' - length ?b) (wr_p r') = drop 5 (drop (wr_pos ?r) (wr_p ?r))"
      unfolding r'(3,4) e by (simp add: add.commute)
    also have "\<dots> = ?b @ rest" using assms(1) by (simp add: rd_at_def e)
    finally show ?thesis using C_str by (simp add: arg_passed_def norm_val_def WT_defs)
  next
    case (C_bool v)
    then show ?thesis by (simp add: arg_passed_def norm_val_def WT_defs as_b_def)
  qed (simp_all add: arg_passed_def norm_val_def WT_defs as_i32_def)
  with got r'(2) show ?thesis by auto
qed

lemma take_args_seen:
  assumes "rd_at (sx_reader ctx) (args_wire args)" "\<forall>a \<in> set args. length (wv_bytes (wval_of a)) < 2 ^ 32"
  shows "\<exists>rd. take_args after (map c_type args) ctx = (Some (seen_args after args), ctx\<lparr>sx_reader := rd\<rparr>) \<and> \<not> wr_err rd"
  using assms
proof (induction args arbitrary: ctx)
  case Nil
  then show ?case by (intro exI [of _ "sx_reader ctx"]) (simp add: rd_at_def)
next
  case (Cons a args)
  then obtain v ctx1 where v: "sf_arg_of_type (c_type a) ctx = (Some v, ctx1)" "rd_at (sx_reader ctx1) (args_wire args)"
    "ctx1 = ctx\<lparr>sx_reader := sx_reader ctx1\<rparr>"
    "arg_passed (c_type a) after v (sx_reader ctx1) =
      (case a of C_str s \<Rightarrow> C_str (Some (cstr (str_text s @ of_bytes (args_wire args @ after)))) | _ \<Rightarrow> hd (seen_args [] [a]))"
    using arg_read [of ctx a "args_wire args" after] by auto
  from Cons.IH [OF v(2)] Cons.prems(2) obtain rd where
    rd: "take_args after (map c_type args) ctx1 = (Some (seen_args after args), ctx1\<lparr>sx_reader := rd\<rparr>)" "\<not> wr_err rd" by auto
  have "ctx1\<lparr>sx_reader := rd\<rparr> = ctx\<lparr>sx_reader := rd\<rparr>" by (subst v(3)) simp
  with v rd have "take_args after (map c_type (a # args)) ctx = (Some (seen_args after (a # args)), ctx\<lparr>sx_reader := rd\<rparr>)"
    by (cases a) simp_all
  with rd(2) show ?case by blast
qed

subsection \<open>The reply\<close>

definition reply_wire :: "c_val \<times> string option option \<Rightarrow> byte list" where
  "reply_wire res =
     (case res of
        (v, None) \<Rightarrow> 0 # bytes32 0 @ bytes32 1 @ enc_val (wval_of v)
      | (v, Some m) \<Rightarrow>
          (let msg = (case m of Some t \<Rightarrow> t | None \<Rightarrow> ''error'')
           in 1 # bytes32 (of_nat (length msg)) @ to_bytes msg))"

lemma store_ret_fields [simp]:
  "sx_failed (store_ret v ctx) = sx_failed ctx" "sx_error (store_ret v ctx) = sx_error ctx"
  "sx_reader (store_ret v ctx) = sx_reader ctx" "sx_ret_type (store_ret v ctx) = sx_ret_type ctx"
  by (cases v; simp)+

lemma sf_result_stored:
  assumes "c_type v = t" "sx_ret_type ctx = of_nat (ret_code t)"
  shows "enc_val (sf_result (store_ret v ctx)) = enc_val (wval_of v) \<and>
    (length (wv_bytes (wval_of v)) < 2 ^ 32 \<longrightarrow> wval_ok (sf_result (store_ret v ctx)))"
  using assms
  by (cases v) (auto simp: sf_result_def Let_def ret_code_def WT_defs enc_val_def wval_ok_def as_i32_def as_b_def
      split: option.splits)

lemma adapter_reply:
  assumes "map c_type args = si_args sf" "f (seen_args after args) = (v, failed)" "c_type v = si_ret sf"
    and "\<forall>a \<in> set (v # args). length (wv_bytes (wval_of a)) < 2 ^ 32"
    and "rd_at (sx_reader ctx) (args_wire args)" "\<not> sx_failed ctx"
  shows "\<exists>ctx1. sf_adapter sf f after r ctx = (r, ctx1) \<and> \<not> wr_err (sx_reader ctx1) \<and> result_ok ctx1 \<and>
    frame_spec ctx1 = reply_wire (v, failed)"
proof -
  from take_args_seen [OF assms(5), of after] assms(1,4) obtain rd where
    rd: "take_args after (si_args sf) ctx = (Some (seen_args after args), ctx\<lparr>sx_reader := rd\<rparr>)" "\<not> wr_err rd" by auto
  let ?c = "ctx\<lparr>sx_reader := rd, sx_ret_type := of_nat (ret_code (si_ret sf))\<rparr>"
  have a: "sf_adapter sf f after r ctx = (r, store_ret v (case failed of None \<Rightarrow> ?c | Some m \<Rightarrow> cerco_sf_fail m ?c))"
    using rd(1) assms(2) by (simp add: sf_adapter_def Let_def)
  show ?thesis
  proof (cases failed)
    case None
    then show ?thesis
      using a rd(2) sf_result_stored [OF assms(3), of ?c] assms(4,6) by (simp add: result_ok_def frame_spec_def reply_wire_def)
  next
    case (Some m)
    then show ?thesis
      using a rd(2) by (simp add: result_ok_def frame_spec_def reply_wire_def cerco_sf_fail_def)
  qed
qed

subsection \<open>Properties\<close>

text \<open>C13: Every route of the generated table runs its page inside the layouts of its directories, the
  outermost first, with the page between its markers; every wrapper is defined before it is used.\<close>

theorem page_in_layouts:
  assumes "i < length (bs_routes b)" "r = bs_routes b ! i"
  shows "routes_table_fn al pages lay b i = Some (foldr lay (ri_layouts r) (page_run al pages r))"
proof -
  have "distinct (map fst (enumerate 0 (bs_routes b)))" by simp
  moreover have "(i, r) \<in> set (enumerate 0 (bs_routes b))" using assms by (auto simp: in_set_enumerate_eq)
  ultimately show ?thesis
    using declare_routes_ok [of "enumerate 0 (bs_routes b)" al pages lay Map.empty] assms(2)
    by (auto simp: routes_table_fn_def)
qed

theorem page_in_layouts_witness:
  "\<forall>al pages lay. routes_table_fn al pages lay
     \<lparr>bs_routes = [\<lparr>ri_method = ''GET'', ri_path = ''/a/b'', ri_symbol = ''route_a_b'', ri_rel = ''src/routes/a/b.c'', ri_dir = ''a'',
        ri_layouts = [''layout_root'', ''layout_a'']\<rparr>], bs_layouts = [], bs_sfs = [], bs_components = []\<rparr> 0
   = Some (lay ''layout_root'' (lay ''layout_a''
       (cerco_raw al ''<!--cerco:/page-->'' \<circ> pages ''route_a_b'' \<circ> cerco_raw al ''<!--cerco:page-->'')))"
  by (intro allI, subst page_in_layouts [OF _ refl]) (simp_all add: page_run_def)

text \<open>C4: A call made through a generated stub runs the server function on its arguments (strings as far
  as the first zero byte behind them) and the response carries the function's result or its error.\<close>

theorem stub_call_runs_function:
  assumes args: "map c_type args = si_args sf" "length (args_wire args) \<le> 32764" "unat (si_id sf) < 1000"
    and slots: "find (\<lambda>i. sp_cb (g_sf_pending c ! i) = 0) [0..<SF_PENDING_MAX] = Some k"
      "find (\<lambda>i. \<not> pf_used (g_fetches c ! i)) [0..<MAX_PENDING_FETCHES] = Some i"
    and body: "sf_body c \<noteq> 0" "unat (sf_body c) + 32768 \<le> 2 ^ 32"
      "unat (sf_body c) + 32768 \<le> unat (scratch_base c) \<or> unat (scratch_base c) + 65536 \<le> unat (sf_body c)"
    and room: "scratch_room (length (args_wire args) + 60) c"
    and f: "f (seen_args after args) = (v, failed)" "c_type v = si_ret sf" "length (wv_bytes (wval_of v)) < 2 ^ 32"
  shows "\<exists>b. host_trace (client_stub grow fn sf args cb user c) =
      host_trace c @ [Host_fetch i ''POST'' (to_bytes (''/__cerco/sf/'' @ dec (unat (si_id sf)))) b] \<and>
    to_bytes (wb_data (rq_resp (sf_run lasts lasts (sf_adapter sf f after) (r\<lparr>rq_body := Some (of_bytes b)\<rparr>)))) =
      reply_wire (v, failed)"
proof -
  let ?vs = "map wval_of args" and ?c1 = "cerco_sf_begin grow (si_id sf) (of_nat (length (si_args sf))) c"
  have n: "length (si_args sf) = length ?vs" using arg_cong [OF args(1), of length] by simp
  have w: "concat (map enc_val ?vs) = args_wire args" by (simp add: args_wire_def comp_def)
  have small: "\<forall>a \<in> set args. length (wv_bytes (wval_of a)) < 2 ^ 31" using args_wire_bytes [of _ args] args(2) by fastforce
  then have ok: "list_all wval_ok ?vs" by (auto simp: list_all_iff intro!: wval_of_ok)
  have c1: "?c1 = c\<lparr>sf_body_len := 0, sf_id := si_id sf, sf_nargs := of_nat (length (si_args sf))\<rparr>"
    using body(1) by (simp add: cerco_sf_begin_def)
  let ?b = "bytes32 (of_nat (length ?vs)) @ args_wire args"
  have tr: "host_trace (client_stub grow fn sf args cb user c) =
      host_trace c @ [Host_fetch i ''POST'' (to_bytes (''/__cerco/sf/'' @ dec (unat (si_id sf)))) ?b]"
    unfolding client_stub_def client_args_sf_args [OF small]
    using call_trace [OF ok, of ?c1 k i grow fn cb user "submit_want (si_ret sf)"] args(2,3) slots body room
    unfolding w c1 by (simp add: n scratch_room_def)
  let ?r = "r\<lparr>rq_body := Some (of_bytes ?b)\<rparr>"
  obtain rd where rd: "cerco_r_u32 (cerco_wreader_init ?b) = (of_nat (length ?vs), rd)" "rd_at rd (args_wire args)" "\<not> wr_err rd"
    using r_u32_at [OF rd_at_init] by blast
  let ?ctx = "(sf_ctx_init ?b)\<lparr>sx_reader := rd\<rparr>"
  have "\<forall>a \<in> set (v # args). length (wv_bytes (wval_of a)) < 2 ^ 32" using small f(3) by auto
  from adapter_reply [of args sf f after v failed ?ctx ?r, OF args(1) f(1,2) this] rd(2) obtain ctx1 where
    ad: "sf_adapter sf f after ?r ?ctx = (?r, ctx1)" "\<not> wr_err (sx_reader ctx1)" "result_ok ctx1" "frame_spec ctx1 = reply_wire (v, failed)"
    by (auto simp: sf_ctx_init_def)
  have "to_bytes (wb_data (rq_resp (sf_run lasts lasts (sf_adapter sf f after) ?r))) = frame_spec ctx1"
    using sf_run_frame [where b = "of_bytes ?b" and r = ?r and call = "sf_adapter sf f after" and ctx = ctx1] rd ad by simp
  with tr ad(4) show ?thesis by auto
qed

text \<open>A function that adds the length of a text to a number.\<close>

definition add_len :: "c_val list \<Rightarrow> c_val \<times> string option option" where
  "add_len as = (case as of [C_str (Some s), C_i32 n] \<Rightarrow> (C_i32 (n + of_nat (length s)), None) | _ \<Rightarrow> (C_i32 0, Some None))"

theorem stub_call_runs_function_witness:
  "\<exists>b. host_trace (client_stub (\<lambda>_. False) 9 \<lparr>si_id = 7, si_name = ''f'', si_method = ''POST'', si_ret = CHR ''i'', si_args = ''si''\<rparr>
        [C_str (Some ''hi''), C_i32 3] 5 6 sfc0) = [Host_fetch 0 ''POST'' (to_bytes ''/__cerco/sf/7'') b] \<and>
    to_bytes (wb_data (rq_resp (sf_run lasts lasts
      (sf_adapter \<lparr>si_id = 7, si_name = ''f'', si_method = ''POST'', si_ret = CHR ''i'', si_args = ''si''\<rparr> add_len [])
      (req_zero\<lparr>rq_body := Some (of_bytes b)\<rparr>)))) = [0, 0, 0, 0, 0, 1, 0, 0, 0, 0, 5, 0, 0, 0]"
proof -
  let ?sf = "\<lparr>si_id = 7, si_name = ''f'', si_method = ''POST'', si_ret = CHR ''i'', si_args = ''si''\<rparr> :: sf_info"
  let ?as = "[C_str (Some ''hi''), C_i32 3]"
  have s: "add_len (seen_args [] ?as) = (C_i32 5, None)"
    by (simp add: add_len_def enc_val_def WT_defs of_bytes_def char_of_0)
  have l: "length (args_wire ?as) = 12" by (simp add: enc_val_def WT_defs)
  have r: "reply_wire (C_i32 5, None) = [0, 0, 0, 0, 0, 1, 0, 0, 0, 0, 5, 0, 0, 0]"
    by (simp add: reply_wire_def enc_val_def WT_defs bytes32_def as_i32_def)
  have t: "host_trace sfc0 = []" "''/__cerco/sf/'' @ dec (unat (si_id ?sf)) = ''/__cerco/sf/7''"
    by (simp_all add: sfc0_def dec.simps)
  have "\<exists>b. host_trace (client_stub (\<lambda>_. False) 9 ?sf ?as 5 6 sfc0) =
      host_trace sfc0 @ [Host_fetch 0 ''POST'' (to_bytes (''/__cerco/sf/'' @ dec (unat (si_id ?sf)))) b] \<and>
    to_bytes (wb_data (rq_resp (sf_run lasts lasts (sf_adapter ?sf add_len []) (req_zero\<lparr>rq_body := Some (of_bytes b)\<rparr>)))) =
      reply_wire (C_i32 5, None)"
    by (rule stub_call_runs_function [where f = add_len and after = "[]" and args = ?as, OF _ _ _ sfc0_slots _ _ _ _ s]) (simp_all only: l, simp_all add: sfc0_def scratch_room_def)
  then show ?thesis unfolding r t append_Nil .
qed

text \<open>C21: Strings of a call run together: a function of two strings gets the first with the type tag and
  the length of the second appended, and the second with whatever follows the body in memory.\<close>

theorem string_args_run_together:
  assumes "no_nul s" "no_nul t" "0 < length t" "length t < 256" "length s < 2 ^ 32"
  shows "fst (take_args after ''ss'' (sf_ctx_init (args_wire [C_str (Some s), C_str (Some t)]))) =
    Some [C_str (Some (s @ [CHR 0x04, char_of (length t)])), C_str (Some (t @ cstr (of_bytes after)))]"
proof -
  let ?as = "[C_str (Some s), C_str (Some t)]"
  have "bytes32 (of_nat (length t)) = [of_nat (length t), 0, 0, 0]" using assms(4) by (rule bytes32_small)
  then have w: "args_wire [C_str (Some t)] = 4 # of_nat (length t) # 0 # 0 # 0 # to_bytes t"
    by (simp add: enc_val_def WT_defs)
  have "unat (of_nat (length t) :: byte) = length t" using assms(4) by (simp add: unat_of_nat)
  moreover have "char_of (4 :: nat) = CHR 0x04" by code_simp
  moreover have "char_of (length t) \<noteq> NUL"
  proof
    assume "char_of (length t) = NUL"
    then have "of_char (char_of (length t)) = (of_char NUL :: nat)" by simp
    with assms(3,4) show False by simp
  qed
  ultimately have f: "cstr (of_bytes (args_wire [C_str (Some t)] @ after)) = [CHR 0x04, char_of (length t)]"
    unfolding w by (simp add: of_bytes_def char_of_0)
  have "rd_at (sx_reader (sf_ctx_init (args_wire ?as))) (args_wire ?as)" by (simp add: sf_ctx_init_def rd_at_init)
  from take_args_seen [OF this, of after] assms(4,5)
  have "fst (take_args after (map c_type ?as) (sf_ctx_init (args_wire ?as))) = Some (seen_args after ?as)"
    by (auto simp del: args_wire_simps(2) take_args.simps dest: less_trans [of _ 256])
  also have "seen_args after ?as = [C_str (Some (s @ [CHR 0x04, char_of (length t)])), C_str (Some (t @ cstr (of_bytes after)))]"
    using assms(1,2) f by (simp add: cstr_append del: args_wire_simps(2))
  finally show ?thesis by (simp del: args_wire_simps(2) take_args.simps)
qed

theorem string_args_run_together_witness:
  "fst (take_args [33, 0] ''ss'' (sf_ctx_init (args_wire [C_str (Some ''bob''), C_str (Some ''admin'')]))) =
    Some [C_str (Some [CHR ''b'', CHR ''o'', CHR ''b'', CHR 0x04, CHR 0x05]), C_str (Some ''admin!'')]"
proof -
  have "char_of (33 :: nat) = CHR ''!''" "char_of (Suc (Suc (Suc (Suc (Suc 0))))) = CHR 0x05" by code_simp+
  then show ?thesis
    by (subst string_args_run_together) (simp_all add: of_bytes_def char_of_0)
qed

end
