(* ===== verification/Cli_Files.thy ===== *)
theory Cli_Files
  imports Cli_Scan "HOL-Library.AList"
begin

text \<open>
  The file operations of \<open>cli/util.c\<close> on a file system that is part of the state. Nodes are
  listed under their full path, in the order in which directories return them; paths are written
  without empty, \<open>.\<close> and \<open>..\<close> components, as the code builds them. \<open>fs_denied\<close> are the paths on
  which a call fails for a reason of its own (permissions, a full disk), \<open>fs_now\<close> is the clock in
  milliseconds. Times are kept for files only: no code modelled on this file system looks at those of
  directories.
\<close>

datatype node = N_dir | N_file string int | N_other

record fsys =
  fs_nodes :: "(string \<times> node) list"
  fs_denied :: "string \<Rightarrow> bool"
  fs_now :: int

definition fs_get :: "fsys \<Rightarrow> string \<Rightarrow> node option" where
  "fs_get s p = map_of (fs_nodes s) p"

definition fs_put :: "string \<Rightarrow> node \<Rightarrow> fsys \<Rightarrow> fsys" where
  "fs_put p n s = s\<lparr>fs_nodes := AList.update p n (fs_nodes s)\<rparr>"

definition fs_del :: "string \<Rightarrow> fsys \<Rightarrow> fsys" where
  "fs_del p s = s\<lparr>fs_nodes := AList.delete p (fs_nodes s)\<rparr>"

text \<open>The directory a path is in; \<open>None\<close> for the root and the working directory.\<close>

definition path_parent :: "string \<Rightarrow> string option" where
  "path_parent p = (case last_index_of CHR ''/'' p of Some (Suc i) \<Rightarrow> Some (take (Suc i) p) | _ \<Rightarrow> None)"

definition parent_ok :: "fsys \<Rightarrow> string \<Rightarrow> bool" where
  "parent_ok s p = (case path_parent p of None \<Rightarrow> True | Some d \<Rightarrow> fs_get s d = Some N_dir)"

subsection \<open>System calls\<close>

datatype errno = E_exist | E_noent | E_other

text \<open>\<open>mkdir\<close>, \<open>unlink\<close>, \<open>rmdir\<close>, \<open>link\<close>, \<open>rename\<close>: the error, if any, and the new state. A hard link is
  a second node with the same content and time.\<close>

definition sys_mkdir :: "string \<Rightarrow> fsys \<Rightarrow> errno option \<times> fsys" where
  "sys_mkdir p s =
     (if fs_get s p \<noteq> None then (Some E_exist, s)
      else if fs_denied s p then (Some E_other, s)
      else if \<not> parent_ok s p then (Some E_noent, s)
      else (None, fs_put p N_dir s))"

definition sys_unlink :: "string \<Rightarrow> fsys \<Rightarrow> errno option \<times> fsys" where
  "sys_unlink p s =
     (case fs_get s p of
        None \<Rightarrow> (Some E_noent, s)
      | Some N_dir \<Rightarrow> (Some E_other, s)
      | Some _ \<Rightarrow> if fs_denied s p then (Some E_other, s) else (None, fs_del p s))"

definition fs_children :: "fsys \<Rightarrow> string \<Rightarrow> string list" where
  "fs_children s d = map path_basename (filter (\<lambda>p. path_parent p = Some d) (map fst (fs_nodes s)))"

definition sys_rmdir :: "string \<Rightarrow> fsys \<Rightarrow> errno option \<times> fsys" where
  "sys_rmdir p s =
     (if fs_get s p = Some N_dir \<and> fs_children s p = [] \<and> \<not> fs_denied s p then (None, fs_del p s)
      else (Some E_other, s))"

definition sys_link :: "string \<Rightarrow> string \<Rightarrow> fsys \<Rightarrow> errno option \<times> fsys" where
  "sys_link a b s =
     (case fs_get s a of
        Some (N_file data t) \<Rightarrow>
          if fs_get s b \<noteq> None then (Some E_exist, s)
          else if fs_denied s b \<or> \<not> parent_ok s b then (Some E_other, s)
          else (None, fs_put b (N_file data t) s)
      | _ \<Rightarrow> (Some E_other, s))"

definition sys_rename :: "string \<Rightarrow> string \<Rightarrow> fsys \<Rightarrow> errno option \<times> fsys" where
  "sys_rename a b s =
     (case fs_get s a of
        Some (N_file data t) \<Rightarrow>
          if fs_denied s b \<or> \<not> parent_ok s b \<or> fs_get s b = Some N_dir then (Some E_other, s)
          else (None, fs_put b (N_file data t) (fs_del a s))
      | _ \<Rightarrow> (Some E_other, s))"

subsection \<open>The utilities\<close>

definition is_dir :: "fsys \<Rightarrow> string \<Rightarrow> bool" where
  "is_dir s p = (fs_get s p = Some N_dir)"

definition is_file :: "fsys \<Rightarrow> string \<Rightarrow> bool" where
  "is_file s p = (case fs_get s p of Some (N_file _ _) \<Rightarrow> True | _ \<Rightarrow> False)"

definition read_file :: "fsys \<Rightarrow> string \<Rightarrow> string option" where
  "read_file s p = (case fs_get s p of Some (N_file data _) \<Rightarrow> Some data | _ \<Rightarrow> None)"

definition mtime_ms :: "fsys \<Rightarrow> string \<Rightarrow> int option" where
  "mtime_ms s p = (case fs_get s p of Some (N_file _ t) \<Rightarrow> Some t | Some _ \<Rightarrow> Some 0 | None \<Rightarrow> None)"

definition write_file :: "string \<Rightarrow> string \<Rightarrow> fsys \<Rightarrow> bool \<times> fsys" where
  "write_file p data s =
     (if fs_denied s p \<or> \<not> parent_ok s p \<or> fs_get s p = Some N_dir then (False, s)
      else (True, fs_put p (N_file data (fs_now s)) s))"

text \<open>The paths at which \<open>mkdirs\<close> cuts, and its loop over them.\<close>

definition dir_prefixes :: "string \<Rightarrow> string list" where
  "dir_prefixes p = map (\<lambda>i. take i p) (filter (\<lambda>i. p ! i = CHR ''/'') [1..<length p])"

fun make_dirs :: "string list \<Rightarrow> fsys \<Rightarrow> bool \<times> fsys" where
  "make_dirs [] s = (True, s)"
| "make_dirs (d # ds) s =
     (case sys_mkdir d s of
        (None, s') \<Rightarrow> make_dirs ds s'
      | (Some E_exist, s') \<Rightarrow> make_dirs ds s'
      | (Some _, s') \<Rightarrow> (False, s'))"

definition mkdirs :: "string \<Rightarrow> fsys \<Rightarrow> bool \<times> fsys" where
  "mkdirs path s =
     (let tmp = fit 1024 path;
          tmp = (if tmp \<noteq> [] \<and> last tmp = CHR ''/'' then butlast tmp else tmp)
      in make_dirs (dir_prefixes tmp @ [tmp]) s)"

definition mkdir_for_file :: "string \<Rightarrow> fsys \<Rightarrow> bool \<times> fsys" where
  "mkdir_for_file path s =
     (let tmp = fit 1024 path
      in case last_index_of CHR ''/'' tmp of None \<Rightarrow> (True, s) | Some i \<Rightarrow> mkdirs (take i tmp) s)"

text \<open>
  \<open>rm_recursive\<close> as a list of what is still to do; a directory is removed after its entries. Errors
  are ignored, as by its callers. A path cut off at 1024 bytes can be its own entry, and then the
  recursion does not end.
\<close>

datatype rm_item = Rm_path string | Rm_dir string

definition rm_one :: "rm_item \<Rightarrow> fsys \<Rightarrow> rm_item list \<times> fsys" where
  "rm_one x s =
     (case x of
        Rm_dir p \<Rightarrow> ([], snd (sys_rmdir p s))
      | Rm_path p \<Rightarrow>
          if is_dir s p then (map (\<lambda>e. Rm_path (fit 1024 (p @ ''/'' @ e))) (fs_children s p) @ [Rm_dir p], s)
          else ([], snd (sys_unlink p s)))"

partial_function (option) rm_todo :: "rm_item list \<Rightarrow> fsys \<Rightarrow> fsys option" where
  "rm_todo todo s =
     (case todo of
        [] \<Rightarrow> Some s
      | x # rest \<Rightarrow> (case rm_one x s of (new, s') \<Rightarrow> rm_todo (new @ rest) s'))"

definition rm_recursive :: "string \<Rightarrow> fsys \<Rightarrow> fsys option" where
  "rm_recursive path s = rm_todo [Rm_path path] s"

definition path_join :: "string \<Rightarrow> string \<Rightarrow> string" where
  "path_join a b = a @ (if a \<noteq> [] \<and> last a \<noteq> CHR ''/'' then ''/'' else []) @ b"

text \<open>The file system as the directory walk sees it.\<close>

definition fs_view :: "fsys \<Rightarrow> cli_fs" where
  "fs_view s =
     \<lparr>ft_list = (\<lambda>p. if is_dir s p then Some (fs_children s p) else None),
      ft_kind = (\<lambda>p. case fs_get s p of None \<Rightarrow> None | Some N_dir \<Rightarrow> Some Is_dir | Some (N_file _ _) \<Rightarrow> Some Is_reg
                   | Some N_other \<Rightarrow> Some Is_other),
      ft_read = read_file s\<rparr>"

subsection \<open>Laws\<close>

lemma fs_get_put [simp]: "fs_get (fs_put p n s) q = (if q = p then Some n else fs_get s q)"
  by (simp add: fs_get_def fs_put_def update_conv')

lemma fs_get_del [simp]: "fs_get (fs_del p s) q = (if q = p then None else fs_get s q)"
  by (simp add: fs_get_def fs_del_def delete_conv')

lemma fs_put_fields [simp]:
  "fs_denied (fs_put p n s) = fs_denied s" "fs_now (fs_put p n s) = fs_now s"
  "fs_denied (fs_del p s) = fs_denied s" "fs_now (fs_del p s) = fs_now s"
  by (simp_all add: fs_put_def fs_del_def)

text \<open>A path with the directories above it, outermost first.\<close>

definition path_dirs :: "string \<Rightarrow> string list" where
  "path_dirs p = dir_prefixes p @ [p]"

lemma path_parent_Some:
  assumes "path_parent p = Some d"
  obtains i where "0 < i" "i < length p" "p ! i = CHR ''/''" "d = take i p" "CHR ''/'' \<notin> set (drop (Suc i) p)"
proof -
  from assms obtain i where "last_index_of CHR ''/'' p = Some (Suc i)" "d = take (Suc i) p"
    by (auto simp: path_parent_def split: option.splits nat.splits)
  with last_index_of_Some [OF this(1)] that show thesis by auto
qed

lemma path_parent_shorter: "path_parent p = Some d \<Longrightarrow> length d < length p"
  by (erule path_parent_Some) simp

lemma dir_prefixes_None: "path_parent p = None \<Longrightarrow> dir_prefixes p = []"
proof -
  assume a: "path_parent p = None"
  have "p ! i \<noteq> CHR ''/''" if "1 \<le> i" "i < length p" for i
  proof (cases "last_index_of CHR ''/'' p")
    case None
    with that show ?thesis by (auto simp: last_index_of_None in_set_conv_nth)
  next
    case (Some j)
    with a have "j = 0" by (auto simp: path_parent_def split: nat.splits)
    with last_index_of_Some [OF Some] have "CHR ''/'' \<notin> set (drop 1 p)" by simp
    moreover have "p ! i \<in> set (drop 1 p)" using that by (auto simp: in_set_conv_nth intro!: exI [of _ "i - 1"])
    ultimately show ?thesis by auto
  qed
  then show ?thesis by (simp add: dir_prefixes_def filter_empty_conv)
qed

lemma dir_prefixes_Some:
  assumes "path_parent p = Some d"
  shows "dir_prefixes p = path_dirs d"
proof -
  obtain i where i: "0 < i" "i < length p" "p ! i = CHR ''/''" "d = take i p" "CHR ''/'' \<notin> set (drop (Suc i) p)"
    using path_parent_Some [OF assms] .
  have "[1..<length p] = [1..<i] @ i # [Suc i..<length p]"
    using i(1,2) by (metis One_nat_def Suc_leI le_add_diff_inverse less_imp_le_nat upt_add_eq_append upt_conv_Cons)
  moreover have "p ! j \<noteq> CHR ''/''" if "Suc i \<le> j" "j < length p" for j
  proof -
    have "p ! j \<in> set (drop (Suc i) p)" using that by (auto simp: in_set_conv_nth intro!: exI [of _ "j - Suc i"])
    with i(5) show ?thesis by auto
  qed
  then have "filter (\<lambda>j. p ! j = CHR ''/'') [Suc i..<length p] = []" by (auto simp: filter_empty_conv)
  moreover have "filter (\<lambda>j. p ! j = CHR ''/'') [1..<i] = filter (\<lambda>j. d ! j = CHR ''/'') [1..<length d]"
    using i(2,4) by (auto intro!: filter_cong)
  moreover have "map (\<lambda>j. take j p) (filter (\<lambda>j. d ! j = CHR ''/'') [1..<length d]) =
      map (\<lambda>j. take j d) (filter (\<lambda>j. d ! j = CHR ''/'') [1..<length d])"
    using i(2,4) by (auto simp: min_def)
  ultimately show ?thesis using i(3,4) by (simp add: dir_prefixes_def path_dirs_def del: upt_Suc)
qed

lemma make_dirs_append:
  "make_dirs (xs @ ys) s = (case make_dirs xs s of (True, s') \<Rightarrow> make_dirs ys s' | (False, s') \<Rightarrow> (False, s'))"
  by (induction xs s rule: make_dirs.induct) (auto split: prod.splits option.splits errno.splits)

lemma make_dirs_single: "make_dirs [p] s = (case sys_mkdir p s of (None, s') \<Rightarrow> (True, s') | (Some E_exist, s') \<Rightarrow> (True, s') | (Some _, s') \<Rightarrow> (False, s'))"
  by (auto split: prod.splits option.splits errno.splits)

text \<open>A directory that is there or can be made, and a state with the directories \<open>ds\<close> added.\<close>

definition can_dir :: "fsys \<Rightarrow> string \<Rightarrow> bool" where
  "can_dir s d = (fs_get s d = Some N_dir \<or> fs_get s d = None \<and> \<not> fs_denied s d)"

definition dirs_added :: "string list \<Rightarrow> fsys \<Rightarrow> fsys \<Rightarrow> bool" where
  "dirs_added ds s s' = (fs_denied s' = fs_denied s \<and> fs_now s' = fs_now s \<and>
     (\<forall>q. fs_get s' q = (if q \<in> set ds then Some N_dir else fs_get s q)))"

lemma make_path:
  assumes "list_all (can_dir s) (path_dirs p)"
  shows "\<exists>s'. make_dirs (path_dirs p) s = (True, s') \<and> dirs_added (path_dirs p) s s'"
  using assms
proof (induction "length p" arbitrary: p rule: less_induct)
  case less
  obtain s1 where s1: "make_dirs (dir_prefixes p) s = (True, s1)" "dirs_added (dir_prefixes p) s s1" "parent_ok s1 p"
  proof (cases "path_parent p")
    case None
    then show thesis using that [of s] by (simp add: dir_prefixes_None dirs_added_def parent_ok_def)
  next
    case (Some d)
    note e = dir_prefixes_Some [OF Some]
    from less.prems have "list_all (can_dir s) (path_dirs d)" by (simp add: path_dirs_def [of p] e)
    from less.hyps [OF path_parent_shorter [OF Some] this] obtain s' where
      "make_dirs (path_dirs d) s = (True, s')" "dirs_added (path_dirs d) s s'" by blast
    with that [of s'] e Some show thesis by (simp add: parent_ok_def dirs_added_def path_dirs_def [of d])
  qed
  from less.prems have "can_dir s p" by (simp add: path_dirs_def)
  then have "\<exists>s'. make_dirs [p] s1 = (True, s') \<and> dirs_added [p] s1 s'"
    using s1(2,3) unfolding make_dirs_single by (auto simp: sys_mkdir_def can_dir_def dirs_added_def split: if_splits)
  then obtain s' where s': "make_dirs [p] s1 = (True, s')" "dirs_added [p] s1 s'" by blast
  have "make_dirs (path_dirs p) s = (True, s')" using s1(1) s'(1) by (simp add: path_dirs_def make_dirs_append)
  moreover have "dirs_added (path_dirs p) s s'" using s1(2) s'(2) by (auto simp: dirs_added_def path_dirs_def)
  ultimately show ?case by blast
qed

lemma mkdirs_path:
  assumes "length p < 1024" "p \<noteq> []" "last p \<noteq> CHR ''/''" "list_all (can_dir s) (path_dirs p)"
  shows "\<exists>s'. mkdirs p s = (True, s') \<and> dirs_added (path_dirs p) s s'"
  using make_path [OF assms(4)] assms(1-3) by (simp add: mkdirs_def path_dirs_def)

text \<open>A file that can be written once its directories are made.\<close>

definition can_file :: "fsys \<Rightarrow> string \<Rightarrow> bool" where
  "can_file s p =
     (length p < 1024 \<and> \<not> fs_denied s p \<and> fs_get s p \<noteq> Some N_dir \<and>
      (case path_parent p of None \<Rightarrow> False | Some d \<Rightarrow> last d \<noteq> CHR ''/'' \<and> list_all (can_dir s) (path_dirs d)))"

definition file_added :: "string \<Rightarrow> string \<Rightarrow> fsys \<Rightarrow> fsys \<Rightarrow> bool" where
  "file_added p data s s' = (fs_denied s' = fs_denied s \<and> fs_now s' = fs_now s \<and>
     (\<forall>q. fs_get s' q = (if q = p then Some (N_file data (fs_now s)) else if q \<in> set (dir_prefixes p) then Some N_dir
        else fs_get s q)))"

lemma dir_prefixes_less: "q \<in> set (dir_prefixes p) \<Longrightarrow> length q < length p"
  by (auto simp: dir_prefixes_def)

lemma write_new_file:
  assumes "can_file s p"
  shows "\<exists>s1 s2. mkdir_for_file p s = (True, s1) \<and> write_file p data s1 = (True, s2) \<and> file_added p data s s2"
proof -
  from assms obtain d where d: "path_parent p = Some d" "last d \<noteq> CHR ''/''" "list_all (can_dir s) (path_dirs d)"
    by (auto simp: can_file_def split: option.splits)
  obtain i where i: "last_index_of CHR ''/'' p = Some (Suc i)" "d = take (Suc i) p"
    using d(1) by (auto simp: path_parent_def split: option.splits nat.splits)
  have len: "length p < 1024" "length d < 1024" using assms path_parent_shorter [OF d(1)] by (auto simp: can_file_def)
  have "d \<noteq> []" using last_index_of_Some [OF i(1)] i(2) by (cases p) auto
  from mkdirs_path [OF len(2) this d(2,3)] obtain s1 where s1: "mkdirs d s = (True, s1)" "dirs_added (path_dirs d) s s1" by blast
  have m: "mkdir_for_file p s = (True, s1)" using len(1) i s1(1) by (simp add: mkdir_for_file_def)
  have np: "p \<notin> set (path_dirs d)" using dir_prefixes_Some [OF d(1)] dir_prefixes_less [of p p] by auto
  then have "fs_get s1 p = fs_get s p" "fs_get s1 d = Some N_dir" using s1(2) by (simp_all add: dirs_added_def path_dirs_def [of d])
  then have "write_file p data s1 = (True, fs_put p (N_file data (fs_now s1)) s1)"
    using assms d(1) s1(2) by (simp add: write_file_def can_file_def parent_ok_def dirs_added_def)
  moreover have "file_added p data s (fs_put p (N_file data (fs_now s1)) s1)"
    using s1(2) np dir_prefixes_Some [OF d(1)] by (auto simp: file_added_def dirs_added_def)
  ultimately show ?thesis using m by blast
qed

text \<open>Directories are only added: what is there stays.\<close>

lemma sys_mkdir_keeps: "fs_get s q = Some n \<Longrightarrow> fs_get (snd (sys_mkdir p s)) q = Some n"
  by (auto simp: sys_mkdir_def)

lemma make_dirs_keeps: "fs_get s q = Some n \<Longrightarrow> fs_get (snd (make_dirs ds s)) q = Some n"
proof (induction ds s rule: make_dirs.induct)
  case (2 d ds s)
  obtain e s' where e: "sys_mkdir d s = (e, s')" by fastforce
  with sys_mkdir_keeps [OF 2(3), of d] have "fs_get s' q = Some n" by simp
  with 2 e show ?case by (auto split: option.splits errno.splits)
qed simp

lemma mkdirs_keeps: "fs_get s q = Some n \<Longrightarrow> fs_get (snd (mkdirs p s)) q = Some n"
  by (simp add: mkdirs_def Let_def make_dirs_keeps)

lemma can_file_added:
  assumes "can_file s q" "file_added p data s s'" "p \<notin> set (dir_prefixes q)" "q \<notin> set (dir_prefixes p)"
  shows "can_file s' q"
proof -
  from assms(1) obtain d where d: "path_parent q = Some d" "last d \<noteq> CHR ''/''" "list_all (can_dir s) (path_dirs d)"
    by (auto simp: can_file_def split: option.splits)
  have "can_dir s' x" if "x \<in> set (path_dirs d)" for x
    using that d(3) assms(2,3) dir_prefixes_Some [OF d(1)] by (auto simp: list_all_iff can_dir_def file_added_def)
  then show ?thesis using assms d by (auto simp: can_file_def list_all_iff file_added_def)
qed

text \<open>What an operation may do to a node it is not about: \<open>mkdirs\<close> adds directories, removal removes.\<close>

lemma sys_mkdir_adds: "fs_get (snd (sys_mkdir p s)) q = fs_get s q \<or> fs_get (snd (sys_mkdir p s)) q = Some N_dir"
  by (auto simp: sys_mkdir_def)

lemma make_dirs_adds: "fs_get (snd (make_dirs ds s)) q = fs_get s q \<or> fs_get (snd (make_dirs ds s)) q = Some N_dir"
proof (induction ds arbitrary: s)
  case (Cons d ds)
  obtain e s' where e: "sys_mkdir d s = (e, s')" by fastforce
  then have "fs_get s' q = fs_get s q \<or> fs_get s' q = Some N_dir" using sys_mkdir_adds [of d s q] by simp
  with Cons [of s'] e show ?case by (auto split: option.splits errno.splits)
qed simp

lemma mkdirs_adds: "fs_get (snd (mkdirs p s)) q = fs_get s q \<or> fs_get (snd (mkdirs p s)) q = Some N_dir"
  by (simp add: mkdirs_def Let_def make_dirs_adds)

lemma mkdir_for_file_adds:
  "fs_get (snd (mkdir_for_file p s)) q = fs_get s q \<or> fs_get (snd (mkdir_for_file p s)) q = Some N_dir"
  using mkdirs_adds by (auto simp: mkdir_for_file_def Let_def split: option.splits)

lemma mkdir_for_file_keeps: "fs_get s q = Some n \<Longrightarrow> fs_get (snd (mkdir_for_file p s)) q = Some n"
  by (auto simp: mkdir_for_file_def Let_def mkdirs_keeps split: option.splits)

lemma write_file_get:
  "write_file p data s = (ok, s') \<Longrightarrow> fs_get s' q = (if ok \<and> q = p then Some (N_file data (fs_now s)) else fs_get s q)"
  by (auto simp: write_file_def split: if_splits)

lemma rm_one_removes: "fs_get (snd (rm_one x s)) q = fs_get s q \<or> fs_get (snd (rm_one x s)) q = None"
  by (auto simp: rm_one_def sys_rmdir_def sys_unlink_def split: rm_item.splits option.splits node.splits)

end
