(* ===== verification/Cli_Project.thy ===== *)
theory Cli_Project
  imports Cli_Files
begin

text \<open>
  The command line of \<open>cli/main.c\<close>, the project file \<open>cerco.toml\<close>, \<open>cerco new\<close> (\<open>cli/new.c\<close>) and the
  toolchain check of \<open>cli/doctor.c\<close>. A command that calls \<open>die\<close> ends with its message; the file
  system keeps what was done before. The files embedded in the executable (\<open>cerco_bundle\<close>) are a
  parameter.
\<close>

subsection \<open>Project file\<close>

record cerco_project =
  pj_name :: string
  pj_version :: string
  pj_tailwind :: string
  pj_root :: string

definition toml_assign :: "string \<Rightarrow> string \<Rightarrow> cerco_project \<Rightarrow> cerco_project" where
  "toml_assign key value p =
     (if key = ''name'' then p\<lparr>pj_name := fit 128 value\<rparr>
      else if key = ''version'' then p\<lparr>pj_version := fit 64 value\<rparr>
      else if key = ''tailwind'' then p\<lparr>pj_tailwind := fit 64 value\<rparr>
      else p)"

text \<open>
  The upward search: \<open>n\<close> rounds are left of 16, \<open>probe\<close> is the last path tried. The result is the
  root and the path to read.
\<close>

definition no_toml :: string where
  "no_toml = ''no cerco.toml found (run inside a cerco project, or use `cerco new`)''"

fun find_root :: "fsys \<Rightarrow> nat \<Rightarrow> nat \<Rightarrow> string \<Rightarrow> string \<Rightarrow> string + string \<times> string" where
  "find_root s 0 depth dir probe = Inr (dir, probe)"
| "find_root s (Suc n) depth dir probe =
     (let probe' = fit 1200 (dir @ ''/cerco.toml'') in
      if is_file s probe' then Inr (dir, probe')
      else case last_index_of CHR ''/'' dir of
             None \<Rightarrow> Inl no_toml
           | Some 0 \<Rightarrow> if depth > 0 then Inr (dir, probe') else Inl no_toml
           | Some i \<Rightarrow> find_root s n (Suc depth) (take i dir) probe')"

text \<open>The value of a line: quotes are removed first, then the text from the first hash sign on.\<close>

definition toml_value :: "string \<Rightarrow> string" where
  "toml_value raw =
     (let v = cli_trim raw;
          v = (if length v \<ge> 2 \<and> hd v = CHR 0x22 \<and> last v = CHR 0x22 then butlast (tl v) else v)
      in if CHR ''#'' \<in> set v \<and> char_at v 0 \<noteq> CHR 0x22 then takeWhile (\<lambda>c. c \<noteq> CHR ''#'') v else v)"

definition toml_line :: "string \<Rightarrow> string \<times> cerco_project \<Rightarrow> string \<times> cerco_project" where
  "toml_line line st =
     (case st of (section, p) \<Rightarrow>
        let t = cli_trim line in
        if t = [] \<or> hd t = CHR ''#'' then st
        else if hd t = CHR ''['' then
          (case index_of CHR '']'' t of
             None \<Rightarrow> st
           | Some i \<Rightarrow> (fit 64 (cli_trim (tl (take i t))), p))
        else
          (case index_of CHR ''='' t of
             None \<Rightarrow> st
           | Some i \<Rightarrow>
               let key = cli_trim (take i t); v = toml_value (drop (Suc i) t)
               in (section, toml_assign (if section \<noteq> [] then fit 128 (section @ ''.'' @ key) else key) v p)))"

text \<open>\<open>cwd\<close> is the answer of \<open>getcwd\<close>.\<close>

definition project_load :: "string option \<Rightarrow> fsys \<Rightarrow> string + cerco_project" where
  "project_load cwd s =
     (case cwd of
        None \<Rightarrow> Inl ''cannot read the current directory''
      | Some dir \<Rightarrow>
          (case find_root s 16 0 (fit 1024 dir) [] of
             Inl msg \<Rightarrow> Inl msg
           | Inr (root, probe) \<Rightarrow>
               (case read_file s probe of
                  None \<Rightarrow> Inl (''cannot read '' @ probe)
                | Some data \<Rightarrow>
                    let p0 = \<lparr>pj_name = [], pj_version = [], pj_tailwind = [], pj_root = fit 1024 root\<rparr>;
                        p = snd (fold toml_line (strtok_all (CHR 0x0A) (cstr data)) ([], p0));
                        p = (if pj_name p = [] then
                               let base = path_basename (pj_root p) in p\<lparr>pj_name := fit 128 (if base \<noteq> [] then base else ''app'')\<rparr>
                             else p)
                    in Inr (if pj_tailwind p = [] then p\<lparr>pj_tailwind := ''4.1.16''\<rparr> else p))))"

subsection \<open>Command line\<close>

datatype cli_command =
    Run_help
  | Run_version
  | Run_new "string list"
  | Run_doctor
  | Run_build "string list"
  | Run_dev "string list"
  | Run_clean
  | Run_unknown string

definition dispatch_project :: "string \<Rightarrow> string list \<Rightarrow> cli_command" where
  "dispatch_project cmd args =
     (if cmd = ''build'' then Run_build args else if cmd = ''dev'' then Run_dev args
      else if cmd = ''clean'' then Run_clean else Run_unknown cmd)"

definition dispatch_command :: "string \<Rightarrow> string list \<Rightarrow> cli_command" where
  "dispatch_command cmd args =
     (if cmd = ''new'' then Run_new args else if cmd = ''doctor'' then Run_doctor else dispatch_project cmd args)"

text \<open>The verbose flag and the command; \<open>args\<close> are those behind the program name.\<close>

definition cli_dispatch :: "string list \<Rightarrow> bool \<times> cli_command" where
  "cli_dispatch args =
     (case args of
        [] \<Rightarrow> (False, Run_help)
      | cmd # rest \<Rightarrow>
          if cmd = ''--version'' \<or> cmd = ''version'' then (False, Run_version)
          else if cmd = ''help'' \<or> cmd = ''--help'' then (False, Run_help)
          else if cmd = ''-v'' \<or> cmd = ''--verbose'' then
            (case rest of [] \<Rightarrow> (True, Run_help) | cmd' # rest' \<Rightarrow> (True, dispatch_command cmd' rest'))
          else (False, dispatch_command cmd rest))"

subsection \<open>New projects\<close>

function substitute :: "string \<Rightarrow> string \<Rightarrow> string" where
  "substitute name [] = []"
| "substitute name (c # cs) =
     (if take 6 (c # cs) = ''my-app'' then name @ substitute name (drop 5 cs) else c # substitute name cs)"
  by pat_completeness auto
termination
  by (relation "measure (length \<circ> snd)") auto

declare substitute.simps [simp del]

text \<open>Writing a list of files, each with the directories above it; the message of a failure.\<close>

fun write_tree :: "(string \<times> string) list \<Rightarrow> fsys \<Rightarrow> string option \<times> fsys" where
  "write_tree [] s = (None, s)"
| "write_tree ((dest, data) # fs) s =
     (case mkdir_for_file dest s of
        (False, s1) \<Rightarrow> (Some (''mkdir failed: '' @ dest), s1)
      | (True, s1) \<Rightarrow>
          (case write_file dest data s1 of
             (False, s2) \<Rightarrow> (Some (''write failed: '' @ dest), s2)
           | (True, s2) \<Rightarrow> write_tree fs s2))"

definition template_files :: "(string \<times> string) list \<Rightarrow> string \<Rightarrow> string \<Rightarrow> string \<Rightarrow> (string \<times> string) list" where
  "template_files bundle pre dest_root name =
     map (\<lambda>(path, data). (fit 1400 (dest_root @ ''/'' @ drop (length pre) path), substitute name data))
       (filter (\<lambda>(path, data). take (length pre) path = pre \<and> drop (length pre) path \<noteq> []) bundle)"

definition copy_template_dir ::
  "(string \<times> string) list \<Rightarrow> string \<Rightarrow> string \<Rightarrow> string \<Rightarrow> fsys \<Rightarrow> string option \<times> fsys" where
  "copy_template_dir bundle pre dest_root name s = write_tree (template_files bundle pre dest_root name) s"

definition name_char :: "char \<Rightarrow> bool" where
  "name_char c = (in_range CHR ''a'' CHR ''z'' c \<or> in_range CHR ''0'' CHR ''9'' c \<or> in_range CHR ''A'' CHR ''Z'' c \<or>
                  c = CHR ''-'' \<or> c = CHR ''_'')"

definition gitignore_text :: string where
  "gitignore_text = take 13 (''.cerco/'' @ [CHR 0x0A] @ ''dist/'' @ [CHR 0x0A])"

definition cmd_new :: "(string \<times> string) list \<Rightarrow> string list \<Rightarrow> fsys \<Rightarrow> string option \<times> fsys" where
  "cmd_new bundle args s =
     (case args of
        [] \<Rightarrow> (Some ''usage: cerco new <name>'', s)
      | name # _ \<Rightarrow>
          if name = [] then (Some ''usage: cerco new <name>'', s)
          else if \<not> list_all name_char name then (Some (''invalid project name '' @ name), s)
          else if is_dir s name then (Some (''directory exists: '' @ name), s)
          else case mkdirs name s of
            (False, s1) \<Rightarrow> (Some (''cannot create '' @ name), s1)
          | (True, s1) \<Rightarrow>
              (case copy_template_dir bundle ''templates/default/'' name name s1 of
                 (Some msg, s2) \<Rightarrow> (Some msg, s2)
               | (None, s2) \<Rightarrow>
                   let s3 = snd (mkdirs (fit 1200 (name @ ''/public'')) s2);
                       p = fit 1200 (name @ ''/.gitignore'')
                   in (None, if is_file s3 p then s3 else snd (write_file p gitignore_text s3))))"

definition cmd_clean :: "cerco_project \<Rightarrow> fsys \<Rightarrow> fsys option" where
  "cmd_clean proj s =
     do { s1 \<leftarrow> rm_recursive (fit 1300 (pj_root proj @ ''/.cerco'')) s;
          rm_recursive (fit 1300 (pj_root proj @ ''/dist'')) s1 }"

subsection \<open>Toolchain check\<close>

text \<open>
  The command tried, and the argument vector: a slot that was never written is \<open>None\<close>. \<open>env\<close> is
  \<open>getenv\<close>.
\<close>

definition tool_command :: "fsys \<Rightarrow> (string \<Rightarrow> string option) \<Rightarrow> string \<Rightarrow> string \<Rightarrow> string list \<Rightarrow> string" where
  "tool_command s env pretty var fallback =
     (case env var of
        Some bin \<Rightarrow> if bin \<noteq> [] then fit 256 bin else
          (case find (is_file s) fallback of Some f \<Rightarrow> fit 256 f | None \<Rightarrow> fit 256 pretty)
      | None \<Rightarrow> (case find (is_file s) fallback of Some f \<Rightarrow> fit 256 f | None \<Rightarrow> fit 256 pretty))"

definition tool_argv :: "string \<Rightarrow> string \<Rightarrow> string option list" where
  "tool_argv cmd args =
     (let toks = take 2 (if args \<noteq> [] then strtok_all (CHR '' '') (fit 128 args) else [])
      in take 3 (Some (fit 256 cmd) # map (Some \<circ> fit 256) toks @ [None, None]))"

text \<open>\<open>strtol\<close> on a text that begins with a digit: beyond the range of \<open>long\<close> it is the largest one, and the
  conversion to \<open>int\<close> keeps the low 32 bits.\<close>

definition first_number :: "string \<Rightarrow> int" where
  "first_number out =
     (let t = dropWhile (\<lambda>c. \<not> is_digit c) (cstr out); v = dec_value 0 (takeWhile is_digit t)
      in if t = [] then 0 else sint (of_nat (min v (2 ^ 63 - 1)) :: u32))"

text \<open>\<open>run\<close> is the outcome of the process: exit status and captured output.\<close>

definition check_tool ::
  "(string option list \<Rightarrow> int \<times> string) \<Rightarrow> fsys \<Rightarrow> (string \<Rightarrow> string option) \<Rightarrow> string \<Rightarrow> string \<Rightarrow> string list \<Rightarrow>
     string \<Rightarrow> int \<Rightarrow> bool" where
  "check_tool run s env pretty var fallback args min_major =
     (case run (tool_argv (tool_command s env pretty var fallback) args) of
        (rc, out) \<Rightarrow> rc = 0 \<and> (min_major \<le> 0 \<or> first_number out \<ge> min_major))"

definition cmd_doctor :: "(string option list \<Rightarrow> int \<times> string) \<Rightarrow> fsys \<Rightarrow> (string \<Rightarrow> string option) \<Rightarrow> int" where
  "cmd_doctor run s env =
     (let a = check_tool run s env ''clang'' ''CERCO_CLANG''
                [''/opt/homebrew/opt/llvm/bin/clang'', ''/usr/local/opt/llvm/bin/clang''] ''--version'' 14;
          b = check_tool run s env ''wasm-ld'' ''CERCO_WASM_LD''
                [''/opt/homebrew/opt/lld/bin/wasm-ld'', ''/usr/local/opt/lld/bin/wasm-ld''] ''--version'' 14;
          c = check_tool run s env ''llvm-ar'' ''CERCO_AR'' [''/opt/homebrew/opt/llvm/bin/llvm-ar''] ''--version'' 14
      in if a \<and> b \<and> c then 0 else 1)"

subsection \<open>Writing a tree\<close>

text \<open>Files that can be written one after the other: none is a directory of another.\<close>

definition tree_fits :: "fsys \<Rightarrow> (string \<times> string) list \<Rightarrow> bool" where
  "tree_fits s fs = (list_all (\<lambda>(d, x). can_file s d) fs \<and>
     (\<forall>d \<in> fst ` set fs. \<forall>e \<in> fst ` set fs. d \<notin> set (dir_prefixes e)))"

lemma write_tree_files:
  assumes "tree_fits s fs"
  shows "\<exists>s'. write_tree fs s = (None, s') \<and> fs_denied s' = fs_denied s \<and> fs_now s' = fs_now s \<and>
    (\<forall>q. fs_get s' q = (case map_of (rev fs) q of
       Some x \<Rightarrow> Some (N_file x (fs_now s))
     | None \<Rightarrow> if q \<in> (\<Union>d \<in> fst ` set fs. set (dir_prefixes d)) then Some N_dir else fs_get s q))"
  using assms
proof (induction fs arbitrary: s)
  case Nil
  then show ?case by simp
next
  case (Cons f fs)
  obtain d x where f: "f = (d, x)" by (cases f)
  from Cons.prems f have "can_file s d" by (simp add: tree_fits_def)
  from write_new_file [OF this, of x] obtain s1 s2 where
    w: "mkdir_for_file d s = (True, s1)" "write_file d x s1 = (True, s2)" "file_added d x s s2" by blast
  have "tree_fits s2 fs"
    using Cons.prems f can_file_added [OF _ w(3)] by (fastforce simp: tree_fits_def list_all_iff)
  from Cons.IH [OF this] obtain s' where s': "write_tree fs s2 = (None, s')" "fs_denied s' = fs_denied s2" "fs_now s' = fs_now s2"
    "\<forall>q. fs_get s' q = (case map_of (rev fs) q of
       Some x \<Rightarrow> Some (N_file x (fs_now s2))
     | None \<Rightarrow> if q \<in> (\<Union>d \<in> fst ` set fs. set (dir_prefixes d)) then Some N_dir else fs_get s2 q)" by blast
  have nd: "d \<notin> (\<Union>d \<in> fst ` set fs. set (dir_prefixes d))" using Cons.prems f by (auto simp: tree_fits_def)
  have "fs_get s' q = (case map_of (rev (f # fs)) q of
       Some x \<Rightarrow> Some (N_file x (fs_now s))
     | None \<Rightarrow> if q \<in> (\<Union>d \<in> fst ` set (f # fs). set (dir_prefixes d)) then Some N_dir else fs_get s q)" for q
    using s'(4) w(3) nd f by (auto simp: file_added_def map_add_def split: option.splits)
  with s'(1-3) w f show ?case by (auto simp: file_added_def)
qed

subsection \<open>A new project\<close>

text \<open>A clean relative path: not empty, no leading slash, no empty component.\<close>

definition rel_path :: "string \<Rightarrow> bool" where
  "rel_path p = (p \<noteq> [] \<and> hd p \<noteq> CHR ''/'' \<and> (\<forall>i. Suc i < length p \<longrightarrow> p ! i = CHR ''/'' \<longrightarrow> p ! Suc i \<noteq> CHR ''/''))"

lemma rel_path_parent:
  assumes "CHR ''/'' \<notin> set name" "name \<noteq> []" "rel_path rel"
  shows "\<exists>d. path_parent (name @ ''/'' @ rel) = Some d \<and> last d \<noteq> CHR ''/''"
proof -
  let ?p = "name @ ''/'' @ rel"
  obtain i where i: "last_index_of CHR ''/'' ?p = Some i" using last_index_of_None [of "CHR ''/''" ?p] by auto
  note l = last_index_of_Some [OF i]
  have "i \<noteq> 0"
  proof
    assume "i = 0"
    with l assms(1,2) show False by (cases name) auto
  qed
  then obtain j where j: "i = Suc j" by (cases i) auto
  have "?p ! j \<noteq> CHR ''/''"
  proof (cases "j < length name")
    case True
    with assms(1) show ?thesis by (auto simp: nth_append in_set_conv_nth)
  next
    case False
    show ?thesis
    proof (cases "j = length name")
      case True
      with l j assms(3) have "hd rel = CHR ''/''" by (auto simp: nth_append rel_path_def hd_conv_nth)
      with assms(3) show ?thesis by (simp add: rel_path_def)
    next
      case n: False
      with False obtain k where k: "j = Suc (length name + k)" using less_imp_Suc_add [of "length name" j] by auto
      then have "?p ! j = rel ! k" "?p ! i = rel ! Suc k" using j by (simp_all add: nth_append)
      moreover have "Suc k < length rel" using l j k by auto
      ultimately show ?thesis using l assms(3) by (auto simp: rel_path_def)
    qed
  qed
  moreover have "last (take i ?p) = ?p ! j"
    unfolding j using l j by (metis Suc_lessD last_snoc take_Suc_conv_app_nth)
  ultimately show ?thesis using i j by (simp add: path_parent_def)
qed

lemma prefix_under:
  assumes "CHR ''/'' \<notin> set name" "q \<in> set (dir_prefixes (name @ ''/'' @ rel))"
  shows "q = name \<or> (\<exists>r. q = name @ ''/'' @ r)"
proof -
  from assms(2) obtain i where i: "q = take i (name @ ''/'' @ rel)" "(name @ ''/'' @ rel) ! i = CHR ''/''"
    by (auto simp: dir_prefixes_def)
  have "length name \<le> i"
  proof (rule ccontr)
    assume "\<not> length name \<le> i"
    with i(2) assms(1) show False by (auto simp: nth_append in_set_conv_nth)
  qed
  with i(1) show ?thesis by (cases "i - length name") auto
qed

text \<open>No file system entry has the project's name, and the templates are a tree of clean paths.\<close>

definition fresh_name :: "string \<Rightarrow> fsys \<Rightarrow> bool" where
  "fresh_name name s = (fs_get s name = None \<and> (\<forall>r. fs_get s (name @ ''/'' @ r) = None))"

definition template_prefix :: string where "template_prefix = ''templates/default/''"

definition templates_ok :: "string \<Rightarrow> (string \<times> string) list \<Rightarrow> bool" where
  "templates_ok name tpl =
     (distinct (map fst tpl) \<and> list_all (\<lambda>(p, x). rel_path p \<and> length name + length p < 1023) tpl \<and>
      (\<forall>d \<in> fst ` set tpl. \<forall>e \<in> fst ` set tpl. d \<notin> set (dir_prefixes e)))"

definition bundle_of :: "(string \<times> string) list \<Rightarrow> (string \<times> string) list" where
  "bundle_of tpl = map (\<lambda>(p, x). (template_prefix @ p, x)) tpl"

lemma template_files_bundle:
  assumes "templates_ok name tpl" "\<forall>(p, x) \<in> set others. take (length template_prefix) p \<noteq> template_prefix"
  shows "template_files (bundle_of tpl @ others) template_prefix name name =
    map (\<lambda>(p, x). (name @ ''/'' @ p, substitute name x)) tpl"
proof -
  let ?sel = "\<lambda>(path, data). take (length template_prefix) path = template_prefix \<and> drop (length template_prefix) path \<noteq> []"
  have "filter ?sel (bundle_of tpl) = bundle_of tpl"
    using assms(1) by (intro filter_True) (auto simp: bundle_of_def templates_ok_def rel_path_def list_all_iff)
  moreover have "filter ?sel others = []" using assms(2) by (auto simp: filter_empty_conv)
  ultimately have "filter ?sel (bundle_of tpl @ others) = bundle_of tpl" by simp
  then show ?thesis
    using assms(1) by (auto simp: template_files_def bundle_of_def templates_ok_def list_all_iff)
qed

lemma dir_prefixes_under:
  assumes "CHR ''/'' \<notin> set name" "name \<noteq> []" "name @ ''/'' @ d \<in> set (dir_prefixes (name @ ''/'' @ e))"
  shows "d \<in> set (dir_prefixes e) \<or> d = [] \<or> hd e = CHR ''/''"
proof -
  from assms(3) obtain i where i: "name @ ''/'' @ d = take i (name @ ''/'' @ e)" "(name @ ''/'' @ e) ! i = CHR ''/''" "1 \<le> i"
    "i < length (name @ ''/'' @ e)" by (auto simp: dir_prefixes_def)
  from arg_cong [OF i(1), of length] i(4) have n: "i = length name + 1 + length d" by (simp add: min_def split: if_splits)
  then have "d = take (length d) e" "e ! length d = CHR ''/''" "length d < length e" using i by (auto simp: nth_append)
  then show ?thesis by (cases "d = []") (auto simp: dir_prefixes_def Suc_leI intro!: image_eqI [of _ _ "length d"])
qed

lemma templates_fit:
  assumes "templates_ok name tpl" "CHR ''/'' \<notin> set name" "name \<noteq> []"
    and "fs_get s name = Some N_dir" "\<forall>r. fs_get s (name @ ''/'' @ r) = None" "fs_denied s = (\<lambda>_. False)"
  shows "tree_fits s (map (\<lambda>(p, x). (name @ ''/'' @ p, substitute name x)) tpl)"
proof -
  have "can_file s (name @ ''/'' @ p)" if "(p, x) \<in> set tpl" for p x
  proof -
    from that assms(1) have p: "rel_path p" "length name + length p < 1023" by (auto simp: templates_ok_def list_all_iff)
    from rel_path_parent [OF assms(2,3) p(1)] obtain d where d: "path_parent (name @ ''/'' @ p) = Some d" "last d \<noteq> CHR ''/''" by blast
    have "can_dir s q" if "q \<in> set (path_dirs d)" for q
      using prefix_under [OF assms(2), of q p] that dir_prefixes_Some [OF d(1)] assms(4-6) by (auto simp: can_dir_def)
    with d p assms(5,6) show ?thesis by (auto simp: can_file_def list_all_iff)
  qed
  moreover have "name @ ''/'' @ d \<notin> set (dir_prefixes (name @ ''/'' @ e))" if "d \<in> fst ` set tpl" "e \<in> fst ` set tpl" for d e
    using that assms(1) dir_prefixes_under [OF assms(2,3), of d e] by (force simp: templates_ok_def list_all_iff rel_path_def)
  ultimately show ?thesis by (fastforce simp: tree_fits_def list_all_iff)
qed

lemma name_dirs: "CHR ''/'' \<notin> set name \<Longrightarrow> path_dirs name = [name]"
  by (simp add: path_dirs_def dir_prefixes_None path_parent_def last_index_of_None [THEN iffD2])

lemma new_project_run:
  assumes "list_all name_char name" "name \<noteq> []" "length name < 128" "fresh_name name s" "fs_denied s = (\<lambda>_. False)"
    and "templates_ok name tpl" "\<forall>(p, x) \<in> set others. take (length template_prefix) p \<noteq> template_prefix"
  shows "\<exists>s'. cmd_new (bundle_of tpl @ others) (name # args) s = (None, s') \<and>
    (\<forall>(p, x) \<in> set tpl. read_file s' (name @ ''/'' @ p) = Some (substitute name x))"
proof -
  have sl: "CHR ''/'' \<notin> set name" using assms(1) by (auto simp: list_all_iff name_char_def in_range_def)
  have "\<exists>s1. mkdirs name s = (True, s1) \<and> dirs_added (path_dirs name) s s1"
  proof (rule mkdirs_path)
    show "last name \<noteq> CHR ''/''" using sl assms(2) last_in_set by fastforce
    show "list_all (can_dir s) (path_dirs name)" using assms(4,5) by (simp add: name_dirs [OF sl] can_dir_def fresh_name_def)
  qed (use assms(2,3) in simp_all)
  then obtain s1 where s1: "mkdirs name s = (True, s1)" "dirs_added [name] s s1" by (auto simp: name_dirs [OF sl])
  let ?fs = "map (\<lambda>(p, x). (name @ ''/'' @ p, substitute name x)) tpl"
  have "tree_fits s1 ?fs"
    using assms(4,5) s1(2) by (intro templates_fit [OF assms(6) sl assms(2)]) (auto simp: dirs_added_def fresh_name_def)
  from write_tree_files [OF this] obtain s2 where s2: "write_tree ?fs s1 = (None, s2)"
    "\<forall>q x. map_of (rev ?fs) q = Some x \<longrightarrow> fs_get s2 q = Some (N_file x (fs_now s1))" by fastforce
  have cp: "copy_template_dir (bundle_of tpl @ others) template_prefix name name s1 = (None, s2)"
    using s2(1) template_files_bundle [OF assms(6,7)] by (simp add: copy_template_dir_def)
  let ?s3 = "snd (mkdirs (fit 1200 (name @ ''/public'')) s2)" and ?gi = "fit 1200 (name @ ''/.gitignore'')"
  let ?s4 = "if is_file ?s3 ?gi then ?s3 else snd (write_file ?gi gitignore_text ?s3)"
  have run: "cmd_new (bundle_of tpl @ others) (name # args) s = (None, ?s4)"
    using assms(1,2,4) s1(1) cp by (simp add: cmd_new_def fresh_name_def is_dir_def template_prefix_def Let_def)
  have "read_file ?s4 (name @ ''/'' @ p) = Some (substitute name x)" if "(p, x) \<in> set tpl" for p x
  proof -
    have "distinct (map fst ?fs)" using assms(6) by (auto simp: templates_ok_def distinct_map comp_def inj_on_def split_def)
    then have "map_of (rev ?fs) (name @ ''/'' @ p) = Some (substitute name x)"
      using that by (intro map_of_is_SomeI) (auto simp: rev_map [symmetric])
    with s2(2) have "fs_get s2 (name @ ''/'' @ p) = Some (N_file (substitute name x) (fs_now s1))" by blast
    then have "fs_get ?s3 (name @ ''/'' @ p) = Some (N_file (substitute name x) (fs_now s1))" by (rule mkdirs_keeps)
    then show ?thesis by (auto simp: read_file_def write_file_def is_file_def)
  qed
  with run show ?thesis by blast
qed

subsection \<open>Values of the project file\<close>

lemma trim_quoted: "cli_trim ([CHR 0x22] @ v @ [CHR 0x22]) = [CHR 0x22] @ v @ [CHR 0x22]"
  by (simp add: cli_trim_def is_blank_def)

lemma toml_value_quoted:
  assumes "CHR 0x22 \<notin> set v"
  shows "toml_value ([CHR 0x22] @ v @ [CHR 0x22]) = takeWhile (\<lambda>c. c \<noteq> CHR ''#'') v"
proof -
  have "toml_value ([CHR 0x22] @ v @ [CHR 0x22]) =
      (if CHR ''#'' \<in> set v \<and> char_at v 0 \<noteq> CHR 0x22 then takeWhile (\<lambda>c. c \<noteq> CHR ''#'') v else v)"
    unfolding toml_value_def trim_quoted by simp
  moreover have "char_at v 0 \<noteq> CHR 0x22" if "CHR ''#'' \<in> set v" using assms that by (cases v) (auto simp: char_at_def)
  moreover have "takeWhile (\<lambda>c. c \<noteq> CHR ''#'') v = v" if "CHR ''#'' \<notin> set v" using that by (induction v) auto
  ultimately show ?thesis by (cases "CHR ''#'' \<in> set v") (simp_all del: takeWhile_eq_all_conv)
qed

lemma index_of_append: "c \<notin> set xs \<Longrightarrow> index_of c (xs @ c # ys) = Some (length xs)"
  by (induction xs) auto

lemma trim_line_quoted:
  assumes "name \<noteq> []" "list_all name_char name"
  shows "cli_trim (name @ '' = '' @ [CHR 0x22] @ v @ [CHR 0x22]) = name @ '' = '' @ [CHR 0x22] @ v @ [CHR 0x22]"
    and "cli_trim (name @ '' '') = name"
proof -
  have nb: "\<not> is_blank c \<and> c \<noteq> CHR 0x0A" if "name_char c" for c
    using that by (auto simp: name_char_def in_range_def is_blank_def)
  obtain c cs where c: "name = c # cs" using assms(1) by (cases name) auto
  then have "name_char c" using assms(2) by simp
  from nb [OF this] show "cli_trim (name @ '' = '' @ [CHR 0x22] @ v @ [CHR 0x22]) = name @ '' = '' @ [CHR 0x22] @ v @ [CHR 0x22]"
    by (simp add: cli_trim_def c is_blank_def)
  obtain d ds where d: "rev name = d # ds" using assms(1) by (cases "rev name") auto
  then have "d \<in> set name" by (metis list.set_intros(1) set_rev)
  then have "name_char d" using assms(2) by (auto simp: list_all_iff)
  have "dropWhile is_blank (name @ '' '') = name @ '' ''" using nb [OF \<open>name_char c\<close>] c by simp
  moreover have "dropWhile (\<lambda>c. is_blank c \<or> c = CHR 0x0A) (rev name) = rev name" using nb [OF \<open>name_char d\<close>] d by simp
  ultimately show "cli_trim (name @ '' '') = name" by (simp add: cli_trim_def is_blank_def)
qed

subsection \<open>Properties\<close>

text \<open>C26: A new project holds every template file, with the project's name in place of the placeholder: for a
  valid name that is not in use, \<open>cerco new\<close> succeeds and writes each of them under the new directory.\<close>

theorem new_project_files:
  assumes "list_all name_char name" "name \<noteq> []" "length name < 128" "fresh_name name s" "fs_denied s = (\<lambda>_. False)"
    and "templates_ok name tpl" "\<forall>(p, x) \<in> set others. take (length template_prefix) p \<noteq> template_prefix"
  shows "\<exists>s'. cmd_new (bundle_of tpl @ others) (name # args) s = (None, s') \<and>
    (\<forall>(p, x) \<in> set tpl. read_file s' (name @ ''/'' @ p) = Some (substitute name x))"
  by (rule new_project_run [OF assms])

theorem new_project_files_witness:
  "\<exists>s'. cmd_new [(''templates/default/a.c'', ''my-app!''), (''templates/default/b/c.c'', ''x'')] [''demo'']
       \<lparr>fs_nodes = [], fs_denied = (\<lambda>_. False), fs_now = 5\<rparr> = (None, s') \<and>
     read_file s' ''demo/a.c'' = Some ''demo!''"
proof -
  let ?s = "\<lparr>fs_nodes = [], fs_denied = (\<lambda>_. False), fs_now = 5\<rparr>" and ?t = "[(''a.c'', ''my-app!''), (''b/c.c'', ''x'')]"
  have b: "bundle_of ?t @ [] = [(''templates/default/a.c'', ''my-app!''), (''templates/default/b/c.c'', ''x'')]"
    by (simp add: bundle_of_def template_prefix_def)
  have r: "rel_path ''a.c''" "rel_path ''b/c.c''"
    by (auto simp: rel_path_def less_Suc_eq nth_Cons split: nat.splits)
  have d: "dir_prefixes ''a.c'' = []" "dir_prefixes ''b/c.c'' = [''b'']" by code_simp+
  have t: "templates_ok ''demo'' ?t" using r d by (auto simp: templates_ok_def)
  have f: "fresh_name ''demo'' ?s" by (simp add: fresh_name_def fs_get_def)
  have n: "list_all name_char ''demo''" by (simp add: name_char_def in_range_def)
  have "substitute ''demo'' ''my-app!'' = ''demo!''" by (simp add: substitute.simps)
  then show ?thesis
    using new_project_files [OF n _ _ f _ t, of "[]" "[]"] unfolding b by auto
qed

text \<open>A quoted value of \<open>cerco.toml\<close> is assigned without its quotes, but only up to its first hash sign:
  comments are removed after the quotes.\<close>

theorem toml_hash_cut:
  assumes "CHR 0x22 \<notin> set v"
  shows "toml_line (''name = '' @ [CHR 0x22] @ v @ [CHR 0x22]) ([], p) =
    ([], p\<lparr>pj_name := fit 128 (takeWhile (\<lambda>c. c \<noteq> CHR ''#'') v)\<rparr>)"
proof -
  let ?q = "[CHR 0x22] @ v @ [CHR 0x22]"
  have nc: "list_all name_char ''name''" by (simp add: name_char_def in_range_def)
  have t: "cli_trim (''name = '' @ ?q) = ''name = '' @ ?q"
    using trim_line_quoted(1) [OF _ nc, of v] by simp
  have "CHR ''='' \<notin> set ''name ''" by simp
  from index_of_append [OF this, of "'' '' @ ?q"] have i: "index_of CHR ''='' (''name = '' @ ?q) = Some 5" by simp
  have k: "cli_trim ''name '' = ''name''" using trim_line_quoted(2) [OF _ nc] by simp
  have sp: "toml_value ('' '' @ ?q) = toml_value ?q"
    by (simp add: toml_value_def cli_trim_def is_blank_def)
  show ?thesis
    unfolding toml_line_def t i using k sp toml_value_quoted [OF assms] by (simp add: toml_assign_def)
qed

theorem toml_hash_cut_witness:
  "toml_line (''name = '' @ [CHR 0x22] @ ''c#app'' @ [CHR 0x22]) ([], p) = ([], p\<lparr>pj_name := ''c''\<rparr>)"
  by (subst toml_hash_cut) simp_all

end
