(* ===== verification/Cli_Sdk.thy ===== *)
theory Cli_Sdk
  imports Cli_Project Cli_Gen Wire
begin

text \<open>
  The tools a build needs: the SDK that \<open>cli/sdk.c\<close> extracts from the executable into the project,
  and the pinned stylesheet compiler that \<open>cli/tailwind.c\<close> downloads. The embedded files and the
  effect of \<open>curl\<close> are parameters.
\<close>

subsection \<open>Hashes of the embedded files\<close>

definition is_compile_input :: "string \<Rightarrow> bool" where
  "is_compile_input path =
     (take 8 path = ''include/'' \<or> take 7 path = ''vendor/'' \<or> take 4 path = ''lib/'' \<or>
      take 15 path = ''runtime/client/'' \<or> take 15 path = ''runtime/server/'' \<or> take 15 path = ''runtime/shared/'')"

definition hash_file :: "string \<times> string \<Rightarrow> cerco_sha256_ctx \<Rightarrow> cerco_sha256_ctx" where
  "hash_file f ctx =
     (case f of (path, data) \<Rightarrow>
        cerco_sha256_update (to_bytes data)
          (cerco_sha256_update (bytes32 (of_nat (length data))) (cerco_sha256_update (to_bytes path) ctx)))"

definition hex16 :: "byte list \<Rightarrow> string" where
  "hex16 digest = concat (map (\<lambda>b. [hexd ! unat (drop_bit 4 b), hexd ! unat (b AND 0xf)]) (take 16 digest))"

definition bundle_hash :: "(string \<times> string) list \<Rightarrow> string option" where
  "bundle_hash bundle = map_option hex16 (cerco_sha256_final (fold hash_file bundle cerco_sha256_init))"

definition compile_hash :: "string \<Rightarrow> (string \<times> string) list \<Rightarrow> string option" where
  "compile_hash version bundle =
     map_option hex16 (cerco_sha256_final
       (fold hash_file (filter (\<lambda>(path, data). is_compile_input path) bundle)
         (cerco_sha256_update (to_bytes version) cerco_sha256_init)))"

subsection \<open>Extraction\<close>

record sdk_layout =
  sd_dir :: string
  sd_marker :: string
  sd_old :: string
  sd_files :: "(string \<times> string) list"

definition sdk_layout_of :: "(string \<times> string) list \<Rightarrow> string \<Rightarrow> string \<Rightarrow> sdk_layout" where
  "sdk_layout_of bundle root hex =
     (let sdk = fit 1200 (root @ ''/.cerco/sdk'') in
      \<lparr>sd_dir = sdk, sd_marker = fit 1400 (sdk @ ''/'' @ hex), sd_old = fit 1400 (root @ ''/.cerco/sdk_marker''),
       sd_files = map (\<lambda>(path, data). (fit 1400 (sdk @ ''/'' @ path), data)) bundle\<rparr>)"

text \<open>The test by which an extracted SDK is kept.\<close>

definition sdk_kept :: "sdk_layout \<Rightarrow> fsys \<Rightarrow> bool" where
  "sdk_kept l s =
     (is_file s (sd_marker l) \<and> is_file s (sd_old l) \<and>
      (case read_file s (sd_old l) of None \<Rightarrow> False | Some m \<Rightarrow> cstr m = sd_marker l))"

text \<open>The extraction as a machine: what is still to do, one file operation at a time.\<close>

datatype sdk_pc =
    Sdk_rm "rm_item list"
  | Sdk_mkdir
  | Sdk_write "(string \<times> string) list"
  | Sdk_mark
  | Sdk_old
  | Sdk_ready
  | Sdk_died string
  | Sdk_killed

fun sdk_next :: "sdk_layout \<Rightarrow> sdk_pc \<Rightarrow> fsys \<Rightarrow> sdk_pc \<times> fsys" where
  "sdk_next l (Sdk_rm []) s = (Sdk_mkdir, s)"
| "sdk_next l (Sdk_rm (x # todo)) s = (case rm_one x s of (new, s') \<Rightarrow> (Sdk_rm (new @ todo), s'))"
| "sdk_next l Sdk_mkdir s =
     (case mkdirs (sd_dir l) s of
        (True, s') \<Rightarrow> (Sdk_write (sd_files l), s')
      | (False, s') \<Rightarrow> (Sdk_died (''cannot create '' @ sd_dir l), s'))"
| "sdk_next l (Sdk_write []) s = (Sdk_mark, s)"
| "sdk_next l (Sdk_write ((dest, data) # fs)) s =
     (case mkdir_for_file dest s of
        (False, s1) \<Rightarrow> (Sdk_died (''mkdir failed for '' @ dest), s1)
      | (True, s1) \<Rightarrow>
          (case write_file dest data s1 of
             (False, s2) \<Rightarrow> (Sdk_died (''write failed for '' @ dest), s2)
           | (True, s2) \<Rightarrow> (Sdk_write fs, s2)))"
| "sdk_next l Sdk_mark s =
     (case write_file (sd_marker l) [] s of
        (False, s') \<Rightarrow> (Sdk_died ''cannot write marker'', s')
      | (True, s') \<Rightarrow> (Sdk_old, s'))"
| "sdk_next l Sdk_old s = (Sdk_ready, snd (write_file (sd_old l) (sd_marker l) s))"
| "sdk_next l pc s = (pc, s)"

partial_function (option) sdk_run :: "sdk_layout \<Rightarrow> sdk_pc \<Rightarrow> fsys \<Rightarrow> (string option \<times> fsys) option" where
  "sdk_run l pc s =
     (case pc of
        Sdk_ready \<Rightarrow> Some (None, s)
      | Sdk_died msg \<Rightarrow> Some (Some msg, s)
      | _ \<Rightarrow> (case sdk_next l pc s of (pc', s') \<Rightarrow> sdk_run l pc' s'))"

text \<open>The result is the directory of the SDK and the hash that keys the object cache, or the message.\<close>

definition sdk_ensure ::
  "string \<Rightarrow> (string \<times> string) list \<Rightarrow> string \<Rightarrow> fsys \<Rightarrow> ((string + string \<times> string) \<times> fsys) option" where
  "sdk_ensure version bundle root s =
     do { hex \<leftarrow> bundle_hash bundle;
          key \<leftarrow> compile_hash version bundle;
          let l = sdk_layout_of bundle root hex;
          if sdk_kept l s then Some (Inr (sd_dir l, key), s)
          else do { (died, s') \<leftarrow> sdk_run l (Sdk_rm [Rm_path (sd_dir l)]) s;
                    Some (case died of Some msg \<Rightarrow> Inl msg | None \<Rightarrow> Inr (sd_dir l, key), s') } }"

text \<open>
  Runs that can be interrupted: at any point the process may be killed, also while the bytes of a
  file are being written.
\<close>

inductive sdk_step :: "sdk_layout \<Rightarrow> sdk_pc \<times> fsys \<Rightarrow> sdk_pc \<times> fsys \<Rightarrow> bool" for l where
  next_op: "pc \<noteq> Sdk_killed \<Longrightarrow> sdk_step l (pc, s) (sdk_next l pc s)"
| killed: "sdk_step l (pc, s) (Sdk_killed, s)"
| torn_file: "mkdir_for_file dest s = (True, s1) \<Longrightarrow> write_file dest (take k data) s1 = (True, s2) \<Longrightarrow>
    sdk_step l (Sdk_write ((dest, data) # fs), s) (Sdk_killed, s2)"
| torn_marker: "write_file (sd_old l) (take k (sd_marker l)) s = (True, s') \<Longrightarrow> sdk_step l (Sdk_old, s) (Sdk_killed, s')"

subsection \<open>The stylesheet compiler\<close>

record tailwind_entry =
  tw_version :: string
  tw_platform :: string
  tw_arch :: string
  tw_url :: string
  tw_sha256 :: string

definition tailwind_pinned :: string where "tailwind_pinned = ''4.3.3''"

definition tw_release :: "string \<Rightarrow> string" where
  "tw_release f = ''https://github.com/tailwindlabs/tailwindcss/releases/download/v4.3.3/tailwindcss-'' @ f"

definition tailwind_manifest :: "tailwind_entry list" where
  "tailwind_manifest =
     [\<lparr>tw_version = ''4.3.3'', tw_platform = ''darwin'', tw_arch = ''arm64'', tw_url = tw_release ''macos-arm64'',
       tw_sha256 = ''cdf646702987a743464dff4d9c60fd4480d1c1e73dd819a9a67f1078815dce9d''\<rparr>,
      \<lparr>tw_version = ''4.3.3'', tw_platform = ''darwin'', tw_arch = ''x64'', tw_url = tw_release ''macos-x64'',
       tw_sha256 = ''7922e0953f2110c05976e3bf58f14e643d90427575e766b7d433f5f80cbee7e1''\<rparr>,
      \<lparr>tw_version = ''4.3.3'', tw_platform = ''linux'', tw_arch = ''arm64'', tw_url = tw_release ''linux-arm64'',
       tw_sha256 = ''55fd0b241214eff3de1e8ee4f22796662f2d2e7a49bcfca7477cfd0bac398195''\<rparr>,
      \<lparr>tw_version = ''4.3.3'', tw_platform = ''linux'', tw_arch = ''x64'', tw_url = tw_release ''linux-x64'',
       tw_sha256 = ''dc61b3ac6b8c9ca874c0cc4c57b2409791a64c5540404ca5f5367360babc313a''\<rparr>]"

text \<open>\<open>platform\<close> is the one the program was compiled for, \<open>machine\<close> the answer of \<open>uname\<close>.\<close>

definition manifest_entry :: "string \<Rightarrow> string \<Rightarrow> tailwind_entry option" where
  "manifest_entry platform machine =
     (let arch = (if machine = ''arm64'' \<or> machine = ''aarch64'' then ''arm64'' else if machine = ''x86_64'' then ''x64'' else [])
      in find (\<lambda>e. tw_version e = tailwind_pinned \<and> tw_platform e = platform \<and> tw_arch e = arch) tailwind_manifest)"

definition tailwind_bin :: "string \<Rightarrow> tailwind_entry \<Rightarrow> string" where
  "tailwind_bin home ent =
     fit 1300 (fit 1200 (home @ ''/.cerco/tools/tailwind/'' @ tw_version ent) @ ''/'' @ tw_platform ent @ ''_'' @ tw_arch ent @ ''/tailwindcss'')"

definition tailwind_skipped :: "(string \<Rightarrow> string option) \<Rightarrow> bool" where
  "tailwind_skipped env =
     (case env ''CERCO_SKIP_TAILWIND'' of
        None \<Rightarrow> False
      | Some v \<Rightarrow> v \<noteq> [] \<and> v \<noteq> ''0'' \<and> v \<noteq> ''false'' \<and> v \<noteq> ''no'')"

text \<open>\<open>curl\<close> is the effect of the download command: its exit status and the new state.\<close>

definition tailwind_ensure ::
  "(string \<Rightarrow> string option) \<Rightarrow> string \<Rightarrow> string \<Rightarrow> (string list \<Rightarrow> fsys \<Rightarrow> int \<times> fsys) \<Rightarrow> fsys \<Rightarrow> string option \<times> fsys" where
  "tailwind_ensure env platform machine curl s =
     (if tailwind_skipped env then (None, s)
      else case manifest_entry platform machine of
        None \<Rightarrow> (None, s)
      | Some ent \<Rightarrow>
          (case env ''HOME'' of
             None \<Rightarrow> (None, s)
           | Some home \<Rightarrow>
               let bin = tailwind_bin home ent; tmp = fit 1400 (bin @ ''.download'') in
               if is_file s bin then (Some bin, s)
               else case mkdir_for_file bin s of
                 (False, s1) \<Rightarrow> (None, s1)
               | (True, s1) \<Rightarrow>
                   (case curl [''curl'', ''-fsSL'', ''-o'', tmp, fit 512 (tw_url ent)] s1 of
                      (rc, s2) \<Rightarrow>
                        if rc \<noteq> 0 then (None, snd (sys_unlink tmp s2))
                        else case read_file s2 tmp of
                          None \<Rightarrow> (None, s2)
                        | Some data \<Rightarrow>
                            if cerco_sha256_hex (to_bytes data) \<noteq> Some (tw_sha256 ent) then (None, snd (sys_unlink tmp s2))
                            else case sys_rename tmp bin s2 of
                              (None, s3) \<Rightarrow> (Some bin, s3)
                            | (Some _, s3) \<Rightarrow> (None, s3))))"

definition tailwind_argv :: "string \<Rightarrow> string \<Rightarrow> string \<Rightarrow> bool \<Rightarrow> string list" where
  "tailwind_argv bin inp out_css watch = [bin, ''-i'', inp, ''-o'', out_css] @ (if watch then [''--watch'', ''--minify''] else [])"

subsection \<open>Interrupted extractions\<close>

definition sdk_complete :: "sdk_layout \<Rightarrow> fsys \<Rightarrow> bool" where
  "sdk_complete l s = (\<forall>(dest, data) \<in> set (sd_files l). read_file s dest = Some data)"

text \<open>The files are distinct and none of them is one of the markers.\<close>

definition layout_ok :: "sdk_layout \<Rightarrow> bool" where
  "layout_ok l = (distinct (map fst (sd_files l)) \<and> sd_marker l \<notin> fst ` set (sd_files l) \<and>
     sd_old l \<notin> fst ` set (sd_files l) \<and> sd_marker l \<noteq> sd_old l)"

definition sdk_inv :: "sdk_layout \<Rightarrow> sdk_pc \<times> fsys \<Rightarrow> bool" where
  "sdk_inv l st =
     (case st of (pc, s) \<Rightarrow>
        (case pc of
           Sdk_rm _ \<Rightarrow> \<not> sdk_kept l s
         | Sdk_mkdir \<Rightarrow> \<not> sdk_kept l s
         | Sdk_write fs \<Rightarrow> \<not> sdk_kept l s \<and>
             (\<exists>before. sd_files l = before @ fs \<and> (\<forall>(dest, data) \<in> set before. read_file s dest = Some data))
         | Sdk_mark \<Rightarrow> \<not> sdk_kept l s \<and> sdk_complete l s
         | Sdk_old \<Rightarrow> sdk_complete l s
         | Sdk_ready \<Rightarrow> sdk_complete l s
         | Sdk_died _ \<Rightarrow> sdk_kept l s \<longrightarrow> sdk_complete l s
         | Sdk_killed \<Rightarrow> sdk_kept l s \<longrightarrow> sdk_complete l s))"

text \<open>The test fails again when the markers only lost a node or became directories.\<close>

lemma kept_back:
  assumes "sdk_kept l s'"
    and "\<And>q. q = sd_marker l \<or> q = sd_old l \<Longrightarrow> fs_get s' q = fs_get s q \<or> fs_get s' q = None \<or> fs_get s' q = Some N_dir"
  shows "sdk_kept l s"
proof -
  have "fs_get s' q \<noteq> None" "fs_get s' q \<noteq> Some N_dir" if "q = sd_marker l \<or> q = sd_old l" for q
    using assms(1) that by (auto simp: sdk_kept_def is_file_def split: option.splits)
  with assms(2) have "fs_get s' (sd_marker l) = fs_get s (sd_marker l)" "fs_get s' (sd_old l) = fs_get s (sd_old l)"
    by blast+
  with assms(1) show ?thesis by (simp add: sdk_kept_def is_file_def read_file_def)
qed

lemma kept_rm: "sdk_kept l (snd (rm_one x s)) \<Longrightarrow> sdk_kept l s"
  using rm_one_removes [of x s] by (intro kept_back [of l "snd (rm_one x s)" s]) metis+

lemma kept_mkdirs: "sdk_kept l (snd (mkdirs p s)) \<Longrightarrow> sdk_kept l s"
  using mkdirs_adds [of p s] by (intro kept_back [of l "snd (mkdirs p s)" s]) metis+

lemma kept_file:
  assumes "mkdir_for_file d s = (ok1, s1)" "write_file d x s1 = (ok2, s2)" "d \<noteq> sd_marker l" "d \<noteq> sd_old l" "sdk_kept l s2"
  shows "sdk_kept l s"
  using assms(5)
proof (rule kept_back)
  fix q
  assume "q = sd_marker l \<or> q = sd_old l"
  with assms(3,4) have "fs_get s2 q = fs_get s1 q" using write_file_get [OF assms(2), of q] by auto
  with mkdir_for_file_adds [of d s q] assms(1) show "fs_get s2 q = fs_get s q \<or> fs_get s2 q = None \<or> fs_get s2 q = Some N_dir"
    by auto
qed

lemma kept_dirs: "mkdir_for_file d s = (ok, s1) \<Longrightarrow> sdk_kept l s1 \<Longrightarrow> sdk_kept l s"
  using mkdir_for_file_adds [of d s] by (intro kept_back [of l s1 s]) (metis snd_conv)+

lemma read_file_written:
  assumes "mkdir_for_file d s = (ok1, s1)" "write_file d x s1 = (ok2, s2)" "p \<noteq> d" "read_file s p = Some y"
  shows "read_file s2 p = Some y"
proof -
  from assms(4) obtain t where "fs_get s p = Some (N_file y t)" by (auto simp: read_file_def split: option.splits node.splits)
  with mkdir_for_file_keeps [OF this, of d] assms(1) have "fs_get s1 p = Some (N_file y t)" by simp
  with write_file_get [OF assms(2), of p] assms(3) show ?thesis by (simp add: read_file_def)
qed

lemma complete_write:
  assumes "sdk_complete l s" "write_file p x s = (ok, s')" "p \<notin> fst ` set (sd_files l)"
  shows "sdk_complete l s'"
  unfolding sdk_complete_def
proof (intro ballI, clarify)
  fix d y
  assume d: "(d, y) \<in> set (sd_files l)"
  with assms(3) have "d \<noteq> p" by (auto simp: image_iff)
  with write_file_get [OF assms(2), of d] d assms(1) show "read_file s' d = Some y"
    by (auto simp: sdk_complete_def read_file_def)
qed

lemma sdk_write_inv:
  assumes "layout_ok l" "sdk_inv l (Sdk_write ((d, x) # fs), s)" "mkdir_for_file d s = (True, s1)" "write_file d x s1 = (True, s2)"
  shows "sdk_inv l (Sdk_write fs, s2)"
proof -
  from assms(2) obtain before where b: "sd_files l = before @ (d, x) # fs" "\<forall>(dest, data) \<in> set before. read_file s dest = Some data"
    "\<not> sdk_kept l s" by (auto simp: sdk_inv_def)
  have nd: "d \<noteq> sd_marker l" "d \<noteq> sd_old l" "d \<notin> fst ` set before" using assms(1) b(1) by (auto simp: layout_ok_def)
  have "\<not> sdk_kept l s2" using kept_file [OF assms(3,4) nd(1,2)] b(3) by blast
  moreover have "read_file s2 dest = Some data" if "(dest, data) \<in> set (before @ [(d, x)])" for dest data
  proof (cases "dest = d")
    case True
    with that nd(3) have "data = x" by (auto simp: image_iff)
    with True write_file_get [OF assms(4), of d] show ?thesis by (simp add: read_file_def)
  next
    case False
    with that b(2) have "read_file s dest = Some data" by auto
    from read_file_written [OF assms(3,4) False this] show ?thesis .
  qed
  ultimately show ?thesis using b(1) by (auto simp: sdk_inv_def intro!: exI [of _ "before @ [(d, x)]"])
qed

lemma sdk_next_inv:
  assumes "layout_ok l" "sdk_inv l (pc, s)"
  shows "sdk_inv l (sdk_next l pc s)"
proof (cases "(l, pc, s)" rule: sdk_next.cases)
  case (2 l' x todo s')
  with assms kept_rm [of l x s] show ?thesis by (auto simp: sdk_inv_def split: prod.splits)
next
  case (3 l' s')
  with assms kept_mkdirs [of l "sd_dir l" s] show ?thesis by (auto simp: sdk_inv_def split: prod.splits bool.splits)
next
  case (4 l' s')
  with assms show ?thesis by (auto simp: sdk_inv_def sdk_complete_def)
next
  case (5 l' d x fs s')
  obtain ok1 s1 where s1: "mkdir_for_file d s = (ok1, s1)" by fastforce
  obtain ok2 s2 where s2: "write_file d x s1 = (ok2, s2)" by fastforce
  from 5 assms have k: "\<not> sdk_kept l s" "d \<noteq> sd_marker l" "d \<noteq> sd_old l" by (auto simp: sdk_inv_def layout_ok_def)
  show ?thesis
  proof (cases "ok1 \<and> ok2")
    case True
    with sdk_write_inv [OF assms(1), of d x fs s s1 s2] assms(2) 5 s1 s2 show ?thesis by simp
  next
    case False
    with kept_dirs [OF s1, of l] kept_file [OF s1 s2 k(2,3)] k(1) 5 s1 s2 show ?thesis
      by (auto simp: sdk_inv_def split: bool.splits)
  qed
next
  case (6 l' s')
  obtain ok s1 where w: "write_file (sd_marker l) [] s = (ok, s1)" by fastforce
  have "sdk_complete l s" using assms(2) 6 by (simp add: sdk_inv_def)
  from complete_write [OF this w] assms(1) 6 w show ?thesis by (auto simp: sdk_inv_def layout_ok_def split: bool.splits)
next
  case (7 l' s')
  obtain ok s1 where w: "write_file (sd_old l) (sd_marker l) s = (ok, s1)" by fastforce
  have "sdk_complete l s" using assms(2) 7 by (simp add: sdk_inv_def)
  from complete_write [OF this w] assms(1) 7 w show ?thesis by (auto simp: sdk_inv_def layout_ok_def)
qed (use assms in \<open>auto simp: sdk_inv_def\<close>)

lemma sdk_step_inv:
  assumes "sdk_step l st st'" "layout_ok l" "sdk_inv l st"
  shows "sdk_inv l st'"
  using assms(1)
proof cases
  case (next_op pc s)
  with assms sdk_next_inv [of l pc s] show ?thesis by simp
next
  case (killed pc s)
  with assms(3) show ?thesis by (auto simp: sdk_inv_def split: sdk_pc.splits)
next
  case (torn_file dest s s1 data k s2 fs)
  with assms(2,3) have "dest \<noteq> sd_marker l" "dest \<noteq> sd_old l" "\<not> sdk_kept l s" by (auto simp: sdk_inv_def layout_ok_def)
  with kept_file [OF torn_file(3,4)] torn_file(2) show ?thesis by (auto simp: sdk_inv_def)
next
  case (torn_marker k s s')
  with assms(3) have "sdk_complete l s" by (simp add: sdk_inv_def)
  from complete_write [OF this torn_marker(3)] assms(2) torn_marker(2) show ?thesis by (auto simp: sdk_inv_def layout_ok_def)
qed

interpretation sdk_sys: transition_system
  "\<lambda>(pc, s). \<exists>todo. pc = Sdk_rm todo \<and> layout_ok l \<and> \<not> sdk_kept l s" "sdk_step l" "\<lambda>st. layout_ok l \<and> sdk_inv l st" for l
  by unfold_locales (auto simp: sdk_inv_def [of l "(Sdk_rm _, _)"] dest: sdk_step_inv)

lemma sdk_next_alive: "pc \<noteq> Sdk_killed \<Longrightarrow> fst (sdk_next l pc s) \<noteq> Sdk_killed"
  by (cases "(l, pc, s)" rule: sdk_next.cases) (auto split: prod.splits bool.splits)

lemma sdk_run_steps:
  "fst st \<noteq> Sdk_killed \<Longrightarrow> (sdk_step l)\<^sup>*\<^sup>* st (((\<lambda>(pc, s). sdk_next l pc s) ^^ n) st) \<and>
    fst (((\<lambda>(pc, s). sdk_next l pc s) ^^ n) st) \<noteq> Sdk_killed"
proof (induction n)
  case (Suc n)
  obtain pc s where m: "((\<lambda>(pc, s). sdk_next l pc s) ^^ n) st = (pc, s)" by fastforce
  with Suc have "(sdk_step l)\<^sup>*\<^sup>* st (pc, s)" "pc \<noteq> Sdk_killed" by auto
  then show ?case using m next_op [of pc l s] sdk_next_alive [of pc l s] by (auto intro: rtranclp.rtrancl_into_rtrancl)
qed simp

lemma rename_read: "sys_rename a b s = (None, s') \<Longrightarrow> read_file s' b = read_file s a"
  by (auto simp: sys_rename_def read_file_def split: option.splits node.splits if_splits)

subsection \<open>Properties\<close>

text \<open>C20: An extracted SDK that a build keeps is complete: wherever earlier runs of the same program were
  interrupted, when both markers are found in order every embedded file is there with its content.\<close>

theorem sdk_kept_is_complete:
  assumes "layout_ok l" "\<not> sdk_kept l s0" "(sdk_step l)\<^sup>*\<^sup>* (Sdk_rm [Rm_path (sd_dir l)], s0) (pc, s)" "sdk_kept l s"
  shows "sdk_complete l s"
  using sdk_sys.reachable_inv [OF assms(3)] assms(1,2,4) by (auto simp: sdk_inv_def split: sdk_pc.splits)

definition sdk_demo :: sdk_layout where
  "sdk_demo = sdk_layout_of [(''include/a.h'', ''A''), (''lib/b'', ''B'')] ''/p'' ''00ff''"

definition sdk_demo_run :: "nat \<Rightarrow> sdk_pc \<times> fsys" where
  "sdk_demo_run n = ((\<lambda>(pc, s). sdk_next sdk_demo pc s) ^^ n)
     (Sdk_rm [Rm_path (sd_dir sdk_demo)], \<lparr>fs_nodes = [(''/p'', N_dir)], fs_denied = (\<lambda>_. False), fs_now = 5\<rparr>)"

theorem sdk_kept_is_complete_witness:
  "sdk_complete sdk_demo (snd (sdk_demo_run 8))"
proof (rule sdk_kept_is_complete)
  show "layout_ok sdk_demo" by code_simp
  show "\<not> sdk_kept sdk_demo \<lparr>fs_nodes = [(''/p'', N_dir)], fs_denied = (\<lambda>_. False), fs_now = 5\<rparr>" by code_simp
  show "(sdk_step sdk_demo)\<^sup>*\<^sup>* (Sdk_rm [Rm_path (sd_dir sdk_demo)], \<lparr>fs_nodes = [(''/p'', N_dir)], fs_denied = (\<lambda>_. False), fs_now = 5\<rparr>)
      (fst (sdk_demo_run 8), snd (sdk_demo_run 8))"
    using sdk_run_steps [of "(Sdk_rm [Rm_path (sd_dir sdk_demo)], \<lparr>fs_nodes = [(''/p'', N_dir)], fs_denied = (\<lambda>_. False), fs_now = 5\<rparr>)"
        sdk_demo 8] by (simp add: sdk_demo_run_def)
  show "sdk_kept sdk_demo (snd (sdk_demo_run 8))" by code_simp
qed

text \<open>The stylesheet compiler a build runs was there before or has the pinned hash: a download whose SHA-256
  differs from the manifest's is never put in its place.\<close>

theorem tailwind_verified:
  assumes "tailwind_ensure env platform machine curl s = (Some bin, s')"
  shows "is_file s bin \<or> (\<exists>ent data. manifest_entry platform machine = Some ent \<and> read_file s' bin = Some data \<and>
    cerco_sha256_hex (to_bytes data) = Some (tw_sha256 ent))"
proof -
  from assms obtain ent where ent: "manifest_entry platform machine = Some ent"
    by (auto simp: tailwind_ensure_def split: if_splits option.splits)
  from assms ent obtain home where home: "env ''HOME'' = Some home"
    by (auto simp: tailwind_ensure_def split: if_splits option.splits)
  let ?bin = "tailwind_bin home ent" and ?tmp = "fit 1400 (tailwind_bin home ent @ ''.download'')"
  from assms ent home have sk: "\<not> tailwind_skipped env" by (auto simp: tailwind_ensure_def)
  show ?thesis
  proof (cases "is_file s ?bin")
    case True
    with assms ent home sk show ?thesis by (auto simp: tailwind_ensure_def Let_def)
  next
    case False
    with assms ent home sk obtain s1 s2 data where w: "mkdir_for_file ?bin s = (True, s1)"
      "curl [''curl'', ''-fsSL'', ''-o'', ?tmp, fit 512 (tw_url ent)] s1 = (0, s2)" "read_file s2 ?tmp = Some data"
      "cerco_sha256_hex (to_bytes data) = Some (tw_sha256 ent)" "sys_rename ?tmp ?bin s2 = (None, s')" "bin = ?bin"
      by (auto simp: tailwind_ensure_def Let_def split: prod.splits bool.splits if_splits option.splits)
    from rename_read [OF w(5)] w(3,4,6) ent show ?thesis by auto
  qed
qed

definition tw_demo_fs :: fsys where
  "tw_demo_fs = \<lparr>fs_nodes = [(''/h/.cerco/tools/tailwind/4.3.3/linux_x64/tailwindcss'', N_file ''bin'' 1)],
     fs_denied = (\<lambda>_. False), fs_now = 5\<rparr>"

definition tw_demo_env :: "string \<Rightarrow> string option" where
  "tw_demo_env v = (if v = ''HOME'' then Some ''/h'' else None)"

lemma tw_demo_found:
  "tailwind_ensure tw_demo_env ''linux'' ''x86_64'' curl tw_demo_fs =
     (Some ''/h/.cerco/tools/tailwind/4.3.3/linux_x64/tailwindcss'', tw_demo_fs)"
proof -
  let ?e = "tailwind_manifest ! 3"
  have e: "manifest_entry ''linux'' ''x86_64'' = Some ?e"
    by (simp add: manifest_entry_def tailwind_manifest_def tailwind_pinned_def numeral_eq_Suc Let_def)
  have b: "tailwind_bin ''/h'' ?e = ''/h/.cerco/tools/tailwind/4.3.3/linux_x64/tailwindcss''"
    by (simp add: tailwind_bin_def tailwind_manifest_def numeral_eq_Suc)
  have f: "is_file tw_demo_fs ''/h/.cerco/tools/tailwind/4.3.3/linux_x64/tailwindcss''"
    by (simp add: is_file_def fs_get_def tw_demo_fs_def)
  have "\<not> tailwind_skipped tw_demo_env" "tw_demo_env ''HOME'' = Some ''/h''" by (simp_all add: tailwind_skipped_def tw_demo_env_def)
  with e b f show ?thesis by (simp add: tailwind_ensure_def)
qed

theorem tailwind_verified_witness:
  "is_file tw_demo_fs ''/h/.cerco/tools/tailwind/4.3.3/linux_x64/tailwindcss'' \<or>
   (\<exists>ent data. manifest_entry ''linux'' ''x86_64'' = Some ent \<and>
      read_file tw_demo_fs ''/h/.cerco/tools/tailwind/4.3.3/linux_x64/tailwindcss'' = Some data \<and>
      cerco_sha256_hex (to_bytes data) = Some (tw_sha256 ent))"
  by (rule tailwind_verified [OF tw_demo_found])

end
