(* ===== verification/Cli_Pool.thy ===== *)
theory Cli_Pool
  imports Cli_Scan "HOL-Library.Multiset"
begin

text \<open>
  The compile pool of \<open>cli/build.c\<close>: workers that take the next job under a lock, compile it and
  append the compiler's message to a shared buffer. The compiler is a parameter: the message of
  each job, \<open>None\<close> when it succeeds.
\<close>

subsection \<open>The message buffer\<close>

definition POOL_ERR :: nat where "POOL_ERR = 16384"

text \<open>
  What was written from the start of \<open>err\<close>; its length is \<open>err_len\<close>, and the terminator stands
  behind it. The room left is a \<open>size_t\<close>.
\<close>

definition pool_append :: "string \<Rightarrow> string \<Rightarrow> string" where
  "pool_append err written =
     (let room = (of_nat POOL_ERR - of_nat (length written) - 1 :: u64) in
      if room > 0 then
        let len = (if of_nat (length err) > room then unat room else length err)
        in written @ take len err @ [CHR 0x0A]
      else written)"

subsection \<open>Workers\<close>

datatype pool_pc =
    W_fetch
  | W_compile nat
  | W_report string
  | W_done

record compile_pool =
  cp_next :: nat
  cp_err :: string
  cp_failed :: bool
  cp_workers :: "pool_pc list"
  cp_compiled :: "nat list"

text \<open>The number of workers: the created threads and the thread itself, or only that one.\<close>

definition pool_size :: "int \<Rightarrow> nat \<Rightarrow> nat \<Rightarrow> nat" where
  "pool_size cpus njobs created =
     (let n = min (min (nat (if cpus > 0 then cpus else 4)) 8) njobs
      in if n = 1 then 1 else min created n + 1)"

definition pool_init :: "nat \<Rightarrow> compile_pool" where
  "pool_init k = \<lparr>cp_next = 0, cp_err = [], cp_failed = False, cp_workers = replicate k W_fetch, cp_compiled = []\<rparr>"

inductive pool_worker :: "nat \<Rightarrow> (nat \<Rightarrow> string option) \<Rightarrow> compile_pool \<Rightarrow> compile_pool \<Rightarrow> bool"
  for n compile where
  take_job: "w < length (cp_workers p) \<Longrightarrow> cp_workers p ! w = W_fetch \<Longrightarrow> cp_next p < n \<Longrightarrow>
    pool_worker n compile p (p\<lparr>cp_next := Suc (cp_next p), cp_workers := (cp_workers p)[w := W_compile (cp_next p)]\<rparr>)"
| no_job: "w < length (cp_workers p) \<Longrightarrow> cp_workers p ! w = W_fetch \<Longrightarrow> cp_next p \<ge> n \<Longrightarrow>
    pool_worker n compile p (p\<lparr>cp_next := Suc (cp_next p), cp_workers := (cp_workers p)[w := W_done]\<rparr>)"
| run_job: "w < length (cp_workers p) \<Longrightarrow> cp_workers p ! w = W_compile i \<Longrightarrow>
    pool_worker n compile p (p\<lparr>cp_compiled := cp_compiled p @ [i],
      cp_workers := (cp_workers p)[w := (case compile i of None \<Rightarrow> W_fetch | Some e \<Rightarrow> W_report e)]\<rparr>)"
| report: "w < length (cp_workers p) \<Longrightarrow> cp_workers p ! w = W_report e \<Longrightarrow>
    pool_worker n compile p (p\<lparr>cp_failed := True, cp_err := pool_append e (cp_err p),
      cp_workers := (cp_workers p)[w := W_fetch]\<rparr>)"

definition pool_finished :: "compile_pool \<Rightarrow> bool" where
  "pool_finished p = (set (cp_workers p) \<subseteq> {W_done})"

inductive_cases pool_workerE: "pool_worker n compile p q"

subsection \<open>Invariant\<close>

fun held_job :: "pool_pc \<Rightarrow> nat list" where
  "held_job (W_compile i) = [i]"
| "held_job _ = []"

fun report_of :: "pool_pc \<Rightarrow> string list" where
  "report_of (W_report e) = [e]"
| "report_of _ = []"

definition held_jobs :: "compile_pool \<Rightarrow> nat multiset" where
  "held_jobs p = mset (concat (map held_job (cp_workers p)))"

definition reports :: "compile_pool \<Rightarrow> string multiset" where
  "reports p = mset (concat (map report_of (cp_workers p)))"

text \<open>Every job below the ticket is compiled or held, once; a job that failed is reported or about to be.\<close>

definition jobs_inv :: "nat \<Rightarrow> (nat \<Rightarrow> string option) \<Rightarrow> compile_pool \<Rightarrow> bool" where
  "jobs_inv n compile p =
     (mset (cp_compiled p) + held_jobs p = mset [0..<min (cp_next p) n] \<and>
      (cp_failed p \<or> reports p \<noteq> {#} \<longleftrightarrow> (\<exists>i \<in> set (cp_compiled p). compile i \<noteq> None)))"

lemma mset_list_update:
  assumes "w < length ws"
  shows "mset (concat (map f (ws[w := x]))) + mset (f (ws ! w)) = mset (concat (map f ws)) + mset (f x)"
proof -
  have ws: "ws = take w ws @ ws ! w # drop (Suc w) ws" using assms by (rule id_take_nth_drop)
  have u: "ws[w := x] = take w ws @ x # drop (Suc w) ws" using assms by (rule upd_conv_take_nth_drop)
  have "mset (concat (map f ws)) = mset (concat (map f (take w ws))) + mset (f (ws ! w)) + mset (concat (map f (drop (Suc w) ws)))"
    by (subst ws) simp
  then show ?thesis unfolding u by simp
qed

lemma held_jobs_update:
  "w < length (cp_workers p) \<Longrightarrow> cp_workers q = (cp_workers p)[w := x] \<Longrightarrow>
   held_jobs q + mset (held_job (cp_workers p ! w)) = held_jobs p + mset (held_job x)"
  using mset_list_update [of w "cp_workers p" held_job x] by (simp add: held_jobs_def)

lemma reports_update:
  "w < length (cp_workers p) \<Longrightarrow> cp_workers q = (cp_workers p)[w := x] \<Longrightarrow>
   reports q + mset (report_of (cp_workers p ! w)) = reports p + mset (report_of x)"
  using mset_list_update [of w "cp_workers p" report_of x] by (simp add: reports_def)

lemma pool_worker_inv:
  assumes "pool_worker n compile p q" "jobs_inv n compile p"
  shows "jobs_inv n compile q"
  using assms(1)
proof cases
  case (take_job w)
  have "min (Suc (cp_next p)) n = Suc (cp_next p)" "min (cp_next p) n = cp_next p" using take_job by simp_all
  with take_job assms(2) held_jobs_update [of w p q "W_compile (cp_next p)"] reports_update [of w p q "W_compile (cp_next p)"]
  show ?thesis by (simp add: jobs_inv_def)
next
  case (no_job w)
  then have "min (Suc (cp_next p)) n = min (cp_next p) n" by simp
  with no_job assms(2) held_jobs_update [of w p q W_done] reports_update [of w p q W_done] show ?thesis
    by (simp add: jobs_inv_def)
next
  case (run_job w i)
  let ?x = "case compile i of None \<Rightarrow> W_fetch | Some e \<Rightarrow> W_report e"
  have q: "cp_workers q = (cp_workers p)[w := ?x]" "cp_next q = cp_next p" "cp_compiled q = cp_compiled p @ [i]"
    "cp_failed q = cp_failed p" using run_job(1) by simp_all
  have "held_job ?x = []" by (simp split: option.split)
  with held_jobs_update [OF run_job(2) q(1)] run_job(3) have h: "held_jobs q + {#i#} = held_jobs p" by simp
  from reports_update [OF run_job(2) q(1)] run_job(3) have r: "reports q = reports p + mset (report_of ?x)" by simp
  have "mset (cp_compiled q) + held_jobs q = mset (cp_compiled p) + held_jobs p" unfolding q h [symmetric] by simp
  with assms(2) r q show ?thesis by (cases "compile i") (auto simp: jobs_inv_def)
next
  case (report w e)
  have "reports p \<noteq> {#}"
    using reports_update [of w p q W_fetch] report by auto
  with report assms(2) held_jobs_update [of w p q W_fetch] show ?thesis by (simp add: jobs_inv_def)
qed

lemma pool_init_inv: "jobs_inv n compile (pool_init k)"
  by (simp add: jobs_inv_def pool_init_def held_jobs_def reports_def)

interpretation compile_sys: transition_system "\<lambda>p. \<exists>k. p = pool_init k" "pool_worker n compile" "jobs_inv n compile" for n compile
  by unfold_locales (auto intro: pool_init_inv pool_worker_inv)

lemma finished_empty:
  assumes "pool_finished p"
  shows "held_jobs p = {#}" "reports p = {#}"
proof -
  have "concat (map held_job (cp_workers p)) = []" "concat (map report_of (cp_workers p)) = []"
    using assms by (auto simp: pool_finished_def)
  then show "held_jobs p = {#}" "reports p = {#}" by (simp_all add: held_jobs_def reports_def)
qed

subsection \<open>Progress\<close>

fun worker_cost :: "pool_pc \<Rightarrow> nat" where
  "worker_cost W_fetch = 1"
| "worker_cost (W_compile i) = 3"
| "worker_cost (W_report e) = 2"
| "worker_cost W_done = 0"

definition pool_cost :: "nat \<Rightarrow> compile_pool \<Rightarrow> nat" where
  "pool_cost n p = 3 * (n - cp_next p) + sum_list (map worker_cost (cp_workers p))"

lemma sum_list_worker:
  assumes "w < length ws"
  shows "sum_list (map worker_cost (ws[w := x])) + worker_cost (ws ! w) = sum_list (map worker_cost ws) + worker_cost x"
proof -
  have ws: "ws = take w ws @ ws ! w # drop (Suc w) ws" using assms by (rule id_take_nth_drop)
  have u: "ws[w := x] = take w ws @ x # drop (Suc w) ws" using assms by (rule upd_conv_take_nth_drop)
  have "sum_list (map worker_cost ws) =
      sum_list (map worker_cost (take w ws)) + worker_cost (ws ! w) + sum_list (map worker_cost (drop (Suc w) ws))"
    by (subst ws) simp
  then show ?thesis unfolding u by simp
qed

lemma pool_worker_cost: "pool_worker n compile p q \<Longrightarrow> pool_cost n q < pool_cost n p"
proof (induction rule: pool_worker.induct)
  case (take_job w p)
  then show ?case using sum_list_worker [of w "cp_workers p" "W_compile (cp_next p)"] by (simp add: pool_cost_def)
next
  case (no_job w p)
  then show ?case using sum_list_worker [of w "cp_workers p" W_done] by (simp add: pool_cost_def)
next
  case (run_job w p i)
  have "worker_cost (case compile i of None \<Rightarrow> W_fetch | Some e \<Rightarrow> W_report e) < 3" by (simp split: option.split)
  with run_job show ?case
    using sum_list_worker [of w "cp_workers p" "case compile i of None \<Rightarrow> W_fetch | Some e \<Rightarrow> W_report e"]
    by (simp add: pool_cost_def)
next
  case (report w p e)
  then show ?case using sum_list_worker [of w "cp_workers p" W_fetch] by (simp add: pool_cost_def)
qed

lemma pool_can_step:
  assumes "\<not> pool_finished p"
  shows "\<exists>q. pool_worker n compile p q"
proof -
  from assms obtain x where "x \<in> set (cp_workers p)" "x \<noteq> W_done" by (auto simp: pool_finished_def)
  then obtain w where w: "w < length (cp_workers p)" "cp_workers p ! w \<noteq> W_done" by (metis in_set_conv_nth)
  show ?thesis
  proof (cases "cp_workers p ! w")
    case W_fetch
    with w(1) take_job [of w p n compile] no_job [of w p n compile] show ?thesis by (cases "cp_next p < n") auto
  next
    case (W_compile i)
    with w(1) run_job [of w p i n compile] show ?thesis by blast
  next
    case (W_report e)
    with w(1) report [of w p e n compile] show ?thesis by blast
  qed (use w in simp)
qed

lemma pool_runs_bounded: "(pool_worker n compile ^^ m) p q \<Longrightarrow> m + pool_cost n q \<le> pool_cost n p"
proof (induction m arbitrary: q)
  case (Suc m)
  then obtain r where "(pool_worker n compile ^^ m) p r" "pool_worker n compile r q" by auto
  with Suc.IH [of r] pool_worker_cost [of n compile r q] show ?case by linarith
qed simp

text \<open>A worker ends only after the last job was taken.\<close>

lemma pool_workers_done:
  "(pool_worker n compile)\<^sup>*\<^sup>* (pool_init k) p \<Longrightarrow>
     length (cp_workers p) = k \<and> (W_done \<in> set (cp_workers p) \<longrightarrow> n \<le> cp_next p)"
proof (induction rule: rtranclp_induct)
  case base
  then show ?case by (auto simp: pool_init_def)
next
  case (step p q)
  from step(2,3) show ?case
    by cases (auto dest!: set_update_subset_insert [THEN subsetD] split: option.splits)
qed

lemma pool_result:
  assumes "(pool_worker n compile)\<^sup>*\<^sup>* (pool_init k) p" "pool_finished p" "0 < k"
  shows "mset (cp_compiled p) = mset [0..<n] \<and> (cp_failed p \<longleftrightarrow> (\<exists>i < n. compile i \<noteq> None))"
proof -
  from pool_workers_done [OF assms(1)] assms(2,3) have "n \<le> cp_next p"
    by (cases "cp_workers p") (auto simp: pool_finished_def)
  moreover have "jobs_inv n compile p" using compile_sys.reachable_inv [OF assms(1)] by blast
  ultimately have m: "mset (cp_compiled p) = mset [0..<n]"
    "cp_failed p \<longleftrightarrow> (\<exists>i \<in> set (cp_compiled p). compile i \<noteq> None)"
    using finished_empty [OF assms(2)] by (simp_all add: jobs_inv_def)
  from mset_eq_setD [OF m(1)] m show ?thesis by auto
qed

text \<open>Messages that fit are reported one after the other.\<close>

lemma pool_append_fits:
  assumes "length written + length e + 1 < POOL_ERR"
  shows "pool_append e written = written @ e @ [CHR 0x0A]"
proof -
  let ?n = "POOL_ERR - length written - 1"
  have r: "(of_nat POOL_ERR - of_nat (length written) - 1 :: u64) = of_nat ?n"
    using assms by (simp add: of_nat_diff)
  have "?n < 2 ^ 64" "length e < 2 ^ 64" using assms by (simp_all add: POOL_ERR_def)
  then have u: "unat (of_nat ?n :: u64) = ?n" "unat (of_nat (length e) :: u64) = length e" by (simp_all only: unat_of_nat64)
  have "(of_nat ?n :: u64) > 0" "\<not> (of_nat (length e) :: u64) > of_nat ?n"
    using u assms by (simp_all add: word_less_nat_alt)
  then show ?thesis unfolding pool_append_def r Let_def by simp
qed

lemma pool_report_exact:
  "length written + sum_list (map (\<lambda>e. length e + 1) es) < POOL_ERR \<Longrightarrow>
   fold pool_append es written = written @ concat (map (\<lambda>e. e @ [CHR 0x0A]) es)"
  by (induction es arbitrary: written) (simp_all add: pool_append_fits)

text \<open>A message that leaves no room is cut to it, and its newline takes the last byte.\<close>

lemma pool_append_full:
  assumes "length written < POOL_ERR - 1" "POOL_ERR - 1 \<le> length written + length e" "length e < 2 ^ 64"
  shows "length (pool_append e written) = POOL_ERR"
proof -
  let ?n = "POOL_ERR - length written - 1"
  have r: "(of_nat POOL_ERR - of_nat (length written) - 1 :: u64) = of_nat ?n"
    using assms(1) by (simp add: of_nat_diff)
  have "?n < 2 ^ 64" using assms by (simp add: POOL_ERR_def)
  then have u: "unat (of_nat ?n :: u64) = ?n" "unat (of_nat (length e) :: u64) = length e"
    using assms(3) by (simp_all only: unat_of_nat64)
  then have "(of_nat ?n :: u64) > 0" "(of_nat (length e) :: u64) > of_nat ?n \<longleftrightarrow> length e > ?n"
    using assms(1) by (simp_all add: word_less_nat_alt)
  then show ?thesis using u assms unfolding pool_append_def r Let_def by (simp add: min_def) arith
qed

lemma pool_append_past:
  "length written = POOL_ERR \<Longrightarrow> pool_append e written = written @ e @ [CHR 0x0A]"
  by (simp add: pool_append_def Let_def word_gt_0)

subsection \<open>Properties\<close>

text \<open>C22: Whatever the scheduling, when all workers have ended every job was compiled exactly once, and the pool
  reports a failure exactly when some job failed.\<close>

theorem pool_compiles_each_once:
  assumes "(pool_worker n compile)\<^sup>*\<^sup>* (pool_init k) p" "pool_finished p" "0 < k"
  shows "mset (cp_compiled p) = mset [0..<n] \<and> (cp_failed p \<longleftrightarrow> (\<exists>i < n. compile i \<noteq> None))"
  by (rule pool_result [OF assms])

theorem pool_compiles_each_once_witness:
  "mset [0] = mset [0..<1] \<and> (\<exists>i < 1. (\<lambda>i :: nat. if i = 0 then Some ''e'' else None) i \<noteq> None)"
proof -
  let ?c = "\<lambda>i. if i = 0 then Some ''e'' else None :: string option" and ?s = "pool_worker 1 (\<lambda>i. if i = 0 then Some ''e'' else None)"
  let ?p = "\<lambda>nx e f w c. \<lparr>cp_next = nx, cp_err = e, cp_failed = f, cp_workers = [w], cp_compiled = c\<rparr>"
  have a: "pool_append ''e'' [] = [CHR ''e'', CHR 0x0A]" by (simp add: pool_append_fits POOL_ERR_def)
  have "?s (pool_init 1) (?p 1 [] False (W_compile 0) [])"
    using take_job [of 0 "pool_init 1" 1 ?c] by (simp add: pool_init_def)
  moreover have "?s (?p 1 [] False (W_compile 0) []) (?p 1 [] False (W_report ''e'') [0])"
    using run_job [of 0 "?p 1 [] False (W_compile 0) []" 0 1 ?c] by simp
  moreover have "?s (?p 1 [] False (W_report ''e'') [0]) (?p 1 [CHR ''e'', CHR 0x0A] True W_fetch [0])"
    using report [of 0 "?p 1 [] False (W_report ''e'') [0]" "''e''" 1 ?c] by (simp add: a)
  moreover have "?s (?p 1 [CHR ''e'', CHR 0x0A] True W_fetch [0]) (?p (Suc (Suc 0)) [CHR ''e'', CHR 0x0A] True W_done [0])"
    using no_job [of 0 "?p 1 [CHR ''e'', CHR 0x0A] True W_fetch [0]" 1 ?c] by simp
  ultimately have "?s\<^sup>*\<^sup>* (pool_init 1) (?p (Suc (Suc 0)) [CHR ''e'', CHR 0x0A] True W_done [0])"
    by (meson converse_rtranclp_into_rtranclp rtranclp.rtrancl_refl)
  from pool_compiles_each_once [OF this] show ?thesis by (simp add: pool_finished_def)
qed

text \<open>C24: The pool ends: after at most three steps for each job and one for each worker it has finished, and
  until then some worker can go on.\<close>

theorem pool_finishes:
  assumes "(pool_worker n compile ^^ m) (pool_init k) p"
  shows "m \<le> 3 * n + k \<and> (pool_finished p \<or> (\<exists>q. pool_worker n compile p q))"
proof -
  have "pool_cost n (pool_init k) = 3 * n + k" by (simp add: pool_cost_def pool_init_def sum_list_replicate)
  with pool_runs_bounded [OF assms] pool_can_step [of p n compile] show ?thesis by auto
qed

theorem pool_finishes_witness:
  "(0 :: nat) \<le> 3 * 2 + 1 \<and> (pool_finished (pool_init 1) \<or> (\<exists>q. pool_worker 2 (\<lambda>_. None) (pool_init 1) q))"
  using pool_finishes [of 0 2 "\<lambda>_. None" 1 "pool_init 1"] by simp

text \<open>Long compiler messages overrun the buffer: after two of 8191 bytes the terminator is written one byte
  behind the 16384, and a third message is written behind it in full.\<close>

theorem compile_errors_overrun:
  assumes "length e1 = 8191" "length e2 = 8191"
  shows "length (fold pool_append [e1, e2] []) = POOL_ERR \<and>
    length (fold pool_append [e1, e2, e3] []) = POOL_ERR + length e3 + 1"
proof -
  have e: "pool_append e1 [] = e1 @ [CHR 0x0A]" using pool_append_fits [of "[]" e1] assms(1) by (simp add: POOL_ERR_def)
  have l: "length (pool_append e2 (e1 @ [CHR 0x0A])) = POOL_ERR"
    using assms by (intro pool_append_full) (simp_all add: POOL_ERR_def)
  with e pool_append_past [OF l, of e3] show ?thesis by simp
qed

theorem compile_errors_overrun_witness:
  "length (fold pool_append [replicate 8191 CHR ''a'', replicate 8191 CHR ''b'', ''c''] []) = 16386"
  using compile_errors_overrun [of "replicate 8191 CHR ''a''" "replicate 8191 CHR ''b''" "''c''"] by (simp add: POOL_ERR_def)

end
