(* ===== verification/Cli_Compile.thy ===== *)
theory Cli_Compile
  imports Cli_Files Cli_Gen
begin

text \<open>
  The middle of \<open>cli/build.c\<close>: which sources are compiled into which target and under which object
  names, when an object is rebuilt or taken from the shared cache, what is linked, and the check
  that keeps client code out of route files. Running a tool is a parameter: from the argument
  vector and the file system to the exit status, the captured output and the new file system.
\<close>

type_synonym tool = "string list \<Rightarrow> fsys \<Rightarrow> int \<times> string \<times> fsys"
type_synonym environ = "string \<Rightarrow> string option"

record build_ctx =
  bc_root :: string
  bc_name :: string
  bc_sdk :: string
  bc_sdk_hash :: string
  bc_gen :: string
  bc_obj :: string
  bc_dist :: string
  bc_release :: bool
  bc_dev_assets :: bool
  bc_skip_css :: bool

subsection \<open>One object\<close>

definition needs_rebuild :: "fsys \<Rightarrow> string \<Rightarrow> string \<Rightarrow> bool" where
  "needs_rebuild s src obj =
     (case mtime_ms s src of
        None \<Rightarrow> True
      | Some smt \<Rightarrow> (case mtime_ms s obj of None \<Rightarrow> True | Some omt \<Rightarrow> smt > omt))"

definition find_clang :: "environ \<Rightarrow> fsys \<Rightarrow> string" where
  "find_clang env s =
     (case env ''CERCO_CLANG'' of
        Some e \<Rightarrow> if e \<noteq> [] then e else
          (case find (is_file s) [''/opt/homebrew/opt/llvm/bin/clang'', ''/usr/local/opt/llvm/bin/clang''] of
             Some c \<Rightarrow> c | None \<Rightarrow> ''clang'')
      | None \<Rightarrow>
          (case find (is_file s) [''/opt/homebrew/opt/llvm/bin/clang'', ''/usr/local/opt/llvm/bin/clang''] of
             Some c \<Rightarrow> c | None \<Rightarrow> ''clang''))"

text \<open>The command line on Linux; \<open>define\<close> is empty when there is none.\<close>

definition clang_argv :: "string \<Rightarrow> build_ctx \<Rightarrow> string \<Rightarrow> string \<Rightarrow> string \<Rightarrow> bool \<Rightarrow> string list" where
  "clang_argv clang b src obj define wasm =
     [clang, ''-c'', ''-std=c11''] @
     (if wasm then [''--target=wasm32'', ''-Oz'', ''-DCERCO_CLIENT'']
      else [if bc_release b then ''-O2'' else ''-O1'', if bc_release b then ''-g0'' else ''-g'', ''-D_GNU_SOURCE'']) @
     [''-fno-strict-aliasing'', ''-Wall'', fit 1300 (''-I'' @ bc_sdk b @ ''/include''), fit 1200 (''-I'' @ bc_root b @ ''/src''),
      fit 1200 (''-I'' @ bc_root b @ ''/src/shared'')] @
     (if wasm then [fit 1300 (''-I'' @ bc_gen b), fit 1300 (''-include'' @ bc_gen b @ ''/sf_client.h'')]
      else [fit 1300 (''-I'' @ bc_sdk b @ ''/runtime/server''), fit 1300 (''-I'' @ bc_sdk b @ ''/runtime/shared''),
        fit 1300 (''-I'' @ bc_sdk b @ ''/vendor/llhttp/include''), fit 1300 (''-I'' @ bc_sdk b @ ''/vendor/libuv/include'')]) @
     [src, ''-o'', obj] @ (if define \<noteq> [] then [define] else [])"

text \<open>The message of a failed compile, \<open>None\<close> on success.\<close>

definition run_clang_compile ::
  "tool \<Rightarrow> environ \<Rightarrow> build_ctx \<Rightarrow> string \<Rightarrow> string \<Rightarrow> string \<Rightarrow> bool \<Rightarrow> fsys \<Rightarrow> string option \<times> fsys" where
  "run_clang_compile run env b src obj define wasm s =
     (case run (clang_argv (find_clang env s) b src obj define wasm) s of
        (rc, out, s') \<Rightarrow> (if rc \<noteq> 0 then Some (fit 8192 (if out \<noteq> [] then cstr out else ''compile failed'')) else None, s'))"

definition install_cached_obj :: "string \<Rightarrow> string \<Rightarrow> fsys \<Rightarrow> bool \<times> fsys" where
  "install_cached_obj cached obj s =
     (let s1 = snd (sys_unlink obj s) in
      case sys_link cached obj s1 of
        (None, s2) \<Rightarrow> (True, s2)
      | (Some _, s2) \<Rightarrow> (case read_file s2 cached of None \<Rightarrow> (False, s2) | Some data \<Rightarrow> write_file obj data s2))"

text \<open>\<open>getenv\<close> of a variable that must not be empty, else of \<open>HOME\<close>.\<close>

definition cache_home :: "environ \<Rightarrow> string option" where
  "cache_home env =
     (case env ''CERCO_CACHE_DIR'' of
        Some d \<Rightarrow> if d \<noteq> [] then Some d else (case env ''HOME'' of Some h \<Rightarrow> if h \<noteq> [] then Some h else None | None \<Rightarrow> None)
      | None \<Rightarrow> (case env ''HOME'' of Some h \<Rightarrow> if h \<noteq> [] then Some h else None | None \<Rightarrow> None))"

definition sdk_cache_path :: "environ \<Rightarrow> build_ctx \<Rightarrow> bool \<Rightarrow> string \<Rightarrow> string option" where
  "sdk_cache_path env b wasm obj_rel =
     (if bc_sdk_hash b = [] then None
      else map_option (\<lambda>home. fit 1600 (home @ ''/.cerco/cache/'' @ bc_sdk_hash b @ ''/'' @
        (if wasm then ''wasm'' else if bc_release b then ''native-release'' else ''native-debug'') @ ''/'' @ obj_rel))
        (cache_home env))"

text \<open>
  The outcome of a job: success, the message written (\<open>None\<close>: none was), whether the compiler
  ran. \<open>pid\<close> makes the name of the temporary object.
\<close>

record compile_outcome =
  co_ok :: bool
  co_msg :: "string option"
  co_ran :: bool

definition compile_obj ::
  "tool \<Rightarrow> environ \<Rightarrow> nat \<Rightarrow> build_ctx \<Rightarrow> string \<Rightarrow> string \<Rightarrow> string \<Rightarrow> bool \<Rightarrow> bool \<Rightarrow> fsys \<Rightarrow> compile_outcome \<times> fsys" where
  "compile_obj run env pid b src obj_rel define wasm from_sdk s =
     (let obj = fit 1500 (bc_obj b @ ''/'' @ obj_rel);
          dir = (case last_index_of CHR ''/'' obj of Some i \<Rightarrow> take i obj | None \<Rightarrow> obj);
          direct = (\<lambda>s. case mkdir_for_file obj s of
             (False, s') \<Rightarrow> (\<lparr>co_ok = False, co_msg = None, co_ran = False\<rparr>, s')
           | (True, s') \<Rightarrow>
               (case run_clang_compile run env b src obj define wasm s' of
                  (msg, s'') \<Rightarrow> (\<lparr>co_ok = (msg = None), co_msg = msg, co_ran = True\<rparr>, s'')))
      in case mkdirs dir s of
        (False, s1) \<Rightarrow> (\<lparr>co_ok = False, co_msg = None, co_ran = False\<rparr>, s1)
      | (True, s1) \<Rightarrow>
          if \<not> from_sdk \<and> \<not> needs_rebuild s1 src obj then (\<lparr>co_ok = True, co_msg = None, co_ran = False\<rparr>, s1)
          else case (if from_sdk then sdk_cache_path env b wasm obj_rel else None) of
            None \<Rightarrow> direct s1
          | Some cached \<Rightarrow>
              if is_file s1 cached then
                (case install_cached_obj cached obj s1 of
                   (True, s2) \<Rightarrow> (\<lparr>co_ok = True, co_msg = None, co_ran = False\<rparr>, s2)
                 | (False, s2) \<Rightarrow> direct s2)
              else case mkdir_for_file cached s1 of
                (False, s2) \<Rightarrow> (\<lparr>co_ok = False, co_msg = Some (fit 8192 (''cache mkdir failed: '' @ cached)), co_ran = False\<rparr>, s2)
              | (True, s2) \<Rightarrow>
                  (let tmp = fit 1700 (cached @ ''.tmp'' @ dec pid) in
                   case run_clang_compile run env b src tmp define wasm s2 of
                     (Some msg, s3) \<Rightarrow> (\<lparr>co_ok = False, co_msg = Some msg, co_ran = True\<rparr>, snd (sys_unlink tmp s3))
                   | (None, s3) \<Rightarrow>
                       (case sys_rename tmp cached s3 of
                          (Some _, s4) \<Rightarrow> (\<lparr>co_ok = False, co_msg = None, co_ran = True\<rparr>, snd (sys_unlink tmp s4))
                        | (None, s4) \<Rightarrow>
                            (case install_cached_obj cached obj s4 of
                               (ok, s5) \<Rightarrow> (\<lparr>co_ok = ok, co_msg = None, co_ran = True\<rparr>, s5)))))"

subsection \<open>Sources\<close>

record compile_job =
  cj_src :: string
  cj_obj :: string
  cj_define :: string
  cj_wasm :: bool
  cj_sdk :: bool

definition queue_push :: "string \<Rightarrow> string \<Rightarrow> string \<Rightarrow> bool \<Rightarrow> bool \<Rightarrow> compile_job list \<Rightarrow> compile_job list" where
  "queue_push src obj define wasm from_sdk q =
     q @ [\<lparr>cj_src = fit 1400 src, cj_obj = fit 600 obj, cj_define = fit 256 define, cj_wasm = wasm, cj_sdk = from_sdk\<rparr>]"

definition app_source :: "bool \<Rightarrow> string \<Rightarrow> bool" where
  "app_source wasm rel =
     (if wasm then
        \<not> prefix ''src/server/'' rel \<and> \<not> prefix ''src/routes/'' rel \<and>
        (prefix ''src/components/'' rel \<or> prefix ''src/shared/'' rel \<or> prefix ''src/client/'' rel)
      else prefix ''src/routes/'' rel \<or> prefix ''src/server/'' rel \<or> prefix ''src/shared/'' rel)"

definition make_define :: "string \<Rightarrow> string \<Rightarrow> string" where
  "make_define name value = fit 256 (''-D'' @ name @ ''='' @ value)"

definition layout_of_file :: "string \<Rightarrow> layout_info \<Rightarrow> bool" where
  "layout_of_file rel l =
     (let want = fit 512 (''src/routes/'' @ li_dir l) in
      prefix want rel \<and> (drop (length want) rel = ''layout.c'' \<or> drop (length want) rel = ''/layout.c''))"

definition route_define :: "build_scan \<Rightarrow> string \<Rightarrow> string" where
  "route_define sc rel =
     (if path_basename rel = ''layout.c'' then
        (case find (layout_of_file rel) (bs_layouts sc) of
           None \<Rightarrow> [] | Some l \<Rightarrow> make_define ''CERCO_LAYOUT_SYMBOL'' (li_symbol l))
      else
        (case find (\<lambda>r. ri_rel r = rel) (bs_routes sc) of
           None \<Rightarrow> [] | Some r \<Rightarrow> make_define ''CERCO_ROUTE_SYMBOL'' (ri_symbol r)))"

definition obj_name :: "string \<Rightarrow> string \<Rightarrow> string" where
  "obj_name pre rel = fit 600 (pre @ ''_'' @ mangle rel 560 @ ''.o'')"

definition compile_app_sources_cb ::
  "build_scan \<Rightarrow> bool \<Rightarrow> string \<Rightarrow> string \<times> string \<times> bool \<Rightarrow> compile_job list \<Rightarrow> compile_job list" where
  "compile_app_sources_cb sc wasm pre e q =
     (case e of (rel, full, dir) \<Rightarrow>
        if dir \<or> \<not> is_c_file rel \<or> \<not> app_source wasm rel then q
        else queue_push full (obj_name pre rel)
          (if \<not> wasm \<and> prefix ''src/routes/'' rel then route_define sc rel else []) wasm False q)"

definition compile_sdk_sources_cb :: "bool \<Rightarrow> string \<times> string \<times> bool \<Rightarrow> compile_job list \<Rightarrow> compile_job list" where
  "compile_sdk_sources_cb wasm e q =
     (case e of (rel, full, dir) \<Rightarrow>
        if dir \<or> \<not> is_c_file rel \<or> prefix ''runtime/client/'' rel \<or> prefix ''runtime/browser/'' rel \<or>
           \<not> (prefix ''runtime/server/'' rel \<or> prefix ''runtime/shared/'' rel) then q
        else queue_push full (fit 620 (''sdk_'' @ mangle rel 560 @ ''.o'')) [] wasm True q)"

definition compile_wasm_runtime_cb :: "string \<times> string \<times> bool \<Rightarrow> compile_job list \<Rightarrow> compile_job list" where
  "compile_wasm_runtime_cb e q =
     (case e of (rel, full, dir) \<Rightarrow>
        if dir \<or> \<not> prefix ''runtime/client/'' rel \<or> \<not> is_c_file rel then q
        else queue_push full (fit 620 (''wrt_'' @ mangle rel 560 @ ''.o'')) [] True True q)"

text \<open>The two queues of a build: what the walks of the project and of the SDK find, and the generated files.\<close>

definition client_queue ::
  "build_ctx \<Rightarrow> build_scan \<Rightarrow> (string \<times> string \<times> bool) list \<Rightarrow> (string \<times> string \<times> bool) list \<Rightarrow> compile_job list" where
  "client_queue b sc app sdk =
     (let q = fold compile_wasm_runtime_cb sdk (fold (compile_app_sources_cb sc True ''wa'') app []);
          q = queue_push (fit 1400 (bc_gen b @ ''/sf_client.c'')) ''wa_gen_sf_client.o'' [] True False q
      in queue_push (fit 1400 (bc_gen b @ ''/components.c'')) ''wa_gen_components.o'' [] True False q)"

definition server_queue ::
  "build_ctx \<Rightarrow> build_scan \<Rightarrow> (string \<times> string \<times> bool) list \<Rightarrow> (string \<times> string \<times> bool) list \<Rightarrow> compile_job list" where
  "server_queue b sc app sdk =
     (let q = fold (compile_sdk_sources_cb False) sdk (fold (compile_app_sources_cb sc False ''sa'') app []);
          q = queue_push (fit 1400 (bc_gen b @ ''/routes.c'')) ''sa_gen_routes.o'' [] False False q;
          q = queue_push (fit 1400 (bc_gen b @ ''/main.c'')) ''sa_gen_main.o'' [] False False q;
          q = queue_push (fit 1400 (bc_gen b @ ''/sf_server.c'')) ''sa_gen_sf_server.o'' [] False False q
      in queue_push (fit 1400 (bc_gen b @ ''/assets.c'')) ''sa_gen_assets.o'' [] False False q)"

subsection \<open>Linking\<close>

definition is_o_file :: "string \<Rightarrow> bool" where
  "is_o_file p = (length p \<ge> 2 \<and> drop (length p - 2) p = ''.o'')"

text \<open>The list of objects is a text in which every path is followed by a blank.\<close>

definition collect_obj_cb :: "string \<Rightarrow> string \<times> string \<times> bool \<Rightarrow> string \<Rightarrow> string" where
  "collect_obj_cb pre e objs =
     (case e of (rel, full, dir) \<Rightarrow>
        if dir \<or> \<not> is_o_file full \<or> \<not> prefix pre (path_basename full) then objs else objs @ full @ '' '')"

definition server_link_argv :: "string \<Rightarrow> build_ctx \<Rightarrow> string \<Rightarrow> string list" where
  "server_link_argv clang b objs =
     [clang, if bc_release b then ''-O2'' else ''-O1'', ''-o'', fit 1400 (bc_dist b @ ''/'' @ bc_name b),
      ''-Wl,--gc-sections'', ''-ldl''] @ strtok_all (CHR '' '') objs @
     [fit 1300 (bc_sdk b @ ''/lib/libllhttp.a''), fit 1300 (bc_sdk b @ ''/lib/libuv.a''), ''-lm'', ''-pthread'', ''-ldl'']"

definition wasm_out_path :: "build_ctx \<Rightarrow> string" where
  "wasm_out_path b = fit 1400 (bc_dist b @ ''/assets/app.wasm'')"

definition wasm_link_argv :: "string \<Rightarrow> build_ctx \<Rightarrow> string \<Rightarrow> string list" where
  "wasm_link_argv clang b objs =
     [clang, ''--target=wasm32'', ''-nostdlib'', ''-Wl,--no-entry'', ''-Wl,--export-dynamic'', ''-Wl,--gc-sections''] @
     (if bc_release b then [''-Wl,--strip-all''] else []) @ [''-o'', wasm_out_path b] @ strtok_all (CHR '' '') objs"

definition link_result :: "string \<Rightarrow> int \<times> string \<times> fsys \<Rightarrow> string option \<times> fsys" where
  "link_result dflt res =
     (case res of (rc, out, s') \<Rightarrow> (if rc \<noteq> 0 then Some (fit 8192 (if out \<noteq> [] then cstr out else dflt)) else None, s'))"

definition link_server :: "tool \<Rightarrow> environ \<Rightarrow> build_ctx \<Rightarrow> string \<Rightarrow> fsys \<Rightarrow> string option \<times> fsys" where
  "link_server run env b objs s = link_result ''link failed'' (run (server_link_argv (find_clang env s) b objs) s)"

definition link_wasm :: "tool \<Rightarrow> environ \<Rightarrow> build_ctx \<Rightarrow> string \<Rightarrow> fsys \<Rightarrow> string option \<times> fsys" where
  "link_wasm run env b objs s =
     (let s1 = snd (mkdir_for_file (wasm_out_path b) s)
      in link_result ''wasm link failed'' (run (wasm_link_argv (find_clang env s1) b objs) s1))"

text \<open>The newest of the objects and of the two libraries, and the test that skips the linker.\<close>

definition freshness_cb :: "fsys \<Rightarrow> string \<times> string \<times> bool \<Rightarrow> int \<Rightarrow> int" where
  "freshness_cb s e newest =
     (case e of (rel, full, dir) \<Rightarrow>
        if dir \<or> \<not> is_o_file full then newest
        else case mtime_ms s full of None \<Rightarrow> newest | Some mt \<Rightarrow> if mt > newest then mt else newest)"

definition outputs_up_to_date :: "fsys \<Rightarrow> string \<Rightarrow> (string \<times> string \<times> bool) list \<Rightarrow> string \<Rightarrow> bool" where
  "outputs_up_to_date s out objs sdk =
     (case mtime_ms s out of
        None \<Rightarrow> False
      | Some omt \<Rightarrow>
          let newest = fold (freshness_cb s) objs 0;
              lib = (\<lambda>l newest. case mtime_ms s (fit 1400 (sdk @ l)) of None \<Rightarrow> newest | Some mt \<Rightarrow> if mt > newest then mt else newest)
          in omt > fold lib [''/lib/libuv.a'', ''/lib/libllhttp.a''] newest)"

subsection \<open>The audit of route files\<close>

definition includes_line :: "string \<Rightarrow> bool" where
  "includes_line line =
     (let p = dropWhile (\<lambda>c. c = CHR '' '' \<or> c = CHR 0x09) line
      in take 8 p = ''#include'' \<and> find_sub ''cerco_client.h'' (drop 8 p) \<noteq> None)"

function includes_client_header :: "string \<Rightarrow> bool" where
  "includes_client_header data =
     (data \<noteq> [] \<and>
      (includes_line (takeWhile (\<lambda>c. c \<noteq> CHR 0x0A) data) \<or>
       (case dropWhile (\<lambda>c. c \<noteq> CHR 0x0A) data of [] \<Rightarrow> False | _ # rest \<Rightarrow> includes_client_header rest)))"
  by pat_completeness auto
termination
proof (relation "measure length", simp)
  fix data rest :: string and c
  assume "dropWhile (\<lambda>c. c \<noteq> CHR 0x0A) data = c # rest"
  with length_dropWhile_le [of "\<lambda>c. c \<noteq> CHR 0x0A" data] show "(rest, data) \<in> measure length" by simp
qed

declare includes_client_header.simps [simp del]

text \<open>The first offending route file.\<close>

definition audit_client_sources :: "fsys \<Rightarrow> build_ctx \<Rightarrow> build_scan \<Rightarrow> string option" where
  "audit_client_sources s b sc =
     map_option ri_rel (find (\<lambda>r. case read_file s (fit 1400 (bc_root b @ ''/'' @ ri_rel r)) of
        None \<Rightarrow> False | Some data \<Rightarrow> includes_client_header (cstr data)) (bs_routes sc))"

subsection \<open>Laws\<close>

lemma fold_pushes:
  assumes "\<And>e q. f e q = (if P e then q @ [g e] else q)"
  shows "fold f es q = q @ map g (filter P es)"
  by (induction es arbitrary: q) (simp_all add: assms)

lemma queue_sources:
  "map cj_src (queue_push src obj define wasm from_sdk q) = map cj_src q @ [fit 1400 src]"
  by (simp add: queue_push_def)

text \<open>The sources of the wasm target.\<close>

definition client_app_source :: "string \<times> string \<times> bool \<Rightarrow> bool" where
  "client_app_source e = (case e of (rel, full, dir) \<Rightarrow> \<not> dir \<and> is_c_file rel \<and>
     (prefix ''src/components/'' rel \<or> prefix ''src/shared/'' rel \<or> prefix ''src/client/'' rel))"

definition client_runtime_source :: "string \<times> string \<times> bool \<Rightarrow> bool" where
  "client_runtime_source e = (case e of (rel, full, dir) \<Rightarrow> \<not> dir \<and> is_c_file rel \<and> prefix ''runtime/client/'' rel)"

lemma prefix_parts: "prefix (a @ b) s \<Longrightarrow> prefix (a @ c) s \<Longrightarrow> prefix b c \<or> prefix c b"
  using prefix_same_cases [of "a @ b" s "a @ c"] by auto

lemma app_source_client:
  "app_source True rel \<longleftrightarrow> prefix ''src/components/'' rel \<or> prefix ''src/shared/'' rel \<or> prefix ''src/client/'' rel"
proof -
  have "\<not> prefix ''src/server/'' rel \<and> \<not> prefix ''src/routes/'' rel"
    if "prefix (''src/'' @ x) rel" "x \<in> {''components/'', ''shared/'', ''client/''}" for x
    using prefix_parts [of "''src/''" x rel "''server/''"] prefix_parts [of "''src/''" x rel "''routes/''"] that by auto
  from this [of "''components/''"] this [of "''shared/''"] this [of "''client/''"] show ?thesis by (auto simp: app_source_def)
qed

lemma client_queue_sources:
  "map cj_src (client_queue b sc app sdk) =
     map (\<lambda>(rel, full, dir). fit 1400 full) (filter client_app_source app) @
     map (\<lambda>(rel, full, dir). fit 1400 full) (filter client_runtime_source sdk) @
     [fit 1400 (fit 1400 (bc_gen b @ ''/sf_client.c'')), fit 1400 (fit 1400 (bc_gen b @ ''/components.c''))]"
proof -
  let ?j = "\<lambda>pre (rel, full, dir). \<lparr>cj_src = fit 1400 full, cj_obj = fit 600 (obj_name pre rel), cj_define = fit 256 [], cj_wasm = True, cj_sdk = False\<rparr>"
  let ?r = "\<lambda>(rel, full, dir). \<lparr>cj_src = fit 1400 full, cj_obj = fit 600 (fit 620 (''wrt_'' @ mangle rel 560 @ ''.o'')), cj_define = fit 256 [],
    cj_wasm = True, cj_sdk = True\<rparr>"
  have a: "fold (compile_app_sources_cb sc True ''wa'') app [] = [] @ map (?j ''wa'') (filter client_app_source app)"
    by (rule fold_pushes, simp add: compile_app_sources_cb_def queue_push_def client_app_source_def app_source_client split: prod.split)
  have r: "fold compile_wasm_runtime_cb sdk q = q @ map ?r (filter client_runtime_source sdk)" for q
    by (rule fold_pushes, simp add: compile_wasm_runtime_cb_def queue_push_def client_runtime_source_def conj_commute split: prod.split)
  show ?thesis unfolding client_queue_def Let_def queue_sources a r by (simp add: split_def comp_def)
qed

text \<open>Characters that are not letters or digits are not told apart in object names.\<close>

lemma mangle_loop_sep:
  "\<not> alnum c \<Longrightarrow> \<not> alnum d \<Longrightarrow> mangle_loop (x @ c # y) out us cap = mangle_loop (x @ d # y) out us cap"
  by (induction x arbitrary: out us) auto

lemma obj_name_sep: "\<not> alnum c \<Longrightarrow> \<not> alnum d \<Longrightarrow> obj_name pre (x @ c # y) = obj_name pre (x @ d # y)"
  using mangle_loop_sep [of c d x y "[]" True 560] by (simp add: obj_name_def mangle_def)

text \<open>The link line holds the collected objects when no path has a blank.\<close>

lemma strtok_all_words:
  assumes "list_all (\<lambda>w. w \<noteq> [] \<and> c \<notin> set w) ws"
  shows "strtok_all c (concat (map (\<lambda>w. w @ [c]) ws)) = ws"
  using assms
proof (induction ws)
  case Nil
  then show ?case by (simp add: strtok_all.simps)
next
  case (Cons w ws)
  then obtain x xs where w: "w = x # xs" "x \<noteq> c" "c \<notin> set xs" by (cases w) auto
  let ?r = "concat (map (\<lambda>w. w @ [c]) ws)"
  have t: "takeWhile (\<lambda>x. x \<noteq> c) (xs @ c # ?r) = xs" "dropWhile (\<lambda>x. x \<noteq> c) (xs @ c # ?r) = c # ?r"
    using w(3) by (induction xs) auto
  have "strtok_all c (c # ?r) = strtok_all c ?r" by (subst (1 2) strtok_all.simps) simp
  then show ?case using Cons w t by (subst strtok_all.simps) (simp add: Let_def)
qed

definition collected :: "string \<Rightarrow> (string \<times> string \<times> bool) list \<Rightarrow> string list" where
  "collected pre es = map (\<lambda>(rel, full, dir). full) (filter (\<lambda>(rel, full, dir). \<not> dir \<and> is_o_file full \<and> prefix pre (path_basename full)) es)"

lemma collect_objs: "fold (collect_obj_cb pre) es objs = objs @ concat (map (\<lambda>w. w @ '' '') (collected pre es))"
  by (induction es arbitrary: objs) (auto simp: collect_obj_cb_def collected_def split_def)

text \<open>A line that begins with the directive and names the header, and a text with such a line.\<close>

definition header_line :: "string \<Rightarrow> bool" where
  "header_line l = (\<exists>blanks a b. l = blanks @ ''#include'' @ a @ ''cerco_client.h'' @ b \<and> set blanks \<subseteq> {CHR '' '', CHR 0x09})"

definition has_line :: "(string \<Rightarrow> bool) \<Rightarrow> string \<Rightarrow> bool" where
  "has_line P t = (\<exists>pre l post. t = pre @ l @ post \<and> P l \<and> CHR 0x0A \<notin> set l \<and>
     (pre = [] \<or> last pre = CHR 0x0A) \<and> (post = [] \<or> hd post = CHR 0x0A))"

lemma find_sub_iff: "find_sub n h \<noteq> None \<longleftrightarrow> (\<exists>a b. h = a @ n @ b)"
proof
  assume "find_sub n h \<noteq> None"
  then show "\<exists>a b. h = a @ n @ b" using find_sub_split by blast
next
  assume "\<exists>a b. h = a @ n @ b"
  then obtain a b where "h = a @ n @ b" by blast
  then have "take (length n) (drop (length a) h) = n" by simp
  then show "find_sub n h \<noteq> None" using find_sub_None by blast
qed

lemma directive_line:
  assumes "length inc = n" "inc \<noteq> []" "\<not> P (hd inc)"
  shows "take n (dropWhile P l) = inc \<and> find_sub h (drop n (dropWhile P l)) \<noteq> None \<longleftrightarrow>
    (\<exists>blanks a b. l = blanks @ inc @ a @ h @ b \<and> (\<forall>c \<in> set blanks. P c))"
proof
  assume t: "take n (dropWhile P l) = inc \<and> find_sub h (drop n (dropWhile P l)) \<noteq> None"
  then obtain x y where "drop n (dropWhile P l) = x @ h @ y" unfolding find_sub_iff by blast
  with t have "dropWhile P l = inc @ x @ h @ y" by (metis append_take_drop_id)
  then have "l = takeWhile P l @ inc @ x @ h @ y" by (metis takeWhile_dropWhile_id)
  moreover have "\<forall>c \<in> set (takeWhile P l). P c" using set_takeWhileD by fast
  ultimately show "\<exists>blanks a b. l = blanks @ inc @ a @ h @ b \<and> (\<forall>c \<in> set blanks. P c)" by blast
next
  assume "\<exists>blanks a b. l = blanks @ inc @ a @ h @ b \<and> (\<forall>c \<in> set blanks. P c)"
  then obtain bl x y where l: "l = bl @ inc @ x @ h @ y" "\<forall>c \<in> set bl. P c" by blast
  then have "dropWhile P l = dropWhile P (inc @ x @ h @ y)" by (auto intro: dropWhile_append2)
  also have "\<dots> = inc @ x @ h @ y" using assms(2,3) by (cases inc) auto
  finally show "take n (dropWhile P l) = inc \<and> find_sub h (drop n (dropWhile P l)) \<noteq> None"
    unfolding find_sub_iff using assms(1) by auto
qed

lemma includes_line_iff: "includes_line l \<longleftrightarrow> header_line l"
proof -
  have "(\<forall>c \<in> set bl. c = CHR '' '' \<or> c = CHR 0x09) \<longleftrightarrow> set bl \<subseteq> {CHR '' '', CHR 0x09}" for bl by blast
  then show ?thesis
    unfolding includes_line_def Let_def header_line_def
    by (subst directive_line) simp_all
qed

lemma has_line_split:
  "has_line P t \<longleftrightarrow> P (takeWhile (\<lambda>c. c \<noteq> CHR 0x0A) t) \<or>
     (case dropWhile (\<lambda>c. c \<noteq> CHR 0x0A) t of [] \<Rightarrow> False | _ # rest \<Rightarrow> has_line P rest)" (is "_ = (P ?l \<or> ?more)")
proof
  assume "has_line P t"
  then obtain pre l post where t: "t = pre @ l @ post" "P l" "CHR 0x0A \<notin> set l" "pre = [] \<or> last pre = CHR 0x0A"
    "post = [] \<or> hd post = CHR 0x0A" unfolding has_line_def by blast
  show "P ?l \<or> ?more"
  proof (cases "pre = []")
    case True
    have "takeWhile (\<lambda>c. c \<noteq> CHR 0x0A) (l @ post) = l"
      using t(3,5) by (cases post) (auto simp: takeWhile_tail takeWhile_eq_all_conv)
    with True t show ?thesis by simp
  next
    case False
    then have "CHR 0x0A \<in> set pre" using t(4) last_in_set by fastforce
    then obtain u v where uv: "pre = u @ CHR 0x0A # v" "CHR 0x0A \<notin> set u" by (meson split_list_first)
    have tu: "t = u @ CHR 0x0A # (v @ l @ post)" using t(1) uv(1) by simp
    then have d: "dropWhile (\<lambda>c. c \<noteq> CHR 0x0A) t = CHR 0x0A # (v @ l @ post)"
      using uv(2) by (auto simp: dropWhile_append2 dropWhile_append3)
    have "v = [] \<or> last v = CHR 0x0A" using t(4) False uv(1) by (auto split: if_splits)
    with t have "has_line P (v @ l @ post)" unfolding has_line_def by blast
    with d show ?thesis by simp
  qed
next
  have s: "t = ?l @ dropWhile (\<lambda>c. c \<noteq> CHR 0x0A) t" by simp
  have nl: "CHR 0x0A \<notin> set ?l" by (auto dest: set_takeWhileD)
  assume "P ?l \<or> ?more"
  then show "has_line P t"
  proof
    assume "P ?l"
    moreover have "dropWhile (\<lambda>c. c \<noteq> CHR 0x0A) t = [] \<or> hd (dropWhile (\<lambda>c. c \<noteq> CHR 0x0A) t) = CHR 0x0A"
      using hd_dropWhile [of "\<lambda>c. c \<noteq> CHR 0x0A" t] by blast
    ultimately show ?thesis unfolding has_line_def using s nl
      by (intro exI [of _ "[]"] exI [of _ ?l] exI [of _ "dropWhile (\<lambda>c. c \<noteq> CHR 0x0A) t"]) simp
  next
    assume ?more
    then obtain c rest where d: "dropWhile (\<lambda>c. c \<noteq> CHR 0x0A) t = c # rest" "has_line P rest"
      by (cases "dropWhile (\<lambda>c. c \<noteq> CHR 0x0A) t") auto
    then have c: "c = CHR 0x0A" using hd_dropWhile [of "\<lambda>c. c \<noteq> CHR 0x0A" t] by simp
    from d(2) obtain pre l post where r: "rest = pre @ l @ post" "P l" "CHR 0x0A \<notin> set l" "pre = [] \<or> last pre = CHR 0x0A"
      "post = [] \<or> hd post = CHR 0x0A" unfolding has_line_def by blast
    have "t = (?l @ c # pre) @ l @ post" using s d(1) r(1) by simp
    moreover have "last (?l @ c # pre) = CHR 0x0A" using c r(4) by auto
    ultimately show ?thesis unfolding has_line_def using r(2,3,5) by blast
  qed
qed

lemma header_line_Nil: "\<not> header_line []"
  by (simp add: header_line_def)

lemma includes_client_header_iff: "includes_client_header t \<longleftrightarrow> has_line header_line t"
proof (induction t rule: includes_client_header.induct)
  case (1 t)
  show ?case
  proof (cases "t = []")
    case True
    then show ?thesis by (subst includes_client_header.simps, subst has_line_split) (simp add: header_line_Nil)
  next
    case False
    show ?thesis
    proof (cases "dropWhile (\<lambda>c. c \<noteq> CHR 0x0A) t")
      case Nil
      show ?thesis
        unfolding includes_client_header.simps [of t] has_line_split [of header_line t] Nil list.case includes_line_iff
        using False by blast
    next
      case (Cons c rest)
      show ?thesis
        unfolding includes_client_header.simps [of t] has_line_split [of header_line t] Cons list.case includes_line_iff 1 [OF Cons]
        using False by blast
    qed
  qed
qed

lemma collected_words:
  assumes "list_all (\<lambda>(rel, full, dir). CHR '' '' \<notin> set full) es"
  shows "list_all (\<lambda>w. w \<noteq> [] \<and> CHR '' '' \<notin> set w) (collected pre es)"
  using assms by (auto simp: list_all_iff collected_def is_o_file_def)

subsection \<open>Properties\<close>

text \<open>C30: The wasm target is built from the C files of components, shared and client code, the SDK's client
  runtime and the two generated files, in this order, and never from a route or server file.\<close>

theorem client_sources_confined:
  "map cj_src (client_queue b sc app sdk) =
     map (\<lambda>(rel, full, dir). fit 1400 full) (filter client_app_source app) @
     map (\<lambda>(rel, full, dir). fit 1400 full) (filter client_runtime_source sdk) @
     [fit 1400 (fit 1400 (bc_gen b @ ''/sf_client.c'')), fit 1400 (fit 1400 (bc_gen b @ ''/components.c''))] \<and>
   \<not> client_app_source (''src/routes/'' @ r, full, dir) \<and> \<not> client_app_source (''src/server/'' @ r, full, dir)"
  using app_source_client [of "''src/routes/'' @ r"] app_source_client [of "''src/server/'' @ r"]
  by (simp add: client_queue_sources client_app_source_def app_source_def)

text \<open>A file passes the audit of route files exactly when none of its lines begins, after blanks and tabs, with
  the include directive and names the client header behind it.\<close>

theorem client_header_detected:
  "includes_client_header t \<longleftrightarrow> has_line header_line t"
  by (rule includes_client_header_iff)

text \<open>Object names do not tell separators apart: two source files whose paths differ in a character that is
  neither a letter nor a digit are compiled into the same object.\<close>

theorem object_names_collide:
  assumes "\<not> alnum c" "\<not> alnum d"
  shows "obj_name pre (x @ c # y) = obj_name pre (x @ d # y)"
  by (rule obj_name_sep [OF assms])

theorem object_names_collide_witness:
  "obj_name ''sa'' ''src/routes/a/b.c'' = obj_name ''sa'' ''src/routes/a-b.c''"
  using object_names_collide [of "CHR ''/''" "CHR ''-''" "''sa''" "''src/routes/a''" "''b.c''"]
  by (simp add: alnum_def in_range_def)

text \<open>An application object that is not older than its source is kept, whatever changed otherwise: the mode
  (debug or release), the defines, the headers and the compiler are not looked at.\<close>

theorem stale_object_kept:
  assumes "obj = fit 1500 (bc_obj b @ ''/'' @ rel)" "last_index_of CHR ''/'' obj = Some i" "mkdirs (take i obj) s = (True, s')"
    and "mtime_ms s' src = Some t" "mtime_ms s' obj = Some t'" "t \<le> t'"
  shows "compile_obj run env pid (b\<lparr>bc_release := release\<rparr>) src rel define wasm False s =
    (\<lparr>co_ok = True, co_msg = None, co_ran = False\<rparr>, s')"
  using assms by (simp add: compile_obj_def needs_rebuild_def)

theorem stale_object_kept_witness:
  "compile_obj (\<lambda>argv s. (1, [], s)) (\<lambda>v. None) 1
     (\<lparr>bc_root = ''p'', bc_name = ''p'', bc_sdk = ''s'', bc_sdk_hash = [], bc_gen = ''g'', bc_obj = ''o'', bc_dist = ''d'',
       bc_release = False, bc_dev_assets = False, bc_skip_css = False\<rparr>\<lparr>bc_release := True\<rparr>) ''a.c'' ''a.o'' [] False False
     \<lparr>fs_nodes = [(''o'', N_dir), (''a.c'', N_file ''x'' 1), (''o/a.o'', N_file ''y'' 2)], fs_denied = (\<lambda>p. False), fs_now = 3\<rparr> =
   (\<lparr>co_ok = True, co_msg = None, co_ran = False\<rparr>,
     \<lparr>fs_nodes = [(''o'', N_dir), (''a.c'', N_file ''x'' 1), (''o/a.o'', N_file ''y'' 2)], fs_denied = (\<lambda>p. False), fs_now = 3\<rparr>)"
  by (rule stale_object_kept [where i = 1 and t = 1 and t' = 2 and obj = "''o/a.o''"];
      simp add: fit_def Let_def mkdirs_def dir_prefixes_def sys_mkdir_def fs_get_def mtime_ms_def)

text \<open>The server is linked from exactly the objects found, those of the application first, when no path has a
  blank.\<close>

theorem link_objects_exact:
  assumes "list_all (\<lambda>(rel, full, dir). CHR '' '' \<notin> set full) es"
  shows "strtok_all (CHR '' '') (fold (collect_obj_cb ''sdk_'') es (fold (collect_obj_cb ''sa_'') es [])) =
    collected ''sa_'' es @ collected ''sdk_'' es"
proof -
  have "fold (collect_obj_cb ''sdk_'') es (fold (collect_obj_cb ''sa_'') es []) =
      concat (map (\<lambda>w. w @ '' '') (collected ''sa_'' es @ collected ''sdk_'' es))" by (simp add: collect_objs)
  then show ?thesis using collected_words [OF assms] by (simp only: strtok_all_words list_all_append)
qed

theorem link_objects_exact_witness:
  "strtok_all (CHR '' '') (fold (collect_obj_cb ''sdk_'') [(''sdk_a.o'', ''o/sdk_a.o'', False), (''sa_b.o'', ''o/sa_b.o'', False)]
     (fold (collect_obj_cb ''sa_'') [(''sdk_a.o'', ''o/sdk_a.o'', False), (''sa_b.o'', ''o/sa_b.o'', False)] [])) =
   collected ''sa_'' [(''sdk_a.o'', ''o/sdk_a.o'', False), (''sa_b.o'', ''o/sa_b.o'', False)] @
   collected ''sdk_'' [(''sdk_a.o'', ''o/sdk_a.o'', False), (''sa_b.o'', ''o/sa_b.o'', False)]"
  by (rule link_objects_exact) simp

end
