(* ===== verification/Cli_Build.thy ===== *)
theory Cli_Build
  imports Cli_Project Cli_Sdk Cli_Compile
begin

text \<open>
  \<open>cmd_build\<close> of \<open>cli/build.c\<close>: the stages of a build, composed in the order of the code. The tools
  (compiler, linker, download, stylesheet compiler) are one parameter: what running a command line in
  the project's directory returns and does to the files. The jobs of a queue are run in the order of
  the queue, as the code does on one processor; \<open>Cli_Pool\<close> holds what is true of every schedule.
  What the build prints is left out.
\<close>

record build_env =
  be_version :: string
  be_bundle :: "(string \<times> string) list"
  be_env :: environ
  be_platform :: string
  be_machine :: string
  be_pid :: nat

text \<open>How a build stops early: \<open>die\<close> with its message, or the return value 1.\<close>

datatype build_stop = B_died string | B_failed

text \<open>A stage: \<open>None\<close> when it does not return (a cycle of directories), else its outcome and the files.\<close>

type_synonym 'a stage = "((build_stop + 'a) \<times> fsys) option"

definition build_then :: "'a stage \<Rightarrow> ('a \<Rightarrow> fsys \<Rightarrow> 'b stage) \<Rightarrow> 'b stage" where
  "build_then m f = (case m of None \<Rightarrow> None | Some (Inl e, s) \<Rightarrow> Some (Inl e, s) | Some (Inr x, s) \<Rightarrow> f x s)"

subsection \<open>Setting up\<close>

definition build_flag :: "string \<Rightarrow> bool \<times> bool \<times> bool \<Rightarrow> bool \<times> bool \<times> bool" where
  "build_flag a f =
     (case f of (debug, dev_assets, skip_css) \<Rightarrow>
        if a = ''--debug'' then (True, dev_assets, skip_css)
        else if a = ''--release'' then (False, dev_assets, skip_css)
        else if a = ''--dev-assets'' then (debug, True, skip_css)
        else if a = ''--no-css'' then (debug, dev_assets, True) else f)"

definition make_ctx :: "cerco_project \<Rightarrow> string list \<Rightarrow> string \<times> string \<Rightarrow> build_ctx" where
  "make_ctx proj args sdk =
     (case fold build_flag args (False, False, False) of (debug, dev_assets, skip_css) \<Rightarrow>
        \<lparr>bc_root = pj_root proj, bc_name = pj_name proj, bc_sdk = fst sdk, bc_sdk_hash = snd sdk,
         bc_gen = fit 1200 (pj_root proj @ ''/.cerco/gen''), bc_obj = fit 1200 (pj_root proj @ ''/.cerco/obj''),
         bc_dist = fit 1200 (pj_root proj @ ''/dist''), bc_release = (\<not> debug), bc_dev_assets = dev_assets,
         bc_skip_css = skip_css\<rparr>)"

definition build_setup :: "build_env \<Rightarrow> cerco_project \<Rightarrow> string list \<Rightarrow> fsys \<Rightarrow> build_ctx stage" where
  "build_setup e proj args s =
     (case sdk_ensure (be_version e) (be_bundle e) (pj_root proj) s of
        None \<Rightarrow> None
      | Some (Inl msg, s1) \<Rightarrow> Some (Inl (B_died msg), s1)
      | Some (Inr sdk, s1) \<Rightarrow>
          (let b = make_ctx proj args sdk in
           case mkdirs (bc_gen b) s1 of
             (False, s2) \<Rightarrow> Some (Inl (B_died ''mkdir gen failed''), s2)
           | (True, s2) \<Rightarrow>
               (case mkdirs (bc_dist b) s2 of
                  (False, s3) \<Rightarrow> Some (Inl (B_died ''mkdir dist failed''), s3)
                | (True, s3) \<Rightarrow> Some (Inr b, s3))))"

subsection \<open>Scanning the project\<close>

definition empty_scan :: build_scan where
  "empty_scan = \<lparr>bs_routes = [], bs_layouts = [], bs_sfs = [], bs_components = []\<rparr>"

definition scan_project :: "build_ctx \<Rightarrow> fsys \<Rightarrow> build_scan stage" where
  "scan_project b s =
     (let routes_root = fit 1200 (bc_root b @ ''/src/routes''); fs = fs_view s in
      if \<not> is_dir s routes_root then Some (Inl (B_died ''missing src/routes/ directory''), s)
      else do {
        es \<leftarrow> walk_dir fs routes_root;
        sc \<leftarrow> scan_files es empty_scan;
        case scan_sf fs (bc_root b) (compute_layout_chains sc) of
          None \<Rightarrow> Some (Inl (B_died ''failed to parse server functions''), s)
        | Some sc' \<Rightarrow> do {
            all \<leftarrow> walk_dir fs (bc_root b);
            Some (Inr (fold (\<lambda>(rel, full, dir). scan_components_cb fs rel full dir) all (sc'\<lparr>bs_components := []\<rparr>)), s)
          }
      })"

definition audit_message :: "string \<Rightarrow> string" where
  "audit_message rel =
     rel @ '' includes <cerco_client.h>, but route files are server-only and never enter the wasm binary.'' @ nl @
     ''       Move the client code to src/components/ and mark its root with CERCO_COMPONENT().''"

definition audit_stage :: "build_ctx \<Rightarrow> build_scan \<Rightarrow> fsys \<Rightarrow> unit stage" where
  "audit_stage b sc s =
     (case audit_client_sources s b sc of
        Some rel \<Rightarrow> Some (Inl (B_died (audit_message rel)), s)
      | None \<Rightarrow> Some (Inr (), s))"

subsection \<open>Generated files\<close>

definition write_generated :: "string \<Rightarrow> string \<Rightarrow> fsys \<Rightarrow> bool \<times> fsys" where
  "write_generated path data s =
     (if write_if_changed (fs_view s) path data then write_file path data s else (True, s))"

text \<open>The files in the order in which they are written, each with the message of its failure.\<close>

definition generated_files :: "build_ctx \<Rightarrow> build_scan \<Rightarrow> (string \<times> string \<times> string) list" where
  "generated_files b sc =
     [(fit 1400 (bc_gen b @ ''/routes.c''), gen_routes sc, ''routes codegen failed''),
      (fit 1400 (bc_gen b @ ''/main.c''), gen_main (bc_name b), ''main codegen failed''),
      (fit 1400 (bc_gen b @ ''/sf_server.c''), gen_sf_server sc, ''sf server codegen failed''),
      (fit 1400 (bc_gen b @ ''/sf_client.h''), gen_sf_client_h sc, ''sf client codegen failed''),
      (fit 1400 (bc_gen b @ ''/sf_client.c''), gen_sf_client_c sc, ''sf client codegen failed''),
      (fit 1400 (bc_gen b @ ''/components.c''), gen_components sc, ''components codegen failed'')]"

fun write_all_generated :: "(string \<times> string \<times> string) list \<Rightarrow> fsys \<Rightarrow> unit stage" where
  "write_all_generated [] s = Some (Inr (), s)"
| "write_all_generated ((path, data, msg) # fs) s =
     (case write_generated path data s of
        (False, s') \<Rightarrow> Some (Inl (B_died msg), s')
      | (True, s') \<Rightarrow> write_all_generated fs s')"

definition generate :: "build_ctx \<Rightarrow> build_scan \<Rightarrow> fsys \<Rightarrow> unit stage" where
  "generate b sc s = write_all_generated (generated_files b sc) s"

subsection \<open>The two targets\<close>

definition run_job :: "tool \<Rightarrow> build_env \<Rightarrow> build_ctx \<Rightarrow> compile_job \<Rightarrow> fsys \<Rightarrow> compile_outcome \<times> fsys" where
  "run_job run e b j s =
     compile_obj run (be_env e) (be_pid e) b (cj_src j) (cj_obj j) (cj_define j) (cj_wasm j) (cj_sdk j) s"

fun run_jobs :: "tool \<Rightarrow> build_env \<Rightarrow> build_ctx \<Rightarrow> compile_job list \<Rightarrow> fsys \<Rightarrow> bool \<times> fsys" where
  "run_jobs run e b [] s = (True, s)"
| "run_jobs run e b (j # js) s =
     (case run_job run e b j s of (o1, s1) \<Rightarrow>
        case run_jobs run e b js s1 of (ok, s2) \<Rightarrow> (co_ok o1 \<and> ok, s2))"

text \<open>
  Linking one target: the objects with the two prefixes, the freshness test of the output, the linker.
\<close>

definition link_target ::
  "(string \<Rightarrow> fsys \<Rightarrow> string option \<times> fsys) \<Rightarrow> string \<Rightarrow> string \<Rightarrow> string \<Rightarrow> build_ctx \<Rightarrow> fsys \<Rightarrow> unit stage" where
  "link_target linker pre1 pre2 out b s =
     (case walk_dir (fs_view s) (bc_obj b) of
        None \<Rightarrow> None
      | Some objs \<Rightarrow>
          if outputs_up_to_date s out objs (bc_sdk b) then Some (Inr (), s)
          else
            (case linker (fold (collect_obj_cb pre2) objs (fold (collect_obj_cb pre1) objs [])) s of
               (None, s') \<Rightarrow> Some (Inr (), s')
             | (Some msg, s') \<Rightarrow> Some (Inl B_failed, s')))"

definition build_client :: "tool \<Rightarrow> build_env \<Rightarrow> build_ctx \<Rightarrow> build_scan \<Rightarrow> fsys \<Rightarrow> unit stage" where
  "build_client run e b sc s =
     do {
       app \<leftarrow> walk_dir (fs_view s) (bc_root b);
       sdk \<leftarrow> walk_dir (fs_view s) (bc_sdk b);
       case run_jobs run e b (client_queue b sc app sdk) s of
         (False, s1) \<Rightarrow> Some (Inl B_failed, s1)
       | (True, s1) \<Rightarrow> link_target (link_wasm run (be_env e) b) ''wa_'' ''wrt_'' (wasm_out_path b) b s1
     }"

definition build_server :: "tool \<Rightarrow> build_env \<Rightarrow> build_ctx \<Rightarrow> build_scan \<Rightarrow> fsys \<Rightarrow> unit stage" where
  "build_server run e b sc s =
     do {
       app \<leftarrow> walk_dir (fs_view s) (bc_root b);
       sdk \<leftarrow> walk_dir (fs_view s) (bc_sdk b);
       assets \<leftarrow> gen_assets (fs_view s) (bc_name b) (bc_dist b) (bc_dev_assets b);
       case write_generated (fit 1400 (bc_gen b @ ''/assets.c'')) assets s of
         (False, s1) \<Rightarrow> Some (Inl (B_died ''assets codegen failed''), s1)
       | (True, s1) \<Rightarrow>
           (case run_jobs run e b (server_queue b sc app sdk) s1 of
              (False, s2) \<Rightarrow> Some (Inl B_failed, s2)
            | (True, s2) \<Rightarrow>
                link_target (link_server run (be_env e) b) ''sa_'' ''sdk_'' (fit 1400 (bc_dist b @ ''/'' @ bc_name b)) b s2)
     }"

subsection \<open>Static files and the stylesheet\<close>

definition copy_public_cb :: "build_ctx \<Rightarrow> string \<times> string \<times> bool \<Rightarrow> fsys \<Rightarrow> fsys" where
  "copy_public_cb b ent s =
     (case ent of (rel, full, dir) \<Rightarrow>
        if dir \<or> \<not> prefix ''public/'' rel then s
        else case mkdir_for_file (fit 1400 (bc_dist b @ ''/'' @ drop 7 rel)) s of
          (False, s1) \<Rightarrow> s1
        | (True, s1) \<Rightarrow>
            (case read_file s1 full of
               None \<Rightarrow> s1
             | Some data \<Rightarrow> snd (write_file (fit 1400 (bc_dist b @ ''/'' @ drop 7 rel)) data s1)))"

definition copy_host :: "build_ctx \<Rightarrow> fsys \<Rightarrow> fsys" where
  "copy_host b s =
     (let dst = fit 1400 (bc_dist b @ ''/assets/host.js''); s1 = snd (mkdir_for_file dst s)
      in case read_file s1 (fit 1400 (bc_sdk b @ ''/runtime/browser/host.js'')) of
        None \<Rightarrow> s1 | Some data \<Rightarrow> snd (write_file dst data s1))"

definition copy_public :: "build_ctx \<Rightarrow> fsys \<Rightarrow> fsys option" where
  "copy_public b s =
     (if is_dir s (fit 1300 (bc_root b @ ''/public'')) then
        map_option (\<lambda>es. fold (copy_public_cb b) es s) (walk_dir (fs_view s) (bc_root b))
      else Some s)"

definition css_hash_cb :: "fsys \<Rightarrow> string \<times> string \<times> bool \<Rightarrow> cerco_sha256_ctx \<Rightarrow> cerco_sha256_ctx" where
  "css_hash_cb s ent ctx =
     (case ent of (rel, full, dir) \<Rightarrow>
        if dir \<or> \<not> prefix ''src/'' rel \<or> rel = ''src/styles.css'' then ctx
        else case read_file s full of
          None \<Rightarrow> ctx
        | Some data \<Rightarrow> cerco_sha256_update (to_bytes data) (cerco_sha256_update (to_bytes rel) ctx))"

text \<open>The key of the stylesheet: the entry file, then every source with its path, in the order of the walk.\<close>

definition css_key :: "fsys \<Rightarrow> string \<Rightarrow> (string \<times> string \<times> bool) list \<Rightarrow> string option" where
  "css_key s css_in es =
     (let ctx = (case read_file s css_in of
                   None \<Rightarrow> cerco_sha256_init | Some css \<Rightarrow> cerco_sha256_update (to_bytes css) cerco_sha256_init)
      in map_option (\<lambda>hd. concat (map (\<lambda>b. [hexd ! unat (drop_bit 4 b), hexd ! unat (b AND 0xf)]) hd))
           (cerco_sha256_final (fold (css_hash_cb s) es ctx)))"

definition run_tailwind :: "tool \<Rightarrow> string \<Rightarrow> fsys \<Rightarrow> bool \<times> fsys" where
  "run_tailwind run twbin s =
     (case run (tailwind_argv twbin ''src/styles.css'' ''dist/assets/styles.css'' False) s of (rc, out, s') \<Rightarrow> (rc = 0, s'))"

definition css_cached :: "tool \<Rightarrow> string \<Rightarrow> string \<Rightarrow> string \<Rightarrow> fsys \<Rightarrow> fsys" where
  "css_cached run twbin css_out cc s =
     (case (if is_file s cc then read_file s cc else None) of
        Some css \<Rightarrow> snd (write_file css_out css s)
      | None \<Rightarrow>
          (case run_tailwind run twbin s of
             (False, s1) \<Rightarrow> s1
           | (True, s1) \<Rightarrow>
               (case read_file s1 css_out of
                  None \<Rightarrow> s1
                | Some css \<Rightarrow>
                    (case mkdir_for_file cc s1 of
                       (False, s2) \<Rightarrow> s2
                     | (True, s2) \<Rightarrow> snd (write_file cc css s2)))))"

definition build_css :: "tool \<Rightarrow> build_env \<Rightarrow> build_ctx \<Rightarrow> fsys \<Rightarrow> fsys option" where
  "build_css run e b s =
     (let css_in = fit 1400 (bc_root b @ ''/src/styles.css'') in
      if bc_skip_css b \<or> \<not> is_file s css_in then Some s
      else case tailwind_ensure (be_env e) (be_platform e) (be_machine e)
                  (\<lambda>argv s. case run argv s of (rc, out, s') \<Rightarrow> (rc, s')) s of
        (None, s1) \<Rightarrow> Some s1
      | (Some twbin, s1) \<Rightarrow>
          (let css_out = fit 1400 (bc_dist b @ ''/assets/styles.css''); s2 = snd (mkdir_for_file css_out s1)
           in do {
             es \<leftarrow> walk_dir (fs_view s2) (bc_root b);
             hexk \<leftarrow> css_key s2 css_in es;
             Some (case cache_home (be_env e) of
               Some home \<Rightarrow> css_cached run twbin css_out (fit 1600 (home @ ''/.cerco/cache/tw/'' @ hexk @ ''.css'')) s2
             | None \<Rightarrow> snd (run_tailwind run twbin s2))
           }))"

definition build_static :: "tool \<Rightarrow> build_env \<Rightarrow> build_ctx \<Rightarrow> fsys \<Rightarrow> unit stage" where
  "build_static run e b s =
     do { s1 \<leftarrow> copy_public b (copy_host b s); s2 \<leftarrow> build_css run e b s1; Some (Inr (), s2) }"

subsection \<open>The command\<close>

definition build_targets :: "tool \<Rightarrow> build_env \<Rightarrow> build_ctx \<Rightarrow> build_scan \<Rightarrow> fsys \<Rightarrow> unit stage" where
  "build_targets run e b sc s =
     build_then (build_client run e b sc s)
       (\<lambda>u s1. build_then (build_static run e b s1) (\<lambda>u s2. build_server run e b sc s2))"

text \<open>What follows the setup, and the whole command.\<close>

definition build_project :: "tool \<Rightarrow> build_env \<Rightarrow> build_ctx \<Rightarrow> fsys \<Rightarrow> unit stage" where
  "build_project run e b s =
     build_then (scan_project b s)
       (\<lambda>sc s1. build_then (audit_stage b sc s1)
         (\<lambda>u s2. build_then (generate b sc s2) (\<lambda>u s3. build_targets run e b sc s3)))"

definition cmd_build :: "tool \<Rightarrow> build_env \<Rightarrow> cerco_project \<Rightarrow> string list \<Rightarrow> fsys \<Rightarrow> unit stage" where
  "cmd_build run e proj args s = build_then (build_setup e proj args s) (build_project run e)"

subsection \<open>Laws\<close>

lemma build_then_simps [simp]:
  "build_then None f = None" "build_then (Some (Inl e, s)) f = Some (Inl e, s)"
  "build_then (Some (Inr x, s)) f = f x s"
  by (simp_all add: build_then_def)

lemma build_then_ok:
  "build_then m f = Some (Inr y, s') \<longleftrightarrow> (\<exists>x s. m = Some (Inr x, s) \<and> f x s = Some (Inr y, s'))"
  by (auto simp: build_then_def split: option.splits sum.splits)

text \<open>A generated file after its turn, whether it was written or found as it should be.\<close>

lemma write_generated_get:
  assumes "write_generated p data s = (True, s')"
  shows "read_file s' p = Some data" "q \<noteq> p \<Longrightarrow> fs_get s' q = fs_get s q"
proof -
  show "read_file s' p = Some data"
    using assms write_file_get [of p data s True s' p]
    by (auto simp: write_generated_def write_if_changed_def fs_view_def read_file_def split: if_splits)
  show "fs_get s' q = fs_get s q" if "q \<noteq> p"
    using assms that write_file_get [of p data s True s' q] by (auto simp: write_generated_def split: if_splits)
qed

lemma read_file_cong: "fs_get s q = fs_get s' q \<Longrightarrow> read_file s q = read_file s' q"
  by (simp add: read_file_def)

lemma write_all_generated_get:
  "write_all_generated fs s = Some (Inr u, s') \<Longrightarrow> distinct (map fst fs) \<Longrightarrow>
   (\<forall>(p, data, msg) \<in> set fs. read_file s' p = Some data) \<and> (\<forall>q. q \<notin> fst ` set fs \<longrightarrow> fs_get s' q = fs_get s q)"
proof (induction fs s rule: write_all_generated.induct)
  case (2 path data msg fs s)
  then obtain s1 where s1: "write_generated path data s = (True, s1)" "write_all_generated fs s1 = Some (Inr u, s')"
    by (auto split: prod.splits bool.splits)
  note w = write_generated_get [OF s1(1)]
  from 2 s1 have "(\<forall>(p, data, msg) \<in> set fs. read_file s' p = Some data) \<and> (\<forall>q. q \<notin> fst ` set fs \<longrightarrow> fs_get s' q = fs_get s1 q)"
    by simp
  moreover have "path \<notin> fst ` set fs" using 2(3) by simp
  ultimately show ?case using w read_file_cong [of s' path s1] by auto
qed simp

lemma write_all_generated_same:
  "\<forall>(p, data, msg) \<in> set fs. read_file s p = Some data \<Longrightarrow> write_all_generated fs s = Some (Inr (), s)"
  by (induction fs s rule: write_all_generated.induct) (auto simp: write_generated_def write_if_changed_def fs_view_def)

text \<open>The scan of a project only reads.\<close>

lemma scan_project_reads: "scan_project b s = Some (x, s') \<Longrightarrow> s' = s"
  by (auto simp: scan_project_def Let_def bind_eq_Some_conv split: if_splits option.splits)

lemma audit_finds:
  assumes "r \<in> set (bs_routes sc)" "read_file s (fit 1400 (bc_root b @ ''/'' @ ri_rel r)) = Some data" "includes_client_header (cstr data)"
  obtains rel where "audit_client_sources s b sc = Some rel"
proof -
  let ?P = "\<lambda>r. case read_file s (fit 1400 (bc_root b @ ''/'' @ ri_rel r)) of None \<Rightarrow> False | Some data \<Rightarrow> includes_client_header (cstr data)"
  have "find ?P (bs_routes sc) \<noteq> None" using assms by (auto simp: find_None_iff)
  with that show thesis by (auto simp: audit_client_sources_def)
qed

subsection \<open>Builds with nothing to do\<close>

definition job_obj :: "build_ctx \<Rightarrow> compile_job \<Rightarrow> string" where
  "job_obj b j = bc_obj b @ ''/'' @ cj_obj j"

definition job_cached :: "build_env \<Rightarrow> build_ctx \<Rightarrow> compile_job \<Rightarrow> string option" where
  "job_cached e b j = (if cj_sdk j then sdk_cache_path (be_env e) b (cj_wasm j) (cj_obj j) else None)"

text \<open>A job that needs no compiler: the object of a project source is not older than the source, that of an
  SDK source is in the cache. The object directory is there.\<close>

definition warm_job :: "build_env \<Rightarrow> build_ctx \<Rightarrow> fsys \<Rightarrow> compile_job \<Rightarrow> bool" where
  "warm_job e b s j =
     (if cj_sdk j then
        (case job_cached e b j of None \<Rightarrow> False | Some c \<Rightarrow> is_file s c) \<and> \<not> fs_denied s (job_obj b j) \<and>
        \<not> is_dir s (job_obj b j)
      else \<not> needs_rebuild s (cj_src j) (job_obj b j))"

definition objdir_there :: "build_ctx \<Rightarrow> fsys \<Rightarrow> bool" where
  "objdir_there b s =
     (bc_obj b \<noteq> [] \<and> last (bc_obj b) \<noteq> CHR ''/'' \<and> length (bc_obj b) < 800 \<and>
      list_all (is_dir s) (path_dirs (bc_obj b)))"

text \<open>No object is a source or a cached object of another job.\<close>

definition jobs_apart :: "build_env \<Rightarrow> build_ctx \<Rightarrow> compile_job list \<Rightarrow> bool" where
  "jobs_apart e b js =
     (distinct (map cj_obj js) \<and> list_all (\<lambda>j. CHR ''/'' \<notin> set (cj_obj j) \<and> length (cj_obj j) < 600) js \<and>
      list_all (\<lambda>j. cj_src j \<notin> set (map (job_obj b) js) \<and> job_cached e b j \<notin> set (map (Some \<circ> job_obj b) js)) js)"

lemma make_dirs_there: "list_all (is_dir s) ds \<Longrightarrow> make_dirs ds s = (True, s)"
  by (induction ds) (auto simp: sys_mkdir_def is_dir_def)

lemma mkdirs_there: "objdir_there b s \<Longrightarrow> mkdirs (bc_obj b) s = (True, s)"
  using make_dirs_there [of s "path_dirs (bc_obj b)"] by (auto simp: objdir_there_def mkdirs_def path_dirs_def)

lemma obj_parent:
  assumes "CHR ''/'' \<notin> set (cj_obj j)" "bc_obj b \<noteq> []"
  shows "path_parent (job_obj b j) = Some (bc_obj b)"
  using last_index_append_none [of "CHR ''/''" "cj_obj j" "bc_obj b"] assms
  by (cases "bc_obj b") (auto simp: path_parent_def job_obj_def)

lemma install_cached:
  assumes "is_file s cached" "cached \<noteq> obj" "\<not> is_dir s obj" "\<not> fs_denied s obj" "parent_ok s obj" "path_parent obj \<noteq> Some obj"
  shows "\<exists>s'. install_cached_obj cached obj s = (True, s') \<and> fs_denied s' = fs_denied s \<and> (\<forall>q. q \<noteq> obj \<longrightarrow> fs_get s' q = fs_get s q)"
proof -
  obtain data t where c: "fs_get s cached = Some (N_file data t)"
    using assms(1) by (auto simp: is_file_def split: option.splits node.splits)
  define s1 where "s1 = snd (sys_unlink obj s)"
  have s1: "fs_get s1 q = (if q = obj then None else fs_get s q)" "fs_denied s1 = fs_denied s" for q
    using assms(3,4) by (auto simp: s1_def sys_unlink_def is_dir_def split: option.splits node.splits)
  then have "parent_ok s1 obj" using assms(5,6) by (auto simp: parent_ok_def split: option.splits)
  with s1 c assms(2,4) have "sys_link cached obj s1 = (None, fs_put obj (N_file data t) s1)" by (simp add: sys_link_def)
  then have "install_cached_obj cached obj s = (True, fs_put obj (N_file data t) s1)"
    by (simp add: install_cached_obj_def Let_def s1_def)
  with s1 show ?thesis by simp
qed

lemma run_warm_job:
  assumes "warm_job e b s j" "objdir_there b s" "CHR ''/'' \<notin> set (cj_obj j)" "length (cj_obj j) < 600"
    and "job_cached e b j \<noteq> Some (job_obj b j)"
  shows "\<exists>s'. (\<forall>run. run_job run e b j s = (\<lparr>co_ok = True, co_msg = None, co_ran = False\<rparr>, s')) \<and>
    fs_denied s' = fs_denied s \<and> (\<forall>q. q \<noteq> job_obj b j \<longrightarrow> fs_get s' q = fs_get s q)"
proof -
  have b: "bc_obj b \<noteq> []" "length (bc_obj b) < 800" using assms(2) by (simp_all add: objdir_there_def)
  have f: "fit 1500 (bc_obj b @ CHR ''/'' # cj_obj j) = job_obj b j" using assms(4) b by (simp add: job_obj_def)
  have l: "last_index_of CHR ''/'' (job_obj b j) = Some (length (bc_obj b))" "take (length (bc_obj b)) (job_obj b j) = bc_obj b"
    using last_index_append_none [OF assms(3)] by (simp_all add: job_obj_def)
  note m = mkdirs_there [OF assms(2)]
  show ?thesis
  proof (cases "cj_sdk j")
    case False
    with assms(1) have "\<not> needs_rebuild s (cj_src j) (job_obj b j)" by (simp add: warm_job_def)
    then have "run_job run e b j s = (\<lparr>co_ok = True, co_msg = None, co_ran = False\<rparr>, s)" for run
      using False m by (simp add: run_job_def compile_obj_def Let_def f l)
    then show ?thesis by blast
  next
    case True
    with assms(1) obtain c where c: "job_cached e b j = Some c" "is_file s c" "\<not> is_dir s (job_obj b j)" "\<not> fs_denied s (job_obj b j)"
      by (auto simp: warm_job_def split: option.splits)
    have p: "path_parent (job_obj b j) = Some (bc_obj b)" using obj_parent [OF assms(3) b(1)] .
    have "is_dir s (bc_obj b)" using assms(2) by (simp add: objdir_there_def path_dirs_def)
    then have "parent_ok s (job_obj b j)" using p by (simp add: parent_ok_def is_dir_def)
    moreover have "path_parent (job_obj b j) \<noteq> Some (job_obj b j)" using p by (simp add: job_obj_def)
    ultimately obtain s' where s': "install_cached_obj c (job_obj b j) s = (True, s')" "fs_denied s' = fs_denied s"
      "\<forall>q. q \<noteq> job_obj b j \<longrightarrow> fs_get s' q = fs_get s q"
      using install_cached [OF c(2) _ c(3,4)] assms(5) c(1) by blast
    have "sdk_cache_path (be_env e) b (cj_wasm j) (cj_obj j) = Some c" using c(1) True by (simp add: job_cached_def)
    then have "run_job run e b j s = (\<lparr>co_ok = True, co_msg = None, co_ran = False\<rparr>, s')" for run
      using True m c(2) s'(1) by (simp add: run_job_def compile_obj_def Let_def f l)
    with s' show ?thesis by blast
  qed
qed

lemma warm_kept:
  "fs_get s1 (cj_src k) = fs_get s (cj_src k) \<Longrightarrow> fs_get s1 o1 = fs_get s o1 \<Longrightarrow>
     needs_rebuild s1 (cj_src k) o1 = needs_rebuild s (cj_src k) o1"
  "fs_get s1 c = fs_get s c \<Longrightarrow> is_file s1 c = is_file s c"
  "fs_get s1 c = fs_get s c \<Longrightarrow> is_dir s1 c = is_dir s c"
  by (simp_all add: needs_rebuild_def mtime_ms_def is_file_def is_dir_def cong: option.case_cong)

lemma run_warm_jobs:
  assumes "list_all (warm_job e b s) js" "objdir_there b s" "jobs_apart e b js"
  shows "\<exists>s'. \<forall>run. run_jobs run e b js s = (True, s')"
  using assms
proof (induction js arbitrary: s)
  case (Cons j js)
  from Cons.prems(3) have j: "CHR ''/'' \<notin> set (cj_obj j)" "length (cj_obj j) < 600" "job_cached e b j \<noteq> Some (job_obj b j)"
    "jobs_apart e b js" by (auto simp: jobs_apart_def list_all_iff)
  obtain s1 where s1: "\<And>run. run_job run e b j s = (\<lparr>co_ok = True, co_msg = None, co_ran = False\<rparr>, s1)"
    "fs_denied s1 = fs_denied s" "\<And>q. q \<noteq> job_obj b j \<Longrightarrow> fs_get s1 q = fs_get s q"
    using run_warm_job [OF _ Cons.prems(2) j(1-3)] Cons.prems(1) by auto
  have b: "bc_obj b \<noteq> []" using Cons.prems(2) by (simp add: objdir_there_def)
  have len: "length d \<le> length (bc_obj b)" if "d \<in> set (path_dirs (bc_obj b))" for d
    using that dir_prefixes_less [of d "bc_obj b"] by (auto simp: path_dirs_def)
  have "objdir_there b s1"
  proof -
    have "d \<noteq> job_obj b j" if "d \<in> set (path_dirs (bc_obj b))" for d using len [OF that] by (auto simp: job_obj_def)
    with s1(3) Cons.prems(2) show ?thesis by (auto simp: objdir_there_def list_all_iff is_dir_def)
  qed
  moreover have "warm_job e b s1 k" if k: "k \<in> set js" for k
  proof -
    have "cj_obj j \<notin> cj_obj ` set js" using Cons.prems(3) by (simp add: jobs_apart_def)
    with k have "cj_obj k \<noteq> cj_obj j" by (metis imageI)
    then have ne: "job_obj b k \<noteq> job_obj b j" by (simp add: job_obj_def)
    have "cj_src k \<noteq> job_obj b j" "job_cached e b k \<noteq> Some (job_obj b j)"
      using Cons.prems(3) k by (auto simp: jobs_apart_def list_all_iff)
    moreover have "warm_job e b s k" using Cons.prems(1) k by (simp add: list_all_iff)
    ultimately show ?thesis
      using warm_kept(1) [of s1 k s "job_obj b k"] warm_kept(2,3) [of s1 _ s] ne s1(3) [of "cj_src k"] s1(3) [of "job_obj b k"] s1(3)
      by (cases "job_cached e b k") (simp_all add: warm_job_def s1(2) split: if_splits)
  qed
  ultimately obtain s' where "\<And>run. run_jobs run e b js s1 = (True, s')"
    using Cons.IH [of s1] j(4) by (auto simp: list_all_iff)
  then show ?case using s1(1) by auto
qed simp

subsection \<open>Properties\<close>


definition demo_ctx :: build_ctx where
  "demo_ctx = \<lparr>bc_root = ''p'', bc_name = ''p'', bc_sdk = ''k'', bc_sdk_hash = ''h'', bc_gen = ''g'', bc_obj = ''o'', bc_dist = ''d'',
     bc_release = True, bc_dev_assets = False, bc_skip_css = True\<rparr>"

definition demo_env :: build_env where
  "demo_env = \<lparr>be_version = [], be_bundle = [], be_env = (\<lambda>v. if v = ''HOME'' then Some ''/h'' else None), be_platform = [],
     be_machine = [], be_pid = 1\<rparr>"

definition demo_files :: fsys where
  "demo_files = \<lparr>fs_nodes = [(''p'', N_dir), (''p/src'', N_dir), (''p/src/routes'', N_dir),
      (''p/src/routes/a.c'', N_file ''#include <cerco_client.h>'' 1)], fs_denied = (\<lambda>p. False), fs_now = 3\<rparr>"

definition demo_scan :: build_scan where
  "demo_scan = empty_scan\<lparr>bs_routes := [\<lparr>ri_method = ''GET'', ri_path = ''/a'', ri_symbol = ''cerco_route_a'',
     ri_rel = ''src/routes/a.c'', ri_dir = [], ri_layouts = []\<rparr>]\<rparr>"

declare walk_todo.simps [code] unique_symbol.simps [code]

lemma scan_demo: "map_option fst (scan_project demo_ctx demo_files) = Some (Inr demo_scan)"
  by code_simp


text \<open>C15: A build with nothing to do runs no compiler: when every project object is at least as new as its source
  and every SDK object is in the shared cache, all jobs of the queue succeed and leave the same files behind whatever
  the tools would do.\<close>

theorem warm_build_runs_nothing:
  assumes "list_all (warm_job e b s) js" "objdir_there b s" "jobs_apart e b js"
  shows "\<exists>s'. \<forall>run. run_jobs run e b js s = (True, s')"
  by (rule run_warm_jobs [OF assms])

definition warm_files :: fsys where
  "warm_files = \<lparr>fs_nodes = [(''o'', N_dir), (''a.c'', N_file ''a'' 1), (''o/sa_a.o'', N_file ''x'' 2),
     (''/h/.cerco/cache/h/native-release/sdk_b.o'', N_file ''y'' 1)], fs_denied = (\<lambda>p. False), fs_now = 3\<rparr>"

definition warm_queue :: "compile_job list" where
  "warm_queue = queue_push ''b.c'' ''sdk_b.o'' [] False True (queue_push ''a.c'' ''sa_a.o'' [] False False [])"

theorem warm_build_runs_nothing_witness:
  "\<exists>s'. \<forall>run. run_jobs run demo_env demo_ctx warm_queue warm_files = (True, s')"
proof (rule warm_build_runs_nothing)
  show "list_all (warm_job demo_env demo_ctx warm_files) warm_queue" by code_simp
  show "objdir_there demo_ctx warm_files" by code_simp
  show "jobs_apart demo_env demo_ctx warm_queue" by code_simp
qed

text \<open>C27: After the generation stage the six generated files hold exactly what the scan says, nothing else was
  touched, and generating again from the same scan changes nothing, so that no unchanged file is compiled again.\<close>

theorem generated_files_exact:
  assumes "length (bc_gen b) < 1200" "generate b sc s = Some (Inr u, s')"
  shows "read_file s' (bc_gen b @ ''/routes.c'') = Some (gen_routes sc) \<and>
    read_file s' (bc_gen b @ ''/main.c'') = Some (gen_main (bc_name b)) \<and>
    read_file s' (bc_gen b @ ''/sf_server.c'') = Some (gen_sf_server sc) \<and>
    read_file s' (bc_gen b @ ''/sf_client.h'') = Some (gen_sf_client_h sc) \<and>
    read_file s' (bc_gen b @ ''/sf_client.c'') = Some (gen_sf_client_c sc) \<and>
    read_file s' (bc_gen b @ ''/components.c'') = Some (gen_components sc) \<and>
    (q \<notin> fst ` set (generated_files b sc) \<longrightarrow> fs_get s' q = fs_get s q) \<and>
    generate b sc s' = Some (Inr (), s')"
proof -
  have d: "distinct (map fst (generated_files b sc))" using assms(1) by (simp add: generated_files_def)
  from write_all_generated_get [OF assms(2) [unfolded generate_def] d]
  have g: "\<forall>(p, data, msg) \<in> set (generated_files b sc). read_file s' p = Some data"
    "q \<notin> fst ` set (generated_files b sc) \<longrightarrow> fs_get s' q = fs_get s q" by blast+
  from write_all_generated_same [OF g(1)] have "generate b sc s' = Some (Inr (), s')" by (simp add: generate_def)
  moreover from g(1) assms(1) have "read_file s' (bc_gen b @ ''/routes.c'') = Some (gen_routes sc) \<and>
    read_file s' (bc_gen b @ ''/main.c'') = Some (gen_main (bc_name b)) \<and>
    read_file s' (bc_gen b @ ''/sf_server.c'') = Some (gen_sf_server sc) \<and>
    read_file s' (bc_gen b @ ''/sf_client.h'') = Some (gen_sf_client_h sc) \<and>
    read_file s' (bc_gen b @ ''/sf_client.c'') = Some (gen_sf_client_c sc) \<and>
    read_file s' (bc_gen b @ ''/components.c'') = Some (gen_components sc)"
    by (simp add: generated_files_def)
  ultimately show ?thesis using g(2) by blast
qed

lemma generate_demo:
  "\<exists>s'. generate demo_ctx demo_scan \<lparr>fs_nodes = [(''g'', N_dir)], fs_denied = (\<lambda>p. False), fs_now = 3\<rparr> = Some (Inr (), s')"
proof -
  define s0 where "s0 = \<lparr>fs_nodes = [(''g'', N_dir)], fs_denied = (\<lambda>p. False), fs_now = (3::int)\<rparr>"
  have w: "\<exists>s'. write_generated (''g/'' @ f) data s = (True, s') \<and> fs_denied s' = (\<lambda>p. False) \<and> fs_get s' ''g'' = Some N_dir \<and>
      (\<forall>q. fs_get s' (''g/'' @ q) \<noteq> Some N_dir)"
    if "CHR ''/'' \<notin> set f" "fs_denied s = (\<lambda>p. False)" "fs_get s ''g'' = Some N_dir" "\<forall>q. fs_get s (''g/'' @ q) \<noteq> Some N_dir" for f data s
  proof -
    have "path_parent (''g/'' @ f) = Some ''g''" using last_index_append_none [OF that(1), of "''g''"] by (simp add: path_parent_def)
    moreover define p where "p = ''g/'' @ f"
    ultimately have p: "parent_ok s p" "p \<noteq> ''g''" using that(3) by (auto simp: parent_ok_def)
    have "fs_get s p \<noteq> Some N_dir" using that(4) unfolding p_def by blast
    with p that(2) have "write_file p data s = (True, fs_put p (N_file data (fs_now s)) s)" by (simp add: write_file_def)
    then have "write_generated p data s = (True, if write_if_changed (fs_view s) p data then fs_put p (N_file data (fs_now s)) s else s)"
      by (simp add: write_generated_def)
    then show ?thesis unfolding p_def [symmetric] using p(2) that(2-4) by (intro exI conjI allI) (assumption, simp_all)
  qed
  have a: "\<exists>s'. write_all_generated fs s = Some (Inr (), s')"
    if "list_all (\<lambda>(p, data, msg). \<exists>f. p = ''g/'' @ f \<and> CHR ''/'' \<notin> set f) fs" "fs_denied s = (\<lambda>p. False)" "fs_get s ''g'' = Some N_dir"
      "\<forall>q. fs_get s (''g/'' @ q) \<noteq> Some N_dir" for fs s
    using that
  proof (induction fs s rule: write_all_generated.induct)
    case (2 path data msg fs s)
    then obtain f where f: "path = ''g/'' @ f" "CHR ''/'' \<notin> set f" by auto
    from w [OF f(2) 2(3,4,5), of data] obtain s1 where "write_generated path data s = (True, s1)" "fs_denied s1 = (\<lambda>p. False)"
      "fs_get s1 ''g'' = Some N_dir" "\<forall>q. fs_get s1 (''g/'' @ q) \<noteq> Some N_dir" using f(1) by blast
    with 2 show ?case by simp
  qed simp
  have "list_all (\<lambda>(p, data, msg). \<exists>f. p = ''g/'' @ f \<and> CHR ''/'' \<notin> set f) (generated_files demo_ctx demo_scan)"
    by (simp add: generated_files_def demo_ctx_def)
  from a [OF this, of s0] show ?thesis by (simp add: generate_def s0_def fs_get_def)
qed

theorem generated_files_exact_witness:
  "\<exists>s'. read_file s' ''g/routes.c'' = Some (gen_routes demo_scan) \<and> generate demo_ctx demo_scan s' = Some (Inr (), s')"
proof -
  obtain s' where g: "generate demo_ctx demo_scan \<lparr>fs_nodes = [(''g'', N_dir)], fs_denied = (\<lambda>p. False), fs_now = 3\<rparr> = Some (Inr (), s')"
    using generate_demo by blast
  have l: "length (bc_gen demo_ctx) < 1200" by (simp add: demo_ctx_def)
  from generated_files_exact [OF l g] have "read_file s' (bc_gen demo_ctx @ ''/routes.c'') = Some (gen_routes demo_scan)"
    "generate demo_ctx demo_scan s' = Some (Inr (), s')" by blast+
  moreover have "bc_gen demo_ctx @ ''/routes.c'' = ''g/routes.c''" by (simp add: demo_ctx_def)
  ultimately show ?thesis by metis
qed

end
