(* ===== verification/Cli_Dev.thy ===== *)
theory Cli_Dev
  imports Cli_Build
begin

text \<open>
  \<open>cerco dev\<close> (\<open>cli/dev.c\<close>): the choice of a port, the table of watched files and the loop that rebuilds
  and restarts the server, as a machine over the file system, the processes and what is announced. One
  round of the loop gets what happens around it as its input: edits while it sleeps, whether the server
  ended by itself, the times of directories and what polling a started server shows. Forking succeeds,
  and a server that is stopped is gone afterwards (\<open>SIGTERM\<close>, or \<open>SIGKILL\<close> two seconds later).
\<close>

subsection \<open>The port\<close>

datatype family = F_inet | F_inet6

text \<open>What the network says: who accepts a connection on the loopback, which wildcard address is taken.\<close>

record probes =
  pb_accepts :: "family \<Rightarrow> 16 word \<Rightarrow> bool"
  pb_taken :: "family \<Rightarrow> 16 word \<Rightarrow> bool"

definition can_connect :: "probes \<Rightarrow> family \<Rightarrow> int \<Rightarrow> bool" where
  "can_connect net fam port = pb_accepts net fam (of_int port)"

definition wildcard_taken :: "probes \<Rightarrow> family \<Rightarrow> int \<Rightarrow> bool" where
  "wildcard_taken net fam port = pb_taken net fam (of_int port)"

definition port_in_use :: "probes \<Rightarrow> int \<Rightarrow> bool" where
  "port_in_use net port =
     (can_connect net F_inet port \<or> can_connect net F_inet6 port \<or> wildcard_taken net F_inet port \<or> wildcard_taken net F_inet6 port)"

definition c_atoi :: "string \<Rightarrow> int" where
  "c_atoi s =
     (let t = dropWhile is_space s; neg = (char_at t 0 = CHR ''-'');
          v = int (dec_value 0 (takeWhile is_digit (if neg \<or> char_at t 0 = CHR ''+'' then drop 1 t else t)));
          l = (if neg then max (- (2 ^ 63)) (- v) else min (2 ^ 63 - 1) v)
      in sint (of_int l :: u32))"

text \<open>The port and whether the user named it.\<close>

fun dev_args :: "string list \<Rightarrow> int \<times> bool \<Rightarrow> int \<times> bool" where
  "dev_args (a # v # rest) acc = (if a = ''--port'' then dev_args rest (c_atoi v, True) else dev_args (v # rest) acc)"
| "dev_args _ acc = acc"

datatype dev_msg =
    M_port_busy int
  | M_moved int int
  | M_all_busy int
  | M_first_failed
  | M_not_started
  | M_url int
  | M_exited
  | M_changed
  | M_keep
  | M_restart
  | M_not_restarted
  | M_ready int

text \<open>The messages and the port, \<open>None\<close> when the command ends with 1.\<close>

definition choose_port :: "probes \<Rightarrow> string list \<Rightarrow> dev_msg list \<times> int option" where
  "choose_port net args =
     (case dev_args args (3000, False) of (port, chosen) \<Rightarrow>
        if \<not> port_in_use net port then ([], Some port)
        else if chosen then ([M_port_busy port], None)
        else case find (\<lambda>p. \<not> port_in_use net p) [port + 1..port + 31] of
          Some p \<Rightarrow> ([M_moved port p], Some p)
        | None \<Rightarrow> ([M_all_busy port], None))"

subsection \<open>Watched files\<close>

definition WATCH_MAX :: nat where "WATCH_MAX = 4096"

record watch_entry =
  we_path :: string
  we_mtime :: int

text \<open>\<open>stat\<close> is the time of a path; the entry keeps 0 when there is none.\<close>

definition watch_cb :: "(string \<Rightarrow> int option) \<Rightarrow> string \<times> string \<times> bool \<Rightarrow> watch_entry list \<Rightarrow> watch_entry list" where
  "watch_cb stat ent tab =
     (case ent of (rel, full, dir) \<Rightarrow>
        if length tab \<ge> WATCH_MAX then tab
        else tab @ [\<lparr>we_path = fit 1024 full, we_mtime = (case stat full of None \<Rightarrow> 0 | Some t \<Rightarrow> t)\<rparr>])"

definition watch_table :: "(string \<Rightarrow> int option) \<Rightarrow> (string \<times> string \<times> bool) list \<Rightarrow> bool \<Rightarrow> string \<Rightarrow> watch_entry list" where
  "watch_table stat es has_toml toml =
     fold (watch_cb stat) es [] @
     (if has_toml then [\<lparr>we_path = fit 1024 toml, we_mtime = (case stat toml of None \<Rightarrow> 0 | Some t \<Rightarrow> t)\<rparr>] else [])"

text \<open>The files keep their times in the file system; \<open>dirtime\<close> gives those of directories.\<close>

definition path_time :: "(string \<Rightarrow> int) \<Rightarrow> fsys \<Rightarrow> string \<Rightarrow> int option" where
  "path_time dirtime s p = (if is_dir s p then Some (dirtime p) else mtime_ms s p)"

definition watch_scan :: "cerco_project \<Rightarrow> (string \<Rightarrow> int) \<Rightarrow> fsys \<Rightarrow> watch_entry list \<Rightarrow> (bool \<times> watch_entry list) option" where
  "watch_scan proj dirtime s old =
     (let toml = fit 1300 (pj_root proj @ ''/cerco.toml'') in
      map_option (\<lambda>es. let tab = watch_table (path_time dirtime s) es (is_file s toml) toml
                       in (length old \<noteq> length tab \<or> old \<noteq> tab, tab))
        (walk_dir (fs_view s) (fit 1300 (pj_root proj @ ''/src''))))"

subsection \<open>Processes\<close>

record dev_state =
  dv_fs :: fsys
  dv_child :: nat                 \<comment> \<open>\<open>g_child\<close>\<close>
  dv_next :: nat                  \<comment> \<open>the process number the next fork returns\<close>
  dv_live :: "nat list"           \<comment> \<open>the server processes that run\<close>
  dv_tw :: bool                   \<comment> \<open>the stylesheet watcher runs (\<open>tw_child\<close>)\<close>
  dv_watch :: "watch_entry list"
  dv_out :: "dev_msg list"
  dv_exit :: "int option"

record dev_input =
  di_edit :: "fsys \<Rightarrow> fsys"
  di_stopped :: bool
  di_dirtime :: "string \<Rightarrow> int"
  di_polls :: "nat \<Rightarrow> bool \<times> bool" \<comment> \<open>of every poll: whether the server has ended, whether it accepts a connection\<close>

definition say :: "dev_msg \<Rightarrow> dev_state \<Rightarrow> dev_state" where
  "say m st = st\<lparr>dv_out := dv_out st @ [m]\<rparr>"

definition spawn_server :: "dev_state \<Rightarrow> dev_state" where
  "spawn_server st = st\<lparr>dv_child := dv_next st, dv_live := dv_live st @ [dv_next st], dv_next := Suc (dv_next st)\<rparr>"

definition server_ends :: "dev_state \<Rightarrow> dev_state" where
  "server_ends st = st\<lparr>dv_live := removeAll (dv_child st) (dv_live st)\<rparr>"

definition stop_server :: "dev_state \<Rightarrow> dev_state" where
  "stop_server st = (if dv_child st = 0 then st else (server_ends st)\<lparr>dv_child := 0\<rparr>)"

definition child_dead :: "dev_state \<Rightarrow> bool \<times> dev_state" where
  "child_dead st =
     (if dv_child st \<noteq> 0 \<and> dv_child st \<notin> set (dv_live st) then (True, st\<lparr>dv_child := 0\<rparr>) else (False, st))"

fun wait_polls :: "(bool \<times> bool) list \<Rightarrow> dev_state \<Rightarrow> bool \<times> dev_state" where
  "wait_polls [] st = (False, st)"
| "wait_polls ((ended, accepts) # ps) st =
     (case child_dead (if ended then server_ends st else st) of
        (True, st') \<Rightarrow> (False, st')
      | (False, st') \<Rightarrow> if accepts then (True, st') else wait_polls ps st')"

definition wait_server_up :: "(nat \<Rightarrow> bool \<times> bool) \<Rightarrow> nat \<Rightarrow> dev_state \<Rightarrow> bool \<times> dev_state" where
  "wait_server_up polls timeout_ms st = wait_polls (map polls [0..<(timeout_ms + 19) div 20]) st"

definition touch_reload :: "cerco_project \<Rightarrow> fsys \<Rightarrow> fsys" where
  "touch_reload proj s =
     snd (write_file (fit 1300 (pj_root proj @ ''/.cerco/reload_signal'')) (dec (nat (fs_now s)) @ [CHR 0x0A]) s)"

definition spawn_tailwind_watch :: "tool \<Rightarrow> build_env \<Rightarrow> cerco_project \<Rightarrow> fsys \<Rightarrow> bool \<times> fsys" where
  "spawn_tailwind_watch run e proj s =
     (if \<not> is_file s (fit 1400 (pj_root proj @ ''/src/styles.css'')) then (False, s)
      else case tailwind_ensure (be_env e) (be_platform e) (be_machine e)
                  (\<lambda>argv s. case run argv s of (rc, out, s') \<Rightarrow> (rc, s')) s of
        (None, s1) \<Rightarrow> (False, s1)
      | (Some twbin, s1) \<Rightarrow> (True, snd (mkdir_for_file (fit 1400 (pj_root proj @ ''/dist/assets/styles.css'')) s1)))"

subsection \<open>The loop\<close>

definition dev_build :: "tool \<Rightarrow> build_env \<Rightarrow> cerco_project \<Rightarrow> bool \<Rightarrow> fsys \<Rightarrow> unit stage" where
  "dev_build run e proj tw = cmd_build run e proj ([''--debug'', ''--dev-assets''] @ (if tw then [''--no-css''] else []))"

definition bin_mtime :: "cerco_project \<Rightarrow> fsys \<Rightarrow> int" where
  "bin_mtime proj s = (case mtime_ms s (fit 1400 (pj_root proj @ ''/dist/'' @ pj_name proj)) of None \<Rightarrow> 0 | Some t \<Rightarrow> t)"

text \<open>\<open>return 1\<close> after the stylesheet watcher was told to end.\<close>

definition dev_quit :: "dev_msg \<Rightarrow> dev_state \<Rightarrow> dev_state" where
  "dev_quit m st = (say m st)\<lparr>dv_tw := False, dv_exit := Some 1\<rparr>"

text \<open>The end of a round whose build succeeded; \<open>fresh\<close>: the binary has another time than before.\<close>

definition dev_rebuilt :: "cerco_project \<Rightarrow> int \<Rightarrow> (nat \<Rightarrow> bool \<times> bool) \<Rightarrow> bool \<Rightarrow> dev_state \<Rightarrow> dev_state" where
  "dev_rebuilt proj port polls fresh st =
     (let announce = (\<lambda>st. say (M_ready port) (st\<lparr>dv_fs := touch_reload proj (dv_fs st)\<rparr>)) in
      if fresh then
        (case wait_server_up polls 5000 (spawn_server (stop_server (say M_restart st))) of
           (False, st') \<Rightarrow> dev_quit M_not_restarted st'
         | (True, st') \<Rightarrow> announce st')
      else announce st)"

definition dev_round :: "tool \<Rightarrow> build_env \<Rightarrow> cerco_project \<Rightarrow> int \<Rightarrow> dev_input \<Rightarrow> dev_state \<Rightarrow> dev_state option" where
  "dev_round run e proj port inp st =
     (let st1 = st\<lparr>dv_fs := di_edit inp (dv_fs st)\<rparr>;
          st1 = (if di_stopped inp then server_ends st1 else st1)
      in case child_dead st1 of
        (True, st2) \<Rightarrow> Some (dev_quit M_exited st2)
      | (False, st2) \<Rightarrow>
          (case watch_scan proj (di_dirtime inp) (dv_fs st2) (dv_watch st2) of
             None \<Rightarrow> None
           | Some (False, tab) \<Rightarrow> Some (st2\<lparr>dv_watch := tab\<rparr>)
           | Some (True, tab) \<Rightarrow>
               (let st3 = say M_changed (st2\<lparr>dv_watch := tab\<rparr>) in
                case dev_build run e proj (dv_tw st3) (dv_fs st3) of
                  None \<Rightarrow> None
                | Some (Inl (B_died msg), s) \<Rightarrow> Some (st3\<lparr>dv_fs := s, dv_exit := Some 1\<rparr>)
                | Some (Inl B_failed, s) \<Rightarrow> Some (say M_keep (st3\<lparr>dv_fs := s\<rparr>))
                | Some (Inr u, s) \<Rightarrow>
                    Some (dev_rebuilt proj port (di_polls inp) (bin_mtime proj s \<noteq> bin_mtime proj (dv_fs st3)) (st3\<lparr>dv_fs := s\<rparr>)))))"

text \<open>The command up to its loop; \<open>inp\<close> has the polls of the first start and the times for the first table.\<close>

definition dev_first_build :: "tool \<Rightarrow> build_env \<Rightarrow> cerco_project \<Rightarrow> int \<Rightarrow> dev_input \<Rightarrow> dev_state \<Rightarrow> dev_state option" where
  "dev_first_build run e proj port inp st =
     (let baseline = (\<lambda>st. map_option (\<lambda>(changed, tab). st\<lparr>dv_watch := tab\<rparr>)
             (watch_scan proj (di_dirtime inp) (dv_fs st) (dv_watch st)))
      in case dev_build run e proj (dv_tw st) (dv_fs st) of
        None \<Rightarrow> None
      | Some (Inl (B_died msg), s) \<Rightarrow> Some (st\<lparr>dv_fs := s, dv_exit := Some 1\<rparr>)
      | Some (Inl B_failed, s) \<Rightarrow> baseline (say M_first_failed (st\<lparr>dv_fs := s\<rparr>))
      | Some (Inr u, s) \<Rightarrow>
          (case wait_server_up (di_polls inp) 5000 (spawn_server (st\<lparr>dv_fs := s\<rparr>)) of
             (False, st') \<Rightarrow> Some (dev_quit M_not_started st')
           | (True, st') \<Rightarrow> baseline (say (M_url port) st')))"

definition dev_begin :: "tool \<Rightarrow> build_env \<Rightarrow> cerco_project \<Rightarrow> dev_msg list \<Rightarrow> nat \<Rightarrow> fsys \<Rightarrow> dev_state" where
  "dev_begin run e proj msgs pid s =
     (let s1 = snd (mkdirs (fit 1300 (pj_root proj @ ''/.cerco'')) s);
          reload = fit 1300 (pj_root proj @ ''/.cerco/reload_signal'');
          s2 = (if is_file s1 reload then s1 else snd (write_file reload [CHR ''0'', CHR 0x0A] s1))
      in case spawn_tailwind_watch run e proj s2 of (tw, s3) \<Rightarrow>
        \<lparr>dv_fs = s3, dv_child = 0, dv_next = pid, dv_live = [], dv_tw = tw, dv_watch = [], dv_out = msgs, dv_exit = None\<rparr>)"

definition cmd_dev :: "tool \<Rightarrow> build_env \<Rightarrow> cerco_project \<Rightarrow> string list \<Rightarrow> probes \<Rightarrow> nat \<Rightarrow> dev_input \<Rightarrow> fsys \<Rightarrow> dev_state option" where
  "cmd_dev run e proj args net pid inp s =
     (case choose_port net args of
        (msgs, None) \<Rightarrow>
          Some \<lparr>dv_fs = s, dv_child = 0, dv_next = pid, dv_live = [], dv_tw = False, dv_watch = [], dv_out = msgs, dv_exit = Some 1\<rparr>
      | (msgs, Some port) \<Rightarrow> dev_first_build run e proj port inp (dev_begin run e proj msgs pid s))"

inductive dev_step :: "tool \<Rightarrow> build_env \<Rightarrow> cerco_project \<Rightarrow> int \<Rightarrow> dev_state \<Rightarrow> dev_state \<Rightarrow> bool" for run e proj port where
  round: "dv_exit st = None \<Longrightarrow> dev_round run e proj port inp st = Some st' \<Longrightarrow> dev_step run e proj port st st'"

inductive_cases dev_stepE: "dev_step run e proj port st st'"

subsection \<open>Laws\<close>

text \<open>At most one server runs, and it is the one the loop knows.\<close>

definition one_server :: "dev_state \<Rightarrow> bool" where
  "one_server st = (dv_next st > 0 \<and> (dv_live st = [] \<or> dv_child st \<noteq> 0 \<and> dv_live st = [dv_child st]))"

lemma one_server_fields [simp]:
  "one_server (say m st) = one_server st" "one_server (dev_quit m st) = one_server st"
  "one_server (st\<lparr>dv_fs := s\<rparr>) = one_server st" "one_server (st\<lparr>dv_watch := w\<rparr>) = one_server st"
  "one_server (st\<lparr>dv_fs := s, dv_exit := x\<rparr>) = one_server st"
  by (simp_all add: one_server_def say_def dev_quit_def)

lemma one_server_ends: "one_server st \<Longrightarrow> one_server (server_ends st)"
  by (auto simp: one_server_def server_ends_def)

lemma stop_server_none: "one_server st \<Longrightarrow> dv_live (stop_server st) = [] \<and> dv_next (stop_server st) > 0"
  by (auto simp: one_server_def stop_server_def server_ends_def)

lemma one_server_spawn: "dv_live st = [] \<Longrightarrow> dv_next st > 0 \<Longrightarrow> one_server (spawn_server st)"
  by (simp add: one_server_def spawn_server_def)

lemma one_server_dead: "one_server st \<Longrightarrow> child_dead st = (d, st') \<Longrightarrow> one_server st'"
  by (auto simp: one_server_def child_dead_def split: if_splits)

lemma one_server_polls: "one_server st \<Longrightarrow> wait_polls ps st = (up, st') \<Longrightarrow> one_server st'"
proof (induction ps st rule: wait_polls.induct)
  case (2 ended accepts ps st)
  let ?s = "if ended then server_ends st else st"
  obtain d s where d: "child_dead ?s = (d, s)" by fastforce
  have "one_server ?s" using 2(2) by (simp add: one_server_ends)
  from one_server_dead [OF this d] have "one_server s" .
  with 2 d show ?case by (auto split: bool.splits if_splits)
qed simp

lemma one_server_rebuilt: "one_server st \<Longrightarrow> one_server (dev_rebuilt proj port polls fresh st)"
proof -
  assume s: "one_server st"
  from stop_server_none [of "say M_restart st"] s have "one_server (spawn_server (stop_server (say M_restart st)))"
    by (simp add: one_server_spawn)
  with s show ?thesis
    by (auto simp: dev_rebuilt_def wait_server_up_def dest: one_server_polls split: prod.split bool.split)
qed

lemma one_server_round:
  assumes "one_server st" "dev_round run e proj port inp st = Some st'"
  shows "one_server st'"
proof -
  define st1 where "st1 = (if di_stopped inp then server_ends (st\<lparr>dv_fs := di_edit inp (dv_fs st)\<rparr>) else st\<lparr>dv_fs := di_edit inp (dv_fs st)\<rparr>)"
  have "one_server st1" using assms(1) by (simp add: st1_def one_server_ends)
  then have "one_server (snd (child_dead st1))" using one_server_dead [of st1] by (metis prod.collapse)
  with assms(2) show ?thesis
    unfolding dev_round_def Let_def st1_def [symmetric]
    by (auto split: prod.splits bool.splits option.splits sum.splits build_stop.splits intro!: one_server_rebuilt)
qed

lemma one_server_first:
  assumes "dv_live st = []" "dv_next st > 0" "dev_first_build run e proj port inp st = Some st'"
  shows "one_server st'"
proof -
  have st: "one_server (st\<lparr>dv_fs := s\<rparr>)" "one_server (spawn_server (st\<lparr>dv_fs := s\<rparr>))" for s
    using assms(1,2) one_server_spawn [of "st\<lparr>dv_fs := s\<rparr>"] by (simp_all add: one_server_def [of st])
  from assms(3) obtain x s where b: "dev_build run e proj (dv_tw st) (dv_fs st) = Some (x, s)"
    by (cases "dev_build run e proj (dv_tw st) (dv_fs st)") (auto simp: dev_first_build_def)
  obtain up st1 where w: "wait_server_up (di_polls inp) 5000 (spawn_server (st\<lparr>dv_fs := s\<rparr>)) = (up, st1)" by fastforce
  then have "one_server st1" using one_server_polls [OF st(2)] by (simp add: wait_server_up_def)
  with assms(3) st(1) [of s] show ?thesis
    by (cases x; cases up) (auto simp: dev_first_build_def b w split: build_stop.splits)
qed

lemma one_server_cmd:
  assumes "pid > 0" "cmd_dev run e proj args net pid inp s = Some st"
  shows "one_server st"
proof -
  obtain msgs p where p: "choose_port net args = (msgs, p)" by fastforce
  have l: "dv_live (dev_begin run e proj msgs pid s) = []" "dv_next (dev_begin run e proj msgs pid s) = pid"
    by (simp_all add: dev_begin_def Let_def split: prod.split)
  show ?thesis
  proof (cases p)
    case None
    with assms p show ?thesis by (auto simp: cmd_dev_def one_server_def)
  next
    case (Some port)
    with assms p l one_server_first [of "dev_begin run e proj msgs pid s"] show ?thesis by (simp add: cmd_dev_def)
  qed
qed

interpretation dev_sys: transition_system
  "\<lambda>st. \<exists>run e args net pid inp s. pid > 0 \<and> cmd_dev run e proj args net pid inp s = Some st" "dev_step run e proj port" one_server
  for run e proj port
proof unfold_locales
  fix st assume "\<exists>run e args net pid inp s. pid > 0 \<and> cmd_dev run e proj args net pid inp s = Some st"
  then show "one_server st" using one_server_cmd by blast
next
  fix st st' assume "dev_step run e proj port st st'" "one_server st"
  then show "one_server st'" by (auto elim!: dev_stepE intro: one_server_round)
qed

text \<open>A round in which the server goes on running, and what the build comes to.\<close>

lemma round_alive:
  assumes "\<not> di_stopped inp" "dv_child st \<in> set (dv_live st)"
  shows "dev_round run e proj port inp st =
    (let st2 = st\<lparr>dv_fs := di_edit inp (dv_fs st)\<rparr> in
     case watch_scan proj (di_dirtime inp) (dv_fs st2) (dv_watch st2) of
       None \<Rightarrow> None
     | Some (False, tab) \<Rightarrow> Some (st2\<lparr>dv_watch := tab\<rparr>)
     | Some (True, tab) \<Rightarrow>
         (let st3 = say M_changed (st2\<lparr>dv_watch := tab\<rparr>) in
          case dev_build run e proj (dv_tw st) (di_edit inp (dv_fs st)) of
            None \<Rightarrow> None
          | Some (Inl (B_died msg), s) \<Rightarrow> Some (st3\<lparr>dv_fs := s, dv_exit := Some 1\<rparr>)
          | Some (Inl B_failed, s) \<Rightarrow> Some (say M_keep (st3\<lparr>dv_fs := s\<rparr>))
          | Some (Inr u, s) \<Rightarrow>
              Some (dev_rebuilt proj port (di_polls inp) (bin_mtime proj s \<noteq> bin_mtime proj (dv_fs st3)) (st3\<lparr>dv_fs := s\<rparr>))))"
  using assms by (simp add: dev_round_def child_dead_def say_def Let_def split: option.split prod.split bool.split)

lemma watch_cbs_full: "length tab \<le> WATCH_MAX \<Longrightarrow> length (fold (watch_cb stat) es tab) = min WATCH_MAX (length tab + length es)"
proof (induction es arbitrary: tab)
  case (Cons ent es)
  have "length (watch_cb stat ent tab) = min WATCH_MAX (Suc (length tab))"
    using Cons(2) by (cases ent) (auto simp: watch_cb_def)
  with Cons(1) [of "watch_cb stat ent tab"] show ?case by auto
qed simp

lemma find_first: "find P xs = Some x \<Longrightarrow> \<exists>ys zs. xs = ys @ x # zs \<and> P x \<and> list_all (\<lambda>x. \<not> P x) ys"
proof (induction xs)
  case (Cons y xs)
  show ?case
  proof (cases "P y")
    case True
    with Cons.prems show ?thesis by (intro exI [of _ "[]"] exI [of _ xs]) simp
  next
    case False
    with Cons obtain ys zs where "xs = ys @ x # zs" "P x" "list_all (\<lambda>x. \<not> P x) ys" by auto
    with False show ?thesis by (intro exI [of _ "y # ys"] exI [of _ zs]) simp
  qed
qed simp

lemma upto_split: "[i..j] = ys @ p # zs \<Longrightarrow> ys = [i..p - 1] \<and> i \<le> p \<and> p \<le> j"
proof (induction ys arbitrary: i)
  case Nil
  then show ?case by (cases "i \<le> j") (auto simp: upto.simps)
next
  case (Cons y ys)
  then have "i \<le> j" by (cases "i \<le> j") auto
  with Cons.prems have y: "y = i" "[i + 1..j] = ys @ p # zs" by (auto simp: upto.simps [of i j])
  with Cons.IH [OF y(2)] show ?case by (simp add: upto.simps [of i "p - 1"])
qed

text \<open>A session whose every build dies: nothing can be written.\<close>

definition demo_proj :: cerco_project where
  "demo_proj = \<lparr>pj_name = ''p'', pj_version = [], pj_tailwind = [], pj_root = ''p''\<rparr>"

definition demo_input :: dev_input where
  "demo_input = \<lparr>di_edit = (\<lambda>s. s), di_stopped = False, di_dirtime = (\<lambda>p. 0), di_polls = (\<lambda>n. (False, True))\<rparr>"

definition dead_fs :: fsys where
  "dead_fs = \<lparr>fs_nodes = [], fs_denied = (\<lambda>p. True), fs_now = 0\<rparr>"

definition demo_state :: dev_state where
  "demo_state = \<lparr>dv_fs = dead_fs, dv_child = 4, dv_next = 5, dv_live = [4], dv_tw = True,
     dv_watch = [\<lparr>we_path = ''p/src/a.c'', we_mtime = 1\<rparr>], dv_out = [], dv_exit = None\<rparr>"

lemma hash_nothing: "cerco_sha256_final cerco_sha256_init \<noteq> None"
proof -
  have "cerco_sha256_update [] cerco_sha256_init = cerco_sha256_init"
    by (simp add: cerco_sha256_update_def cerco_sha256_init_def absorb.simps)
  with final_spec [of "[]"] show ?thesis by simp
qed

lemma dead_build: "\<exists>msg. dev_build run demo_env demo_proj tw dead_fs = Some (Inl (B_died msg), dead_fs)"
proof -
  from hash_nothing obtain d where d: "cerco_sha256_final cerco_sha256_init = Some d" by auto
  have u: "cerco_sha256_update [] cerco_sha256_init = cerco_sha256_init"
    by (simp add: cerco_sha256_update_def cerco_sha256_init_def absorb.simps)
  have g: "fs_get dead_fs q = None" "fs_denied dead_fs q" for q by (simp_all add: fs_get_def dead_fs_def)
  define l where "l = sdk_layout_of [] ''p'' (hex16 d)"
  have sd: "sd_dir l = ''p/.cerco/sdk''" by (simp add: l_def sdk_layout_of_def)
  have r: "rm_one (Rm_path q) dead_fs = ([], dead_fs)" for q by (simp add: rm_one_def is_dir_def sys_unlink_def g)
  have m: "mkdirs ''p/.cerco/sdk'' dead_fs = (False, dead_fs)"
  proof -
    have "make_dirs ds dead_fs = (ds = [], dead_fs)" for ds by (cases ds) (simp_all add: sys_mkdir_def g)
    then show ?thesis by (simp add: mkdirs_def Let_def)
  qed
  have "\<exists>msg. sdk_run l (Sdk_rm [Rm_path (sd_dir l)]) dead_fs = Some (Some msg, dead_fs)"
    by (subst sdk_run.simps, simp add: r, subst sdk_run.simps, simp, subst sdk_run.simps, simp add: sd m, subst sdk_run.simps, simp)
  moreover have "\<not> sdk_kept l dead_fs" by (simp add: sdk_kept_def is_file_def g)
  ultimately have "\<exists>msg. sdk_ensure [] [] ''p'' dead_fs = Some (Inl msg, dead_fs)"
    by (auto simp: sdk_ensure_def bundle_hash_def compile_hash_def to_bytes_def u d l_def Let_def)
  then show ?thesis
    by (auto simp: dev_build_def cmd_build_def build_setup_def demo_env_def demo_proj_def)
qed

lemma dead_scan: "watch_scan demo_proj dirtime dead_fs old = Some (old \<noteq> [], [])"
proof -
  have "walk_dir (fs_view dead_fs) d = Some []" for d
    by (simp add: walk_dir_def dir_entries_def fs_view_def is_dir_def fs_get_def dead_fs_def walk_todo.simps)
  then show ?thesis
    by (simp add: watch_scan_def watch_table_def is_file_def fs_get_def dead_fs_def)
qed

lemma demo_round:
  "\<not> di_stopped demo_input" "dv_child demo_state \<in> set (dv_live demo_state)"
  "watch_scan demo_proj (di_dirtime demo_input) (di_edit demo_input (dv_fs demo_state)) (dv_watch demo_state) = Some (True, [])"
  "\<exists>msg. dev_build run demo_env demo_proj (dv_tw demo_state) (di_edit demo_input (dv_fs demo_state)) = Some (Inl (B_died msg), dead_fs)"
  using dead_build [of run "dv_tw demo_state"] by (simp_all add: demo_input_def demo_state_def dead_scan)

subsection \<open>Properties\<close>

text \<open>C10: At every moment of a development session at most one server runs, and it is the one the loop
  knows and will stop.\<close>

theorem dev_single_server:
  assumes "pid > 0" "cmd_dev run e proj args net pid inp s = Some st" "(dev_step run e proj port)\<^sup>*\<^sup>* st st'"
  shows "dv_live st' = [] \<or> dv_live st' = [dv_child st'] \<and> dv_child st' \<noteq> 0"
proof -
  have "one_server st'" using dev_sys.reachable_inv [OF assms(3)] assms(1,2) by blast
  then show ?thesis by (auto simp: one_server_def)
qed

theorem dev_single_server_witness:
  "\<exists>st. cmd_dev (\<lambda>argv s. (0, [], s)) demo_env demo_proj [] \<lparr>pb_accepts = (\<lambda>f p. True), pb_taken = (\<lambda>f p. True)\<rparr> 7 demo_input dead_fs = Some st \<and>
     (dv_live st = [] \<or> dv_live st = [dv_child st] \<and> dv_child st \<noteq> 0)"
proof -
  obtain st where "cmd_dev (\<lambda>argv s. (0, [], s)) demo_env demo_proj [] \<lparr>pb_accepts = (\<lambda>f p. True), pb_taken = (\<lambda>f p. True)\<rparr> 7 demo_input dead_fs = Some st"
    by (simp add: cmd_dev_def choose_port_def port_in_use_def can_connect_def find_None_iff [THEN iffD2])
  with dev_single_server [OF _ this rtranclp.rtrancl_refl] show ?thesis by auto
qed





text \<open>The port a session takes answered no probe of either family; when the user named none it is the first
  such port from 3000 to 3031, and there is no session exactly when there is no such port or the one the user named
  is in use.\<close>

theorem dev_port_free:
  "case choose_port net args of
     (msgs, Some p) \<Rightarrow> \<not> port_in_use net p \<and>
       (case dev_args args (3000, False) of
          (port, True) \<Rightarrow> p = port
        | (port, False) \<Rightarrow> p \<in> set [port..port + 31] \<and> list_all (port_in_use net) [port..p - 1])
   | (msgs, None) \<Rightarrow>
       (case dev_args args (3000, False) of
          (port, True) \<Rightarrow> port_in_use net port
        | (port, False) \<Rightarrow> list_all (port_in_use net) [port..port + 31])"
proof -
  obtain port chosen where d: "dev_args args (3000, False) = (port, chosen)" by fastforce
  show ?thesis
  proof (cases "\<not> port_in_use net port \<or> chosen")
    case True
    with d show ?thesis by (auto simp: choose_port_def split: bool.split)
  next
    case False
    have u: "[port..port + 31] = port # [port + 1..port + 31]" by (simp add: upto.simps [of port])
    show ?thesis
    proof (cases "find (\<lambda>p. \<not> port_in_use net p) [port + 1..port + 31]")
      case None
      then have "list_all (port_in_use net) [port + 1..port + 31]" by (auto simp: find_None_iff list_all_iff)
      with False d None u show ?thesis by (simp add: choose_port_def)
    next
      case (Some p)
      from find_first [OF Some] obtain ys zs where p: "[port + 1..port + 31] = ys @ p # zs" "\<not> port_in_use net p"
        "list_all (\<lambda>p. \<not> \<not> port_in_use net p) ys" by blast
      note y = upto_split [OF p(1)]
      have "[port..p - 1] = port # ys" using y by (simp add: upto.simps [of port])
      moreover have "list_all (port_in_use net) ys" using p(3) by (simp add: list_all_iff)
      ultimately have "list_all (port_in_use net) [port..p - 1]" using False by simp
      with False d Some p(2) y show ?thesis by (simp add: choose_port_def)
    qed
  qed
qed

text \<open>A project with at least 4096 files and directories under \<open>src\<close> and a configuration file puts one entry
  behind the end of the table of watched files.\<close>

theorem watch_table_overruns:
  assumes "length es \<ge> WATCH_MAX"
  shows "length (watch_table stat es True toml) = WATCH_MAX + 1"
  using assms watch_cbs_full [of "[]" stat es] by (simp add: watch_table_def)

theorem watch_table_overruns_witness:
  "length (watch_table (\<lambda>p. None) (replicate 5000 (''a'', ''p/src/a'', False)) True ''p/cerco.toml'') = WATCH_MAX + 1"
  by (rule watch_table_overruns) (simp add: WATCH_MAX_def)

end
