(* ===== verification/Logging.thy ===== *)
theory Logging
  imports Cstring
begin

text \<open>
  \<open>runtime/server/log.c\<close>: log records. The levels are an enumeration of \<open>internal.h\<close> and are ordered as
  there; a call passes a number. The clock, its conversion to a calendar date (\<open>gmtime_r\<close>) and the
  text that \<open>vsnprintf\<close> makes of the format are arguments, and the result is what the one call of
  \<open>write\<close> gets. \<open>vsnprintf\<close> does not report an error.
\<close>

datatype cerco_log_level = CERCO_LOG_TRACE | CERCO_LOG_DEBUG | CERCO_LOG_INFO | CERCO_LOG_WARN | CERCO_LOG_ERROR

fun level_code :: "cerco_log_level \<Rightarrow> int" where
  "level_code CERCO_LOG_TRACE = 0"
| "level_code CERCO_LOG_DEBUG = 1"
| "level_code CERCO_LOG_INFO = 2"
| "level_code CERCO_LOG_WARN = 3"
| "level_code CERCO_LOG_ERROR = 4"

lemma level_code_inject: "level_code a = level_code b \<Longrightarrow> a = b"
  by (cases a; cases b) simp_all

instantiation cerco_log_level :: linorder
begin

definition less_eq_cerco_log_level :: "cerco_log_level \<Rightarrow> cerco_log_level \<Rightarrow> bool" where
  "less_eq_cerco_log_level a b = (level_code a \<le> level_code b)"

definition less_cerco_log_level :: "cerco_log_level \<Rightarrow> cerco_log_level \<Rightarrow> bool" where
  "less_cerco_log_level a b = (level_code a < level_code b)"

instance
  by standard (auto simp: less_eq_cerco_log_level_def less_cerco_log_level_def intro: level_code_inject)

end

fun level_name :: "cerco_log_level \<Rightarrow> string" where
  "level_name CERCO_LOG_TRACE = ''TRACE''"
| "level_name CERCO_LOG_DEBUG = ''DEBUG''"
| "level_name CERCO_LOG_INFO = ''INFO''"
| "level_name CERCO_LOG_WARN = ''WARN''"
| "level_name CERCO_LOG_ERROR = ''ERROR''"

text \<open>The level a number stands for; numbers outside the enumeration count as \<open>INFO\<close>.\<close>

definition level_of :: "int \<Rightarrow> cerco_log_level" where
  "level_of n =
     (if n < 0 \<or> n > level_code CERCO_LOG_ERROR then CERCO_LOG_INFO
      else [CERCO_LOG_TRACE, CERCO_LOG_DEBUG, CERCO_LOG_INFO, CERCO_LOG_WARN, CERCO_LOG_ERROR] ! nat n)"

record calendar =
  tm_year :: nat   \<comment> \<open>the year itself, \<open>tm_year + 1900\<close>\<close>
  tm_mon :: nat    \<comment> \<open>from 1\<close>
  tm_mday :: nat
  tm_hour :: nat
  tm_min :: nat
  tm_sec :: nat

definition pad0 :: "nat \<Rightarrow> nat \<Rightarrow> string" where
  "pad0 w n = replicate (w - length (dec n)) CHR ''0'' @ dec n"

definition log_head :: "calendar \<Rightarrow> nat \<Rightarrow> cerco_log_level \<Rightarrow> string" where
  "log_head tm ms lvl =
     pad0 4 (tm_year tm) @ ''-'' @ pad0 2 (tm_mon tm) @ ''-'' @ pad0 2 (tm_mday tm) @ ''T'' @ pad0 2 (tm_hour tm) @ '':'' @
     pad0 2 (tm_min tm) @ '':'' @ pad0 2 (tm_sec tm) @ ''.'' @ pad0 3 (ms mod 1000) @ ''Z '' @ level_name lvl @ '' ''"

definition LOG_BUF :: nat where "LOG_BUF = 4096"

text \<open>\<open>head\<close> is kept only when it fits; a text that does not fit is cut, the newline is always written.\<close>

definition cerco_log :: "(nat \<Rightarrow> calendar) \<Rightarrow> nat \<Rightarrow> nat \<Rightarrow> int \<Rightarrow> int \<Rightarrow> string \<Rightarrow> string option" where
  "cerco_log gmtime secs nsec log_level level text =
     (if level < log_level then None
      else
        let head = log_head (gmtime secs) (secs * 1000 + nsec div 1000000) (level_of level);
            head = (if length head < LOG_BUF - 1 then head else [])
        in Some (if length head + length text < LOG_BUF - 1 then head @ text @ [CHR 0x0A]
                 else head @ take (LOG_BUF - 2 - length head) text @ [CHR 0x0A]))"

subsection \<open>Laws\<close>

lemma level_of_code [simp]: "level_of (level_code l) = l"
  by (cases l) (simp_all add: level_of_def nth_Cons')

text \<open>With a level of the enumeration as the threshold, a record is written exactly from that level on.\<close>

lemma log_filtered: "cerco_log gmtime secs nsec (level_code t) (level_code l) text = None \<longleftrightarrow> l < t"
  by (simp add: cerco_log_def less_cerco_log_level_def Let_def)

text \<open>\<open>CERCO_LOG_LEVEL=off\<close> sets the threshold behind the last level: nothing is written.\<close>

lemma log_off: "cerco_log gmtime secs nsec (level_code CERCO_LOG_ERROR + 1) (level_code l) text = None"
  by (cases l) (simp_all add: cerco_log_def)

text \<open>Every record is one write of at most 4095 bytes that ends the line.\<close>

lemma log_one_line:
  assumes "cerco_log gmtime secs nsec t l text = Some out"
  shows "length out \<le> 4095 \<and> out \<noteq> [] \<and> last out = CHR 0x0A \<and>
    (CHR 0x0A \<notin> set text \<longrightarrow> CHR 0x0A \<notin> set (log_head (gmtime secs) (secs * 1000 + nsec div 1000000) (level_of l)) \<longrightarrow>
      CHR 0x0A \<notin> set (butlast out))"
  using assms by (auto simp: cerco_log_def LOG_BUF_def Let_def butlast_append dest: in_set_takeD split: if_splits)

end
