(* ===== verification/Bundle.thy ===== *)
theory Bundle
  imports Cli_Compile
begin

text \<open>
  \<open>scripts/mkbundle.c\<close>: the generator of the C source that embeds the SDK and the templates into the
  command-line tool. The files are read through the view of \<open>Cli_Scan\<close>; the two generated texts are the
  result. \<open>None\<close> is the exit status 1; a scan that does not return (a cycle of directories) is \<open>None\<close> of
  the outer option.
\<close>

subsection \<open>Collecting\<close>

record bundle_entry =
  mk_path :: string
  mk_full :: string
  mk_size :: int

definition MAX_FILES :: nat where "MAX_FILES = 8192"

definition add_file :: "string \<Rightarrow> string \<Rightarrow> int \<Rightarrow> bundle_entry list \<Rightarrow> bundle_entry list option" where
  "add_file rel full sz files =
     (if length files \<ge> MAX_FILES then None
      else Some (files @ [\<lparr>mk_path = fit 512 rel, mk_full = fit 1024 full, mk_size = sz\<rparr>]))"

definition stat_size :: "cli_fs \<Rightarrow> string \<Rightarrow> int" where
  "stat_size fs p = (case ft_read fs p of None \<Rightarrow> 0 | Some d \<Rightarrow> int (length d))"

definition scan_entries :: "cli_fs \<Rightarrow> string \<Rightarrow> string \<Rightarrow> string \<Rightarrow> string list" where
  "scan_entries fs root pre rel =
     (case ft_list fs (fit 1024 (root @ ''/'' @ pre @ (if rel \<noteq> [] then ''/'' else []) @ rel)) of
        None \<Rightarrow> []
      | Some names \<Rightarrow>
          map (\<lambda>e. fit 512 (if rel \<noteq> [] then rel @ ''/'' @ e else e)) (filter (\<lambda>e. e \<noteq> ''.'' \<and> e \<noteq> ''..'') names))"

partial_function (option) scan_todo ::
  "cli_fs \<Rightarrow> string \<Rightarrow> string \<Rightarrow> string list \<Rightarrow> bundle_entry list \<Rightarrow> bundle_entry list option option" where
  "scan_todo fs root pre todo files =
     (case todo of
        [] \<Rightarrow> Some (Some files)
      | rel # rest \<Rightarrow>
          (let full = fit 1024 (root @ ''/'' @ pre @ ''/'' @ rel) in
           case ft_kind fs full of
             Some Is_dir \<Rightarrow> scan_todo fs root pre (scan_entries fs root pre rel @ rest) files
           | Some Is_reg \<Rightarrow>
               (case add_file (fit 600 (pre @ ''/'' @ rel)) full (stat_size fs full) files of
                  None \<Rightarrow> Some None
                | Some files' \<Rightarrow> scan_todo fs root pre rest files')
           | _ \<Rightarrow> scan_todo fs root pre rest files))"

definition scan_dir :: "cli_fs \<Rightarrow> string \<Rightarrow> string \<Rightarrow> bundle_entry list \<Rightarrow> bundle_entry list option option" where
  "scan_dir fs root pre files = scan_todo fs root pre (scan_entries fs root pre []) files"

fun scan_dirs :: "cli_fs \<Rightarrow> string \<Rightarrow> string list \<Rightarrow> bundle_entry list \<Rightarrow> bundle_entry list option option" where
  "scan_dirs fs root [] files = Some (Some files)"
| "scan_dirs fs root (d # ds) files =
     (case scan_dir fs root d files of
        None \<Rightarrow> None
      | Some None \<Rightarrow> Some None
      | Some (Some files') \<Rightarrow> scan_dirs fs root ds files')"

text \<open>The libraries are entered with the size -1 and get their sizes afterwards.\<close>

definition fix_size :: "cli_fs \<Rightarrow> bundle_entry \<Rightarrow> bundle_entry" where
  "fix_size fs f = (if mk_size f < 0 \<and> ft_kind fs (mk_full f) \<noteq> None then f\<lparr>mk_size := stat_size fs (mk_full f)\<rparr> else f)"

definition bundle_files :: "cli_fs \<Rightarrow> string \<Rightarrow> string \<Rightarrow> string \<Rightarrow> bundle_entry list option option" where
  "bundle_files fs root libuv libllhttp =
     (case scan_dirs fs root [''include'', ''runtime'', ''templates'', ''vendor/llhttp/include'', ''vendor/libuv/include''] [] of
        None \<Rightarrow> None
      | Some None \<Rightarrow> Some None
      | Some (Some files) \<Rightarrow>
          Some (map_option (map (fix_size fs))
            (Option.bind (add_file ''lib/libuv.a'' libuv (-1) files) (add_file ''lib/libllhttp.a'' libllhttp (-1)))))"

subsection \<open>Writing\<close>

fun oct_digits :: "nat \<Rightarrow> string" where
  "oct_digits n = (if n < 8 then [digit_char n] else oct_digits (n div 8) @ [digit_char (n mod 8)])"

declare oct_digits.simps [simp del]

text \<open>\<open>0%02o\<close>\<close>

definition oct_literal :: "char \<Rightarrow> string" where
  "oct_literal c =
     (let d = oct_digits (ccode c) in CHR ''0'' # replicate (2 - length d) CHR ''0'' @ d)"

definition emit_bytes :: "string \<Rightarrow> string" where
  "emit_bytes data =
     concat (map (\<lambda>(i, c). oct_literal c @ '','' @ (if (i + 1) mod 24 = 0 then nl else [])) (enumerate 0 data))"

definition emit_file :: "cli_fs \<Rightarrow> nat \<Rightarrow> bundle_entry \<Rightarrow> string option" where
  "emit_file fs idx f =
     map_option (\<lambda>data. ''static const unsigned char bundle_data_'' @ dec idx @ ''['' @ dec_int (mk_size f) @ ''] = {'' @ nl @
         emit_bytes data @ nl @ ''};'' @ nl)
       (ft_read fs (mk_full f))"

fun emit_files :: "cli_fs \<Rightarrow> (nat \<times> bundle_entry) list \<Rightarrow> string option" where
  "emit_files fs [] = Some []"
| "emit_files fs ((i, f) # fs') =
     do {
       t \<leftarrow> emit_file fs i f;
       rest \<leftarrow> emit_files fs fs';
       Some (''/* '' @ mk_path f @ '' ('' @ dec_int (mk_size f) @ '' bytes) */'' @ nl @ t @ rest)
     }"

definition bundle_banner :: string where
  "bundle_banner = ''/* generated by mkbundle '' @ [CHR 0xE2, CHR 0x80, CHR 0x94] @ '' do not edit */'' @ nl"

definition bundle_c :: "cli_fs \<Rightarrow> bundle_entry list \<Rightarrow> string option" where
  "bundle_c fs files =
     map_option (\<lambda>t. bundle_banner @ gen_include ''bundle.h'' @ nl @ t @
         nl @ ''const bundle_file cerco_bundle['' @ dec (length files) @ ''] = {'' @ nl @
         concat (map (\<lambda>(i, f). ''  { '' @ quoted (mk_path f) @ '', bundle_data_'' @ dec i @ '', '' @ dec_int (mk_size f) @ '' },'' @ nl)
           (enumerate 0 files)) @ ''};'' @ nl)
       (emit_files fs (enumerate 0 files))"

definition bundle_h :: "string \<Rightarrow> string \<Rightarrow> nat \<Rightarrow> string" where
  "bundle_h platform arch n =
     bundle_banner @ ''#ifndef CERCO_BUNDLE_H'' @ nl @ ''#define CERCO_BUNDLE_H'' @ nl @ nl @
     ''#define CERCO_PLATFORM '' @ quoted platform @ nl @ ''#define CERCO_ARCH '' @ quoted arch @ nl @ nl @
     ''typedef struct {'' @ nl @ ''  const char *path;'' @ nl @ ''  const unsigned char *data;'' @ nl @
     ''  unsigned int len;'' @ nl @ ''} bundle_file;'' @ nl @ nl @
     ''extern const bundle_file cerco_bundle['' @ dec n @ ''];'' @ nl @ ''#define CERCO_BUNDLE_COUNT '' @ dec n @ nl @ nl @
     ''#endif'' @ nl"

text \<open>The whole program: the header and, unless a file cannot be read, the source.\<close>

definition mkbundle ::
  "cli_fs \<Rightarrow> string \<Rightarrow> string \<Rightarrow> string \<Rightarrow> string \<Rightarrow> string \<Rightarrow> (string \<times> string option) option option" where
  "mkbundle fs root platform arch libuv libllhttp =
     map_option (map_option (\<lambda>files. (bundle_h platform arch (length files), bundle_c fs files)))
       (bundle_files fs root libuv libllhttp)"

subsection \<open>The compiler reads back what was written\<close>

text \<open>The initialiser as C reads it: octal constants separated by commas.\<close>

fun oct_value :: "nat \<Rightarrow> string \<Rightarrow> nat" where
  "oct_value v [] = v"
| "oct_value v (c # cs) = oct_value (8 * v + (ccode c - 48)) cs"

definition init_values :: "string \<Rightarrow> string" where
  "init_values t = map (\<lambda>w. char_of (oct_value 0 w)) (strtok_all CHR '','' (filter (\<lambda>c. c \<noteq> CHR 0x0A) t))"

lemma oct_value_append: "oct_value v (xs @ ys) = oct_value (oct_value v xs) ys"
  by (induction xs arbitrary: v) simp_all

lemma digit_evals: "is_digit CHR ''0''" "\<not> is_digit CHR '',''" "\<not> is_digit CHR 0x0A"
  by (simp_all add: is_digit_def in_range_def)

lemma oct_digits_value: "oct_value 0 (oct_digits n) = n"
proof (induction n rule: oct_digits.induct)
  case (1 n)
  have d: "ccode (digit_char k) - 48 = k" if "k < 8" for k using that by (simp add: digit_char_def)
  show ?case
  proof (cases "n < 8")
    case True
    then show ?thesis by (simp add: oct_digits.simps [of n] d)
  next
    case False
    with 1 have "oct_value 0 (oct_digits n) = 8 * (n div 8) + n mod 8"
      by (simp add: oct_digits.simps [of n] oct_value_append d)
    then show ?thesis by simp
  qed
qed

lemma oct_value_zeros: "oct_value 0 (replicate k CHR ''0'' @ ds) = oct_value 0 ds"
  by (induction k) simp_all

lemma oct_literal_value: "char_of (oct_value 0 (oct_literal c)) = c"
  using oct_value_zeros [of "Suc (2 - length (oct_digits (ccode c)))" "oct_digits (ccode c)"]
  by (simp add: oct_literal_def Let_def oct_digits_value)

lemma oct_digits_digits: "list_all is_digit (oct_digits n)"
proof (induction n rule: oct_digits.induct)
  case (1 n)
  then show ?case by (cases "n < 8") (simp_all add: oct_digits.simps [of n])
qed

lemma oct_literal_digits: "list_all is_digit (oct_literal c)" "oct_literal c \<noteq> []"
  using oct_digits_digits [of "ccode c"] by (auto simp: oct_literal_def Let_def list_all_iff digit_evals)

lemma emit_bytes_words:
  "filter (\<lambda>c. c \<noteq> CHR 0x0A) (emit_bytes data) = concat (map (\<lambda>w. w @ '','') (map oct_literal data))"
proof -
  have f: "filter (\<lambda>c. c \<noteq> CHR 0x0A) (oct_literal c) = oct_literal c" for c
    using oct_literal_digits(1) [of c] digit_evals(3) by (intro filter_True) (auto simp: list_all_iff)
  have "filter (\<lambda>c. c \<noteq> CHR 0x0A) (concat (map (\<lambda>(i, c). oct_literal c @ '','' @ (if (i + 1) mod 24 = 0 then nl else [])) (enumerate n data))) =
      concat (map (\<lambda>w. w @ '','') (map oct_literal data))" for n
    by (induction data arbitrary: n) (simp_all add: f)
  then show ?thesis by (simp add: emit_bytes_def)
qed

text \<open>Every file is embedded byte for byte.\<close>

lemma emitted_bytes_read: "init_values (emit_bytes data) = data"
proof -
  have "list_all (\<lambda>w. w \<noteq> [] \<and> CHR '','' \<notin> set w) (map oct_literal data)"
    using oct_literal_digits digit_evals(2) by (auto simp: list_all_iff)
  from strtok_all_words [OF this] show ?thesis
    unfolding init_values_def emit_bytes_words by (simp add: oct_literal_value comp_def)
qed

end
