(* ===== verification/Starter.thy ===== *)
theory Starter
  imports Client_Http Cli_Scan
begin

text \<open>
  The application that \<open>cerco new\<close> writes (\<open>templates/default\<close>), its logic without its markup: the
  guestbook's ring (\<open>server/guestbook.c\<close>) and the route that answers its form, the detail page's
  check of a name and the props it hands to the client, the forward-scanning JSON readers
  (\<open>components/json_scan.h\<close>), the list and filter of \<open>components/pokedex.c\<close>, and the server function.
  The markup calls of the routes and components are left out.
\<close>

subsection \<open>The guestbook\<close>

definition GB_CAP :: nat where "GB_CAP = 32"

record gb_slot =
  gs_name :: string
  gs_message :: string
  gs_when :: string

record guestbook =
  gb_slots :: "gb_slot list"
  gb_head :: nat
  gb_count :: nat
  gb_view :: "gb_slot list"

definition copy_truncated :: "nat \<Rightarrow> string \<Rightarrow> string" where
  "copy_truncated cap src = map (\<lambda>c. if c = CHR 0x0A then CHR '' '' else c) (take (cap - 1) src)"

text \<open>\<open>stamp\<close> is what \<open>strftime\<close> writes.\<close>

definition gb_entry :: "string \<times> string \<times> string \<Rightarrow> gb_slot" where
  "gb_entry e = (case e of (name, message, stamp) \<Rightarrow>
     \<lparr>gs_name = copy_truncated 40 name, gs_message = copy_truncated 280 message, gs_when = stamp\<rparr>)"

definition empty_slot :: gb_slot where
  "empty_slot = \<lparr>gs_name = [], gs_message = [], gs_when = []\<rparr>"

definition guestbook_init :: guestbook where
  "guestbook_init = \<lparr>gb_slots = replicate GB_CAP empty_slot, gb_head = 0, gb_count = 0, gb_view = replicate GB_CAP empty_slot\<rparr>"

definition guestbook_add :: "string option \<Rightarrow> string option \<Rightarrow> string \<Rightarrow> guestbook \<Rightarrow> guestbook" where
  "guestbook_add name message stamp g =
     (case (name, message) of
        (Some nm, Some ms) \<Rightarrow>
          g\<lparr>gb_slots := (gb_slots g)[gb_head g := gb_entry (nm, ms, stamp)], gb_head := (gb_head g + 1) mod GB_CAP,
            gb_count := (if gb_count g < GB_CAP then gb_count g + 1 else gb_count g)\<rparr>
      | _ \<Rightarrow> g)"

definition gb_read :: "guestbook \<Rightarrow> nat \<Rightarrow> gb_slot" where
  "gb_read g i = gb_slots g ! ((gb_head g + GB_CAP - 1 - i) mod GB_CAP)"

definition guestbook_entries :: "guestbook \<Rightarrow> gb_slot list \<times> guestbook" where
  "guestbook_entries g =
     (let view = map (gb_read g) [0..<gb_count g] @ drop (gb_count g) (gb_view g)
      in (take (gb_count g) view, g\<lparr>gb_view := view\<rparr>))"

text \<open>The route of the form: \<open>index.post.c\<close>.\<close>

definition guestbook_post :: "(nat \<Rightarrow> bool) \<Rightarrow> string \<Rightarrow> guestbook \<times> cerco_req \<Rightarrow> guestbook \<times> cerco_req" where
  "guestbook_post al stamp st =
     (case st of (g, r) \<Rightarrow>
        case cerco_form al r ''name'' of (name, r1) \<Rightarrow>
          case cerco_form al r1 ''message'' of (message, r2) \<Rightarrow>
            if name = None \<or> name = Some [] \<or> message = None \<or> message = Some []
            then (g, cerco_redirect al ''/guestbook?e=1'' r2)
            else (guestbook_add name message stamp g, cerco_redirect al ''/guestbook'' r2))"

subsection \<open>The detail page\<close>

definition slug_char :: "char \<Rightarrow> bool" where
  "slug_char c = (in_range CHR ''a'' CHR ''z'' c \<or> in_range CHR ''0'' CHR ''9'' c \<or> c = CHR ''-'')"

definition valid_slug :: "string option \<Rightarrow> bool" where
  "valid_slug s = (case s of None \<Rightarrow> False | Some t \<Rightarrow> t \<noteq> [] \<and> length t \<le> 24 \<and> list_all slug_char t)"

definition detail_props :: "string \<Rightarrow> string" where
  "detail_props name = fit 64 (''{'' @ CHR 0x22 # ''name'' @ CHR 0x22 # '':'' @ CHR 0x22 # name @ CHR 0x22 # ''}'')"

definition detail_title :: "string \<Rightarrow> string" where
  "detail_title name = fit 64 (name @ CHR '' '' # CHR 0xC2 # CHR 0xB7 # '' my-app'')"

text \<open>\<open>not_found\<close> and \<open>detail\<close> are the markup of the two pages, which is left out.\<close>

definition detail_route ::
  "(nat \<Rightarrow> bool) \<Rightarrow> (string option \<Rightarrow> cerco_req \<Rightarrow> cerco_req) \<Rightarrow> (string \<Rightarrow> string \<Rightarrow> cerco_req \<Rightarrow> cerco_req) \<Rightarrow> cerco_req \<Rightarrow> cerco_req" where
  "detail_route al not_found detail r =
     (let name = cerco_param r ''name'' in
      case name of
        Some t \<Rightarrow>
          if \<not> valid_slug name then not_found name (cerco_status 404 r)
          else detail t (detail_props t) (cerco_title al (Some (detail_title t)) r)
      | None \<Rightarrow> not_found name (cerco_status 404 r))"

text \<open>What \<open>components/pokemon.c\<close> reads from its props.\<close>

definition detail_name :: "string \<Rightarrow> string option" where
  "detail_name props = cerco_json_str (Some props) (Some ''name'') 32"

subsection \<open>Scanning JSON\<close>

text \<open>A position is the rest of the text from there on; \<open>None\<close> is the null pointer.\<close>

fun cj_copy :: "nat \<Rightarrow> string \<Rightarrow> string \<Rightarrow> (string \<times> string) option" where
  "cj_copy cap out [] = None"
| "cj_copy cap out (c # p) =
     (if c = CHR 0x22 then Some (out, p)
      else if length out + 1 \<ge> cap then None
      else cj_copy cap (out @ [c]) p)"

definition cj_string :: "nat \<Rightarrow> string option \<Rightarrow> (string \<times> string) option" where
  "cj_string cap p =
     (case p of
        None \<Rightarrow> None
      | Some t \<Rightarrow> if char_at t 0 \<noteq> CHR 0x22 then None else cj_copy cap [] (drop 1 t))"

definition cj_seek :: "string option \<Rightarrow> string \<Rightarrow> string option" where
  "cj_seek from key =
     (case from of
        None \<Rightarrow> None
      | Some t \<Rightarrow>
          (case cerco_format 48 (CHR 0x22 # ''%s'' @ CHR 0x22 # '':'') [F_str (Some key)] of
             None \<Rightarrow> None
           | Some pat \<Rightarrow>
               if pat = [] then None
               else case c_strstr t pat of
                 None \<Rightarrow> None
               | Some i \<Rightarrow>
                   Some (dropWhile (\<lambda>c. c = CHR '' '' \<or> c = CHR 0x0A \<or> c = CHR 0x09 \<or> c = CHR 0x0D) (drop (i + length pat) t))))"

definition cj_find_str :: "string option \<Rightarrow> string \<Rightarrow> nat \<Rightarrow> (string \<times> string) option" where
  "cj_find_str from key cap = cj_string cap (cj_seek from key)"

text \<open>\<open>None\<close>: the digit loop overflows \<open>int\<close>.\<close>

definition cj_find_int :: "string option \<Rightarrow> string \<Rightarrow> int \<Rightarrow> int option" where
  "cj_find_int from key dflt =
     (case cj_seek from key of
        None \<Rightarrow> Some dflt
      | Some p \<Rightarrow>
          let neg = (char_at p 0 = CHR ''-''); q = (if neg then drop 1 p else p)
          in if \<not> is_digit (char_at q 0) then Some dflt
             else map_option (\<lambda>v. if neg then - v else v) (json_digits 0 q))"

definition cj_url_tail_int :: "string \<Rightarrow> int option" where
  "cj_url_tail_int url =
     (let body = rev (dropWhile (\<lambda>c. c = CHR ''/'' \<or> c = CHR '' '') (rev url));
          ds = rev (takeWhile is_digit (rev body))
      in if ds = [] then Some 0 else json_digits 0 ds)"

subsection \<open>The list and its filter\<close>

record poke_entry =
  pk_name :: string
  pk_id :: int

text \<open>At most \<open>n\<close> further entries; the loop ends at the first pair that is not complete.\<close>

fun parse_entries :: "nat \<Rightarrow> string \<Rightarrow> poke_entry list option" where
  "parse_entries 0 p = Some []"
| "parse_entries (Suc n) p =
     (case cj_find_str (Some p) ''name'' 24 of
        None \<Rightarrow> Some []
      | Some (name, after) \<Rightarrow>
          (case cj_find_str (Some after) ''url'' 128 of
             None \<Rightarrow> Some []
           | Some (url, rest) \<Rightarrow>
               do {
                 i \<leftarrow> cj_url_tail_int url;
                 es \<leftarrow> parse_entries n rest;
                 Some (\<lparr>pk_name = name, pk_id = i\<rparr> # es)
               }))"

definition parse_list :: "string \<Rightarrow> nat \<Rightarrow> poke_entry list option" where
  "parse_list body cap =
     (case c_strstr body (CHR 0x22 # ''results'' @ [CHR 0x22]) of
        None \<Rightarrow> Some []
      | Some i \<Rightarrow> parse_entries cap (drop i body))"

definition title_case :: "string \<Rightarrow> string" where
  "title_case s = (case s of [] \<Rightarrow> [] | c # cs \<Rightarrow> upper c # cs)"

fun match_here :: "string \<Rightarrow> string \<Rightarrow> bool" where
  "match_here [] s = True"
| "match_here (q # qs) [] = False"
| "match_here (q # qs) (c # s) = (lower q = lower c \<and> match_here qs s)"

fun match_from :: "string \<Rightarrow> string \<Rightarrow> bool" where
  "match_from q [] = False"
| "match_from q (c # s) = (match_here q (c # s) \<or> match_from q s)"

definition name_matches :: "string \<Rightarrow> string \<Rightarrow> bool" where
  "name_matches name q = (q = [] \<or> match_from q name)"

text \<open>The cards that are shown and the count line of \<open>render_filtered\<close>.\<close>

definition shown_entries :: "poke_entry list \<Rightarrow> string \<Rightarrow> poke_entry list" where
  "shown_entries es q = filter (\<lambda>e. name_matches (pk_name e) q) es"

subsection \<open>The server function\<close>

text \<open>The sum or the failure; \<open>None\<close>: the addition overflows.\<close>

definition sf_add :: "u32 \<Rightarrow> u32 \<Rightarrow> (string + u32) option" where
  "sf_add a b =
     (if sint a < 0 \<or> sint b < 0 then Some (Inl ''negative numbers not allowed'')
      else if sint a + sint b > 2147483647 then None
      else Some (Inr (a + b)))"

subsection \<open>The guestbook keeps the newest entries\<close>

definition gb_ok :: "guestbook \<Rightarrow> bool" where
  "gb_ok g \<longleftrightarrow> length (gb_slots g) = GB_CAP \<and> length (gb_view g) = GB_CAP \<and> gb_head g < GB_CAP \<and> gb_count g \<le> GB_CAP"

definition gb_abs :: "guestbook \<Rightarrow> gb_slot list" where
  "gb_abs g = map (gb_read g) [0..<gb_count g]"

lemma gb_ok_init [simp]: "gb_ok guestbook_init"
  by (simp add: gb_ok_def guestbook_init_def GB_CAP_def)

lemma gb_abs_init [simp]: "gb_abs guestbook_init = []"
  by (simp add: gb_abs_def guestbook_init_def)

lemma gb_ok_add: "gb_ok g \<Longrightarrow> gb_ok (guestbook_add nm ms st g)"
  by (auto simp: gb_ok_def guestbook_add_def GB_CAP_def split: option.splits)

lemma guestbook_entries_abs: "gb_ok g \<Longrightarrow> fst (guestbook_entries g) = gb_abs g"
  by (simp add: guestbook_entries_def gb_abs_def Let_def)

lemma gb_ok_entries: "gb_ok g \<Longrightarrow> gb_ok (snd (guestbook_entries g))"
  by (simp add: gb_ok_def guestbook_entries_def Let_def)

text \<open>The slot read for entry \<open>i + 1\<close> after a write is the one read for entry \<open>i\<close> before it.\<close>

lemma gb_index: "h < 32 \<Longrightarrow> i < 31 \<Longrightarrow> ((h + 1) mod 32 + 31 - Suc i) mod 32 = (h + 31 - i) mod (32 :: nat)"
  by (cases "h = 31") (auto simp: mod_if)

lemma gb_read_add:
  assumes "gb_ok g"
  shows "gb_read (guestbook_add (Some nm) (Some ms) st g) 0 = gb_entry (nm, ms, st)"
    and "i < 31 \<Longrightarrow> gb_read (guestbook_add (Some nm) (Some ms) st g) (Suc i) = gb_read g i"
proof -
  have h: "gb_head g < 32" "length (gb_slots g) = 32" using assms by (simp_all add: gb_ok_def GB_CAP_def)
  have r: "gb_read (guestbook_add (Some nm) (Some ms) st g) j =
      (gb_slots g)[gb_head g := gb_entry (nm, ms, st)] ! (((gb_head g + 1) mod 32 + 31 - j) mod 32)" for j
    by (simp add: gb_read_def guestbook_add_def GB_CAP_def add.commute)
  have "((gb_head g + 1) mod 32 + 31 - 0) mod 32 = gb_head g" using h(1) by (cases "gb_head g = 31") (auto simp: mod_if)
  with h show "gb_read (guestbook_add (Some nm) (Some ms) st g) 0 = gb_entry (nm, ms, st)"
    unfolding r by (simp only: nth_list_update_eq)
  show "gb_read (guestbook_add (Some nm) (Some ms) st g) (Suc i) = gb_read g i" if i: "i < 31"
  proof -
    have "(gb_head g + 31 - i) mod 32 \<noteq> gb_head g" using h(1) i by (auto simp: mod_if split: if_splits)
    then show ?thesis
      unfolding r gb_index [OF h(1) i] by (simp add: gb_read_def GB_CAP_def add.commute)
  qed
qed

lemma gb_abs_add:
  assumes "gb_ok g"
  shows "gb_abs (guestbook_add (Some nm) (Some ms) st g) = take GB_CAP (gb_entry (nm, ms, st) # gb_abs g)"
proof (rule nth_equalityI)
  let ?g = "guestbook_add (Some nm) (Some ms) st g"
  have c: "gb_count ?g = min 32 (Suc (gb_count g))" "gb_count g \<le> 32"
    using assms by (auto simp: guestbook_add_def gb_ok_def GB_CAP_def)
  then show "length (gb_abs ?g) = length (take GB_CAP (gb_entry (nm, ms, st) # gb_abs g))"
    by (simp add: gb_abs_def GB_CAP_def)
  fix i assume "i < length (gb_abs ?g)"
  then have i: "i < 32" "i < Suc (gb_count g)" using c by (simp_all add: gb_abs_def)
  show "gb_abs ?g ! i = take GB_CAP (gb_entry (nm, ms, st) # gb_abs g) ! i"
    using i c gb_read_add(1) [OF assms, of nm ms st] gb_read_add(2) [OF assms, of _ nm ms st] by (cases i) (simp_all add: gb_abs_def GB_CAP_def del: upt_Suc)
qed

lemma guestbook_adds:
  "gb_ok g \<Longrightarrow> g' = fold (\<lambda>(n, m, w). guestbook_add (Some n) (Some m) w) es g \<Longrightarrow>
   gb_ok g' \<and> gb_abs g' = take GB_CAP (rev (map gb_entry es) @ gb_abs g)"
proof (induction es arbitrary: g)
  case Nil
  then show ?case by (simp add: gb_ok_def gb_abs_def)
next
  case (Cons e es)
  obtain n m w where e: "e = (n, m, w)" by (cases e)
  from Cons(1) [of "guestbook_add (Some n) (Some m) w g", OF gb_ok_add [OF Cons(2)]] Cons(3) gb_abs_add [OF Cons(2), of n m w]
  show ?case by (simp add: e take_Cons' take_append)
qed

text \<open>C31: Whatever was submitted, the page lists the newest 32 submissions, newest first, each with its
  name and message cut to the fields' sizes and without line breaks: the ring refines a bounded
  newest-first list.\<close>

theorem guestbook_newest_first:
  "fst (guestbook_entries (fold (\<lambda>(n, m, w). guestbook_add (Some n) (Some m) w) es guestbook_init)) =
   take GB_CAP (rev (map gb_entry es))"
  using guestbook_adds [OF gb_ok_init refl, of es] by (simp add: guestbook_entries_abs)

subsection \<open>A checked name survives the props\<close>

lemma slug_no_quote: "list_all slug_char t \<Longrightarrow> CHR 0x22 \<notin> set t"
  by (auto simp: list_all_iff slug_char_def in_range_def)

lemma detail_name_props:
  assumes "valid_slug (Some t)"
  shows "detail_name (detail_props t) = Some t"
proof -
  have t: "length t \<le> 24" "CHR 0x22 \<notin> set t" using assms slug_no_quote by (auto simp: valid_slug_def)
  let ?j = "''{'' @ json_pat ''name'' @ [] @ CHR 0x22 # t @ CHR 0x22 # ''}''"
  have "detail_props t = ?j" using t by (simp add: detail_props_def json_pat_def)
  moreover have "find_sub (json_pat ''name'') ?j = Some (length ''{'')" by (simp add: json_pat_def)
  ultimately show ?thesis
    using t json_str_text [of ?j "''{''" "''name''" "[]" t "''}''" 32] by (simp add: detail_name_def)
qed

text \<open>A name the detail route accepts reaches the browser component unchanged: the component reads
  from the props the very name the route put into them, and the page carries it.\<close>

theorem slug_reaches_client:
  assumes "cerco_param r ''name'' = Some t" "valid_slug (Some t)"
  shows "\<exists>props. detail_route al nf detail r = detail t props (cerco_title al (Some (detail_title t)) r) \<and>
    detail_name props = Some t"
  using assms detail_name_props by (auto simp: detail_route_def)

theorem slug_reaches_client_witness:
  "\<exists>props. detail_route lasts (\<lambda>_ r. r) (\<lambda>_ _ r. r) (req_zero\<lparr>rq_params := [(''name'', ''mr-mime'')]\<rparr>) =
      cerco_title lasts (Some (detail_title ''mr-mime'')) (req_zero\<lparr>rq_params := [(''name'', ''mr-mime'')]\<rparr>) \<and>
    detail_name props = Some ''mr-mime''"
  using slug_reaches_client [of "req_zero\<lparr>rq_params := [(''name'', ''mr-mime'')]\<rparr>" "''mr-mime''" lasts "\<lambda>_ r. r" "\<lambda>_ _ r. r"]
  by (simp add: cerco_param_def lookup_ci_def valid_slug_def slug_char_def in_range_def)

subsection \<open>The filter is a substring search\<close>

lemma match_here_prefix: "match_here q s \<longleftrightarrow> take (length q) (map lower s) = map lower q"
  by (induction q s rule: match_here.induct) auto

lemma match_from_split: "match_from q s \<longleftrightarrow> (\<exists>a b. s = a @ b \<and> b \<noteq> [] \<and> match_here q b)"
proof (induction s)
  case (Cons c s)
  show ?case
  proof
    assume "match_from q (c # s)"
    with Cons show "\<exists>a b. c # s = a @ b \<and> b \<noteq> [] \<and> match_here q b"
      by (metis append_Cons append_Nil list.distinct(1) match_from.simps(2))
  next
    assume "\<exists>a b. c # s = a @ b \<and> b \<noteq> [] \<and> match_here q b"
    with Cons show "match_from q (c # s)" by (auto simp: Cons_eq_append_conv)
  qed
qed simp

lemma name_matches_substring:
  "name_matches name q \<longleftrightarrow> (\<exists>a b. map lower name = a @ map lower q @ b)"
proof
  assume "name_matches name q"
  then consider "q = []" | a b where "name = a @ b" "match_here q b"
    by (auto simp: name_matches_def match_from_split)
  then show "\<exists>a b. map lower name = a @ map lower q @ b"
  proof cases
    case 1
    then show ?thesis by auto
  next
    case (2 a b)
    then have "map lower name = map lower a @ map lower q @ drop (length q) (map lower b)"
      by (metis append_take_drop_id map_append match_here_prefix)
    then show ?thesis by blast
  qed
next
  assume "\<exists>a b. map lower name = a @ map lower q @ b"
  then obtain a b where ab: "map lower name = a @ map lower q @ b" by blast
  have "map lower (drop (length a) name) = map lower q @ b" using ab by (simp add: drop_map [symmetric])
  then have m: "match_here q (drop (length a) name)" by (simp add: match_here_prefix)
  have "length name = length a + length q + length b" using arg_cong [OF ab, of length] by simp
  then have "q \<noteq> [] \<Longrightarrow> drop (length a) name \<noteq> []" by auto
  with m match_from_split [of q name] show "name_matches name q"
    unfolding name_matches_def by (metis append_take_drop_id)
qed

end
