(* ===== verification/Starter_Client.thy ===== *)
theory Starter_Client
  imports Client_Sf Starter "HOL-Library.Signed_Division"
begin

text \<open>
  The browser components of the project template: the list with its filter
  (\<open>components/pokedex.c\<close>), the detail view (\<open>components/pokemon.c\<close>), the counter
  (\<open>components/counter.c\<close>) and the sum (\<open>components/sumdemo.c\<close>), each as the calls it makes on the
  client's command buffer, signals, events and fetches. A component's state, which the code
  keeps in a heap block, is a record; \<open>None\<close> is undefined behaviour (a signed computation that
  overflows). The last part shows what the host receives.
\<close>

subsection \<open>The list\<close>

definition POKE_LIST_URL :: string where
  "POKE_LIST_URL = ''https://pokeapi.co/api/v2/pokemon?limit=151''"

definition POKE_CAP :: nat where "POKE_CAP = 160"

record pokedex_state =
  px_entries :: "poke_entry list"
  px_filter :: string
  px_grid :: u32
  px_status :: u32
  px_count :: u32

definition card_class :: string where
  "card_class = ''group rounded-xl border border-edge bg-panel p-4 text-center hover:border-faint transition-colors''"

definition img_class :: string where
  "img_class = ''h-20 w-20 mx-auto [image-rendering:pixelated]''"

definition num_class :: string where
  "num_class = ''mt-2 font-mono text-[11px] text-faint''"

definition label_class :: string where
  "label_class = ''mt-0.5 text-sm font-medium tracking-tight group-hover:text-spark transition-colors''"

definition sprite_format :: string where
  "sprite_format = ''https://raw.githubusercontent.com/PokeAPI/sprites/master/sprites/pokemon/%d.png''"

definition render_card :: "(nat \<Rightarrow> bool) \<Rightarrow> u32 \<Rightarrow> poke_entry \<Rightarrow> 'a client_scheme \<Rightarrow> 'a client_scheme option" where
  "render_card grow grid e c =
     (let display = title_case (pk_name e); i = word_of_int (pk_id e) :: u32;
          (a, c1) = cerco_create grow (Some ''a'') grid c
      in do {
           href \<leftarrow> cerco_format 192 ''/pokemon/%s'' [F_str (Some (pk_name e))];
           src \<leftarrow> cerco_format 192 sprite_format [F_int i];
           num_text \<leftarrow> cerco_format 192 ''#%d'' [F_int i];
           let c2 = cerco_set_attr grow a (Some ''class'') (Some card_class)
                      (cerco_set_attr grow a (Some ''href'') (Some href) c1);
               (img, c3) = cerco_create grow (Some ''img'') a c2;
               c4 = cerco_set_attr grow img (Some ''class'') (Some img_class)
                      (cerco_set_attr grow img (Some ''loading'') (Some ''lazy'')
                        (cerco_set_attr grow img (Some ''alt'') (Some display)
                          (cerco_set_attr grow img (Some ''src'') (Some src) c3)));
               (num, c5) = cerco_create grow (Some ''p'') a c4;
               c6 = cerco_set_text grow num (Some num_text)
                      (cerco_set_attr grow num (Some ''class'') (Some num_class) c5);
               (label, c7) = cerco_create grow (Some ''p'') a c6
           in Some (cerco_set_text grow label (Some display)
                     (cerco_set_attr grow label (Some ''class'') (Some label_class) c7))
         })"

text \<open>The loop over the entries; \<open>shown\<close> counts the cards so far.\<close>

fun render_loop ::
  "(nat \<Rightarrow> bool) \<Rightarrow> pokedex_state \<Rightarrow> poke_entry list \<Rightarrow> nat \<Rightarrow> 'a client_scheme \<Rightarrow> (nat \<times> 'a client_scheme) option" where
  "render_loop grow st [] shown c = Some (shown, c)"
| "render_loop grow st (e # es) shown c =
     (if \<not> name_matches (pk_name e) (px_filter st) then render_loop grow st es shown c
      else do { c' \<leftarrow> render_card grow (px_grid st) e c; render_loop grow st es (shown + 1) c' })"

definition render_filtered :: "(nat \<Rightarrow> bool) \<Rightarrow> pokedex_state \<Rightarrow> 'a client_scheme \<Rightarrow> 'a client_scheme option" where
  "render_filtered grow st c =
     do {
       (shown, c1) \<leftarrow> render_loop grow st (px_entries st) 0 (cerco_set_inner_html grow (px_grid st) (Some []) c);
       t \<leftarrow> cerco_format 32 ''%d of %d'' [F_int (of_nat shown), F_int (of_nat (length (px_entries st)))];
       Some (cerco_set_text grow (px_status st) (Some (if shown \<noteq> 0 then [] else ''no pokemon matches that name''))
              (cerco_set_text grow (px_count st) (Some t) c1))
     }"

text \<open>\<open>buf\<close> is the address of the handler's buffer of 32 bytes; \<open>strcpy\<close> stops at the first NUL.\<close>

definition on_filter ::
  "(nat \<Rightarrow> bool) \<Rightarrow> (host_call list \<Rightarrow> u32 \<Rightarrow> byte list option) \<Rightarrow> u32 \<Rightarrow> u32 \<Rightarrow>
   pokedex_state \<times> 'a client_scheme \<Rightarrow> (pokedex_state \<times> 'a client_scheme) option" where
  "on_filter grow value_of buf node s =
     (case s of (st, c) \<Rightarrow>
        let (n, c1) = cerco_value value_of node buf 31 c;
            m = (if n < 0 then 0 else nat n);
            c2 = c1\<lparr>lmem := (lmem c1)(buf + of_nat m := 0)\<rparr>;
            st' = st\<lparr>px_filter := cstr (of_bytes (bytes_at (lmem c2) buf m))\<rparr>
        in map_option (Pair st') (render_filtered grow st' c2))"

definition msg_too_large :: string where
  "msg_too_large = ''the pokedex response did not fit the fetch buffer''"

definition msg_unreachable :: string where
  "msg_unreachable = ''pokeapi.co is unreachable '' @ [CHR 0xE2, CHR 0x80, CHR 0x94] @ '' check your connection''"

text \<open>\<open>data\<close> is the text of the response up to its NUL, \<open>None\<close> when the pointer is null.\<close>

definition on_list ::
  "(nat \<Rightarrow> bool) \<Rightarrow> int \<Rightarrow> string option \<Rightarrow> int \<Rightarrow> pokedex_state \<times> 'a client_scheme \<Rightarrow>
   (pokedex_state \<times> 'a client_scheme) option" where
  "on_list grow status data len s =
     (case s of (st, c) \<Rightarrow>
        if status = -1 then Some (st, cerco_set_text grow (px_status st) (Some msg_too_large) c)
        else
          (case data of
             None \<Rightarrow> Some (st, cerco_set_text grow (px_status st) (Some msg_unreachable) c)
           | Some body \<Rightarrow>
               if status \<noteq> 200 \<or> len \<le> 0 then Some (st, cerco_set_text grow (px_status st) (Some msg_unreachable) c)
               else do {
                 es \<leftarrow> parse_list body POKE_CAP;
                 let st' = st\<lparr>px_entries := es\<rparr>
                 in if es = [] then Some (st', cerco_set_text grow (px_status st) (Some ''could not read the pokedex response'') c)
                    else map_option (Pair st') (render_filtered grow st' c)
               }))"

text \<open>The mount function. \<open>filter_fn\<close> and \<open>list_fn\<close> are the code addresses of the two callbacks.\<close>

definition pokedex_mount ::
  "(nat \<Rightarrow> bool) \<Rightarrow> (host_call list \<Rightarrow> u32 \<Rightarrow> string \<Rightarrow> u32) \<Rightarrow> (int \<Rightarrow> u32) \<Rightarrow> u32 \<Rightarrow> u32 \<Rightarrow> int \<Rightarrow>
   'a client_scheme \<Rightarrow> pokedex_state \<times> 'a client_scheme" where
  "pokedex_mount grow found root_id filter_fn list_fn index c =
     (let root = cerco_root_node root_id index;
          (g, c1) = cerco_alloc grow 4528 c;
          (grid, c2) = cerco_query_node grow found root ''[data-cerco-b=grid]'' c1;
          (status, c3) = cerco_query_node grow found root ''[data-cerco-b=status]'' c2;
          (cnt, c4) = cerco_query_node grow found root ''[data-cerco-b=count]'' c3;
          (inp, c5) = cerco_query_node grow found root ''[data-cerco-b=filter]'' c4
      in (\<lparr>px_entries = [], px_filter = [], px_grid = grid, px_status = status, px_count = cnt\<rparr>,
          cerco_http_get grow POKE_LIST_URL list_fn 0 (cerco_on grow inp (Some ''input'') filter_fn 0 c5)))"

subsection \<open>The detail view\<close>

definition STAT_COUNT :: nat where "STAT_COUNT = 6"
definition STAT_MAX :: int where "STAT_MAX = 255"

record pokemon_state =
  pd_sprite :: u32
  pd_number :: u32
  pd_types :: u32
  pd_error :: u32
  pd_bar :: "u32 list"
  pd_value :: "u32 list"

definition pd_fail :: "(nat \<Rightarrow> bool) \<Rightarrow> pokemon_state \<Rightarrow> string \<Rightarrow> 'a client_scheme \<Rightarrow> 'a client_scheme" where
  "pd_fail grow st msg c = cerco_remove_class grow (pd_error st) (Some ''hidden'') (cerco_set_text grow (pd_error st) (Some msg) c)"

definition chip_class :: string where
  "chip_class = ''rounded-full border border-edge bg-panel px-3 py-1 font-mono text-[11px] uppercase tracking-[0.14em] text-dim''"

text \<open>At most \<open>n\<close> further types.\<close>

fun types_loop :: "(nat \<Rightarrow> bool) \<Rightarrow> pokemon_state \<Rightarrow> nat \<Rightarrow> string option \<Rightarrow> 'a client_scheme \<Rightarrow> 'a client_scheme" where
  "types_loop grow st 0 p c = c"
| "types_loop grow st (Suc n) p c =
     (case cj_seek p ''type'' of
        None \<Rightarrow> c
      | Some q \<Rightarrow>
          (case cj_find_str (Some q) ''name'' 24 of
             None \<Rightarrow> c
           | Some (name, rest) \<Rightarrow>
               let (chip, c1) = cerco_create grow (Some ''span'') (pd_types st) c
               in types_loop grow st n (Some rest)
                    (cerco_set_text grow chip (Some name) (cerco_set_attr grow chip (Some ''class'') (Some chip_class) c1))))"

definition bar_width :: "int \<Rightarrow> int option" where
  "bar_width v = (if \<bar>v * 100\<bar> > 2147483647 then None else Some ((v * 100) sdiv STAT_MAX))"

fun stats_loop :: "(nat \<Rightarrow> bool) \<Rightarrow> (u32 \<times> u32) list \<Rightarrow> string \<Rightarrow> 'a client_scheme \<Rightarrow> 'a client_scheme option" where
  "stats_loop grow [] s c = Some c"
| "stats_loop grow ((bar, val) # bs) s c =
     (case cj_seek (Some s) ''base_stat'' of
        None \<Rightarrow> Some c
      | Some after \<Rightarrow>
          do {
            v \<leftarrow> cj_find_int (Some s) ''base_stat'' 0;
            t \<leftarrow> cerco_format 192 ''%d'' [F_int (word_of_int v)];
            w \<leftarrow> bar_width v;
            u \<leftarrow> cerco_format 192 ''width:%d%%'' [F_int (word_of_int w)];
            stats_loop grow bs after
              (cerco_set_attr grow bar (Some ''style'') (Some u) (cerco_set_text grow val (Some t) c))
          })"

definition on_detail :: "(nat \<Rightarrow> bool) \<Rightarrow> int \<Rightarrow> string option \<Rightarrow> int \<Rightarrow> pokemon_state \<Rightarrow> 'a client_scheme \<Rightarrow> 'a client_scheme option" where
  "on_detail grow status data len st c =
     (if status = 404
      then Some (pd_fail grow st (''no pokemon by that name '' @ [CHR 0xE2, CHR 0x80, CHR 0x94] @ '' check the spelling in the URL'') c)
      else if status = -1 then Some (pd_fail grow st (''the response was larger than the client'' @ CHR 0x27 # ''s fetch buffer'') c)
      else
        case data of
          None \<Rightarrow> Some (pd_fail grow st msg_unreachable c)
        | Some body \<Rightarrow>
            if status \<noteq> 200 \<or> len \<le> 0 then Some (pd_fail grow st msg_unreachable c)
            else do {
              i \<leftarrow> cj_find_int (Some body) ''id'' 0;
              t \<leftarrow> cerco_format 192 ''#%d'' [F_int (word_of_int i)];
              u \<leftarrow> cerco_format 192
                    ''https://raw.githubusercontent.com/PokeAPI/sprites/master/sprites/pokemon/other/official-artwork/%d.png''
                    [F_int (word_of_int i)];
              let c1 = cerco_set_attr grow (pd_sprite st) (Some ''src'') (Some u) (cerco_set_text grow (pd_number st) (Some t) c);
                  p = map_option (\<lambda>k. drop k body) (c_strstr body (CHR 0x22 # ''types'' @ [CHR 0x22]))
              in stats_loop grow (zip (pd_bar st) (pd_value st)) body (types_loop grow st 2 p c1)
            })"

fun query_stats ::
  "(nat \<Rightarrow> bool) \<Rightarrow> (host_call list \<Rightarrow> u32 \<Rightarrow> string \<Rightarrow> u32) \<Rightarrow> u32 \<Rightarrow> nat list \<Rightarrow> 'a client_scheme \<Rightarrow>
   ((u32 \<times> u32) list \<times> 'a client_scheme) option" where
  "query_stats grow found root [] c = Some ([], c)"
| "query_stats grow found root (i # is) c =
     do {
       s1 \<leftarrow> cerco_format 40 ''[data-cerco-b=bar%d]'' [F_int (of_nat i)];
       s2 \<leftarrow> cerco_format 40 ''[data-cerco-b=val%d]'' [F_int (of_nat i)];
       let (bar, c1) = cerco_query_node grow found root s1 c; (val, c2) = cerco_query_node grow found root s2 c1
       in do { (r, c3) \<leftarrow> query_stats grow found root is c2; Some ((bar, val) # r, c3) }
     }"

text \<open>The mount function. The component's name comes from the props; \<open>detail_fn\<close> is the address of
  \<open>on_detail\<close>.\<close>

definition pokemon_mount ::
  "(nat \<Rightarrow> bool) \<Rightarrow> (host_call list \<Rightarrow> u32 \<Rightarrow> string \<Rightarrow> u32) \<Rightarrow> (int \<Rightarrow> u32) \<Rightarrow> u32 \<Rightarrow> int \<Rightarrow> string \<Rightarrow>
   'a client_scheme \<Rightarrow> (pokemon_state \<times> 'a client_scheme) option" where
  "pokemon_mount grow found root_id detail_fn index props c =
     (let root = cerco_root_node root_id index;
          (g, c1) = cerco_alloc grow 64 c;
          (sprite, c2) = cerco_query_node grow found root ''[data-cerco-b=sprite]'' c1;
          (number, c3) = cerco_query_node grow found root ''[data-cerco-b=number]'' c2;
          (types, c4) = cerco_query_node grow found root ''[data-cerco-b=types]'' c3;
          (err, c5) = cerco_query_node grow found root ''[data-cerco-b=error]'' c4
      in do {
           (bs, c6) \<leftarrow> query_stats grow found root [0..<STAT_COUNT] c5;
           let st = \<lparr>pd_sprite = sprite, pd_number = number, pd_types = types, pd_error = err,
                     pd_bar = map fst bs, pd_value = map snd bs\<rparr>
           in case detail_name props of
                None \<Rightarrow> Some (st, pd_fail grow st ''the route did not pass a name'' c6)
              | Some name \<Rightarrow>
                  do {
                    url \<leftarrow> cerco_format 128 ''https://pokeapi.co/api/v2/pokemon/%s'' [F_str (Some name)];
                    Some (st, cerco_http_get grow url detail_fn 0 c6)
                  }
         })"

subsection \<open>The counter\<close>

record counter_state =
  ct_count :: u32
  ct_msg :: u32

definition counter_on_inc :: "(nat \<Rightarrow> bool) \<Rightarrow> counter_state \<Rightarrow> 'a client_scheme \<Rightarrow> 'a client_scheme option" where
  "counter_on_inc grow st c =
     (let v = cerco_signal_get (ct_count st) c
      in if sint v = 2147483647 then None
         else Some (cerco_set_text grow (ct_msg st) (Some ''signals are live (wasm resumed)'')
                     (cerco_signal_set grow (ct_count st) (v + 1) c)))"

definition counter_on_dec :: "(nat \<Rightarrow> bool) \<Rightarrow> counter_state \<Rightarrow> 'a client_scheme \<Rightarrow> 'a client_scheme option" where
  "counter_on_dec grow st c =
     (let v = cerco_signal_get (ct_count st) c
      in if sint v = - 2147483648 then None else Some (cerco_signal_set grow (ct_count st) (v - 1) c))"

text \<open>\<open>inc_fn\<close> and \<open>dec_fn\<close> are the addresses of the handlers; the state's address is their argument.\<close>

definition counter_mount ::
  "(nat \<Rightarrow> bool) \<Rightarrow> (host_call list \<Rightarrow> u32 \<Rightarrow> string \<Rightarrow> u32) \<Rightarrow> (int \<Rightarrow> u32) \<Rightarrow> u32 \<Rightarrow> u32 \<Rightarrow> int \<Rightarrow> string \<Rightarrow>
   'a client_scheme \<Rightarrow> (counter_state \<times> 'a client_scheme) option" where
  "counter_mount grow found root_id inc_fn dec_fn index props c =
     (let root = cerco_root_node root_id index;
          (inc, c1) = cerco_query_node grow found root ''[data-cerco-b=inc]'' c;
          (decr, c2) = cerco_query_node grow found root ''[data-cerco-b=dec]'' c1;
          (val, c3) = cerco_query_node grow found root ''[data-cerco-b=value]'' c2;
          (msg, c4) = cerco_query_node grow found root ''[data-cerco-b=msg]'' c3;
          (st, c5) = cerco_alloc grow 8 c4
      in do {
           start \<leftarrow> cerco_json_int (Some props) (Some ''start'') 0;
           let (sg, c6) = cerco_signal_new grow (word_of_int start) c5
           in Some (\<lparr>ct_count = sg, ct_msg = msg\<rparr>,
                cerco_on grow decr (Some ''click'') dec_fn st
                  (cerco_on grow inc (Some ''click'') inc_fn st (cerco_bind_text grow val sg c6)))
         })"

subsection \<open>The sum\<close>

text \<open>The digits as the loop produces them, lowest first; C's \<open>/\<close> and \<open>%\<close> round toward zero, and the
  conversion to \<open>char\<close> keeps the low byte.\<close>

function sum_digits :: "int \<Rightarrow> string" where
  "sum_digits v = (if v = 0 then [] else char_of (nat ((48 + v smod 10) mod 256)) # sum_digits (v sdiv 10))"
  by pat_completeness auto
termination
  by (relation "measure (\<lambda>v. nat \<bar>v\<bar>)")
    (auto simp: signed_divide_int_def abs_mult sgn_if)

declare sum_digits.simps [simp del]

definition sum_text :: "int \<Rightarrow> string" where
  "sum_text v = rev (if v = 0 then [CHR ''0''] else sum_digits v)"

definition on_sum_result :: "(nat \<Rightarrow> bool) \<Rightarrow> u32 \<Rightarrow> string option \<Rightarrow> u32 \<Rightarrow> 'a client_scheme \<Rightarrow> 'a client_scheme" where
  "on_sum_result grow result err out c =
     (case err of
        Some e \<Rightarrow> cerco_set_text grow out (Some e) c
      | None \<Rightarrow> cerco_set_text grow out (Some (sum_text (sint result))) c)"

definition sumdemo_mount ::
  "(nat \<Rightarrow> bool) \<Rightarrow> (host_call list \<Rightarrow> u32 \<Rightarrow> string \<Rightarrow> u32) \<Rightarrow> (int \<Rightarrow> u32) \<Rightarrow> u32 \<Rightarrow> int \<Rightarrow> 'a client_scheme \<Rightarrow> 'a client_scheme" where
  "sumdemo_mount grow found root_id sum_fn index c =
     (let root = cerco_root_node root_id index;
          (go, c1) = cerco_query_node grow found root ''[data-cerco-b=go]'' c;
          (out, c2) = cerco_query_node grow found root ''[data-cerco-b=result]'' c1
      in cerco_on grow go (Some ''click'') sum_fn out c2)"

subsection \<open>What the host receives\<close>

text \<open>The commands of one card, whose nodes are numbered from \<open>k\<close>, and of several.\<close>

definition card_cmds :: "u32 \<Rightarrow> poke_entry \<Rightarrow> u32 \<Rightarrow> dom_cmd list" where
  "card_cmds grid e k =
     [Cmd_create k ''a'' grid, Cmd_set_attr k ''href'' (''/pokemon/'' @ pk_name e), Cmd_set_attr k ''class'' card_class,
      Cmd_create (k + 1) ''img'' k,
      Cmd_set_attr (k + 1) ''src''
        (''https://raw.githubusercontent.com/PokeAPI/sprites/master/sprites/pokemon/'' @ dec_int (sint (word_of_int (pk_id e) :: u32)) @ ''.png''),
      Cmd_set_attr (k + 1) ''alt'' (title_case (pk_name e)), Cmd_set_attr (k + 1) ''loading'' ''lazy'',
      Cmd_set_attr (k + 1) ''class'' img_class,
      Cmd_create (k + 2) ''p'' k, Cmd_set_attr (k + 2) ''class'' num_class,
      Cmd_set_text (k + 2) (CHR ''#'' # dec_int (sint (word_of_int (pk_id e) :: u32))),
      Cmd_create (k + 3) ''p'' k, Cmd_set_attr (k + 3) ''class'' label_class,
      Cmd_set_text (k + 3) (title_case (pk_name e))]"

fun cards_cmds :: "u32 \<Rightarrow> poke_entry list \<Rightarrow> u32 \<Rightarrow> dom_cmd list" where
  "cards_cmds grid [] k = []"
| "cards_cmds grid (e # es) k = card_cmds grid e k @ cards_cmds grid es (k + 4)"

text \<open>A command as the call that issues it.\<close>

fun call_of :: "dom_cmd \<Rightarrow> api_call" where
  "call_of (Cmd_create k tag parent) = A_create tag parent"
| "call_of x = A_cmd x"

lemma length_i32: "length (dec_int (sint (v :: u32))) \<le> 11"
proof -
  have "- 2147483648 \<le> sint v" "sint v < 2147483648" using sint_range_size [of v] by (simp_all add: word_size)
  then have n: "nat (sint v) < 10 ^ 10" "nat (- sint v) < 10 ^ 10" by simp_all
  from length_dec_le [OF n(1)] length_dec_le [OF n(2)] show ?thesis by (simp add: dec_int_def)
qed

lemma length_title [simp]: "length (title_case s) = length s"
  by (simp add: title_case_def split: list.split)

lemma card_formats:
  assumes "length (pk_name e) < 24"
  shows "cerco_format 192 ''/pokemon/%s'' [F_str (Some (pk_name e))] = Some (''/pokemon/'' @ pk_name e)"
    and "cerco_format 192 sprite_format [F_int i] =
      Some (''https://raw.githubusercontent.com/PokeAPI/sprites/master/sprites/pokemon/'' @ dec_int (sint i) @ ''.png'')"
    and "cerco_format 192 ''#%d'' [F_int i] = Some (CHR ''#'' # dec_int (sint i))"
    and "cerco_format 32 ''%d of %d'' [F_int i, F_int j] = Some (dec_int (sint i) @ '' of '' @ dec_int (sint j))"
  subgoal using assms by (subst format_truncates [where t = "''/pokemon/'' @ pk_name e"]) (simp_all add: fmt_full.simps no_nul_def)
  subgoal using length_i32 [of i] unfolding sprite_format_def
    by (subst format_truncates [where t = "''https://raw.githubusercontent.com/PokeAPI/sprites/master/sprites/pokemon/'' @ dec_int (sint i) @ ''.png''"])
      (simp_all add: fmt_full.simps no_nul_def)
  subgoal using length_i32 [of i]
    by (subst format_truncates [where t = "CHR ''#'' # dec_int (sint i)"]) (simp_all add: fmt_full.simps no_nul_def)
  subgoal using length_i32 [of i] length_i32 [of j]
    by (subst format_truncates [where t = "dec_int (sint i) @ '' of '' @ dec_int (sint j)"]) (simp_all add: fmt_full.simps no_nul_def)
  done

text \<open>Only a creation takes a node number.\<close>

lemma next_id_ready: "next_dynamic_id (cmd_begin grow b c) = next_dynamic_id c"
  using ready_views [of grow c]
  by (auto simp: cmd_begin_def cmd_ready_def cmd_put_u8_def Let_def split: prod.splits if_splits)

lemma next_id_calls [simp]:
  "next_dynamic_id (cerco_set_text grow i s c) = next_dynamic_id c"
  "next_dynamic_id (cerco_set_attr grow i u v c) = next_dynamic_id c"
  "next_dynamic_id (snd (cerco_create grow t i c)) = next_dynamic_id c + 1"
  by (simp_all add: cerco_set_text_def cerco_set_attr_def cerco_create_def cmd_end_def host_dom_flush_def
      cmd_put_str_def cmd_put_u32_def cmd_put_u8_def next_id_ready Let_def)

lemma create_case:
  "(case cerco_create grow t i c of (a, c1) \<Rightarrow> f a c1) = f (next_dynamic_id c) (snd (cerco_create grow t i c))"
  by (simp add: cerco_create_def Let_def)

lemma render_card_calls:
  assumes "length (pk_name e) < 24"
  shows "render_card grow grid e c = Some (fold (api grow) (map call_of (card_cmds grid e (next_dynamic_id c))) c)"
  unfolding render_card_def Let_def card_formats [OF assms] create_case bind.bind_lunit
  by (simp add: card_cmds_def add.assoc)

lemma card_spec:
  "fold spec_call (map call_of (card_cmds grid e (sp_next s))) s =
   s\<lparr>sp_cmds := sp_cmds s @ card_cmds grid e (sp_next s), sp_next := sp_next s + 4\<rparr>"
  by (simp add: card_cmds_def add.assoc)

lemma class_lengths [simp]:
  "length card_class = 97" "length img_class = 45" "length num_class = 37" "length label_class = 82"
  by (simp_all add: card_class_def img_class_def num_class_def label_class_def)

lemma card_ok:
  assumes "length (pk_name e) < 24"
  shows "list_all call_ok (map call_of (card_cmds grid e k))"
  using assms length_i32 [of "word_of_int (pk_id e)"] by (simp add: card_cmds_def fits_def enc_str_def)

lemma api_fold_ready:
  assumes "cmd_buf (cmd_ready grow c) \<noteq> 0" "list_all call_ok calls" "dom_rel c s"
  shows "cmd_buf (cmd_ready grow (fold (api grow) calls c)) \<noteq> 0"
  using assms
proof (induction calls arbitrary: c s)
  case (Cons call calls)
  then have "call_ok call" by simp
  from api_sim [OF Cons(2) this Cons(4)] Cons.IH [of "api grow call c" "spec_call call s"] Cons(2,3)
  show ?case by simp
qed simp

lemma render_loop_sim:
  assumes "cmd_buf (cmd_ready grow c) \<noteq> 0" "dom_rel c s" "list_all (\<lambda>e. length (pk_name e) < 24) es"
  shows "\<exists>c'. render_loop grow st es n c = Some (n + length (shown_entries es (px_filter st)), c') \<and>
    cmd_buf (cmd_ready grow c') \<noteq> 0 \<and>
    dom_rel c' (s\<lparr>sp_cmds := sp_cmds s @ cards_cmds (px_grid st) (shown_entries es (px_filter st)) (sp_next s),
                  sp_next := sp_next s + 4 * of_nat (length (shown_entries es (px_filter st)))\<rparr>)"
  using assms
proof (induction es arbitrary: c s n)
  case Nil
  then show ?case by (simp add: shown_entries_def)
next
  case (Cons e es)
  show ?case
  proof (cases "name_matches (pk_name e) (px_filter st)")
    case False
    with Cons show ?thesis by (simp add: shown_entries_def)
  next
    case True
    let ?c = "fold (api grow) (map call_of (card_cmds (px_grid st) e (next_dynamic_id c))) c"
    let ?s = "s\<lparr>sp_cmds := sp_cmds s @ card_cmds (px_grid st) e (sp_next s), sp_next := sp_next s + 4\<rparr>"
    have k: "next_dynamic_id c = sp_next s" using Cons(3) by (auto simp: dom_rel_def)
    have e: "length (pk_name e) < 24" using Cons(4) by simp
    have "dom_rel ?c ?s"
      using api_fold_sim [OF Cons(2) card_ok [OF e, of "px_grid st" "sp_next s"] Cons(3)] unfolding k card_spec by blast
    moreover have "cmd_buf (cmd_ready grow ?c) \<noteq> 0" by (rule api_fold_ready [OF Cons(2) card_ok [OF e] Cons(3)])
    ultimately have "\<exists>c'. render_loop grow st es (n + 1) ?c = Some (n + 1 + length (shown_entries es (px_filter st)), c') \<and>
        cmd_buf (cmd_ready grow c') \<noteq> 0 \<and>
        dom_rel c' (?s\<lparr>sp_cmds := sp_cmds ?s @ cards_cmds (px_grid st) (shown_entries es (px_filter st)) (sp_next ?s),
          sp_next := sp_next ?s + 4 * of_nat (length (shown_entries es (px_filter st)))\<rparr>)"
      using Cons(4) by (intro Cons.IH) simp_all
    moreover have "render_loop grow st (e # es) n c = render_loop grow st es (n + 1) ?c"
      using True by (simp add: render_card_calls [OF e] del: One_nat_def add_Suc_right)
    ultimately show ?thesis
      using True by (simp add: shown_entries_def algebra_simps)
  qed
qed

text \<open>The commands of a filtered list on top of those sent before.\<close>

definition list_cmds :: "pokedex_state \<Rightarrow> u32 \<Rightarrow> dom_cmd list" where
  "list_cmds st k =
     (let es = shown_entries (px_entries st) (px_filter st) in
      [Cmd_set_inner_html (px_grid st) []] @ cards_cmds (px_grid st) es k @
      [Cmd_set_text (px_count st) (dec (length es) @ '' of '' @ dec (length (px_entries st))),
       Cmd_set_text (px_status st) (if es \<noteq> [] then [] else ''no pokemon matches that name'')])"

lemma count_digits: "n \<le> 160 \<Longrightarrow> dec_int (sint (of_nat n :: u32)) = dec n"
  by (simp add: dec_int_def signed_of_nat signed_take_bit_int_eq_self)

lemma inner_text_ok:
  "length t \<le> 40 \<Longrightarrow> call_ok (A_cmd (Cmd_set_text i t))" "call_ok (A_cmd (Cmd_set_inner_html i []))"
  by (simp_all add: fits_def enc_str_def)

lemma render_filtered_sim:
  assumes "dom_rel c s" "cmd_buf (cmd_ready grow c) \<noteq> 0"
    and "list_all (\<lambda>e. length (pk_name e) < 24) (px_entries st)" "length (px_entries st) \<le> 160"
  shows "\<exists>c'. render_filtered grow st c = Some c' \<and>
    dom_seen (host_trace (cerco_dom_flush c')) = Some (sp_cmds s @ list_cmds st (sp_next s))"
proof -
  let ?es = "shown_entries (px_entries st) (px_filter st)"
  let ?t = "dec (length ?es) @ '' of '' @ dec (length (px_entries st))"
  let ?u = "if ?es \<noteq> [] then [] else ''no pokemon matches that name''"
  let ?last = "[A_cmd (Cmd_set_text (px_count st) ?t), A_cmd (Cmd_set_text (px_status st) ?u)]"
  let ?c0 = "api grow (A_cmd (Cmd_set_inner_html (px_grid st) [])) c"
  have le: "length ?es \<le> 160" using assms(4) by (simp add: shown_entries_def length_filter_le [THEN le_trans])
  have c0: "dom_rel ?c0 (s\<lparr>sp_cmds := sp_cmds s @ [Cmd_set_inner_html (px_grid st) []]\<rparr>)" "cmd_buf (cmd_ready grow ?c0) \<noteq> 0"
    using api_sim [OF assms(2) inner_text_ok(2) assms(1)] assms(2) by simp_all
  from render_loop_sim [OF c0(2,1) assms(3), of st 0] obtain c1 where
    c1: "render_loop grow st (px_entries st) 0 ?c0 = Some (length ?es, c1)" "cmd_buf (cmd_ready grow c1) \<noteq> 0"
      "dom_rel c1 (s\<lparr>sp_cmds := sp_cmds s @ [Cmd_set_inner_html (px_grid st) []] @ cards_cmds (px_grid st) ?es (sp_next s),
                    sp_next := sp_next s + 4 * of_nat (length ?es)\<rparr>)"
    by auto
  have "cerco_format 32 ''%d of %d'' [F_int (of_nat (length ?es)), F_int (of_nat (length (px_entries st)))] = Some ?t"
    using card_formats(4) [of "\<lparr>pk_name = [], pk_id = 0\<rparr>"] le assms(4) by (simp add: count_digits)
  with c1(1) have "render_filtered grow st c = Some (fold (api grow) ?last c1)"
    by (simp add: render_filtered_def)
  moreover have "list_all call_ok ?last"
    using le assms(4) length_dec_le [of "length ?es" 3] length_dec_le [of "length (px_entries st)" 3]
    by (simp add: inner_text_ok del: call_ok.simps)
  from flush_rel [OF conjunct1 [OF api_fold_sim [OF c1(2) this c1(3)]]]
  have "dom_seen (host_trace (cerco_dom_flush (fold (api grow) ?last c1))) = Some (sp_cmds s @ list_cmds st (sp_next s))"
    by (simp add: list_cmds_def Let_def)
  ultimately show ?thesis by blast
qed

text \<open>The same list with the filter as a plain substring search, case ignored.\<close>

definition list_spec :: "pokedex_state \<Rightarrow> u32 \<Rightarrow> dom_cmd list" where
  "list_spec st k =
     (let es = filter (\<lambda>e. find_sub (map lower (px_filter st)) (map lower (pk_name e)) \<noteq> None) (px_entries st) in
      [Cmd_set_inner_html (px_grid st) []] @ cards_cmds (px_grid st) es k @
      [Cmd_set_text (px_count st) (dec (length es) @ '' of '' @ dec (length (px_entries st))),
       Cmd_set_text (px_status st) (if es \<noteq> [] then [] else ''no pokemon matches that name'')])"

lemma name_matches_find: "name_matches name q \<longleftrightarrow> find_sub (map lower q) (map lower name) \<noteq> None"
proof
  assume "name_matches name q"
  then obtain a b where ab: "map lower name = a @ map lower q @ b" by (auto simp: name_matches_substring)
  then have "take (length (map lower q)) (drop (length a) (map lower name)) = map lower q" by simp
  then show "find_sub (map lower q) (map lower name) \<noteq> None" using find_sub_None by fastforce
next
  assume "find_sub (map lower q) (map lower name) \<noteq> None"
  then show "name_matches name q" unfolding name_matches_substring using find_sub_split by blast
qed

lemma list_cmds_spec: "list_cmds = list_spec"
  by (intro ext) (simp add: list_cmds_def list_spec_def shown_entries_def name_matches_find)

text \<open>The entries of a parsed list fit their fields.\<close>

definition px_ok :: "pokedex_state \<Rightarrow> bool" where
  "px_ok st \<longleftrightarrow> list_all (\<lambda>e. length (pk_name e) < 24) (px_entries st) \<and> length (px_entries st) \<le> POKE_CAP"

lemma cj_copy_length: "cj_copy cap out p = Some (s, r) \<Longrightarrow> length out < cap \<Longrightarrow> length s < cap"
  by (induction cap out p rule: cj_copy.induct) (auto split: if_splits)

lemma cj_find_str_length: "cj_find_str from key cap = Some (s, r) \<Longrightarrow> 0 < cap \<Longrightarrow> length s < cap"
  by (auto simp: cj_find_str_def cj_string_def dest: cj_copy_length split: option.splits if_splits)

lemma parse_entries_ok:
  "parse_entries n p = Some es \<Longrightarrow> length es \<le> n \<and> list_all (\<lambda>e. length (pk_name e) < 24) es"
  by (induction n p arbitrary: es rule: parse_entries.induct)
    (auto dest!: cj_find_str_length [where cap = 24, simplified] split: option.splits bind_splits)

lemma parse_list_ok:
  "parse_list body POKE_CAP = Some es \<Longrightarrow> px_ok (st\<lparr>px_entries := es\<rparr>)"
  by (auto simp: parse_list_def px_ok_def dest: parse_entries_ok split: option.splits)

text \<open>The buffer of the handler may lie anywhere while no command is pending.\<close>

lemma ready_lmem: "cmd_buf (cmd_ready grow (c\<lparr>lmem := m\<rparr>)) = cmd_buf (cmd_ready grow c)"
  by (simp add: cmd_ready_def cerco_alloc_def heap_grow_def Let_def split: prod.splits option.splits)

lemma rel_lmem: "dom_rel c s \<Longrightarrow> cmd_len c = 0 \<Longrightarrow> dom_rel (c\<lparr>lmem := m\<rparr>) s"
  by (auto simp: dom_rel_def pending_def bytes_at_def)

lemma filter_text:
  assumes "length v \<le> 31" "no_nul v"
  shows "cstr (of_bytes (bytes_at ((store buf (to_bytes v) m)(buf + of_nat (length v) := 0)) buf (length v))) = v"
proof -
  have "bytes_at ((store buf (to_bytes v) m)(buf + of_nat (length v) := 0)) buf (length v) = to_bytes v"
    using assms(1) bytes_at_store_before [of "length v" "[0]" buf "store buf (to_bytes v) m"]
      bytes_at_store [of "to_bytes v" buf m] by simp
  with assms(2) show ?thesis by (simp add: cstr_id)
qed

lemma on_filter_sim:
  assumes "px_ok st" "dom_rel c s" "cmd_len c = 0" "cmd_buf (cmd_ready grow c) \<noteq> 0"
    and "value_of (host_trace c) node = Some (to_bytes v)" "no_nul v"
    and "v' = (if length v \<le> 31 then v else [])"
  shows "\<exists>c'. on_filter grow value_of buf node (st, c) = Some (st\<lparr>px_filter := v'\<rparr>, c') \<and>
    dom_seen (host_trace (cerco_dom_flush c')) = Some (sp_cmds s @ list_spec (st\<lparr>px_filter := v'\<rparr>) (sp_next s))"
proof -
  have r: "\<exists>c'. render_filtered grow (st\<lparr>px_filter := v'\<rparr>) (c\<lparr>lmem := m\<rparr>) = Some c' \<and>
      dom_seen (host_trace (cerco_dom_flush c')) = Some (sp_cmds s @ list_spec (st\<lparr>px_filter := v'\<rparr>) (sp_next s))" for m
    unfolding list_cmds_spec [symmetric]
    by (rule render_filtered_sim) (use assms in \<open>simp_all add: rel_lmem ready_lmem px_ok_def POKE_CAP_def\<close>)
  show ?thesis
  proof (cases "length v \<le> 31")
    case True
    with r assms show ?thesis
      by (auto simp: on_filter_def cerco_value_def host_write_def filter_text Let_def)
  next
    case False
    with r assms show ?thesis
      by (auto simp: on_filter_def cerco_value_def host_write_def bytes_at_def Let_def)
  qed
qed

lemma on_list_sim:
  assumes "dom_rel c s" "cmd_buf (cmd_ready grow c) \<noteq> 0" "0 < len" "parse_list body POKE_CAP = Some es" "es \<noteq> []"
  shows "\<exists>c'. on_list grow 200 (Some body) len (st, c) = Some (st\<lparr>px_entries := es\<rparr>, c') \<and>
    dom_seen (host_trace (cerco_dom_flush c')) = Some (sp_cmds s @ list_spec (st\<lparr>px_entries := es\<rparr>) (sp_next s))"
proof -
  note ok = parse_list_ok [OF assms(4), of st, unfolded px_ok_def POKE_CAP_def]
  from render_filtered_sim [OF assms(1,2) conjunct1 [OF ok] conjunct2 [OF ok]] assms(3-5) show ?thesis
    by (auto simp: on_list_def Let_def list_cmds_spec)
qed

text \<open>C16: Typing in the filter shows exactly the entries whose name contains the text, case ignored: after
  the event the host has received the commands that clear the grid, build one card per matching
  entry in list order with consecutive node numbers, and set the count and status lines.\<close>

theorem pokedex_filter_shows_matches:
  assumes "px_ok st" "dom_rel c s" "cmd_len c = 0" "cmd_buf (cmd_ready grow c) \<noteq> 0"
    and "value_of (host_trace c) node = Some (to_bytes v)" "no_nul v" "length v \<le> 31"
  shows "\<exists>c'. on_filter grow value_of buf node (st, c) = Some (st\<lparr>px_filter := v\<rparr>, c') \<and>
    dom_seen (host_trace (cerco_dom_flush c')) = Some (sp_cmds s @ list_spec (st\<lparr>px_filter := v\<rparr>) (sp_next s))"
  using assms by (intro on_filter_sim) auto

definition px_sample :: pokedex_state where
  "px_sample = \<lparr>px_entries = [\<lparr>pk_name = ''Mew'', pk_id = 151\<rparr>, \<lparr>pk_name = ''abra'', pk_id = 63\<rparr>],
     px_filter = [], px_grid = 2, px_status = 3, px_count = 4\<rparr>"

theorem pokedex_filter_shows_matches_witness:
  "\<exists>c'. on_filter (\<lambda>_. False) (\<lambda>_ _. Some (to_bytes ''mew'')) 512 5 (px_sample, client0) =
      Some (px_sample\<lparr>px_filter := ''mew''\<rparr>, c') \<and>
    dom_seen (host_trace (cerco_dom_flush c')) =
      Some ([Cmd_set_inner_html 2 []] @ card_cmds 2 \<lparr>pk_name = ''Mew'', pk_id = 151\<rparr> 1048576 @
        [Cmd_set_text 4 ''1 of 2'', Cmd_set_text 3 []])"
proof -
  have "list_spec (px_sample\<lparr>px_filter := ''mew''\<rparr>) 1048576 =
      [Cmd_set_inner_html 2 []] @ card_cmds 2 \<lparr>pk_name = ''Mew'', pk_id = 151\<rparr> 1048576 @
        [Cmd_set_text 4 ''1 of 2'', Cmd_set_text 3 []]"
    by code_simp
  then show ?thesis
    using pokedex_filter_shows_matches [of px_sample client0 _ "\<lambda>_. False" "\<lambda>_ _. Some (to_bytes ''mew'')" 5 "''mew''" 512, OF _ client0_rel]
    by (simp add: client0_ready px_ok_def px_sample_def POKE_CAP_def no_nul_def) (simp add: client0_def)
qed

text \<open>A text the field's 31 bytes do not hold is treated as no filter at all: the host answers -1.\<close>

lemma long_filter_shows_all:
  assumes "px_ok st" "dom_rel c s" "cmd_len c = 0" "cmd_buf (cmd_ready grow c) \<noteq> 0"
    and "value_of (host_trace c) node = Some (to_bytes v)" "no_nul v" "31 < length v"
  shows "\<exists>c'. on_filter grow value_of buf node (st, c) = Some (st\<lparr>px_filter := []\<rparr>, c') \<and>
    dom_seen (host_trace (cerco_dom_flush c')) = Some (sp_cmds s @ list_spec (st\<lparr>px_filter := []\<rparr>) (sp_next s))"
  using assms by (intro on_filter_sim) auto

subsection \<open>What the sum shows\<close>

text \<open>For a sum that is not negative the loop prints its decimal digits.\<close>

lemma sum_digits_dec: "0 < n \<Longrightarrow> rev (sum_digits (int n)) = dec n"
proof (induction n rule: less_induct)
  case (less n)
  have "int n sdiv 10 = int (n div 10)" "int n smod 10 = int (n mod 10)"
    using less(2) by (simp_all add: signed_divide_int_def signed_modulo_int_def zdiv_int zmod_int minus_div_mult_eq_mod [symmetric])
  then have "sum_digits (int n) = char_of ((48 + n mod 10) mod 256) # sum_digits (int (n div 10))"
    using less(2) by (subst sum_digits.simps) (simp add: nat_mod_distrib nat_add_distrib)
  then show ?case using less by (cases "n < 10") (auto simp: dec.simps [of n] digit_char_def sum_digits.simps [of 0])
qed

lemma sum_shown:
  "0 \<le> sint r \<Longrightarrow> on_sum_result grow r None out c = cerco_set_text grow out (Some (dec_int (sint r))) c"
  using sum_digits_dec [of "nat (sint r)"] by (simp add: on_sum_result_def sum_text_def dec_int_def dec.simps)

text \<open>A negative sum is printed with characters below the digits: -7 becomes a closing parenthesis.\<close>

lemma negative_sum_text: "sum_text (- 7) = '')''"
  by code_simp

end
