(* ===== verification/Spec2Isabelle.thy ===== *)
theory Spec2Isabelle
  imports Cerco_Prelude Cstring Strbuf Arena Wire Sha256 Config Respbuf Request Render Router Staticfiles Serverfn Workers Dispatch Connection Http Eventloop Lifecycle Conn_Safety Conn_Traces Client_Libc Client_Heap Client_Dom Client_Cmds Client_Http Client_Sf Client_Nav Cli_Scan Cli_Routes Cli_Gen Cli_Stubs Cli_Files Cli_Project Cli_Sdk Cli_Pool Cli_Compile Cli_Build Cli_Dev Logging Bundle Starter Starter_Client
begin

text \<open>
  cerco is a web framework in C. One code base gives three programs: the \<^emph>\<open>server\<close> (\<open>runtime/server\<close>), an
  event loop over libuv and llhttp with a pool of worker threads that run the application's handlers;
  the \<^emph>\<open>client\<close> (\<open>runtime/client\<close>), compiled to WebAssembly, which changes the page through a command buffer and
  calls server functions; and the \<^emph>\<open>command line\<close> (\<open>cli\<close>), which turns a directory of C files into the
  two others by scanning file names, generating C and running the compiler. The first two share
  \<open>runtime/shared\<close>. The development follows this structure, one theory per source file or per phase of a
  large one; names are those of the source, and a definition stands in the order of the code.

  \<^bold>\<open>How states and operations correspond.\<close> A struct is a record with the fields of the code (or the group
  of fields that belong together), an enumeration a datatype or its numbers, a C string the list of its
  bytes before the NUL (\<open>cstr\<close> cuts where the code may meet one earlier), a machine integer a word of its
  width wherever it can wrap, and a natural number or an integer where the code's own tests bound it. A
  function that changes state takes and returns it. A null or failure return is \<open>None\<close> or a value of a sum
  type; behaviour that C leaves undefined (a signed overflow, a wrong variadic argument, a call that does
  not come back) is \<open>None\<close> of its own and never a made-up value. Linear memory of the client is a function from
  addresses to bytes, so that overruns and overlaps are visible.

  \<^bold>\<open>Shared code.\<close>
  \<^item> \<open>Cerco_Prelude\<close>: types, C strings, substring search, named collections, the locale \<open>transition_system\<close>
    (reachability and proof of invariants by steps).
  \<^item> \<open>Cstring\<close> (\<open>str.c\<close>): escaping, percent-decoding, query walking, MIME types. \<open>Strbuf\<close> (\<open>sb.c\<close>), \<open>Arena\<close>
    (\<open>arena.c\<close>), \<open>Wire\<close> (\<open>wire.c\<close>, with the locale \<open>stream_codec\<close>), \<open>Sha256\<close> (\<open>sha256.c\<close>).
  \<^item> Shown: growing buffers append exactly what is written or keep their contents when memory is short; arena
    blocks are disjoint, aligned and inside their chunks; values survive encoding and decoding in any
    context and the reader never passes the end of its input; hashing does not depend on how
    the input is cut, and equals the padded block-by-block reference.

  \<^bold>\<open>Server.\<close>
  \<^item> \<open>Config\<close> (\<open>config.c\<close>), \<open>Respbuf\<close> and \<open>Render\<close> (\<open>util.c\<close>, \<open>render.c\<close>; the locale \<open>text_sink\<close> covers both
    writers), \<open>Request\<close> (\<open>req.c\<close>), \<open>Router\<close> (\<open>router.c\<close>), \<open>Staticfiles\<close> (\<open>static.c\<close>), \<open>Serverfn\<close> (\<open>sf.c\<close>),
    \<open>Logging\<close> (\<open>log.c\<close>): the pure part of a request, from its target to the bytes of the answer.
  \<^item> \<open>Workers\<close> (\<open>worker.c\<close>): the two rings as an instance of the locale \<open>bounded_queue\<close>, and all threads as one step
    relation whose steps are the critical sections: no request is lost, duplicated or run twice.
  \<^item> \<open>Dispatch\<close> (\<open>dispatch.c\<close>): which handler a complete request gets, and for what reason it may be queued.
  \<^item> \<open>Connection\<close>, \<open>Http\<close>, \<open>Eventloop\<close>, \<open>Lifecycle\<close> (\<open>http.c\<close>, the event streams of \<open>sf.c\<close>, \<open>serve.c\<close>): connections in
    a pool, parser callbacks, reads, writes, deadlines, shutdown; \<open>server_step\<close> is the event loop, one step per
    libuv callback. \<open>Conn_Safety\<close> proves its invariant (lists, phases, ownership between loop and
    workers); \<open>Conn_Traces\<close> runs it on concrete traces, three of which show faults of the code.

  \<^bold>\<open>Client.\<close>
  \<^item> \<open>Client_Libc\<close>, \<open>Client_Heap\<close> (\<open>env.c\<close>): memory moves, search, formatting; the bump allocator with its sticky floor.
  \<^item> \<open>Client_Dom\<close> (\<open>dom.c\<close>), \<open>Client_Cmds\<close>: the command buffer with flushes, signals, events and requests, and the decoder
    of \<open>runtime/browser/host.js\<close>; \<open>dom_rel\<close> relates the buffer to the sequence of commands the host will have
    seen, and every call of the interface simulates its specification.
  \<^item> \<open>Client_Http\<close>, \<open>Client_Sf\<close> (\<open>sf.c\<close>), \<open>Client_Nav\<close> (\<open>hydrate.c\<close>): responses and JSON fields, calls of server functions on
    the wire, hydration and navigation (which reuses memory and event slots: two theorems show what
    an old pointer or slot then means).

  \<^bold>\<open>Command line.\<close>
  \<^item> \<open>Cli_Scan\<close>, \<open>Cli_Routes\<close>, \<open>Cli_Gen\<close> (\<open>build.c\<close>): files to routes, layouts and functions; symbols are distinct
    identifiers; the generated sources as texts. \<open>Cli_Stubs\<close> runs the generated code: a call written by the
    client stub reaches the function with its arguments, a page appears inside its layouts, and the route of
    a file answers the requests its name promises (with \<open>Router\<close>).
  \<^item> \<open>Cli_Files\<close> (\<open>util.c\<close>): the file system as state. \<open>Cli_Project\<close> (\<open>main.c\<close>, \<open>new.c\<close>, \<open>doctor.c\<close>), \<open>Cli_Sdk\<close> (\<open>sdk.c\<close>,
    \<open>tailwind.c\<close>: extraction that may be interrupted at any point), \<open>Cli_Pool\<close> (the compile pool as a step
    relation), \<open>Cli_Compile\<close> (objects, cache, link lines, audit), \<open>Cli_Build\<close> (\<open>cmd_build\<close> as stages), \<open>Cli_Dev\<close>
    (\<open>dev.c\<close>: the watch, rebuild and restart loop as a step relation over \<open>Cli_Build\<close>), \<open>Bundle\<close> (\<open>scripts/mkbundle.c\<close>).
  \<^item> Shown: every schedule of the pool compiles each source once and ends; a second build of an unchanged project runs
    no tool; a failing build keeps the old server, and at most one server runs; an SDK that is kept
    is complete; what a bundle embeds is read back byte for byte.

  \<^bold>\<open>The template.\<close> \<open>Starter\<close> and \<open>Starter_Client\<close>: what \<open>cerco new\<close> writes, as a client of all of the above: the guestbook's
    ring refines a bounded newest-first list, and the filter of the list sends the host exactly the cards
    of the entries that match (with \<open>Client_Cmds\<close>).

  \<^bold>\<open>Loops.\<close> No definition has fuel. Structural loops are \<open>fun\<close>; loops that consume a text or an
  amount have a measure; those whose end depends on the environment are \<open>partial_function (option)\<close>, \<open>None\<close> meaning
  that the call does not return: \<open>alloc_loop\<close> (the arena's oom handler), \<open>json_search\<close>, \<open>pad_zeros\<close>, \<open>walk_todo\<close>, \<open>scan_todo\<close>
  and \<open>rm_todo\<close> (directories), \<open>unique_symbol\<close>, \<open>sdk_run\<close>. That they return is proved for the allocator with a hard cap, the
  padding of a hash and the scan of a finite tree; \<open>unique_symbol\<close> has inputs on which it does not return, shown as a
  lemma; interrupted removals and extractions are covered step by step. Bounds such as the 31 further candidates of a port or
  the 16 levels of the project search are those of the code. Loops over events
  are step relations, and their properties hold in every reachable state.

  \<^bold>\<open>Parameters.\<close> Code outside the repository and the world are arguments: whether an allocation succeeds
  (\<open>al\<close>, \<open>ra\<close>, \<open>grow\<close>), libuv's and llhttp's callbacks (\<open>io_env\<close> and the events of a step), \<open>realpath\<close> and the
  directory order, the compiler and the other tools (\<open>tool\<close>), the embedded bundle, the clock and calendar, the network probes, what
  the document answers to a query, and the application's pages, layouts and functions. Theorems about them
  hold for all arguments unless a hypothesis names what is relied on, and each such hypothesis is met by a witness.

  \<^bold>\<open>Not modelled.\<close> \<open>cli/bundle.c\<close> is generated (by \<open>Bundle\<close>'s program) from files that are modelled themselves. libuv and llhttp
  (\<open>vendor\<close>) are used only through their interfaces. The markup that the template's routes and view headers print, terminal output, the size report of
  a build and the closing of handles at the end of \<open>serve.c\<close> have no result that other code reads. \<open>cerco_now_ms\<close> reads the clock. Examples, tests and
  the load generator of \<open>benchmarks\<close> exercise the program and are not part of it. Time that passes inside a step and weak memory
  effects between threads (all shared data is under locks in \<open>worker.c\<close> and in the compile pool) are outside the step relations.
\<close>

end
